(* ===== verification/Prelude.thy ===== *)
theory Prelude
  imports Main "HOL-Library.Sublist"
begin

text \<open>
  Shared foundations of the development.

  \<^item> Theorem collections: \<open>go_defs\<close> gathers the unfolding equations of small
    definitions, \<open>step_simps\<close> the frame equations of state-passing operations.
  \<^item> \<open>dedup_by\<close>: the loop \<open>for x { if seen[key(x)] continue; seen[key(x)] = true;
    out = append(out, x) }\<close>, which the source writes in the chunker, the todos
    generator, the state merge, the cron parser and the transcript reader.
  \<^item> \<open>transition_system\<close>: the interface between a component's step relation and its
    invariant, with the lifting to every reachable state proved once.
\<close>

named_theorems go_defs "unfolding equations of small definitions"
named_theorems step_simps "frame equations of state-passing operations"

section \<open>First-seen deduplication\<close>

fun dedup_by :: "('a \<Rightarrow> 'k) \<Rightarrow> 'k set \<Rightarrow> 'a list \<Rightarrow> 'a list" where
  "dedup_by key seen [] = []"
| "dedup_by key seen (x # xs) =
     (if key x \<in> seen then dedup_by key seen xs
      else x # dedup_by key (insert (key x) seen) xs)"

lemma dedup_by_keys: "key ` set (dedup_by key seen xs) = key ` set xs - seen"
  by (induction key seen xs rule: dedup_by.induct) auto

lemma dedup_by_subset: "set (dedup_by key seen xs) \<subseteq> set xs"
  by (induction key seen xs rule: dedup_by.induct) auto

lemma dedup_by_fresh: "x \<in> set (dedup_by key seen xs) \<Longrightarrow> key x \<notin> seen"
  using dedup_by_keys [of key seen xs] by blast

lemma dedup_by_distinct: "distinct (map key (dedup_by key seen xs))"
  by (induction key seen xs rule: dedup_by.induct) (auto dest: dedup_by_fresh)

lemma dedup_by_subseq: "subseq (dedup_by key seen xs) xs"
  by (induction key seen xs rule: dedup_by.induct) auto

lemma dedup_by_id:
  "distinct (map key xs) \<Longrightarrow> key ` set xs \<inter> seen = {} \<Longrightarrow> dedup_by key seen xs = xs"
  by (induction key seen xs rule: dedup_by.induct) auto

lemma dedup_by_idem: "dedup_by key {} (dedup_by key seen xs) = dedup_by key seen xs"
  by (rule dedup_by_id) (auto simp: dedup_by_distinct)

lemma dedup_by_append:
  "dedup_by key seen (xs @ ys) =
   dedup_by key seen xs @ dedup_by key (seen \<union> key ` set xs) ys"
  by (induction key seen xs rule: dedup_by.induct) (auto simp: insert_absorb)

lemma dedup_by_all_seen: "key ` set xs \<subseteq> seen \<Longrightarrow> dedup_by key seen xs = []"
  by (induction xs arbitrary: seen) auto

lemma dedup_by_length: "length (dedup_by key seen xs) \<le> length xs"
  by (induction key seen xs rule: dedup_by.induct) auto

lemma dedup_by_first:
  assumes "x \<in> set xs" and "key x \<notin> seen"
  obtains y where "y \<in> set (dedup_by key seen xs)" and "key y = key x"
  using assms dedup_by_keys [of key seen xs] by (metis Diff_iff imageE imageI)

lemmas dedup_facts = dedup_by_keys dedup_by_distinct dedup_by_subset

section \<open>Transition systems and their invariants\<close>

locale transition_system =
  fixes start :: "'s \<Rightarrow> bool"
    and step :: "'s \<Rightarrow> 's \<Rightarrow> bool"
    and inv :: "'s \<Rightarrow> bool"
  assumes start_inv: "start s \<Longrightarrow> inv s"
    and step_inv: "step s t \<Longrightarrow> inv s \<Longrightarrow> inv t"
begin

lemma steps_inv: "step\<^sup>*\<^sup>* s t \<Longrightarrow> inv s \<Longrightarrow> inv t"
  by (induction rule: rtranclp_induct) (auto intro: step_inv)

lemma reachable_inv: "start s \<Longrightarrow> step\<^sup>*\<^sup>* s t \<Longrightarrow> inv t"
  by (blast intro: steps_inv start_inv)

end

text \<open>A relation kept by every step is kept by every run.\<close>

lemma rtranclp_preorder:
  assumes run: "step\<^sup>*\<^sup>* s t"
    and refl: "\<And>x. R x x"
    and trans: "\<And>x y z. R x y \<Longrightarrow> R y z \<Longrightarrow> R x z"
    and one: "\<And>x y. step x y \<Longrightarrow> R x y"
  shows "R s t"
  using run by (induction rule: rtranclp_induct) (auto intro: refl trans one)

section \<open>Durable documents\<close>

text \<open>
  The contract between a component that keeps its state in memory and the file it writes
  through: what was saved last is what a reader gets back.
\<close>

locale durable_store =
  fixes save :: "'d \<Rightarrow> 'f \<Rightarrow> 'f"
    and load :: "'f \<Rightarrow> 'e + 'd"
  assumes load_save: "load (save d f) = Inr d"
begin

definition in_sync :: "'d \<Rightarrow> 'f \<Rightarrow> bool" where
  "in_sync d f \<longleftrightarrow> load f = Inr d"

lemma in_sync_save: "in_sync d (save d f)"
  by (simp add: in_sync_def load_save)

lemma in_sync_unique: "in_sync d f \<Longrightarrow> in_sync d' f \<Longrightarrow> d = d'"
  by (simp add: in_sync_def)

lemma last_save_wins: "in_sync d (save d (fold save ds f))"
  by (rule in_sync_save)

end

section \<open>Results\<close>

text \<open>The \<open>if err != nil return\<close> chain: the first error ends the computation.\<close>

fun and_then :: "'e + 'a \<Rightarrow> ('a \<Rightarrow> 'e + 'b) \<Rightarrow> 'e + 'b" where
  "and_then (Inl e) f = Inl e"
| "and_then (Inr x) f = f x"

lemma and_then_Inr [simp]: "and_then r f = Inr y \<longleftrightarrow> (\<exists>x. r = Inr x \<and> f x = Inr y)"
  by (cases r) auto

section \<open>Lists and options\<close>

lemma filter_length_mono:
  "(\<And>x. x \<in> set xs \<Longrightarrow> P x \<Longrightarrow> Q x) \<Longrightarrow> length (filter P xs) \<le> length (filter Q xs)"
  by (induction xs) (auto intro: le_SucI)

lemma find_Some_split:
  "find P xs = Some x \<Longrightarrow> \<exists>ys zs. xs = ys @ x # zs \<and> P x \<and> (\<forall>y \<in> set ys. \<not> P y)"
proof (induction xs)
  case (Cons a xs)
  show ?case
  proof (cases "P a")
    case True
    with Cons.prems show ?thesis by (intro exI [of _ "[]"] exI [of _ xs]) auto
  next
    case False
    with Cons obtain ys zs where "xs = ys @ x # zs" "P x" "\<forall>y \<in> set ys. \<not> P y" by auto
    with False show ?thesis by (intro exI [of _ "a # ys"] exI [of _ zs]) auto
  qed
qed simp

lemma find_Some_iff_ex: "(\<exists>x. find P xs = Some x) \<longleftrightarrow> (\<exists>x \<in> set xs. P x)"
  by (induction xs) auto

lemma filter_count_update:
  assumes "p \<in> set xs" and "distinct xs" and "\<not> P p" and "Q p"
    and "\<And>x. x \<in> set xs \<Longrightarrow> x \<noteq> p \<Longrightarrow> Q x = P x"
  shows "length (filter Q xs) = Suc (length (filter P xs))"
  using assms
proof (induction xs)
  case (Cons a xs)
  show ?case
  proof (cases "a = p")
    case True
    with Cons.prems have "filter Q xs = filter P xs"
      by (intro filter_cong) auto
    with True Cons.prems show ?thesis by simp
  next
    case False
    with Cons show ?thesis by auto
  qed
qed simp

end
