(* ===== verification/GoNum.thy ===== *)
theory GoNum
  imports Complex_Main Prelude "HOL-Library.Log_Nat"
begin

text \<open>
  The numbers of the source. Go's \<open>int\<close>, \<open>int64\<close> and \<open>time.Duration\<close> are
  \<open>int\<close> values in the range \<open>[-2^63, 2^63)\<close>; an operation that can leave the range
  is followed by \<open>i64\<close>, which wraps as two's complement does. Go's \<open>/\<close> and
  \<open>%\<close> truncate towards zero (\<open>go_div\<close>, \<open>go_mod\<close>). A finite \<open>float64\<close> is the
  rational it denotes and \<open>fl53\<close> rounds to 53 significant bits, ties to even
  (the exponent range, irrelevant to the sizes used here, is not bounded).
\<close>

definition i64 :: "int \<Rightarrow> int" where
  "i64 x = (x + 2 ^ 63) mod 2 ^ 64 - 2 ^ 63"

definition u64 :: "int \<Rightarrow> int" where
  "u64 x = x mod 2 ^ 64"

definition in_i64 :: "int \<Rightarrow> bool" where
  "in_i64 x \<longleftrightarrow> - (2 ^ 63) \<le> x \<and> x < 2 ^ 63"

lemma i64_id: "in_i64 x \<Longrightarrow> i64 x = x"
  by (simp add: i64_def in_i64_def)

lemma i64_shift: "i64 (x + 2 ^ 64 * k) = i64 x"
proof -
  have "x + 2 ^ 64 * k + 2 ^ 63 = (x + 2 ^ 63) + 2 ^ 64 * k" by simp
  then show ?thesis unfolding i64_def by (simp only: mod_mult_self2)
qed

lemma i64_mult_left: "i64 (i64 x * y) = i64 (x * y)"
proof -
  obtain k where "i64 x = x + 2 ^ 64 * k"
  proof
    show "i64 x = x + 2 ^ 64 * (- ((x + 2 ^ 63) div 2 ^ 64))"
      unfolding i64_def by (simp add: minus_mult_div_eq_mod [symmetric])
  qed
  then have "i64 x * y = x * y + 2 ^ 64 * (k * y)" by (simp only: distrib_right mult.assoc)
  then show ?thesis by (simp only: i64_shift)
qed

lemma i64_range: "in_i64 (i64 x)"
  by (simp add: i64_def in_i64_def)

lemma i64_small: "\<bar>x\<bar> < 2 ^ 63 \<Longrightarrow> i64 x = x"
  by (rule i64_id) (simp add: in_i64_def abs_less_iff)

definition go_div :: "int \<Rightarrow> int \<Rightarrow> int" where
  "go_div a b = sgn a * sgn b * (\<bar>a\<bar> div \<bar>b\<bar>)"

definition go_mod :: "int \<Rightarrow> int \<Rightarrow> int" where
  "go_mod a b = a - b * go_div a b"

lemma go_div_nonneg: "0 \<le> a \<Longrightarrow> 0 < b \<Longrightarrow> go_div a b = a div b"
  by (cases "a = 0") (auto simp: go_div_def)

lemma go_mod_nonneg: "0 \<le> a \<Longrightarrow> 0 < b \<Longrightarrow> go_mod a b = a mod b"
  by (simp add: go_mod_def go_div_nonneg minus_mult_div_eq_mod)

text \<open>\<open>Time.Sub\<close> saturates at the ends of the \<open>Duration\<close> range.\<close>

definition time_sub :: "int \<Rightarrow> int \<Rightarrow> int" where
  "time_sub t u = max (- (2 ^ 63)) (min (2 ^ 63 - 1) (t - u))"

section \<open>Rounding to float64\<close>

text \<open>
  \<open>ilog2 q\<close> is the largest \<open>k\<close> with \<open>2^k \<le> q\<close> for a positive rational: the bit
  lengths of numerator and denominator give it up to one.
\<close>

definition pow2 :: "int \<Rightarrow> rat" where
  "pow2 k = (if 0 \<le> k then 2 ^ nat k else 1 / 2 ^ nat (- k))"

definition ilog2 :: "rat \<Rightarrow> int" where
  "ilog2 q = (let (n, d) = quotient_of q; k = int (floorlog 2 (nat n)) - int (floorlog 2 (nat d))
    in if pow2 k \<le> q then k else k - 1)"

definition round_even :: "rat \<Rightarrow> int" where
  "round_even q = (let f = \<lfloor>q\<rfloor>; r = q - of_int f
    in if r < 1 / 2 then f else if r > 1 / 2 then f + 1 else if even f then f else f + 1)"

definition fl53_pos :: "rat \<Rightarrow> rat" where
  "fl53_pos q = (let e = ilog2 q - 52 in of_int (round_even (q / pow2 e)) * pow2 e)"

definition fl53 :: "rat \<Rightarrow> rat" where
  "fl53 q = (if q = 0 then 0 else if q > 0 then fl53_pos q else - fl53_pos (- q))"

definition f_mul :: "rat \<Rightarrow> rat \<Rightarrow> rat" where
  "f_mul a b = fl53 (a * b)"

definition f_div :: "rat \<Rightarrow> rat \<Rightarrow> rat" where
  "f_div a b = fl53 (a / b)"

definition f_sub :: "rat \<Rightarrow> rat \<Rightarrow> rat" where
  "f_sub a b = fl53 (a - b)"

definition f_of_int :: "int \<Rightarrow> rat" where
  "f_of_int n = fl53 (of_int n)"

text \<open>Conversion to an integer type truncates towards zero.\<close>

definition f_trunc :: "rat \<Rightarrow> int" where
  "f_trunc q = (if 0 \<le> q then \<lfloor>q\<rfloor> else - \<lfloor>- q\<rfloor>)"

lemma pow2_pos [simp]: "0 < pow2 k"
  by (simp add: pow2_def)

lemma pow2_nonneg_int: "0 \<le> k \<Longrightarrow> pow2 k = of_int (2 ^ nat k)"
  by (simp add: pow2_def)

lemma round_even_le_int: "q \<le> of_int m \<Longrightarrow> round_even q \<le> m"
proof -
  assume le: "q \<le> of_int m"
  show ?thesis
  proof (cases "q = of_int m")
    case True
    then show ?thesis by (simp add: round_even_def)
  next
    case False
    with le have "\<lfloor>q\<rfloor> < m" by (simp add: floor_less_iff)
    then show ?thesis by (simp add: round_even_def Let_def)
  qed
qed

lemma round_even_ge_int: "of_int m \<le> q \<Longrightarrow> m \<le> round_even q"
  by (simp add: round_even_def Let_def le_floor_iff) (smt (verit) le_floor_iff)

lemma round_even_nonneg: "0 \<le> q \<Longrightarrow> 0 \<le> round_even q"
  using round_even_ge_int [of 0 q] by simp

lemma pow2_minus: "e \<le> 0 \<Longrightarrow> pow2 e = 1 / of_int (2 ^ nat (- e))"
  by (auto simp: pow2_def)

text \<open>Rounding a value not above a small integer does not exceed that integer.\<close>

lemma fl53_pos_le_int:
  assumes "0 < q" and "q \<le> of_int m" and "ilog2 q \<le> 52"
  shows "fl53_pos q \<le> of_int m"
proof -
  let ?e = "ilog2 q - 52"
  let ?k = "2 ^ nat (- ?e) :: int"
  have p: "pow2 ?e = 1 / of_int ?k" using assms(3) by (intro pow2_minus) simp
  have "q / pow2 ?e = q * of_int ?k" by (simp add: p)
  also have "\<dots> \<le> of_int (m * ?k)" using assms(2) by (simp add: mult_right_mono)
  finally have "round_even (q / pow2 ?e) \<le> m * ?k" by (rule round_even_le_int)
  then have "of_int (round_even (q / pow2 ?e)) \<le> (of_int (m * ?k) :: rat)"
    by (simp only: of_int_le_iff)
  then have "of_int (round_even (q / pow2 ?e)) * pow2 ?e \<le> of_int (m * ?k) * pow2 ?e"
    by (rule mult_right_mono) (simp add: less_imp_le)
  also have "\<dots> = of_int m" by (simp add: p)
  finally show ?thesis by (simp add: fl53_pos_def Let_def)
qed

lemma ilog2_lower:
  assumes "0 < q"
  shows "pow2 (ilog2 q) \<le> q"
proof -
  obtain n d where nd: "quotient_of q = (n, d)" by (cases "quotient_of q")
  have d: "0 < d" using quotient_of_denom_pos [OF nd] .
  have q: "q = of_int n / of_int d" using quotient_of_div [OF nd] .
  with assms d have n: "0 < n" by (simp add: zero_less_divide_iff)
  let ?a = "floorlog 2 (nat n)" and ?b = "floorlog 2 (nat d)"
  let ?k = "int ?a - int ?b"
  have "2 ^ (?a - 1) \<le> nat n" using n floorlog_bounds [of "nat n" 2] by simp
  then have "(2 ^ (?a - 1) :: int) \<le> n" using n by (simp add: nat_le_iff le_nat_iff)
  then have la: "(2 ^ (?a - 1) :: rat) \<le> of_int n" using of_int_le_iff [of "2 ^ (?a - 1)" n] by simp
  have "nat d < 2 ^ ?b" using d floorlog_bounds [of "nat d" 2] by simp
  then have "d < 2 ^ ?b" using d by (simp add: nat_less_iff)
  then have lb: "of_int d \<le> (2 ^ ?b :: rat)" using of_int_le_iff [of d "2 ^ ?b"] by simp
  have a1: "1 \<le> ?a" using n by (simp add: floorlog_def)
  have "pow2 (?k - 1) = 2 ^ (?a - 1) / 2 ^ ?b"
  proof (cases "?b \<le> ?a - 1")
    case True
    then have "nat (?k - 1) = ?a - 1 - ?b" and "0 \<le> ?k - 1" using a1 by linarith+
    then show ?thesis using True by (simp add: pow2_def power_diff)
  next
    case False
    then have "nat (- (?k - 1)) = ?b - (?a - 1)" and "\<not> 0 \<le> ?k - 1" using a1 by linarith+
    then show ?thesis using False by (simp add: pow2_def power_diff)
  qed
  also have "\<dots> \<le> q"
    unfolding q using la lb d n by (intro frac_le) auto
  finally have "pow2 (?k - 1) \<le> q" .
  then show ?thesis by (simp add: ilog2_def nd Let_def)
qed

lemma pow2_mono: "j \<le> k \<Longrightarrow> pow2 j \<le> pow2 k"
  by (auto simp: pow2_def frac_le intro: power_increasing order_trans [OF _ one_le_power])

lemma ilog2_upper: "0 < q \<Longrightarrow> q < 2 ^ 53 \<Longrightarrow> ilog2 q \<le> 52"
proof (rule ccontr)
  assume q: "0 < q" "q < 2 ^ 53" and "\<not> ilog2 q \<le> 52"
  then have "pow2 53 \<le> pow2 (ilog2 q)" by (intro pow2_mono) simp
  also have "\<dots> \<le> q" using q(1) by (rule ilog2_lower)
  finally show False using q(2) by (simp add: pow2_def)
qed

lemma fl53_le_int:
  assumes "0 \<le> q" and "q \<le> of_int m" and "m < 2 ^ 53"
  shows "fl53 q \<le> of_int m"
proof (cases "q = 0")
  case False
  with assms(1) have "0 < q" by simp
  moreover have "q < 2 ^ 53"
    using assms(2,3) by (rule_tac order_le_less_trans) (auto simp flip: of_int_less_iff)
  ultimately show ?thesis
    using assms(2) by (simp add: fl53_def fl53_pos_le_int ilog2_upper)
qed (use assms in \<open>simp add: fl53_def\<close>)

lemma fl53_nonneg: "0 \<le> q \<Longrightarrow> 0 \<le> fl53 q"
  by (simp add: fl53_def fl53_pos_def Let_def zero_le_mult_iff round_even_nonneg divide_nonneg_pos
      less_imp_le)

lemma f_trunc_mono_int: "q \<le> of_int m \<Longrightarrow> 0 \<le> q \<Longrightarrow> f_trunc q \<le> m"
  by (simp add: f_trunc_def) (metis floor_mono floor_of_int)

text \<open>Integers below 2^53 are represented exactly.\<close>

lemma round_even_int [simp]: "round_even (of_int m) = m"
  by (simp add: round_even_def)

lemma fl53_int:
  assumes "0 \<le> m" "m < 2 ^ 53"
  shows "fl53 (of_int m) = of_int m"
proof (cases "m = 0")
  case False
  then have pos: "0 < (of_int m :: rat)" using assms(1) by simp
  moreover have "(of_int m :: rat) < of_int (2 ^ 53)" using assms(2) by (simp only: of_int_less_iff)
  ultimately have e: "ilog2 (of_int m) \<le> 52" by (intro ilog2_upper) simp_all
  let ?e = "ilog2 (of_int m) - 52"
  let ?k = "2 ^ nat (- ?e) :: int"
  have p: "pow2 ?e = 1 / of_int ?k" using e by (intro pow2_minus) simp
  have "of_int m / pow2 ?e = (of_int (m * ?k) :: rat)" by (simp add: p)
  then have "fl53_pos (of_int m) = of_int (m * ?k) * pow2 ?e"
    by (simp only: fl53_pos_def Let_def round_even_int)
  also have "\<dots> = of_int m" by (simp add: p)
  finally show ?thesis using pos by (simp add: fl53_def)
qed (simp add: fl53_def)

lemma f_of_int_small: "0 \<le> m \<Longrightarrow> m < 2 ^ 53 \<Longrightarrow> f_of_int m = of_int m"
  by (simp add: f_of_int_def fl53_int)

lemma f_trunc_int [simp]: "f_trunc (of_int m) = m"
  by (simp add: f_trunc_def)

section \<open>All values of \<open>float64\<close>\<close>

text \<open>\<open>float64\<close> values and their comparison.\<close>

datatype float64 = Finite rat | Infinite bool | NaN

fun float_less :: "float64 \<Rightarrow> float64 \<Rightarrow> bool" where
  "float_less (Finite a) (Finite b) \<longleftrightarrow> a < b"
| "float_less (Finite a) (Infinite pos) \<longleftrightarrow> pos"
| "float_less (Infinite pos) (Finite b) \<longleftrightarrow> \<not> pos"
| "float_less (Infinite p) (Infinite q) \<longleftrightarrow> \<not> p \<and> q"
| "float_less _ _ \<longleftrightarrow> False"

end
