(* ===== verification/GoText.thy ===== *)
theory GoText
  imports GoNum "HOL-Library.Char_ord" "HOL-Library.List_Lexorder"
begin

text \<open>
  Go strings as byte sequences: a \<open>string\<close> is a list of \<open>char\<close>, each one byte, so
  \<open>length\<close> is Go's \<open>len\<close> and a non-ASCII character is its UTF-8 encoding. The
  functions of \<open>strings\<close>, \<open>strconv\<close> and \<open>unicode/utf8\<close> the source
  calls are written out over bytes. White space is the set of \<open>unicode.IsSpace\<close>,
  each member by its UTF-8 bytes; because a leading byte is never a continuation byte,
  matching the encodings byte-wise agrees with decoding. Case mapping beyond ASCII needs
  Unicode tables, which stay a parameter \<open>ul\<close> of \<open>to_lower\<close>.
\<close>

abbreviation byte :: "char \<Rightarrow> nat" where
  "byte c \<equiv> of_char c"

section \<open>Prefixes, suffixes and searching\<close>

definition has_prefix :: "string \<Rightarrow> string \<Rightarrow> bool" where
  "has_prefix s p \<longleftrightarrow> take (length p) s = p"

definition has_suffix :: "string \<Rightarrow> string \<Rightarrow> bool" where
  "has_suffix s p \<longleftrightarrow> has_prefix (rev s) (rev p)"

text \<open>\<open>strings.Index\<close>; \<open>None\<close> is Go's \<open>-1\<close>.\<close>

fun index_of :: "string \<Rightarrow> string \<Rightarrow> nat option" where
  "index_of s p =
     (if has_prefix s p then Some 0
      else case s of [] \<Rightarrow> None | c # cs \<Rightarrow> map_option Suc (index_of cs p))"

declare index_of.simps [simp del]

definition contains :: "string \<Rightarrow> string \<Rightarrow> bool" where
  "contains s p \<longleftrightarrow> index_of s p \<noteq> None"

lemma has_prefix_append [simp]: "has_prefix (p @ s) p"
  by (simp add: has_prefix_def)

lemma has_prefix_iff: "has_prefix s p \<longleftrightarrow> (\<exists>t. s = p @ t)"
  by (auto simp: has_prefix_def) (metis append_take_drop_id)

lemma has_suffix_iff: "has_suffix s p \<longleftrightarrow> (\<exists>t. s = t @ p)"
proof
  assume "has_suffix s p"
  then obtain t where "rev s = rev p @ t" by (auto simp: has_suffix_def has_prefix_iff)
  then have "s = rev t @ p" by (metis rev_append rev_rev_ident)
  then show "\<exists>t. s = t @ p" ..
qed (auto simp: has_suffix_def has_prefix_def)

lemma index_of_Some:
  "index_of s p = Some i \<Longrightarrow> \<exists>u v. s = u @ p @ v \<and> length u = i"
proof (induction s arbitrary: i)
  case Nil
  then show ?case by (auto simp: index_of.simps has_prefix_iff split: if_splits)
next
  case (Cons c cs)
  show ?case
  proof (cases "has_prefix (c # cs) p")
    case True
    with Cons.prems have "i = 0" by (simp add: index_of.simps)
    with True show ?thesis by (auto simp: has_prefix_iff)
  next
    case False
    with Cons.prems obtain j where "index_of cs p = Some j" "i = Suc j"
      by (subst (asm) index_of.simps) auto
    with Cons.IH obtain u v where "cs = u @ p @ v" "length u = j" by blast
    with \<open>i = Suc j\<close> show ?thesis by (intro exI [of _ "c # u"] exI [of _ v]) simp
  qed
qed

lemma index_of_None: "index_of s p = None \<Longrightarrow> s \<noteq> u @ p @ v"
proof (induction s arbitrary: u)
  case Nil
  then show ?case by (auto simp: index_of.simps has_prefix_def split: if_splits)
next
  case (Cons c cs)
  then have "\<not> has_prefix (c # cs) p" and n: "index_of cs p = None"
    by (auto simp: index_of.simps [of "c # cs"] split: if_splits)
  show ?case
  proof (cases u)
    case Nil
    with \<open>\<not> has_prefix (c # cs) p\<close> show ?thesis by (auto simp: has_prefix_iff)
  next
    case (Cons d ds)
    with Cons.IH [OF n, of ds] show ?thesis by simp
  qed
qed

lemma contains_iff: "contains s p \<longleftrightarrow> (\<exists>u v. s = u @ p @ v)"
  unfolding contains_def using index_of_Some index_of_None by (metis not_Some_eq)

section \<open>White space\<close>

definition space_encodings :: "string list" where
  "space_encodings =
     map (\<lambda>n. [char_of (n :: nat)]) [9, 10, 11, 12, 13, 32] @
     map (map (\<lambda>n. char_of (n :: nat)))
       [[0xC2, 0x85], [0xC2, 0xA0], [0xE1, 0x9A, 0x80],
        [0xE2, 0x80, 0x80], [0xE2, 0x80, 0x81], [0xE2, 0x80, 0x82], [0xE2, 0x80, 0x83],
        [0xE2, 0x80, 0x84], [0xE2, 0x80, 0x85], [0xE2, 0x80, 0x86], [0xE2, 0x80, 0x87],
        [0xE2, 0x80, 0x88], [0xE2, 0x80, 0x89], [0xE2, 0x80, 0x8A],
        [0xE2, 0x80, 0xA8], [0xE2, 0x80, 0xA9], [0xE2, 0x80, 0xAF],
        [0xE2, 0x81, 0x9F], [0xE3, 0x80, 0x80]]"

text \<open>The first member of \<open>ws\<close> that is a prefix of the string.\<close>

definition leading :: "string list \<Rightarrow> string \<Rightarrow> string option" where
  "leading ws s = find (has_prefix s) ws"

lemma leading_Some: "leading ws s = Some w \<Longrightarrow> w \<in> set ws \<and> has_prefix s w"
  unfolding leading_def by (drule find_Some_split) auto

lemma leading_drop_less: "leading ws s = Some w \<Longrightarrow> w \<noteq> [] \<Longrightarrow> length s - length w < length s"
  by (drule leading_Some) (auto simp: has_prefix_iff)

function trim_by :: "string list \<Rightarrow> string \<Rightarrow> string" where
  "trim_by ws s =
     (case leading ws s of
        None \<Rightarrow> s
      | Some w \<Rightarrow> if w = [] then s else trim_by ws (drop (length w) s))"
  by pat_completeness auto
termination
  by (relation "measure (\<lambda>(ws, s). length s)")
     (auto simp: leading_drop_less)

declare trim_by.simps [simp del]

definition trim_left :: "string \<Rightarrow> string" where
  "trim_left = trim_by space_encodings"

definition trim_right :: "string \<Rightarrow> string" where
  "trim_right s = rev (trim_by (map rev space_encodings) (rev s))"

definition trim_space :: "string \<Rightarrow> string" where
  "trim_space s = trim_right (trim_left s)"

lemma trim_by_suffix: "\<exists>u. s = u @ trim_by ws s"
proof (induction ws s rule: trim_by.induct)
  case (1 ws s)
  show ?case
  proof (cases "leading ws s")
    case None
    then show ?thesis by (subst trim_by.simps) simp
  next
    case (Some w)
    then have s: "s = w @ drop (length w) s"
      using leading_Some by (fastforce simp: has_prefix_iff)
    show ?thesis
    proof (cases "w = []")
      case True
      with Some show ?thesis by (subst trim_by.simps) simp
    next
      case False
      with 1 Some obtain u where "drop (length w) s = u @ trim_by ws (drop (length w) s)" by blast
      with s have "s = (w @ u) @ trim_by ws (drop (length w) s)" by (metis append_assoc)
      moreover have "trim_by ws s = trim_by ws (drop (length w) s)"
        using Some False by (simp add: trim_by.simps [of ws s])
      ultimately show ?thesis by metis
    qed
  qed
qed

lemma trim_by_none:
  assumes "[] \<notin> set ws"
  shows "leading ws (trim_by ws s) = None"
  using assms
proof (induction ws s rule: trim_by.induct)
  case (1 ws s)
  show ?case
  proof (cases "leading ws s")
    case None
    then show ?thesis by (simp add: trim_by.simps [of ws s])
  next
    case (Some w)
    moreover have "w \<noteq> []" using "1.prems" Some leading_Some by blast
    ultimately show ?thesis using 1 by (simp add: trim_by.simps [of ws s])
  qed
qed

lemma trim_by_fix: "leading ws s = None \<Longrightarrow> trim_by ws s = s"
  by (subst trim_by.simps) simp

lemma leading_prefix_mono: "leading ws (s @ t) = None \<Longrightarrow> leading ws s = None"
  by (auto simp: leading_def find_None_iff has_prefix_iff)

lemma space_encodings_literal [code]:
  "space_encodings =
     [[CHR 0x09], [CHR 0x0A], [CHR 0x0B], [CHR 0x0C], [CHR 0x0D], [CHR 0x20], [CHR 0xC2, CHR
      0x85], [CHR 0xC2, CHR 0xA0], [CHR 0xE1, CHR 0x9A, CHR 0x80], [CHR 0xE2, CHR 0x80, CHR
      0x80], [CHR 0xE2, CHR 0x80, CHR 0x81], [CHR 0xE2, CHR 0x80, CHR 0x82], [CHR 0xE2, CHR
      0x80, CHR 0x83], [CHR 0xE2, CHR 0x80, CHR 0x84], [CHR 0xE2, CHR 0x80, CHR 0x85], [CHR
      0xE2, CHR 0x80, CHR 0x86], [CHR 0xE2, CHR 0x80, CHR 0x87], [CHR 0xE2, CHR 0x80, CHR
      0x88], [CHR 0xE2, CHR 0x80, CHR 0x89], [CHR 0xE2, CHR 0x80, CHR 0x8A], [CHR 0xE2, CHR
      0x80, CHR 0xA8], [CHR 0xE2, CHR 0x80, CHR 0xA9], [CHR 0xE2, CHR 0x80, CHR 0xAF], [CHR
      0xE2, CHR 0x81, CHR 0x9F], [CHR 0xE3, CHR 0x80, CHR 0x80]]"
  by (simp add: space_encodings_def char_of_def bit_0)

lemma space_encodings_nonempty [simp]: "[] \<notin> set space_encodings"
  by (simp add: space_encodings_def)

lemma trim_left_none [simp]: "leading space_encodings (trim_left s) = None"
  by (simp add: trim_left_def trim_by_none)

lemma trim_right_none: "leading (map rev space_encodings) (rev (trim_right s)) = None"
  by (simp add: trim_right_def trim_by_none image_iff)

lemma trim_right_prefix: "\<exists>v. s = trim_right s @ v"
proof -
  obtain u where "rev s = u @ trim_by (map rev space_encodings) (rev s)"
    using trim_by_suffix by blast
  then have "s = trim_right s @ rev u" by (metis rev_append rev_rev_ident trim_right_def)
  then show ?thesis ..
qed

lemma trim_space_idem [simp]: "trim_space (trim_space s) = trim_space s"
proof -
  let ?t = "trim_space s"
  obtain v where "trim_left s = ?t @ v" using trim_right_prefix by (auto simp: trim_space_def)
  then have "leading space_encodings ?t = None"
    by (metis leading_prefix_mono trim_left_none)
  then have "trim_left ?t = ?t" by (simp add: trim_left_def trim_by_fix)
  moreover have "trim_right ?t = ?t"
    using trim_right_none [of "trim_left s"] by (simp add: trim_right_def trim_by_fix trim_space_def)
  ultimately show ?thesis by (simp add: trim_space_def)
qed

lemma trim_space_Nil [simp]: "trim_space [] = []"
proof -
  have "trim_by ws [] = []" for ws using trim_by_suffix [of "[]" ws] by simp
  then show ?thesis by (simp add: trim_space_def trim_left_def trim_right_def)
qed

lemma trim_space_length: "length (trim_space s) \<le> length s"
proof -
  obtain v where "trim_left s = trim_space s @ v"
    using trim_right_prefix by (auto simp: trim_space_def)
  moreover obtain u where "s = u @ trim_left s"
    using trim_by_suffix by (auto simp: trim_left_def)
  ultimately show ?thesis by (metis le_add1 le_add2 length_append order_trans)
qed

section \<open>Splitting and joining\<close>

text \<open>Text that begins and ends with a printing ASCII byte is not trimmed.\<close>

definition solid :: "char \<Rightarrow> bool" where
  "solid c \<longleftrightarrow> 32 < byte c \<and> byte c < (127 :: nat)"

lemma space_encodings_not_solid:
  "\<forall>w \<in> set space_encodings. w \<noteq> [] \<and> \<not> solid (hd w) \<and> \<not> solid (last w)"
  by (simp add: space_encodings_literal solid_def)

lemma leading_solid: "solid c \<Longrightarrow> leading space_encodings (c # t) = None"
proof (rule ccontr)
  assume c: "solid c" and "leading space_encodings (c # t) \<noteq> None"
  then obtain w where w: "w \<in> set space_encodings" "has_prefix (c # t) w"
    using leading_Some by blast
  with space_encodings_not_solid have "w \<noteq> []" "\<not> solid (hd w)" by blast+
  with c w(2) show False by (cases w) (auto simp: has_prefix_iff)
qed

lemma leading_rev_solid: "solid c \<Longrightarrow> leading (map rev space_encodings) (c # t) = None"
proof (rule ccontr)
  assume c: "solid c" and "leading (map rev space_encodings) (c # t) \<noteq> None"
  then obtain w where w: "w \<in> set space_encodings" "has_prefix (c # t) (rev w)"
    using leading_Some by fastforce
  with space_encodings_not_solid have "w \<noteq> []" "\<not> solid (last w)" by blast+
  with c w(2) show False by (cases w rule: rev_cases) (auto simp: has_prefix_iff)
qed

lemma trim_space_solid:
  assumes "s \<noteq> []" "solid (hd s)" "solid (last s)"
  shows "trim_space s = s"
proof -
  have "trim_left s = s"
    using assms by (cases s) (simp_all add: trim_left_def trim_by_fix leading_solid)
  moreover have "trim_right s = s"
    using assms by (cases s rule: rev_cases) (simp_all add: trim_right_def trim_by_fix leading_rev_solid)
  ultimately show ?thesis by (simp add: trim_space_def)
qed

text \<open>\<open>strings.Fields\<close>: the maximal runs of non-space text.\<close>

function split_fields_from :: "string \<Rightarrow> string \<Rightarrow> string list" where
  "split_fields_from cur s =
     (case s of
        [] \<Rightarrow> if cur = [] then [] else [rev cur]
      | c # cs \<Rightarrow>
          (case leading space_encodings s of
             None \<Rightarrow> split_fields_from (c # cur) cs
           | Some w \<Rightarrow>
               (if cur = [] then [] else [rev cur]) @ split_fields_from [] (drop (length w) s)))"
  by pat_completeness auto
termination
proof (relation "measure (\<lambda>(cur, s). length s)", goal_cases)
  case (3 cur s c cs w)
  then have "w \<noteq> []" using leading_Some space_encodings_nonempty by blast
  with 3 show ?case using leading_drop_less [of space_encodings s w] by simp
qed auto

declare split_fields_from.simps [simp del]

definition split_fields :: "string \<Rightarrow> string list" where
  "split_fields s = split_fields_from [] s"

fun split_on :: "char \<Rightarrow> string \<Rightarrow> string list" where
  "split_on c [] = [[]]"
| "split_on c (x # xs) =
     (if x = c then [] # split_on c xs
      else case split_on c xs of [] \<Rightarrow> [[x]] | y # ys \<Rightarrow> (x # y) # ys)"

text \<open>\<open>strings.SplitAfter\<close> keeps the separator at the end of each piece.\<close>

fun split_after :: "char \<Rightarrow> string \<Rightarrow> string list" where
  "split_after c [] = [[]]"
| "split_after c (x # xs) =
     (if x = c then [x] # split_after c xs
      else case split_after c xs of [] \<Rightarrow> [[x]] | y # ys \<Rightarrow> (x # y) # ys)"

fun join :: "string \<Rightarrow> string list \<Rightarrow> string" where
  "join sep [] = []"
| "join sep [x] = x"
| "join sep (x # y # zs) = x @ sep @ join sep (y # zs)"

lemma split_on_nonempty [simp]: "split_on c s \<noteq> []"
  by (induction s) (auto split: list.splits)

lemma join_split_on: "join [c] (split_on c s) = s"
proof (induction s)
  case (Cons x xs)
  then show ?case
    by (cases "split_on c xs") (auto, (case_tac list; auto)+)
qed simp

lemma split_after_nonempty [simp]: "split_after c s \<noteq> []"
  by (induction s) (auto split: list.splits)

lemma concat_split_after: "concat (split_after c s) = s"
  by (induction s) (auto split: list.splits)

lemma split_on_no_sep: "t \<in> set (split_on c s) \<Longrightarrow> c \<notin> set t"
  by (induction s arbitrary: t) (auto split: if_splits list.splits)

section \<open>ASCII case mapping\<close>

definition is_ascii :: "string \<Rightarrow> bool" where
  "is_ascii s \<longleftrightarrow> (\<forall>c \<in> set s. byte c < (128 :: nat))"

definition lower_byte :: "char \<Rightarrow> char" where
  "lower_byte c = (if 65 \<le> byte c \<and> byte c \<le> (90 :: nat) then char_of (byte c + 32 :: nat) else c)"

definition upper_byte :: "char \<Rightarrow> char" where
  "upper_byte c = (if 97 \<le> byte c \<and> byte c \<le> (122 :: nat) then char_of (byte c - 32 :: nat) else c)"

definition to_lower :: "(string \<Rightarrow> string) \<Rightarrow> string \<Rightarrow> string" where
  "to_lower ul s = (if is_ascii s then map lower_byte s else ul s)"

text \<open>The encoding of U+FFFD, which replaces an undecodable byte.\<close>

definition rune_error :: string where
  "rune_error = map (\<lambda>n. char_of (n :: nat)) [0xEF, 0xBF, 0xBD]"

text \<open>\<open>strings.ToUpper\<close> of a one-byte string: a lone non-ASCII byte is not valid UTF-8.\<close>

definition upper_first :: "char \<Rightarrow> string" where
  "upper_first c = (if byte c < (128 :: nat) then [upper_byte c] else rune_error)"

lemma byte_less_256 [simp]: "byte c < (256 :: nat)"
  using of_char_of [of "byte c"] nat_of_char_less_256 by (simp add: nat_of_char_less_256)

lemma lower_byte_idem [simp]: "lower_byte (lower_byte c) = lower_byte c"
  by (auto simp: lower_byte_def)

lemma lower_byte_ascii: "byte c < (128 :: nat) \<Longrightarrow> byte (lower_byte c) < (128 :: nat)"
  by (auto simp: lower_byte_def)

lemma to_lower_idem: "is_ascii s \<Longrightarrow> to_lower ul (to_lower ul s) = to_lower ul s"
  by (auto simp: to_lower_def is_ascii_def lower_byte_ascii)

lemma length_to_lower: "is_ascii s \<Longrightarrow> length (to_lower ul s) = length s"
  by (simp add: to_lower_def)

section \<open>Decimal integers\<close>

definition digit_char :: "nat \<Rightarrow> char" where
  "digit_char d = char_of (48 + d)"

definition is_digit :: "char \<Rightarrow> bool" where
  "is_digit c \<longleftrightarrow> 48 \<le> byte c \<and> byte c \<le> (57 :: nat)"

definition digit_val :: "char \<Rightarrow> int" where
  "digit_val c = int (byte c) - 48"

fun dec_nat :: "nat \<Rightarrow> string" where
  "dec_nat n = (if n < 10 then [digit_char n] else dec_nat (n div 10) @ [digit_char (n mod 10)])"

declare dec_nat.simps [simp del]

definition dec_int :: "int \<Rightarrow> string" where
  "dec_int i = (if i < 0 then CHR ''-'' # dec_nat (nat (- i)) else dec_nat (nat i))"

definition digits_val :: "string \<Rightarrow> int" where
  "digits_val s = foldl (\<lambda>n c. n * 10 + digit_val c) 0 s"

text \<open>\<open>strconv.Atoi\<close>: an optional sign, then digits only; out of \<open>int64\<close> is an error.\<close>

definition atoi :: "string \<Rightarrow> int option" where
  "atoi s =
     (let neg = (case s of c # cs \<Rightarrow> c = CHR ''-'' | [] \<Rightarrow> False);
          ds = (case s of c # cs \<Rightarrow> if c = CHR ''-'' \<or> c = CHR ''+'' then cs else s | [] \<Rightarrow> []);
          v = (if neg then - digits_val ds else digits_val ds)
      in if ds = [] \<or> \<not> list_all is_digit ds then None
         else if in_i64 v then Some v else None)"

lemma digit_char_facts [simp]:
  "d < 10 \<Longrightarrow> is_digit (digit_char d)"
  "d < 10 \<Longrightarrow> digit_val (digit_char d) = int d"
  by (auto simp: is_digit_def digit_val_def digit_char_def)

lemma dec_nat_nonempty [simp]: "dec_nat n \<noteq> []"
  by (subst dec_nat.simps) simp

lemma dec_nat_digits: "list_all is_digit (dec_nat n)"
proof (induction n rule: dec_nat.induct)
  case (1 n)
  then show ?case by (subst dec_nat.simps) simp
qed

lemma digits_val_dec_nat [simp]: "digits_val (dec_nat n) = int n"
proof (induction n rule: dec_nat.induct)
  case (1 n)
  then show ?case by (subst dec_nat.simps) (simp add: digits_val_def zdiv_int zmod_int)
qed

lemma dec_nat_no_sign: "dec_nat n \<noteq> CHR ''-'' # cs" "dec_nat n \<noteq> CHR ''+'' # cs"
  using dec_nat_digits [of n] by (auto simp: is_digit_def)

lemma atoi_dec_int:
  assumes "in_i64 i"
  shows "atoi (dec_int i) = Some i"
proof (cases "i < 0")
  case True
  with assms show ?thesis by (simp add: atoi_def dec_int_def Let_def dec_nat_digits)
next
  case False
  obtain c cs where d: "dec_nat (nat i) = c # cs" by (cases "dec_nat (nat i)") simp_all
  then have "c \<noteq> CHR ''-''" "c \<noteq> CHR ''+''" using dec_nat_no_sign by auto
  moreover have "list_all is_digit (c # cs)" "digits_val (c # cs) = i"
    using dec_nat_digits [of "nat i"] digits_val_dec_nat [of "nat i"] False by (simp_all add: d)
  ultimately show ?thesis using assms False by (simp add: atoi_def dec_int_def Let_def d)
qed

lemma atoi_range: "atoi s = Some v \<Longrightarrow> in_i64 v"
  by (auto simp: atoi_def Let_def split: if_splits)

section \<open>UTF-8\<close>

definition cont_byte :: "char \<Rightarrow> bool" where
  "cont_byte c \<longleftrightarrow> 0x80 \<le> byte c \<and> byte c \<le> (0xBF :: nat)"

text \<open>The second byte's accepted range depends on the first (no overlong forms, no surrogates).\<close>

definition second_ok :: "nat \<Rightarrow> char \<Rightarrow> bool" where
  "second_ok x c \<longleftrightarrow>
     (if x = 0xE0 then 0xA0 else if x = 0xF0 then 0x90 else 0x80) \<le> byte c \<and>
     byte c \<le> (if x = 0xED then 0x9F else if x = 0xF4 then 0x8F else (0xBF :: nat))"

text \<open>\<open>utf8.DecodeRune\<close>: code point and width, \<open>None\<close> for an invalid encoding.\<close>

fun decode_rune :: "string \<Rightarrow> (nat \<times> nat) option" where
  "decode_rune [] = None"
| "decode_rune (a # s) =
     (let x = byte a in
      if x < 0x80 then Some (x, 1)
      else if 0xC2 \<le> x \<and> x \<le> 0xDF then
        (case s of
           b # _ \<Rightarrow> if cont_byte b then Some ((x - 0xC0) * 64 + (byte b - 0x80), 2) else None
         | _ \<Rightarrow> None)
      else if 0xE0 \<le> x \<and> x \<le> 0xEF then
        (case s of
           b # c # _ \<Rightarrow>
             if second_ok x b \<and> cont_byte c
             then Some ((x - 0xE0) * 4096 + (byte b - 0x80) * 64 + (byte c - 0x80), 3) else None
         | _ \<Rightarrow> None)
      else if 0xF0 \<le> x \<and> x \<le> 0xF4 then
        (case s of
           b # c # d # _ \<Rightarrow>
             if second_ok x b \<and> cont_byte c \<and> cont_byte d
             then Some ((x - 0xF0) * 262144 + (byte b - 0x80) * 4096 + (byte c - 0x80) * 64 +
                        (byte d - 0x80), 4) else None
         | _ \<Rightarrow> None)
      else None)"

lemma decode_rune_width: "decode_rune s = Some (r, w) \<Longrightarrow> 0 < w \<and> w \<le> length s"
  by (induction s rule: decode_rune.induct)
     (auto simp: Let_def split: if_splits list.splits)

declare decode_rune.simps [simp del]

text \<open>
  Iterating over the runes of a string: an undecodable byte yields U+FFFD and one byte of
  progress. Each element is the code point, the bytes consumed and whether they were valid.
\<close>

function runes :: "string \<Rightarrow> (nat \<times> string \<times> bool) list" where
  "runes s =
     (case s of
        [] \<Rightarrow> []
      | c # cs \<Rightarrow>
          (case decode_rune s of
             None \<Rightarrow> (0xFFFD, [c], False) # runes cs
           | Some (r, w) \<Rightarrow> (r, take w s, True) # runes (drop w s)))"
  by pat_completeness auto
termination
proof (relation "measure length", goal_cases)
  case (3 s c cs p r w)
  then have "0 < w \<and> w \<le> length s" using decode_rune_width by blast
  with 3 show ?case by auto
qed auto

declare runes.simps [simp del]

definition rune_count :: "string \<Rightarrow> nat" where
  "rune_count s = length (runes s)"

definition utf8_valid :: "string \<Rightarrow> bool" where
  "utf8_valid s \<longleftrightarrow> list_all (\<lambda>(r, b, ok). ok) (runes s)"

text \<open>\<open>string([]rune(s)[:n])\<close>: re-encoding turns an invalid byte into U+FFFD.\<close>

definition encode_runes :: "(nat \<times> string \<times> bool) list \<Rightarrow> string" where
  "encode_runes rs = concat (map (\<lambda>(r, b, ok). if ok then b else rune_error) rs)"

lemma runes_bytes: "concat (map (\<lambda>(r, b, ok). b) (runes s)) = s"
proof (induction s rule: runes.induct)
  case (1 s)
  then show ?case
    by (subst runes.simps) (auto split: list.splits option.splits)
qed

lemma encode_runes_valid: "utf8_valid s \<Longrightarrow> encode_runes (runes s) = s"
proof -
  have "list_all (\<lambda>(r, b, ok). ok) rs \<Longrightarrow>
        encode_runes rs = concat (map (\<lambda>(r, b, ok). b) rs)" for rs
    by (induction rs) (auto simp: encode_runes_def)
  then show "utf8_valid s \<Longrightarrow> ?thesis" by (simp add: utf8_valid_def runes_bytes)
qed

lemma rune_count_le_length: "rune_count s \<le> length s"
  unfolding rune_count_def
proof (induction s rule: runes.induct)
  case (1 s)
  show ?case
  proof (cases s)
    case (Cons c cs)
    then show ?thesis
    proof (cases "decode_rune s")
      case None
      with 1 Cons show ?thesis by (simp add: runes.simps [of "c # cs"])
    next
      case (Some p)
      then obtain r w where d: "decode_rune s = Some (r, w)" by (cases p) auto
      with 1 Cons have "length (runes (drop w s)) \<le> length s - w" by fastforce
      moreover have "length (runes s) = Suc (length (runes (drop w s)))"
        using d Cons by (simp add: runes.simps [of "c # cs"])
      ultimately show ?thesis using decode_rune_width [OF d] by linarith
    qed
  qed (simp add: runes.simps)
qed

text \<open>Re-encoded runes decode to the same number of runes, whatever follows them.\<close>

lemma decode_rune_prefix: "decode_rune s = Some (r, w) \<Longrightarrow> decode_rune (take w s @ t) = Some (r, w)"
  by (induction s rule: decode_rune.induct)
     (auto simp: Let_def decode_rune.simps take_Cons' split: if_splits list.splits)

lemma decode_rune_error: "decode_rune (rune_error @ t) = Some (0xFFFD, 3)"
  by (simp add: rune_error_def decode_rune.simps second_ok_def cont_byte_def)

lemma runes_step: "decode_rune s = Some (r, w) \<Longrightarrow> runes s = (r, take w s, True) # runes (drop w s)"
  by (subst runes.simps) (auto split: list.splits simp: decode_rune.simps)

lemma rune_count_encode:
  "list_all (\<lambda>(r, b, ok). ok \<longrightarrow> decode_rune b = Some (r, length b)) rs \<Longrightarrow>
   rune_count (encode_runes rs @ t) = length rs + rune_count t"
proof (induction rs)
  case (Cons x rs)
  obtain r b ok where x: "x = (r, b, ok)" by (cases x)
  define u where "u = encode_runes rs @ t"
  have u: "encode_runes (x # rs) @ t = (if ok then b else rune_error) @ u"
    by (simp add: encode_runes_def x u_def)
  have "rune_count ((if ok then b else rune_error) @ u) = Suc (rune_count u)"
  proof (cases ok)
    case True
    then have "decode_rune b = Some (r, length b)" using Cons.prems x by simp
    then have "decode_rune (b @ u) = Some (r, length b)"
      using decode_rune_prefix [of b r "length b" u] by simp
    then show ?thesis using True by (simp add: rune_count_def runes_step)
  next
    case False
    have "drop 3 (rune_error @ u) = u" by (simp add: rune_error_def)
    then show ?thesis
      using False runes_step [OF decode_rune_error, of u] by (simp add: rune_count_def)
  qed
  then show ?case using Cons u u_def by simp
qed (simp add: encode_runes_def)

lemma runes_valid: "list_all (\<lambda>(r, b, ok). ok \<longrightarrow> decode_rune b = Some (r, length b)) (runes s)"
proof (induction s rule: runes.induct)
  case (1 s)
  show ?case
  proof (cases s)
    case (Cons c cs)
    show ?thesis
    proof (cases "decode_rune s")
      case None
      with 1 Cons show ?thesis by (simp add: runes.simps [of "c # cs"])
    next
      case (Some p)
      then obtain r w where d: "decode_rune s = Some (r, w)" by (cases p) auto
      then have "decode_rune (take w s) = Some (r, length (take w s))"
        using decode_rune_prefix [OF d, of "[]"] decode_rune_width [OF d] by (simp add: min_absorb2)
      with 1 Cons d show ?thesis by (simp add: runes_step)
    qed
  qed (simp add: runes.simps)
qed

lemma rune_count_take:
  "rune_count (encode_runes (take n (runes s)) @ t) = min n (rune_count s) + rune_count t"
proof -
  have "list_all (\<lambda>(r, b, ok). ok \<longrightarrow> decode_rune b = Some (r, length b)) (take n (runes s))"
    using runes_valid [of s] by (auto simp: list_all_iff dest: in_set_takeD)
  from rune_count_encode [OF this, of t] show ?thesis by (simp add: rune_count_def min.commute)
qed

end
