(* ===== verification/JobQueue.thy ===== *)
theory JobQueue
  imports Prelude GoText
begin

text \<open>
  The daemon's job queue: \<open>internal/jobqueue/job.go\<close>, \<open>queue.go\<close>,
  \<open>store.go\<close> and the part of \<open>cmd/workers.go\<close> that turns a pipeline outcome
  into a terminal status.

  The queue and its workers share \<open>*Job\<close> pointers, so jobs live in an explicit store
  \<open>heap\<close> and both the queue's list and the callers hold references. Every operation
  runs under the queue's mutex and is one atomic step. The wall clock, the random id suffix
  and the success of the file write are inputs of a step. A time is its UTC value in
  nanoseconds.
\<close>

section \<open>Jobs\<close>

text \<open>\<open>Status\<close> is a string type; a file may hold a value outside the six constants.\<close>

datatype status =
  Pending | Running | Completed | Failed | TimedOut | Cancelled | OtherStatus string

fun isTerminal :: "status \<Rightarrow> bool" where
  "isTerminal Completed = True"
| "isTerminal Failed = True"
| "isTerminal TimedOut = True"
| "isTerminal Cancelled = True"
| "isTerminal _ = False"

record job =
  ID :: string
  Project :: string
  ProjectPath :: string
  Status :: status
  EnqueuedAt :: int
  StartedAt :: "int option"
  FinishedAt :: "int option"
  Duration :: int
  Error :: string
  FindingsAdded :: int
  MessagesRead :: int
  SourcesCount :: int
  Provider :: string
  Since :: string

record enqueue_config =
  cfgProjectPath :: string
  cfgProvider :: string
  cfgSince :: string

definition newJob :: "int \<Rightarrow> string \<Rightarrow> string \<Rightarrow> string \<Rightarrow> string \<Rightarrow> string \<Rightarrow> job" where
  "newJob now sfx project projectPath provider since =
     \<lparr>ID = project @ ''-'' @ dec_int (now div 1000000) @ ''-'' @ sfx,
      Project = project, ProjectPath = projectPath, Status = Pending, EnqueuedAt = now,
      StartedAt = None, FinishedAt = None, Duration = 0, Error = [], FindingsAdded = 0,
      MessagesRead = 0, SourcesCount = 0, Provider = provider, Since = since\<rparr>"

definition markRunning :: "int \<Rightarrow> job \<Rightarrow> job" where
  "markRunning now j = j\<lparr>Status := Running, StartedAt := Some now\<rparr>"

definition markFinished :: "int \<Rightarrow> status \<Rightarrow> string \<Rightarrow> int \<Rightarrow> int \<Rightarrow> int \<Rightarrow> job \<Rightarrow> job" where
  "markFinished now st errMsg findings messages sources j =
     j\<lparr>Status := st, FinishedAt := Some now,
       Duration := (case StartedAt j of Some t \<Rightarrow> time_sub now t | None \<Rightarrow> Duration j),
       Error := errMsg, FindingsAdded := findings, MessagesRead := messages,
       SourcesCount := sources\<rparr>"

section \<open>The store\<close>

text \<open>
  \<open>jobs.json\<close> as the reader sees it: absent, unreadable, not parseable as the schema, or
  a version and a job list.
\<close>

datatype store_file = Missing | Unreadable | Malformed | Stored int "job list"

datatype store_error = ReadError | UnmarshalError | VersionMismatch int | WriteError

definition storeVersion :: int where
  "storeVersion = 1"

fun store_load :: "store_file \<Rightarrow> store_error + job list" where
  "store_load Missing = Inr []"
| "store_load Unreadable = Inl ReadError"
| "store_load Malformed = Inl UnmarshalError"
| "store_load (Stored v js) = (if v \<noteq> storeVersion then Inl (VersionMismatch v) else Inr js)"

definition store_save :: "bool \<Rightarrow> job list \<Rightarrow> store_file \<Rightarrow> (store_error option \<times> store_file)" where
  "store_save write_ok js f =
     (if write_ok then (None, Stored storeVersion js) else (Some WriteError, f))"

section \<open>The queue\<close>

record queue =
  heap :: "nat \<Rightarrow> job"
  next_ref :: nat
  jobs :: "nat list"
  store :: store_file
  maxConcurrent :: int
  wake :: bool

definition job_at :: "queue \<Rightarrow> nat \<Rightarrow> job" where
  "job_at q r = heap q r"

definition set_job :: "queue \<Rightarrow> nat \<Rightarrow> job \<Rightarrow> queue" where
  "set_job q r j = q\<lparr>heap := (heap q)(r := j)\<rparr>"

definition snapshot :: "queue \<Rightarrow> job list" where
  "snapshot q = map (heap q) (jobs q)"

definition persistLocked :: "bool \<Rightarrow> queue \<Rightarrow> queue" where
  "persistLocked ok q = q\<lparr>store := snd (store_save ok (snapshot q) (store q))\<rparr>"

definition active :: "job \<Rightarrow> bool" where
  "active j \<longleftrightarrow> \<not> isTerminal (Status j)"

definition new_queue :: "store_file \<Rightarrow> int \<Rightarrow> (nat \<Rightarrow> job) \<Rightarrow> queue" where
  "new_queue f n h = \<lparr>heap = h, next_ref = 0, jobs = [], store = f, maxConcurrent = n, wake = False\<rparr>"

text \<open>Allocate a list of loaded jobs at fresh references.\<close>

fun alloc_jobs :: "job list \<Rightarrow> queue \<Rightarrow> nat list \<times> queue" where
  "alloc_jobs [] q = ([], q)"
| "alloc_jobs (j # js) q =
     (let r = next_ref q;
          (rs, q') = alloc_jobs js (q\<lparr>heap := (heap q)(r := j), next_ref := Suc r\<rparr>)
      in (r # rs, q'))"

definition recover :: "queue \<Rightarrow> store_error option \<times> queue" where
  "recover q =
     (case store_load (store q) of
        Inl e \<Rightarrow> (Some e, q)
      | Inr js \<Rightarrow> (let (rs, q') = alloc_jobs js q in (None, q'\<lparr>jobs := rs\<rparr>)))"

definition hasActiveJob :: "queue \<Rightarrow> string \<Rightarrow> bool" where
  "hasActiveJob q project \<longleftrightarrow>
     list_ex (\<lambda>r. Project (heap q r) = project \<and> \<not> isTerminal (Status (heap q r))) (jobs q)"

definition enqueue ::
    "int \<Rightarrow> string \<Rightarrow> bool \<Rightarrow> string \<Rightarrow> enqueue_config \<Rightarrow> queue \<Rightarrow> nat option \<times> queue" where
  "enqueue now sfx ok project cfg q =
     (if list_ex (\<lambda>r. Project (heap q r) = project \<and> \<not> isTerminal (Status (heap q r))) (jobs q)
      then (None, q)
      else
        let r = next_ref q;
            j = newJob now sfx project (cfgProjectPath cfg) (cfgProvider cfg) (cfgSince cfg);
            q1 = q\<lparr>heap := (heap q)(r := j), next_ref := Suc r, jobs := jobs q @ [r]\<rparr>;
            q2 = persistLocked ok q1
        in (Some r, q2\<lparr>wake := True\<rparr>))"

definition runningCountLocked :: "queue \<Rightarrow> nat" where
  "runningCountLocked q = length (filter (\<lambda>r. Status (heap q r) = Running) (jobs q))"

definition dequeue :: "int \<Rightarrow> bool \<Rightarrow> queue \<Rightarrow> nat option \<times> queue" where
  "dequeue now ok q =
     (if int (runningCountLocked q) \<ge> maxConcurrent q then (None, q)
      else
        case find (\<lambda>r. Status (heap q r) = Pending) (jobs q) of
          None \<Rightarrow> (None, q)
        | Some r \<Rightarrow> (Some r, persistLocked ok (set_job q r (markRunning now (heap q r)))))"

definition finish :: "int \<Rightarrow> bool \<Rightarrow> nat \<Rightarrow> status \<Rightarrow> string \<Rightarrow> int \<Rightarrow> int \<Rightarrow> int \<Rightarrow> queue \<Rightarrow> queue" where
  "finish now ok r st errMsg findings messages sources q =
     (if isTerminal (Status (heap q r)) then q
      else persistLocked ok
        (set_job q r (markFinished now st errMsg findings messages sources (heap q r))))"

definition complete :: "int \<Rightarrow> bool \<Rightarrow> nat \<Rightarrow> int \<Rightarrow> int \<Rightarrow> int \<Rightarrow> queue \<Rightarrow> queue" where
  "complete now ok r findings messages sources q =
     finish now ok r Completed [] findings messages sources q"

definition failed :: "int \<Rightarrow> bool \<Rightarrow> nat \<Rightarrow> string \<Rightarrow> queue \<Rightarrow> queue" where
  "failed now ok r err q = finish now ok r Failed err 0 0 0 q"

definition timedOut :: "int \<Rightarrow> bool \<Rightarrow> nat \<Rightarrow> queue \<Rightarrow> queue" where
  "timedOut now ok r q = finish now ok r TimedOut ''max analysis duration exceeded'' 0 0 0 q"

definition cancel :: "int \<Rightarrow> bool \<Rightarrow> nat \<Rightarrow> queue \<Rightarrow> queue" where
  "cancel now ok r q = finish now ok r Cancelled ''daemon shutdown'' 0 0 0 q"

record queue_status =
  statusJobs :: "job list"
  nRunning :: nat
  nPending :: nat
  nCompleted :: nat
  nFailed :: nat
  nTimedOut :: nat
  nCancelled :: nat

fun count_status :: "queue_status \<Rightarrow> status \<Rightarrow> queue_status" where
  "count_status s Running = s\<lparr>nRunning := Suc (nRunning s)\<rparr>"
| "count_status s Pending = s\<lparr>nPending := Suc (nPending s)\<rparr>"
| "count_status s Completed = s\<lparr>nCompleted := Suc (nCompleted s)\<rparr>"
| "count_status s Failed = s\<lparr>nFailed := Suc (nFailed s)\<rparr>"
| "count_status s TimedOut = s\<lparr>nTimedOut := Suc (nTimedOut s)\<rparr>"
| "count_status s Cancelled = s\<lparr>nCancelled := Suc (nCancelled s)\<rparr>"
| "count_status s (OtherStatus _) = s"

definition queue_status_of :: "queue \<Rightarrow> queue_status" where
  "queue_status_of q =
     foldl (\<lambda>s r. count_status (s\<lparr>statusJobs := statusJobs s @ [heap q r]\<rparr>) (Status (heap q r)))
       \<lparr>statusJobs = [], nRunning = 0, nPending = 0, nCompleted = 0, nFailed = 0, nTimedOut = 0,
        nCancelled = 0\<rparr> (jobs q)"

definition pruneHistory :: "int \<Rightarrow> bool \<Rightarrow> int \<Rightarrow> queue \<Rightarrow> queue" where
  "pruneHistory now ok maxAge q =
     (let cutoff = now - maxAge;
          stale = (\<lambda>r. isTerminal (Status (heap q r)) \<and>
                   (case FinishedAt (heap q r) of Some t \<Rightarrow> t < cutoff | None \<Rightarrow> False))
      in persistLocked ok (q\<lparr>jobs := filter (\<lambda>r. \<not> stale r) (jobs q)\<rparr>))"

text \<open>The loop shared by \<open>CancelRunning\<close> and \<open>ReapRunning\<close>: every running job finishes.\<close>

fun finish_running :: "int \<Rightarrow> status \<Rightarrow> string \<Rightarrow> nat list \<Rightarrow> queue \<Rightarrow> queue \<times> nat" where
  "finish_running now st msg [] q = (q, 0)"
| "finish_running now st msg (r # rs) q =
     (if Status (heap q r) = Running
      then let (q', n) = finish_running now st msg rs
                  (set_job q r (markFinished now st msg 0 0 0 (heap q r)))
           in (q', Suc n)
      else finish_running now st msg rs q)"

definition cancelRunning :: "int \<Rightarrow> bool \<Rightarrow> queue \<Rightarrow> queue" where
  "cancelRunning now ok q =
     persistLocked ok (fst (finish_running now Cancelled ''daemon shutdown'' (jobs q) q))"

definition reapRunning :: "int \<Rightarrow> bool \<Rightarrow> string \<Rightarrow> queue \<Rightarrow> queue \<times> nat" where
  "reapRunning now ok reason q =
     (let (q', n) = finish_running now Failed reason (jobs q) q
      in (if n > 0 then persistLocked ok q' else q', n))"

section \<open>Workers\<close>

text \<open>
  How a worker's context ended: still live, past its deadline or cancelled. The outcome of
  \<open>pipeline.Run\<close> is an error message or the three metrics.
\<close>

datatype ctx_end = Live | DeadlineExceeded | ContextCanceled

datatype run_outcome = RunError string | RunOk int int int

definition runJob_finish ::
    "int \<Rightarrow> bool \<Rightarrow> nat \<Rightarrow> ctx_end \<Rightarrow> run_outcome \<Rightarrow> queue \<Rightarrow> queue" where
  "runJob_finish now ok r ctx out q =
     (case ctx of
        DeadlineExceeded \<Rightarrow> timedOut now ok r q
      | ContextCanceled \<Rightarrow> cancel now ok r q
      | Live \<Rightarrow>
          (case out of
             RunError e \<Rightarrow> failed now ok r e q
           | RunOk findings messages sources \<Rightarrow> complete now ok r findings messages sources q))"

text \<open>
  Start-up: \<open>recoverStaleJobs\<close> leaves the jobs alone only when the process that wrote the
  lock file is alive and its executable is not known to differ.
\<close>

definition recoverStaleJobs ::
    "int \<Rightarrow> bool \<Rightarrow> int \<Rightarrow> bool \<Rightarrow> string \<Rightarrow> string option \<Rightarrow> (string \<Rightarrow> string \<Rightarrow> bool) \<Rightarrow>
     queue \<Rightarrow> queue" where
  "recoverStaleJobs now ok stalePID alive staleExec liveExec execPathsMatch q =
     (let reap = fst (reapRunning now ok ''daemon restarted during analysis'' q)
      in if stalePID \<noteq> 0 \<and> alive then
           (if staleExec \<noteq> [] \<and> (case liveExec of Some e \<Rightarrow> \<not> execPathsMatch staleExec e | None \<Rightarrow> False)
            then reap else q)
         else reap)"

section \<open>Steps of the queue\<close>

text \<open>
  Every call a client can make. \<open>ok\<close> says whether the file writes of the run succeed.
  A finishing call carries a reference the caller got from the queue, hence an allocated one.
\<close>

inductive qstep :: "bool \<Rightarrow> queue \<Rightarrow> queue \<Rightarrow> bool" for ok where
  Enqueue: "qstep ok q (snd (enqueue now sfx ok project cfg q))"
| Dequeue: "qstep ok q (snd (dequeue now ok q))"
| Finish: "isTerminal st \<Longrightarrow> r < next_ref q \<Longrightarrow>
     qstep ok q (finish now ok r st msg f m s q)"
| Prune: "qstep ok q (pruneHistory now ok maxAge q)"
| CancelRunning: "qstep ok q (cancelRunning now ok q)"
| Reap: "qstep ok q (fst (reapRunning now ok reason q))"

abbreviation any_qstep :: "queue \<Rightarrow> queue \<Rightarrow> bool" where
  "any_qstep q q' \<equiv> \<exists>ok. qstep ok q q'"

subsection \<open>Frame equations\<close>

lemma persistLocked_frame [simp]:
  "heap (persistLocked ok q) = heap q" "jobs (persistLocked ok q) = jobs q"
  "next_ref (persistLocked ok q) = next_ref q" "wake (persistLocked ok q) = wake q"
  "maxConcurrent (persistLocked ok q) = maxConcurrent q"
  "snapshot (persistLocked ok q) = snapshot q"
  "runningCountLocked (persistLocked ok q) = runningCountLocked q"
  by (simp_all add: persistLocked_def snapshot_def runningCountLocked_def)

lemma set_job_frame [simp]:
  "heap (set_job q r j) = (heap q)(r := j)" "jobs (set_job q r j) = jobs q"
  "next_ref (set_job q r j) = next_ref q" "store (set_job q r j) = store q"
  "maxConcurrent (set_job q r j) = maxConcurrent q" "wake (set_job q r j) = wake q"
  by (simp_all add: set_job_def)

lemma mark_fields [simp]:
  "Status (markRunning now j) = Running" "StartedAt (markRunning now j) = Some now"
  "FinishedAt (markRunning now j) = FinishedAt j" "Project (markRunning now j) = Project j"
  "Status (markFinished now st e f m s j) = st"
  "StartedAt (markFinished now st e f m s j) = StartedAt j"
  "FinishedAt (markFinished now st e f m s j) = Some now"
  "Project (markFinished now st e f m s j) = Project j"
  by (simp_all add: markRunning_def markFinished_def)

lemma newJob_fields [simp]:
  "Status (newJob now x p pp pr s) = Pending" "Project (newJob now x p pp pr s) = p"
  "StartedAt (newJob now x p pp pr s) = None" "FinishedAt (newJob now x p pp pr s) = None"
  by (simp_all add: newJob_def)

lemma isTerminal_not [simp]: "isTerminal st \<Longrightarrow> st \<noteq> Running" "isTerminal st \<Longrightarrow> st \<noteq> Pending"
  by auto

text \<open>\<open>finish_running\<close> as a pointwise update of the heap.\<close>

lemma finish_running_eq:
  "distinct rs \<Longrightarrow> isTerminal st \<Longrightarrow>
   finish_running now st msg rs q =
     (q\<lparr>heap := \<lambda>r. if r \<in> set rs \<and> Status (heap q r) = Running
                    then markFinished now st msg 0 0 0 (heap q r) else heap q r\<rparr>,
      length (filter (\<lambda>r. Status (heap q r) = Running) rs))"
proof (induction rs arbitrary: q)
  case (Cons r rs)
  have eq: "filter (\<lambda>x. Status (if x = r then j else heap q x) = Running) rs =
            filter (\<lambda>x. Status (heap q x) = Running) rs" for j
    using Cons.prems(1) by (intro filter_cong) auto
  show ?case
    using Cons by (auto simp: set_job_def eq intro!: queue.equality ext)
qed simp

subsection \<open>The invariant\<close>

definition stamps_ok :: "job \<Rightarrow> bool" where
  "stamps_ok j \<longleftrightarrow>
     (Status j = Pending \<longrightarrow> StartedAt j = None \<and> FinishedAt j = None) \<and>
     (Status j = Running \<longrightarrow> StartedAt j \<noteq> None \<and> FinishedAt j = None) \<and>
     (isTerminal (Status j) \<longrightarrow> FinishedAt j \<noteq> None)"

definition one_active :: "queue \<Rightarrow> bool" where
  "one_active q \<longleftrightarrow>
     (\<forall>r \<in> set (jobs q). \<forall>r' \<in> set (jobs q).
        active (heap q r) \<and> active (heap q r') \<and> Project (heap q r) = Project (heap q r') \<longrightarrow> r = r')"

definition queue_inv :: "queue \<Rightarrow> bool" where
  "queue_inv q \<longleftrightarrow>
     distinct (jobs q) \<and> (\<forall>r \<in> set (jobs q). r < next_ref q) \<and>
     int (runningCountLocked q) \<le> max 0 (maxConcurrent q) \<and>
     one_active q \<and> (\<forall>r \<in> set (jobs q). stamps_ok (heap q r))"

lemma runningCount_le:
  assumes "set (jobs q') \<subseteq> set (jobs q)" and "distinct (jobs q')"
    and "\<And>r. r \<in> set (jobs q') \<Longrightarrow> Status (heap q' r) = Running \<Longrightarrow> Status (heap q r) = Running"
  shows "runningCountLocked q' \<le> runningCountLocked q"
proof -
  have "set (filter (\<lambda>r. Status (heap q' r) = Running) (jobs q')) \<subseteq>
        set (filter (\<lambda>r. Status (heap q r) = Running) (jobs q))"
    using assms(1,3) by auto
  then show ?thesis
    unfolding runningCountLocked_def
    by (metis assms(2) card_length card_mono distinct_card distinct_filter finite_set order_trans)
qed

text \<open>
  Operations that only finish jobs or drop references keep the invariant: what matters is
  that no job becomes active again and that stamps stay consistent.
\<close>

lemma queue_inv_shrink:
  assumes inv: "queue_inv q"
    and sub: "set (jobs q') \<subseteq> set (jobs q)" and dist: "distinct (jobs q')"
    and max: "maxConcurrent q' = maxConcurrent q" and next_le: "next_ref q \<le> next_ref q'"
    and job: "\<And>r. r \<in> set (jobs q') \<Longrightarrow>
      heap q' r = heap q r \<or>
      (isTerminal (Status (heap q' r)) \<and> FinishedAt (heap q' r) \<noteq> None \<and>
       Project (heap q' r) = Project (heap q r))"
  shows "queue_inv q'"
proof -
  have act: "active (heap q' r) \<Longrightarrow> r \<in> set (jobs q') \<Longrightarrow> heap q' r = heap q r" for r
    using job by (auto simp: active_def)
  have "Status (heap q r) = Running" if "r \<in> set (jobs q')" "Status (heap q' r) = Running" for r
    using that act [of r] by (simp add: active_def)
  then have "runningCountLocked q' \<le> runningCountLocked q"
    using sub dist by (intro runningCount_le) auto
  moreover have "stamps_ok (heap q' r)" if "r \<in> set (jobs q')" for r
    using job [OF that] inv sub that by (auto simp: queue_inv_def stamps_ok_def)
  moreover have "one_active q'"
    using inv sub act unfolding queue_inv_def one_active_def by (metis subsetD)
  moreover have "\<forall>r \<in> set (jobs q'). r < next_ref q'"
    using inv sub next_le unfolding queue_inv_def by (metis order_less_le_trans subsetD)
  ultimately show ?thesis
    using inv dist max by (auto simp: queue_inv_def)
qed

lemma finish_inv: "isTerminal st \<Longrightarrow> queue_inv q \<Longrightarrow> queue_inv (finish now ok r st msg f m s q)"
  by (rule queue_inv_shrink [of q]) (auto simp: finish_def queue_inv_def)

lemma prune_inv: "queue_inv q \<Longrightarrow> queue_inv (pruneHistory now ok maxAge q)"
  by (rule queue_inv_shrink [of q]) (auto simp: pruneHistory_def Let_def queue_inv_def)

lemma finish_running_inv:
  "isTerminal st \<Longrightarrow> queue_inv q \<Longrightarrow> queue_inv (fst (finish_running now st msg (jobs q) q))"
  by (rule queue_inv_shrink [of q]) (auto simp: finish_running_eq queue_inv_def)

lemma persist_inv [simp]: "queue_inv (persistLocked ok q) = queue_inv q"
  by (simp add: queue_inv_def one_active_def)

lemma wake_inv [simp]: "queue_inv (q\<lparr>wake := b\<rparr>) = queue_inv q"
  by (simp add: queue_inv_def one_active_def runningCountLocked_def)

lemma reap_inv: "queue_inv q \<Longrightarrow> queue_inv (fst (reapRunning now ok reason q))"
  using finish_running_inv [of Failed q now reason]
  by (auto simp: reapRunning_def Let_def split: prod.splits)

lemma one_active_cong:
  assumes "jobs q' = jobs q"
    and "\<And>r. r \<in> set (jobs q) \<Longrightarrow>
      active (heap q' r) = active (heap q r) \<and> Project (heap q' r) = Project (heap q r)"
  shows "one_active q' = one_active q"
  unfolding one_active_def using assms by (intro ball_cong) auto

lemma one_active_snoc:
  assumes one: "one_active q" and "jobs q' = jobs q @ [n]"
    and old: "\<And>r. r \<in> set (jobs q) \<Longrightarrow> heap q' r = heap q r"
    and new: "\<And>r. r \<in> set (jobs q) \<Longrightarrow> active (heap q r) \<Longrightarrow> Project (heap q r) \<noteq> Project (heap q' n)"
  shows "one_active q'"
  unfolding one_active_def
proof (intro ballI impI, elim conjE)
  fix r r' assume r: "r \<in> set (jobs q')" "r' \<in> set (jobs q')" and a: "active (heap q' r)" "active (heap q' r')"
    and p: "Project (heap q' r) = Project (heap q' r')"
  consider "r = n" "r' = n" | "r \<in> set (jobs q)" "r' = n" | "r = n" "r' \<in> set (jobs q)"
    | "r \<in> set (jobs q)" "r' \<in> set (jobs q)" using r assms(2) by auto
  then show "r = r'"
  proof cases
    case 2
    then show ?thesis using old new a p by metis
  next
    case 3
    then show ?thesis using old new a p by metis
  next
    case 4
    then show ?thesis using old one a p unfolding one_active_def by metis
  qed simp
qed

lemma enqueue_inv:
  assumes inv: "queue_inv q"
  shows "queue_inv (snd (enqueue now sfx ok project cfg q))"
proof (cases "hasActiveJob q project")
  case True
  with inv show ?thesis by (simp add: enqueue_def hasActiveJob_def)
next
  case False
  let ?r = "next_ref q"
  let ?j = "newJob now sfx project (cfgProjectPath cfg) (cfgProvider cfg) (cfgSince cfg)"
  let ?q = "q\<lparr>heap := (heap q)(?r := ?j), next_ref := Suc ?r, jobs := jobs q @ [?r]\<rparr>"
  have fresh: "r \<noteq> ?r" if "r \<in> set (jobs q)" for r
    using inv that by (auto simp: queue_inv_def)
  then have "filter (\<lambda>r. Status (heap ?q r) = Running) (jobs q) =
             filter (\<lambda>r. Status (heap q r) = Running) (jobs q)"
    by (intro filter_cong) auto
  then have count: "runningCountLocked ?q = runningCountLocked q"
    by (simp add: runningCountLocked_def)
  have one: "one_active ?q"
  proof (rule one_active_snoc)
    show "one_active q" using inv by (simp add: queue_inv_def)
    show "jobs ?q = jobs q @ [?r]" by simp
    show "heap ?q r = heap q r" if "r \<in> set (jobs q)" for r using fresh [OF that] by simp
    show "Project (heap q r) \<noteq> Project (heap ?q ?r)" if "r \<in> set (jobs q)" "active (heap q r)" for r
      using False that by (auto simp: hasActiveJob_def list_ex_iff active_def)
  qed
  have "queue_inv ?q"
    unfolding queue_inv_def
  proof (intro conjI)
    show "distinct (jobs ?q)" using inv fresh by (auto simp: queue_inv_def)
    show "\<forall>r \<in> set (jobs ?q). r < next_ref ?q" using inv by (auto simp: queue_inv_def less_Suc_eq)
    show "int (runningCountLocked ?q) \<le> max 0 (maxConcurrent ?q)"
      unfolding count using inv by (simp add: queue_inv_def)
    show "one_active ?q" by (rule one)
    have "stamps_ok (heap ?q ?r)" by (simp add: stamps_ok_def)
    moreover have "stamps_ok (heap ?q r)" if "r \<in> set (jobs q)" for r
      using inv that fresh [OF that] by (simp add: queue_inv_def)
    ultimately show "\<forall>r \<in> set (jobs ?q). stamps_ok (heap ?q r)" by simp
  qed
  then have "queue_inv ((persistLocked ok ?q)\<lparr>wake := True\<rparr>)" by simp
  moreover have "snd (enqueue now sfx ok project cfg q) = (persistLocked ok ?q)\<lparr>wake := True\<rparr>"
    using False by (simp add: enqueue_def hasActiveJob_def Let_def)
  ultimately show ?thesis by simp
qed

lemma dequeue_inv:
  assumes inv: "queue_inv q"
  shows "queue_inv (snd (dequeue now ok q))"
proof (cases "int (runningCountLocked q) \<ge> maxConcurrent q")
  case True
  with inv show ?thesis by (simp add: dequeue_def)
next
  case False
  show ?thesis
  proof (cases "find (\<lambda>r. Status (heap q r) = Pending) (jobs q)")
    case None
    with False inv show ?thesis by (simp add: dequeue_def)
  next
    case (Some r)
    then have r: "r \<in> set (jobs q)" "Status (heap q r) = Pending"
      by (auto dest!: find_Some_split)
    let ?q = "set_job q r (markRunning now (heap q r))"
    have "runningCountLocked ?q = Suc (runningCountLocked q)"
      unfolding runningCountLocked_def set_job_frame
      using r inv by (intro filter_count_update [of r]) (auto simp: queue_inv_def)
    moreover have "one_active ?q = one_active q"
      using r by (intro one_active_cong) (auto simp: active_def)
    ultimately have "queue_inv ?q"
      using inv r False by (auto simp: queue_inv_def stamps_ok_def)
    with Some False show ?thesis by (simp add: dequeue_def)
  qed
qed

lemma qstep_inv: "qstep ok q q' \<Longrightarrow> queue_inv q \<Longrightarrow> queue_inv q'"
  by (induction rule: qstep.induct)
     (auto intro: enqueue_inv dequeue_inv finish_inv prune_inv reap_inv finish_running_inv
       simp: cancelRunning_def)

interpretation queue_sys: transition_system "\<lambda>q. jobs q = []" any_qstep queue_inv
proof
  show "jobs q = [] \<Longrightarrow> queue_inv q" for q
    by (simp add: queue_inv_def one_active_def runningCountLocked_def)
qed (blast intro: qstep_inv)

section \<open>Terminal jobs\<close>

lemma qstep_next_ref: "qstep ok q q' \<Longrightarrow> next_ref q \<le> next_ref q'"
proof (induction rule: qstep.induct)
  case (CancelRunning q now)
  have "next_ref (fst (finish_running now st msg rs p)) = next_ref p" for st msg rs p
    by (induction rs arbitrary: p) (auto split: prod.splits, metis fst_conv set_job_frame(3))
  then show ?case by (simp add: cancelRunning_def)
next
  case (Reap q now reason)
  have "next_ref (fst (finish_running now st msg rs p)) = next_ref p" for st msg rs p
    by (induction rs arbitrary: p) (auto split: prod.splits, metis fst_conv set_job_frame(3))
  from this [of Failed reason "jobs q" q] show ?case
    by (auto simp: reapRunning_def Let_def split: prod.splits)
qed (auto simp: enqueue_def dequeue_def finish_def pruneHistory_def Let_def split: option.splits)

lemma finish_running_terminal:
  "isTerminal (Status (heap q r)) \<Longrightarrow> heap (fst (finish_running now st msg rs q)) r = heap q r"
  by (induction rs arbitrary: q) (auto split: prod.splits, (metis fst_conv fun_upd_other isTerminal_not(1) set_job_frame(1))+)

definition frozen_below :: "queue \<Rightarrow> queue \<Rightarrow> bool" where
  "frozen_below q q' \<longleftrightarrow> next_ref q \<le> next_ref q' \<and>
     (\<forall>r < next_ref q. isTerminal (Status (heap q r)) \<longrightarrow> heap q' r = heap q r)"

lemma qstep_frozen: "qstep ok q q' \<Longrightarrow> frozen_below q q'"
proof -
  assume step: "qstep ok q q'"
  have "heap q' r = heap q r" if "r < next_ref q" "isTerminal (Status (heap q r))" for r
    using step
  proof (cases rule: qstep.cases)
    case (Dequeue now)
    then show ?thesis
      using that(2) by (auto simp: dequeue_def dest!: find_Some_split split: option.splits)
  next
    case (CancelRunning now)
    then show ?thesis using that(2) by (simp add: cancelRunning_def finish_running_terminal)
  next
    case (Reap now reason)
    then show ?thesis
      using that(2) finish_running_terminal [of q r now Failed reason "jobs q"]
      by (auto simp: reapRunning_def Let_def split: prod.splits)
  qed (use that in \<open>auto simp: enqueue_def finish_def pruneHistory_def Let_def\<close>)
  with qstep_next_ref [OF step] show ?thesis by (simp add: frozen_below_def)
qed

lemma run_frozen: "any_qstep\<^sup>*\<^sup>* q q' \<Longrightarrow> frozen_below q q'"
  by (erule rtranclp_preorder) (auto simp: frozen_below_def dest: qstep_frozen)

section \<open>Durability\<close>

interpretation jobs_file: durable_store "\<lambda>js f. snd (store_save True js f)" store_load
  by unfold_locales (simp add: store_save_def storeVersion_def)

definition synced :: "queue \<Rightarrow> bool" where
  "synced q \<longleftrightarrow> store_load (store q) = Inr (snapshot q)"

lemma synced_persist [simp]: "synced (persistLocked True q)"
  using jobs_file.in_sync_save [of "snapshot q" "store q"]
  by (simp add: synced_def jobs_file.in_sync_def) (simp add: persistLocked_def)

lemma synced_wake [simp]: "synced (q\<lparr>wake := b\<rparr>) = synced q"
  by (simp add: synced_def snapshot_def)

text \<open>Writing a job that is not in the list leaves the snapshot alone, but persists it again.\<close>

lemma finish_running_none:
  "snd (finish_running now st msg rs q) = 0 \<Longrightarrow> fst (finish_running now st msg rs q) = q"
  by (induction rs arbitrary: q) (auto split: prod.splits if_splits)

lemma qstep_synced: "qstep True q q' \<Longrightarrow> synced q \<Longrightarrow> synced q'"
proof (induction rule: qstep.induct)
  case (Reap q now reason)
  then show ?case
    using finish_running_none [of now Failed reason "jobs q" q]
    by (auto simp: reapRunning_def Let_def split: prod.splits)
qed (auto simp: enqueue_def dequeue_def finish_def pruneHistory_def cancelRunning_def Let_def
     split: option.splits)

interpretation queue_disk: transition_system
  "\<lambda>q. jobs q = [] \<and> store q = Missing" "qstep True" synced
proof
  show "jobs q = [] \<and> store q = Missing \<Longrightarrow> synced q" for q
    by (simp add: synced_def snapshot_def)
qed (rule qstep_synced)

lemma alloc_jobs_spec:
  "alloc_jobs js q = (rs, q') \<Longrightarrow>
   rs = [next_ref q ..< next_ref q + length js] \<and> map (heap q') rs = js \<and>
   (\<forall>r < next_ref q. heap q' r = heap q r)"
proof (induction js arbitrary: q rs q')
  case (Cons j js)
  let ?q = "q\<lparr>heap := (heap q)(next_ref q := j), next_ref := Suc (next_ref q)\<rparr>"
  obtain rs0 where a: "alloc_jobs js ?q = (rs0, q')" and rs: "rs = next_ref q # rs0"
    using Cons.prems by (auto simp: Let_def split: prod.splits)
  from Cons.IH [OF a] show ?case
    by (auto simp: rs upt_conv_Cons simp del: upt_Suc)
qed simp

lemma recover_synced:
  "synced q \<Longrightarrow> snapshot (snd (recover (new_queue (store q) n h))) = snapshot q \<and>
                fst (recover (new_queue (store q) n h)) = None"
  using alloc_jobs_spec [of "snapshot q" "new_queue (store q) n h"]
  by (auto simp: recover_def synced_def new_queue_def snapshot_def split: prod.splits)

section \<open>Properties\<close>

text \<open>C1: Starting from an empty queue, after any sequence of calls the number of running jobs
  is within the concurrency limit, no project has two active jobs, references are distinct and
  allocated, and the time stamps agree with the statuses.\<close>
theorem queue_run_invariant:
  assumes "jobs q = []" and "any_qstep\<^sup>*\<^sup>* q q'"
  shows "int (runningCountLocked q') \<le> max 0 (maxConcurrent q') \<and> one_active q' \<and>
         distinct (jobs q') \<and> (\<forall>r \<in> set (jobs q'). r < next_ref q' \<and> stamps_ok (heap q' r))"
  using queue_sys.reachable_inv [OF assms] by (simp add: queue_inv_def)

text \<open>C3: A job that reached a terminal status is never written again: whatever calls follow,
  including late completions and shutdown cancellations, its record is unchanged.\<close>
theorem terminal_is_final:
  assumes "any_qstep\<^sup>*\<^sup>* q q'" and "r < next_ref q" and "isTerminal (Status (heap q r))"
  shows "heap q' r = heap q r"
  using run_frozen [OF assms(1)] assms(2,3) by (simp add: frozen_below_def)

text \<open>When a slot is free, \<open>Dequeue\<close> hands out the earliest pending job, marks it running
  with its start time and touches no other job.\<close>
theorem dequeue_fifo:
  assumes "int (runningCountLocked q) < maxConcurrent q"
    and "jobs q = rs @ r # rs'" and "\<forall>p \<in> set rs. Status (heap q p) \<noteq> Pending"
    and "Status (heap q r) = Pending"
  shows "fst (dequeue now ok q) = Some r \<and>
         heap (snd (dequeue now ok q)) = (heap q)(r := markRunning now (heap q r)) \<and>
         jobs (snd (dequeue now ok q)) = jobs q"
proof -
  have "find (\<lambda>r. Status (heap q r) = Pending) (rs @ r # rs') = Some r"
    using assms(3,4) by (induction rs) auto
  with assms(1,2) show ?thesis by (simp add: dequeue_def)
qed

text \<open>\<open>Enqueue\<close> refuses exactly when the project already has an active job, and then
  changes nothing; otherwise it appends one pending job for the project and signals the workers.\<close>
theorem enqueue_dedup:
  "if hasActiveJob q project
   then enqueue now sfx ok project cfg q = (None, q)
   else fst (enqueue now sfx ok project cfg q) = Some (next_ref q) \<and>
        jobs (snd (enqueue now sfx ok project cfg q)) = jobs q @ [next_ref q] \<and>
        hasActiveJob (snd (enqueue now sfx ok project cfg q)) project \<and>
        wake (snd (enqueue now sfx ok project cfg q))"
  by (auto simp: enqueue_def hasActiveJob_def Let_def)

text \<open>However a worker's run ends, its job becomes terminal, and a second outcome reported
  for the same job (a late result racing a cancellation) has no effect.\<close>
theorem first_outcome_wins:
  "isTerminal (Status (heap (runJob_finish now ok r ctx out q) r)) \<and>
   runJob_finish now' ok' r ctx' out' (runJob_finish now ok r ctx out q) =
   runJob_finish now ok r ctx out q"
proof -
  have ended: "isTerminal (Status (heap (runJob_finish now ok r ctx out q) r))" for now ok ctx out q
    by (simp add: runJob_finish_def complete_def failed_def timedOut_def cancel_def finish_def
        split: ctx_end.splits run_outcome.splits)
  have stay: "isTerminal (Status (heap p r)) \<Longrightarrow> runJob_finish now' ok' r ctx' out' p = p" for p
    by (simp add: runJob_finish_def complete_def failed_def timedOut_def cancel_def finish_def
        split: ctx_end.splits run_outcome.splits)
  show ?thesis using ended stay by blast
qed

text \<open>C14: While file writes succeed, \<open>jobs.json\<close> always holds the queue: a daemon that
  restarts after any run recovers exactly the jobs the old one had in memory.\<close>
theorem crash_recovery:
  assumes "jobs q = []" and "store q = Missing" and "(qstep True)\<^sup>*\<^sup>* q q'"
  shows "fst (recover (new_queue (store q') n h)) = None \<and>
         snapshot (snd (recover (new_queue (store q') n h))) = snapshot q'"
  using queue_disk.reachable_inv [of q q'] recover_synced [of q' n h] assms by simp

text \<open>Start-up reaping leaves no running job, so every worker slot is free again; it counts
  the jobs it failed and leaves all the others alone.\<close>
theorem reap_frees_all_slots:
  assumes "queue_inv q"
  shows "runningCountLocked (fst (reapRunning now ok reason q)) = 0 \<and>
         snd (reapRunning now ok reason q) = runningCountLocked q \<and>
         (\<forall>r. Status (heap q r) \<noteq> Running \<longrightarrow>
              heap (fst (reapRunning now ok reason q)) r = heap q r)"
  using assms
  by (auto simp: queue_inv_def reapRunning_def finish_running_eq runningCountLocked_def Let_def
      filter_empty_conv split: prod.splits)

subsection \<open>Witnesses\<close>

definition example_job :: job where
  "example_job = newJob 5000000 ''0a'' ''app'' ''/app'' ''p'' ''1d''"

definition example_queue :: queue where
  "example_queue = new_queue Missing 1 (\<lambda>_. example_job)"

abbreviation example_cfg :: enqueue_config where
  "example_cfg \<equiv> \<lparr>cfgProjectPath = ''/app'', cfgProvider = ''p'', cfgSince = ''1d''\<rparr>"

definition example_queue1 :: queue where
  "example_queue1 = snd (enqueue 5000000 ''0a'' True ''app'' example_cfg example_queue)"

definition example_queue2 :: queue where
  "example_queue2 = snd (dequeue 6000000 True example_queue1)"

lemma example_run1: "qstep True example_queue example_queue1"
  unfolding example_queue1_def by (rule qstep.Enqueue)

lemma example_run2: "qstep True example_queue1 example_queue2"
  unfolding example_queue2_def by (rule qstep.Dequeue)

lemma example_run: "(qstep True)\<^sup>*\<^sup>* example_queue example_queue2"
  by (rule rtranclp.rtrancl_into_rtrancl [OF r_into_rtranclp [of "qstep True", OF example_run1]
        example_run2])

lemma any_run: "(qstep ok)\<^sup>*\<^sup>* q q' \<Longrightarrow> any_qstep\<^sup>*\<^sup>* q q'"
  by (induction rule: rtranclp_induct) (auto intro: rtranclp.rtrancl_into_rtrancl)

lemma example_queue1_eq:
  "jobs example_queue1 = [0]" "Status (heap example_queue1 0) = Pending"
  "maxConcurrent example_queue1 = 1" "next_ref example_queue1 = 1"
  "runningCountLocked example_queue1 = 0"
  by (simp_all add: example_queue1_def example_queue_def enqueue_def new_queue_def Let_def
      runningCountLocked_def)

lemma example_queue2_eq:
  "jobs example_queue2 = [0]" "heap example_queue2 0 = markRunning 6000000 (heap example_queue1 0)"
  "next_ref example_queue2 = 1" "runningCountLocked example_queue2 = 1"
  by (simp_all add: example_queue2_def dequeue_def example_queue1_eq runningCountLocked_def)

theorem queue_run_invariant_witness:
  "int (runningCountLocked example_queue2) \<le> max 0 (maxConcurrent example_queue2) \<and>
   one_active example_queue2"
  using queue_run_invariant [OF _ any_run [OF example_run]]
  by (simp add: example_queue_def new_queue_def)

theorem terminal_is_final_witness:
  "Status (heap (cancelRunning 9000000 True (failed 7000000 True 0 ''boom'' example_queue2)) 0) = Failed"
proof -
  let ?q = "failed 7000000 True 0 ''boom'' example_queue2"
  have t: "Status (heap ?q 0) = Failed" "next_ref ?q = 1"
    by (simp_all add: failed_def finish_def example_queue2_eq)
  have "any_qstep\<^sup>*\<^sup>* ?q (cancelRunning 9000000 True ?q)"
    using qstep.CancelRunning by blast
  from terminal_is_final [OF this, of 0] t show ?thesis by simp
qed

theorem dequeue_fifo_witness:
  "fst (dequeue 6000000 True example_queue1) = Some 0"
  using dequeue_fifo [of example_queue1 "[]" 0 "[]" 6000000 True] by (simp add: example_queue1_eq)

theorem crash_recovery_witness:
  "snapshot (snd (recover (new_queue (store example_queue2) 1 (\<lambda>_. example_job)))) =
   [markRunning 6000000 (heap example_queue1 0)]"
  using crash_recovery [OF _ _ example_run, of 1 "\<lambda>_. example_job"]
  by (simp add: snapshot_def example_queue2_eq example_queue_def new_queue_def)

theorem reap_frees_all_slots_witness:
  "snd (reapRunning 9000000 True ''x'' example_queue2) = 1"
proof -
  have "queue_inv example_queue"
    by (simp add: queue_inv_def example_queue_def new_queue_def one_active_def runningCountLocked_def)
  then have "queue_inv example_queue2"
    using example_run1 example_run2 qstep_inv by blast
  from reap_frees_all_slots [OF this] show ?thesis by (simp add: example_queue2_eq)
qed

end
