(* ===== verification/GoTime.thy ===== *)
theory GoTime
  imports GoText
begin

text \<open>
  The parts of Go's \<open>time\<close> package the scheduler uses. An instant is its UTC value in
  nanoseconds since the Unix epoch, a duration is in nanoseconds. This theory holds durations
  and the reader of duration strings; \<open>Calendar\<close> adds dates and time zones.
\<close>

section \<open>Durations\<close>

definition nanosecond :: int where "nanosecond = 1"
definition second :: int where "second = 1000000000"
definition minute :: int where "minute = 60 * second"
definition hour :: int where "hour = 60 * minute"

lemmas duration_defs = nanosecond_def second_def minute_def hour_def

text \<open>\<open>time.ParseDuration\<close>. The accumulators are \<open>uint64\<close>.\<close>

definition unit_map :: "string \<Rightarrow> int option" where
  "unit_map u =
     (if u = ''ns'' then Some 1
      else if u = ''us'' \<or> u = map (\<lambda>n. char_of (n :: nat)) [0xC2, 0xB5, 0x73]
              \<or> u = map (\<lambda>n. char_of (n :: nat)) [0xCE, 0xBC, 0x73] then Some 1000
      else if u = ''ms'' then Some 1000000
      else if u = ''s'' then Some second
      else if u = ''m'' then Some minute
      else if u = ''h'' then Some hour
      else None)"

fun leading_int :: "int \<Rightarrow> string \<Rightarrow> (int \<times> string) option" where
  "leading_int x [] = Some (x, [])"
| "leading_int x (c # cs) =
     (if \<not> is_digit c then Some (x, c # cs)
      else if x > 2 ^ 63 div 10 then None
      else let y = x * 10 + digit_val c in if y > 2 ^ 63 then None else leading_int y cs)"

fun leading_fraction :: "int \<Rightarrow> rat \<Rightarrow> bool \<Rightarrow> string \<Rightarrow> int \<times> rat \<times> string" where
  "leading_fraction x scale overflow [] = (x, scale, [])"
| "leading_fraction x scale overflow (c # cs) =
     (if \<not> is_digit c then (x, scale, c # cs)
      else if overflow then leading_fraction x scale True cs
      else if x > (2 ^ 63 - 1) div 10 then leading_fraction x scale True cs
      else let y = x * 10 + digit_val c
           in if y > 2 ^ 63 then leading_fraction x scale True cs
              else leading_fraction y (f_mul scale 10) False cs)"

definition unit_char :: "char \<Rightarrow> bool" where
  "unit_char c \<longleftrightarrow> \<not> (c = CHR ''.'' \<or> is_digit c)"

lemma leading_int_length: "leading_int x s = Some (y, t) \<Longrightarrow> length t \<le> length s"
  by (induction x s rule: leading_int.induct) (auto simp: Let_def split: if_splits)

lemma leading_fraction_length: "leading_fraction x sc b s = (y, sc', t) \<Longrightarrow> length t \<le> length s"
  by (induction x sc b s rule: leading_fraction.induct) (fastforce simp: Let_def split: if_splits)+

text \<open>
  One \<open>number unit\<close> group: \<open>None\<close> is a parse error, otherwise the new accumulator and the
  rest of the input.
\<close>

definition duration_group :: "int \<Rightarrow> string \<Rightarrow> (int \<times> string) option" where
  "duration_group d s =
     (if \<not> (case s of c # _ \<Rightarrow> c = CHR ''.'' \<or> is_digit c | [] \<Rightarrow> False) then None
      else case leading_int 0 s of
        None \<Rightarrow> None
      | Some (v, s1) \<Rightarrow>
          (let pre = length s1 \<noteq> length s;
               (f, scale, s2, post) =
                 (case s1 of
                    c # cs \<Rightarrow>
                      if c = CHR ''.'' then
                        (case leading_fraction 0 1 False cs of
                           (f, scale, t) \<Rightarrow> (f, scale, t, length t \<noteq> length cs))
                      else (0, 1, s1, False)
                  | [] \<Rightarrow> (0, 1, s1, False));
               u = takeWhile unit_char s2;
               rest = dropWhile unit_char s2
           in if \<not> pre \<and> \<not> post then None
              else if u = [] then None
              else case unit_map u of
                None \<Rightarrow> None
              | Some unit \<Rightarrow>
                  if v > 2 ^ 63 div unit then None
                  else
                    let v1 = v * unit;
                        v2 = (if f > 0
                              then u64 (v1 + f_trunc (f_mul (f_of_int f) (f_div (f_of_int unit) scale)))
                              else v1)
                    in if f > 0 \<and> v2 > 2 ^ 63 then None
                       else let d' = u64 (d + v2) in if d' > 2 ^ 63 then None else Some (d', rest)))"

lemma duration_group_shorter:
  assumes "duration_group d s = Some (d', t)"
  shows "length t < length s"
proof -
  obtain v s1 where l: "leading_int 0 s = Some (v, s1)"
    using assms by (auto simp: duration_group_def split: if_splits option.splits)
  let ?q = "case s1 of
              c # cs \<Rightarrow>
                if c = CHR ''.'' then
                  (case leading_fraction 0 1 False cs of
                     (f, scale, t) \<Rightarrow> (f, scale, t, length t \<noteq> length cs))
                else (0, 1, s1, False)
            | [] \<Rightarrow> (0, 1, s1, False)"
  obtain f scale s2 post where q: "?q = (f, scale, s2, post)" by (cases ?q) auto
  have s2: "length s2 \<le> length s1"
    using q leading_fraction_length by (fastforce split: list.splits if_splits prod.splits)
  have t: "t = dropWhile unit_char s2 \<and> takeWhile unit_char s2 \<noteq> []"
    using assms by (auto simp: duration_group_def l q Let_def split: if_splits option.splits)
  then have "length t < length s2"
    by (metis add_less_cancel_right length_0_conv length_append length_greater_0_conv
        less_add_same_cancel2 takeWhile_dropWhile_id)
  with s2 leading_int_length [OF l] show ?thesis by simp
qed

function duration_groups :: "int \<Rightarrow> string \<Rightarrow> int option" where
  "duration_groups d s =
     (if s = [] then Some d
      else case duration_group d s of None \<Rightarrow> None | Some (d', t) \<Rightarrow> duration_groups d' t)"
  by pat_completeness auto
termination
  by (relation "measure (\<lambda>(d, s). length s)") (auto dest: duration_group_shorter)

declare duration_groups.simps [simp del]

definition parse_duration :: "string \<Rightarrow> int option" where
  "parse_duration orig =
     (let neg = (case orig of c # _ \<Rightarrow> c = CHR ''-'' | [] \<Rightarrow> False);
          s = (case orig of c # cs \<Rightarrow> if c = CHR ''-'' \<or> c = CHR ''+'' then cs else orig | [] \<Rightarrow> [])
      in if s = ''0'' then Some 0
         else if s = [] then None
         else case duration_groups 0 s of
           None \<Rightarrow> None
         | Some d \<Rightarrow> if neg then Some (- d) else if d > 2 ^ 63 - 1 then None else Some d)"

end
