(* ===== verification/Calendar.thy ===== *)
theory Calendar
  imports GoTime
begin

text \<open>
  Dates and time zones of Go's \<open>time\<close> package. The civil calendar is the proleptic
  Gregorian one. A \<open>location\<close> is the zone lookup of the time-zone database, which is
  outside the repository: for a Unix second it gives the offset in force and the span in which
  that offset holds; \<open>time_date\<close> then follows the library's two-step resolution.
\<close>

section \<open>The civil calendar\<close>

datatype civil = Civil (cyear: int) (cmonth: int) (cday: int)

text \<open>Dates in chronological order.\<close>

instantiation civil :: linorder
begin

definition less_eq_civil :: "civil \<Rightarrow> civil \<Rightarrow> bool" where
  "less_eq_civil a b \<longleftrightarrow>
     cyear a < cyear b \<or>
     (cyear a = cyear b \<and> (cmonth a < cmonth b \<or> (cmonth a = cmonth b \<and> cday a \<le> cday b)))"

definition less_civil :: "civil \<Rightarrow> civil \<Rightarrow> bool" where
  "less_civil a b \<longleftrightarrow> a \<le> b \<and> \<not> b \<le> (a :: civil)"

instance
  by standard (auto simp: less_eq_civil_def less_civil_def intro: civil.expand)

end

definition leap :: "int \<Rightarrow> bool" where
  "leap y \<longleftrightarrow> y mod 4 = 0 \<and> (y mod 100 \<noteq> 0 \<or> y mod 400 = 0)"

definition days_in_month :: "int \<Rightarrow> int \<Rightarrow> int" where
  "days_in_month y m =
     (if m = 2 then (if leap y then 29 else 28)
      else if m = 4 \<or> m = 6 \<or> m = 9 \<or> m = 11 then 30 else 31)"

text \<open>Days from 0001-01-01 to the first of January of year \<open>y\<close>.\<close>

definition days_before_year :: "int \<Rightarrow> int" where
  "days_before_year y = (let k = y - 1 in 365 * k + k div 4 - k div 100 + k div 400)"

definition days_before_month :: "int \<Rightarrow> int \<Rightarrow> int" where
  "days_before_month y m = (\<Sum>k \<leftarrow> [1 ..< nat m]. days_in_month y (int k))"

definition days_of_date :: "int \<Rightarrow> int \<Rightarrow> int \<Rightarrow> int" where
  "days_of_date y m d = days_before_year y + days_before_month y m + (d - 1)"

definition year_of_day :: "int \<Rightarrow> int" where
  "year_of_day n =
     (let e = (400 * n) div 146097 + 1
      in if n < days_before_year e then e - 1
         else if days_before_year (e + 1) \<le> n then e + 1 else e)"

function month_scan :: "int \<Rightarrow> int \<Rightarrow> int \<Rightarrow> int \<times> int" where
  "month_scan y mo r =
     (if 12 \<le> mo \<or> r < days_in_month y mo then (mo, r + 1)
      else month_scan y (mo + 1) (r - days_in_month y mo))"
  by pat_completeness auto
termination by (relation "measure (\<lambda>(y, mo, r). nat (12 - mo))") auto

declare month_scan.simps [simp del]

definition civil_of_day :: "int \<Rightarrow> civil" where
  "civil_of_day n =
     (let y = year_of_day n; (mo, d) = month_scan y 1 (n - days_before_year y) in Civil y mo d)"

definition valid_date :: "int \<Rightarrow> int \<Rightarrow> int \<Rightarrow> bool" where
  "valid_date y mo d \<longleftrightarrow> 1 \<le> mo \<and> mo \<le> 12 \<and> 1 \<le> d \<and> d \<le> days_in_month y mo"

text \<open>0001-01-01 was a Monday; Sunday is 0.\<close>

definition weekday_of_day :: "int \<Rightarrow> int" where
  "weekday_of_day n = (n + 1) mod 7"

subsection \<open>Year lengths\<close>

lemma div_step:
  fixes k c :: int
  assumes c: "0 < c"
  shows "(k + 1) div c = k div c + (if (k + 1) mod c = 0 then 1 else 0)"
proof -
  let ?q = "k div c" and ?r = "k mod c"
  have k: "k + 1 = c * ?q + (?r + 1)" by simp
  have r: "0 \<le> ?r" "?r < c" using c by simp_all
  show ?thesis
  proof (cases "?r + 1 = c")
    case True
    then have "k + 1 = c * (?q + 1) + 0" using k by (simp add: algebra_simps)
    then show ?thesis using c by (metis add.right_neutral mod_mult_self1_is_0 nonzero_mult_div_cancel_left order_less_irrefl)
  next
    case False
    then have "?r + 1 < c" using r by simp
    then have "(k + 1) div c = ?q" and "(k + 1) mod c = ?r + 1"
      using int_div_pos_eq [OF k] int_mod_pos_eq [OF k] r by simp_all
    then show ?thesis using r by simp
  qed
qed

lemma mod_400_4: "(k::int) mod 400 = 0 \<Longrightarrow> k mod 4 = 0 \<and> k mod 100 = 0"
  using dvd_trans [of 4 400 k] dvd_trans [of 100 400 k] by (simp add: mod_eq_0_iff_dvd)

lemma mod_100_4: "(k::int) mod 100 = 0 \<Longrightarrow> k mod 4 = 0"
  using dvd_trans [of 4 100 k] by (simp add: mod_eq_0_iff_dvd)

definition year_length :: "int \<Rightarrow> int" where
  "year_length y = (if leap y then 366 else 365)"

text \<open>
  The linear-arithmetic steps below are stated over variables, so that the decision procedure
  sees the quotients and remainders as atoms.
\<close>

lemma days_before_year_next: "days_before_year (y + 1) = 365 * y + y div 4 - y div 100 + y div 400"
  unfolding days_before_year_def Let_def by (simp only: add_diff_cancel_right')

lemma step_arith:
  fixes D D' y a b c a' b' c' i j l :: int
  assumes "D' = 365 * y + a' - b' + c'" and "D = 365 * (y - 1) + a - b + c"
    and "a' = a + i" and "b' = b + j" and "c' = c + l"
  shows "D' = D + (365 + i - j + l)"
  using assms by simp

lemma estimate_arith:
  fixes D y a b c p q r :: int
  assumes "D = 365 * y + a - b + c" "y = 4 * a + p" "0 \<le> p" "p < 4"
    "y = 100 * b + q" "0 \<le> q" "q < 100" "y = 400 * c + r" "0 \<le> r" "r < 400"
  shows "400 * D \<le> 146097 * y + 400" and "146097 * y - 700 \<le> 400 * D"
proof -
  show "400 * D \<le> 146097 * y + 400" using assms by linarith
  show "146097 * y - 700 \<le> 400 * D" using assms by linarith
qed

lemma leap_arith:
  "p400 \<longrightarrow> p4 \<and> p100 \<Longrightarrow> p100 \<longrightarrow> p4 \<Longrightarrow>
   365 + (if p4 then 1 else 0) - (if p100 then 1 else 0) + (if p400 then 1 else 0) =
   (if p4 \<and> (\<not> p100 \<or> p400) then 366 else 365 :: int)"
  by (cases p4; cases p100; cases p400; simp)

lemma days_before_year_Suc: "days_before_year (y + 1) = days_before_year y + year_length y"
proof -
  let ?i = "\<lambda>c. if y mod c = 0 then 1 else 0 :: int"
  have s: "y div c = (y - 1) div c + ?i c" if "0 < c" for c
    using div_step [OF that, of "y - 1"] by (simp only: diff_add_cancel)
  have "days_before_year y = 365 * (y - 1) + (y - 1) div 4 - (y - 1) div 100 + (y - 1) div 400"
    unfolding days_before_year_def Let_def by (rule refl)
  from step_arith [OF days_before_year_next this s s s]
  have "days_before_year (y + 1) = days_before_year y + (365 + ?i 4 - ?i 100 + ?i 400)" by simp_all
  also have "365 + ?i 4 - ?i 100 + ?i 400 = year_length y"
    unfolding year_length_def leap_def by (intro leap_arith impI mod_400_4 mod_100_4)
  finally show ?thesis .
qed

lemma days_before_year_pred: "days_before_year y = days_before_year (y - 1) + year_length (y - 1)"
  using days_before_year_Suc [of "y - 1"] by simp

lemma year_length_bounds: "365 \<le> year_length y" "year_length y \<le> 366"
  by (simp_all add: year_length_def)

text \<open>The estimate from the mean year length is off by at most one year.\<close>

lemma days_before_year_bounds:
  "400 * days_before_year (y + 1) \<le> 146097 * y + 400"
  "146097 * y - 700 \<le> 400 * days_before_year (y + 1)"
  by (rule estimate_arith [OF days_before_year_next mult_div_mod_eq [symmetric] pos_mod_sign
      pos_mod_bound mult_div_mod_eq [symmetric] pos_mod_sign pos_mod_bound
      mult_div_mod_eq [symmetric] pos_mod_sign pos_mod_bound]; rule zero_less_numeral)+

lemma quotient_arith:
  fixes n q r D D' :: int
  assumes "q * 146097 + r = 400 * n" "0 \<le> r" "r < 146097"
    and "400 * D \<le> 146097 * (q - 1) + 400" and "146097 * (q + 2) - 700 \<le> 400 * D'"
  shows "D \<le> n" and "n < D'"
proof -
  show "D \<le> n" using assms(1,2,4) by (smt (verit))
  show "n < D'" using assms(1,3,5) by (smt (verit))
qed

lemma year_of_day_bounds:
  "days_before_year (year_of_day n) \<le> n" "n < days_before_year (year_of_day n + 1)"
proof -
  let ?q = "(400 * n) div 146097"
  have m: "?q * 146097 + 400 * n mod 146097 = 400 * n"
    "0 \<le> 400 * n mod 146097" "400 * n mod 146097 < 146097"
    by (simp_all only: div_mult_mod_eq pos_mod_sign pos_mod_bound zero_less_numeral)
  note b = quotient_arith [OF m days_before_year_bounds(1) days_before_year_bounds(2)]
  have lo: "days_before_year (?q - 1 + 1) \<le> n" by (rule b(1))
  have hi: "n < days_before_year (?q + 2 + 1)" by (rule b(2))
  have "?q - 1 + 1 = ?q + 1 - 1" "?q + 2 + 1 = ?q + 1 + 1 + 1" by simp_all
  with lo hi show "days_before_year (year_of_day n) \<le> n" "n < days_before_year (year_of_day n + 1)"
    unfolding year_of_day_def Let_def by (simp_all split: if_splits del: div_mult_self1) 
qed

lemma days_before_year_mono: "y \<le> y' \<Longrightarrow> days_before_year y \<le> days_before_year y'"
proof (induction y' rule: int_ge_induct)
  case (step i)
  with days_before_year_Suc [of i] year_length_bounds(1) [of i] show ?case by linarith
qed simp

lemma year_of_day_unique:
  assumes "days_before_year y \<le> n" "n < days_before_year (y + 1)"
  shows "year_of_day n = y"
proof -
  note b = year_of_day_bounds [of n]
  have "\<not> y < year_of_day n"
    using days_before_year_mono [of "y + 1" "year_of_day n"] b assms by linarith
  moreover have "\<not> year_of_day n < y"
    using days_before_year_mono [of "year_of_day n + 1" y] b assms by linarith
  ultimately show ?thesis by linarith
qed

subsection \<open>Months\<close>

lemma days_in_month_bounds: "28 \<le> days_in_month y mo" "days_in_month y mo \<le> 31"
  by (simp_all add: days_in_month_def)

lemma days_before_month_Suc:
  "1 \<le> mo \<Longrightarrow> days_before_month y (mo + 1) = days_before_month y mo + days_in_month y mo"
  by (auto simp: days_before_month_def nat_add_distrib upt_Suc_append)

lemma days_before_month_1 [simp]: "days_before_month y 1 = 0"
  by (simp add: days_before_month_def)

lemma days_before_month_13: "days_before_month y 13 = year_length y"
  by (simp add: days_before_month_def upt_rec [of 1] days_in_month_def year_length_def
      upt_rec [where j = 13])

lemma days_before_month_mono:
  assumes "1 \<le> mo" and "mo \<le> mo'"
  shows "days_before_month y mo \<le> days_before_month y mo'"
  using assms(2)
proof (induction mo' rule: int_ge_induct)
  case (step i)
  with assms(1) days_before_month_Suc [of i y] days_in_month_bounds(1) [of y i] show ?case by linarith
qed simp

lemma month_scan_spec:
  assumes "1 \<le> mo" "mo \<le> 12" "0 \<le> r" "days_before_month y mo + r < days_before_month y 13"
    and "month_scan y mo r = (mo', d)"
  shows "mo' \<le> 12 \<and> mo \<le> mo' \<and> 1 \<le> d \<and> d \<le> days_in_month y mo' \<and>
         days_before_month y mo' + (d - 1) = days_before_month y mo + r"
  using assms
proof (induction y mo r rule: month_scan.induct)
  case (1 y mo r)
  note suc = days_before_month_Suc [OF "1.prems"(1), of y]
  show ?case
  proof (cases "12 \<le> mo \<or> r < days_in_month y mo")
    case True
    then have eq: "mo' = mo" "d = r + 1"
      using "1.prems"(5) by (simp_all add: month_scan.simps [of y mo r])
    have "r < days_in_month y mo"
    proof (cases "mo = 12")
      case True
      with suc "1.prems"(4) show ?thesis by simp
    next
      case False
      with True "1.prems"(2) show ?thesis by simp
    qed
    with eq "1.prems" show ?thesis by simp
  next
    case False
    then have "month_scan y (mo + 1) (r - days_in_month y mo) = (mo', d)"
      using "1.prems"(5) by (simp add: month_scan.simps [of y mo r])
    with "1.IH" [OF False] "1.prems" False suc show ?thesis by auto
  qed
qed

subsection \<open>Day numbers and dates are inverse\<close>

lemma civil_of_day_spec:
  assumes "civil_of_day n = Civil y mo d"
  shows "valid_date y mo d \<and> days_of_date y mo d = n"
proof -
  let ?r = "n - days_before_year (year_of_day n)"
  obtain mo' d' where ms: "month_scan (year_of_day n) 1 ?r = (mo', d')" by (cases "month_scan (year_of_day n) 1 ?r")
  then have eq: "y = year_of_day n" "mo = mo'" "d = d'"
    using assms by (simp_all add: civil_of_day_def Let_def)
  have "0 \<le> ?r" "?r < days_before_month (year_of_day n) 13"
    using year_of_day_bounds [of n] days_before_year_Suc [of "year_of_day n"]
    by (simp_all add: days_before_month_13)
  from month_scan_spec [OF _ _ this(1) _ ms] this(2) eq show ?thesis
    by (simp add: valid_date_def days_of_date_def)
qed

lemma valid_date_in_year:
  assumes "valid_date y mo d"
  shows "days_before_year y \<le> days_of_date y mo d" "days_of_date y mo d < days_before_year (y + 1)"
proof -
  have mo: "1 \<le> mo" "mo \<le> 12" and d: "1 \<le> d" "d \<le> days_in_month y mo"
    using assms by (simp_all add: valid_date_def)
  have "0 \<le> days_before_month y mo" using days_before_month_mono [of 1 mo y] mo by simp
  moreover have "days_before_month y (mo + 1) \<le> days_before_month y 13"
    using mo by (intro days_before_month_mono) simp_all
  ultimately show "days_before_year y \<le> days_of_date y mo d"
    "days_of_date y mo d < days_before_year (y + 1)"
    using d days_before_month_Suc [OF mo(1), of y] days_before_year_Suc [of y]
    by (simp_all add: days_of_date_def days_before_month_13)
qed

lemma civil_of_day_days:
  assumes v: "valid_date y mo d"
  shows "civil_of_day (days_of_date y mo d) = Civil y mo d"
proof -
  obtain y' mo' d' where c: "civil_of_day (days_of_date y mo d) = Civil y' mo' d'"
    by (cases "civil_of_day (days_of_date y mo d)")
  note s = civil_of_day_spec [OF c]
  have y: "y' = y"
    using valid_date_in_year [OF v] valid_date_in_year [of y' mo' d'] s
      year_of_day_unique [of y "days_of_date y mo d"] year_of_day_unique [of y' "days_of_date y mo d"]
    by simp
  have mo: "mo' = mo"
  proof (rule ccontr)
    assume ne: "mo' \<noteq> mo"
    have b: "days_before_month y a + days_in_month y a \<le> days_before_month y b" if "1 \<le> a" "a < b" for a b
      using days_before_month_mono [of "a + 1" b y] days_before_month_Suc [of a y] that by simp
    have eq: "days_before_month y mo' + d' = days_before_month y mo + d"
      using s y by (simp add: days_of_date_def)
    have r: "1 \<le> mo'" "1 \<le> d'" "d' \<le> days_in_month y mo'" "1 \<le> mo" "1 \<le> d" "d \<le> days_in_month y mo"
      using s v y by (simp_all add: valid_date_def)
    show False
    proof (cases "mo < mo'")
      case True
      with b [OF r(4)] eq r show False by fastforce
    next
      case False
      with ne b [OF r(1), of mo] eq r show False by fastforce
    qed
  qed
  with s y c show ?thesis by (simp add: days_of_date_def)
qed

lemma days_of_date_shift: "days_of_date y mo (d + k) = days_of_date y mo d + k"
  by (simp add: days_of_date_def)

section \<open>Time zones\<close>

type_synonym location = "int \<Rightarrow> int \<times> int \<times> int"

definition epoch_day :: int where
  "epoch_day = 719162"

text \<open>Seconds of the local clock since 0001-01-01, and the fields read off it.\<close>

definition local_secs :: "location \<Rightarrow> int \<Rightarrow> int" where
  "local_secs loc t = (let u = t div second in u + fst (loc u) + epoch_day * 86400)"

definition local_day :: "location \<Rightarrow> int \<Rightarrow> int" where
  "local_day loc t = local_secs loc t div 86400"

definition date_of :: "location \<Rightarrow> int \<Rightarrow> civil" where
  "date_of loc t = civil_of_day (local_day loc t)"

definition weekday_of :: "location \<Rightarrow> int \<Rightarrow> int" where
  "weekday_of loc t = weekday_of_day (local_day loc t)"

definition sec_of_day :: "location \<Rightarrow> int \<Rightarrow> int" where
  "sec_of_day loc t = local_secs loc t mod 86400"

definition hour_of :: "location \<Rightarrow> int \<Rightarrow> int" where
  "hour_of loc t = sec_of_day loc t div 3600"

definition minute_of :: "location \<Rightarrow> int \<Rightarrow> int" where
  "minute_of loc t = sec_of_day loc t mod 3600 div 60"

text \<open>\<open>time.Date\<close>; a day outside the month is normalised by the day arithmetic.\<close>

definition time_date :: "location \<Rightarrow> int \<Rightarrow> int \<Rightarrow> int \<Rightarrow> int \<Rightarrow> int \<Rightarrow> int \<Rightarrow> int \<Rightarrow> int" where
  "time_date loc y mo d h mi s ns =
     (let unix = (days_of_date y mo d - epoch_day) * 86400 + h * 3600 + mi * 60 + s;
          (offset, begins, stop) = loc unix;
          utc = unix - offset;
          offset' = (if offset \<noteq> 0 \<and> (utc < begins \<or> utc \<ge> stop) then fst (loc utc) else offset)
      in (unix - offset') * second + ns)"

text \<open>\<open>Time.AddDate(0, 0, k)\<close>.\<close>

definition add_days :: "location \<Rightarrow> int \<Rightarrow> int \<Rightarrow> int" where
  "add_days loc t k =
     (case date_of loc t of Civil y mo d \<Rightarrow>
        time_date loc y mo (d + k) (hour_of loc t) (minute_of loc t) (sec_of_day loc t mod 60)
          (t mod second))"

text \<open>A zone without transitions.\<close>

definition fixed_zone :: "location \<Rightarrow> int \<Rightarrow> bool" where
  "fixed_zone loc off \<longleftrightarrow> (\<forall>u. fst (loc u) = off)"

definition utc_zone :: location where
  "utc_zone u = (0, 0, 0)"

lemma fixed_zone_utc: "fixed_zone utc_zone 0"
  by (simp add: fixed_zone_def utc_zone_def)

lemma time_date_fixed:
  "fixed_zone loc off \<Longrightarrow>
   time_date loc y mo d h mi s ns =
   ((days_of_date y mo d - epoch_day) * 86400 + h * 3600 + mi * 60 + s - off) * second + ns"
  by (simp add: time_date_def fixed_zone_def Let_def split: prod.splits) (metis fst_conv)

lemma local_secs_fixed:
  "fixed_zone loc off \<Longrightarrow> local_secs loc t = t div second + off + epoch_day * 86400"
  by (simp add: local_secs_def fixed_zone_def Let_def)

text \<open>The instant with a given local day and second of the day.\<close>

definition local_instant :: "int \<Rightarrow> int \<Rightarrow> int \<Rightarrow> int" where
  "local_instant off day sod = ((day - epoch_day) * 86400 + sod - off) * second"

lemma local_instant_local_secs:
  "fixed_zone loc off \<Longrightarrow> local_secs loc (local_instant off day sod) = day * 86400 + sod"
  by (simp add: local_secs_fixed local_instant_def second_def algebra_simps)

lemma local_instant_day:
  "fixed_zone loc off \<Longrightarrow> 0 \<le> sod \<Longrightarrow> sod < 86400 \<Longrightarrow> local_day loc (local_instant off day sod) = day"
  by (simp add: local_day_def local_instant_local_secs)

lemma local_instant_sod:
  "fixed_zone loc off \<Longrightarrow> 0 \<le> sod \<Longrightarrow> sod < 86400 \<Longrightarrow> sec_of_day loc (local_instant off day sod) = sod"
  by (simp add: sec_of_day_def local_instant_local_secs)

lemma local_instant_less:
  "local_instant off day sod < local_instant off day' sod' \<longleftrightarrow> day * 86400 + sod < day' * 86400 + sod'"
  by (simp add: local_instant_def second_def) linarith

lemma instant_bracket:
  assumes "fixed_zone loc off"
  shows "local_instant off (local_day loc t) (sec_of_day loc t) \<le> t"
    "t < local_instant off (local_day loc t) (sec_of_day loc t) + second"
proof -
  have "(local_day loc t - epoch_day) * 86400 + sec_of_day loc t - off = t div second"
    using div_mult_mod_eq [of "local_secs loc t" 86400] local_secs_fixed [OF assms, of t]
    by (simp add: local_day_def sec_of_day_def algebra_simps)
  then have "local_instant off (local_day loc t) (sec_of_day loc t) = t div second * second"
    by (simp add: local_instant_def)
  then show "local_instant off (local_day loc t) (sec_of_day loc t) \<le> t"
    "t < local_instant off (local_day loc t) (sec_of_day loc t) + second"
    using div_mult_mod_eq [of t second] pos_mod_sign [of second t] pos_mod_bound [of second t]
    by (simp_all add: second_def)
qed

lemma instant_split:
  "fixed_zone loc off \<Longrightarrow>
   t = local_instant off (local_day loc t) (sec_of_day loc t) + t mod second"
proof -
  assume f: "fixed_zone loc off"
  have "(local_day loc t - epoch_day) * 86400 + sec_of_day loc t - off = t div second"
    using div_mult_mod_eq [of "local_secs loc t" 86400] local_secs_fixed [OF f, of t]
    by (simp add: local_day_def sec_of_day_def algebra_simps)
  then show ?thesis by (simp add: local_instant_def)
qed

lemma clock_fields:
  "hour_of loc t * 3600 + minute_of loc t * 60 + sec_of_day loc t mod 60 = sec_of_day loc t"
proof -
  have "sec_of_day loc t mod 3600 mod 60 = sec_of_day loc t mod 60"
    by (rule mod_mod_cancel) simp
  then show ?thesis
    unfolding hour_of_def minute_of_def by (metis add.assoc div_mult_mod_eq)
qed

lemma date_of_days:
  "date_of loc t = Civil y mo d \<Longrightarrow> valid_date y mo d \<and> days_of_date y mo d = local_day loc t"
  by (simp add: date_of_def civil_of_day_spec)

lemma add_days_fixed:
  assumes "fixed_zone loc off"
  shows "add_days loc t k = t + k * (86400 * second)"
proof -
  obtain y mo d where c: "date_of loc t = Civil y mo d" by (cases "date_of loc t")
  have "add_days loc t k = local_instant off (local_day loc t + k) (sec_of_day loc t) + t mod second"
    using date_of_days [OF c] clock_fields [of loc t]
    by (simp add: add_days_def c time_date_fixed [OF assms] days_of_date_shift local_instant_def)
  also have "\<dots> = local_instant off (local_day loc t) (sec_of_day loc t) + t mod second + k * (86400 * second)"
    by (simp add: local_instant_def algebra_simps)
  also have "\<dots> = t + k * (86400 * second)" using instant_split [OF assms, of t] by simp
  finally show ?thesis .
qed

lemma local_day_add:
  assumes "fixed_zone loc off"
  shows "local_day loc (t + k * (86400 * second)) = local_day loc t + k"
    "sec_of_day loc (t + k * (86400 * second)) = sec_of_day loc t"
proof -
  have "(t + k * (86400 * second)) div second = t div second + k * 86400"
    using div_mult_self1 [of second t "k * 86400"] by (simp add: second_def algebra_simps)
  then have "local_secs loc (t + k * (86400 * second)) = local_secs loc t + k * 86400"
    using assms by (simp add: local_secs_fixed)
  then show "local_day loc (t + k * (86400 * second)) = local_day loc t + k"
    "sec_of_day loc (t + k * (86400 * second)) = sec_of_day loc t"
    by (simp_all add: local_day_def sec_of_day_def)
qed

lemma local_day_mono: "fixed_zone loc off \<Longrightarrow> t \<le> u \<Longrightarrow> local_day loc t \<le> local_day loc u"
  by (simp add: local_day_def local_secs_fixed zdiv_mono1 second_def)

text \<open>\<open>time.Date\<close> with the date of an instant and another clock time.\<close>

lemma time_date_same_day:
  assumes "fixed_zone loc off" and "civil_of_day n = Civil y mo d"
  shows "time_date loc y mo d h mi 0 0 = local_instant off n (h * 3600 + mi * 60)"
  using civil_of_day_spec [OF assms(2)]
  by (simp add: time_date_fixed [OF assms(1)] local_instant_def)

end
