(* ===== verification/Schedule.thy ===== *)
theory Schedule
  imports Calendar
begin

text \<open>
  Recurring-job schedules, \<open>internal/backgroundjobs/schedule.go\<close>: validation of a
  schedule specification, the cron field parser, the next-run computation for interval, daily,
  weekly and cron schedules, and the derived time limits. The time-zone database is the
  parameter \<open>load\<close> (\<open>time.LoadLocation\<close>); \<open>ul\<close> is the Unicode part of
  \<open>strings.ToLower\<close>.
\<close>

datatype schedule_kind = ScheduleInterval | ScheduleDaily | ScheduleWeekly | ScheduleCron | OtherKind string

record schedule_spec =
  Kind :: schedule_kind
  Every :: string
  TimeOfDay :: string
  DayOfWeek :: string
  Cron :: string
  Timezone :: string
  MissedRunPolicy :: string
  OverlapPolicy :: string
  MisfireWindow :: string

datatype schedule_error =
    InvalidEvery | EveryTooShort int | EveryTooLong int
  | MissingTimeOfDay | InvalidTimeOfDay string
  | MissingDayOfWeek | InvalidDayOfWeek string
  | MissingCron | InvalidCron | CronFieldCount nat
  | CronStep string | CronInt string | CronOutOfBounds int | CronRange int int | CronEmpty
  | UnknownKind string | EveryNotInterval | MissingTimezone | InvalidTimezone string
  | NoCronMatch

type_synonym 'a result = "schedule_error + 'a"

section \<open>Intervals\<close>

definition minIntervalDuration :: int where "minIntervalDuration = 1 * minute"
definition maxIntervalDuration :: int where "maxIntervalDuration = 23 * hour"
definition defaultIntervalDuration :: int where "defaultIntervalDuration = 1 * hour"

lemmas interval_defs =
  minIntervalDuration_def maxIntervalDuration_def defaultIntervalDuration_def duration_defs

definition parseEveryDuration :: "string \<Rightarrow> int result" where
  "parseEveryDuration s =
     (case parse_duration s of
        None \<Rightarrow> Inl InvalidEvery
      | Some d \<Rightarrow>
          if d < minIntervalDuration then Inl (EveryTooShort d)
          else if d > maxIntervalDuration then Inl (EveryTooLong d)
          else Inr d)"

definition everyDuration :: "schedule_spec \<Rightarrow> int" where
  "everyDuration spec =
     (if Every spec \<noteq> [] then
        (case parseEveryDuration (Every spec) of Inr d \<Rightarrow> d | Inl _ \<Rightarrow> defaultIntervalDuration)
      else defaultIntervalDuration)"

section \<open>Time of day and day of week\<close>

text \<open>
  \<open>time.Parse("15:04", s)\<close>: one or two hour digits, a colon, exactly two minute digits and
  nothing after them.
\<close>

definition parse_hour_digits :: "string \<Rightarrow> (int \<times> string) option" where
  "parse_hour_digits s =
     (case s of
        [] \<Rightarrow> None
      | [a] \<Rightarrow> if is_digit a then Some (digit_val a, []) else None
      | a # b # t \<Rightarrow>
          if \<not> is_digit a then None
          else if is_digit b then Some (digit_val a * 10 + digit_val b, t)
          else Some (digit_val a, b # t))"

definition parseTimeOfDay :: "string \<Rightarrow> (int \<times> int) result" where
  "parseTimeOfDay s =
     (case parse_hour_digits s of
        None \<Rightarrow> Inl (InvalidTimeOfDay s)
      | Some (h, t) \<Rightarrow>
          if h \<ge> 24 then Inl (InvalidTimeOfDay s)
          else
            (case t of
               [c, a, b] \<Rightarrow>
                 if c = CHR '':'' \<and> is_digit a \<and> is_digit b \<and> digit_val a * 10 + digit_val b < 60
                 then Inr (h, digit_val a * 10 + digit_val b) else Inl (InvalidTimeOfDay s)
             | _ \<Rightarrow> Inl (InvalidTimeOfDay s)))"

definition validDayOfWeek :: "string \<Rightarrow> int option" where
  "validDayOfWeek =
     map_of [(''sunday'', 0), (''monday'', 1), (''tuesday'', 2), (''wednesday'', 3),
             (''thursday'', 4), (''friday'', 5), (''saturday'', 6)]"

section \<open>Cron expressions\<close>

record cronFields =
  minutes :: "int list"
  hours :: "int list"
  doms :: "int list"
  months :: "int list"
  dows :: "int list"

definition cronRange :: "int \<Rightarrow> int \<Rightarrow> int list" where
  "cronRange lo hi = map (\<lambda>i. lo + int i) [0 ..< nat (hi - lo + 1)]"

definition parseCronInt :: "string \<Rightarrow> int result" where
  "parseCronInt s = (case atoi s of None \<Rightarrow> Inl (CronInt s) | Some v \<Rightarrow> Inr v)"

text \<open>
  The loop \<open>for i := lo; i <= hi; i += step\<close>, whose increment wraps at 64 bits;
  \<open>None\<close> when the fuel runs out.
\<close>

fun cron_step_loop :: "nat \<Rightarrow> int \<Rightarrow> int \<Rightarrow> int \<Rightarrow> int list option" where
  "cron_step_loop 0 i hi step = None"
| "cron_step_loop (Suc n) i hi step =
     (if i \<le> hi then map_option ((#) i) (cron_step_loop n (i64 (i + step)) hi step) else Some [])"

definition cron_step_fuel :: "int \<Rightarrow> int \<Rightarrow> nat" where
  "cron_step_fuel lo hi = nat (hi - lo) + 5"

definition parseCronStep :: "string \<Rightarrow> int \<Rightarrow> int \<Rightarrow> int list result" where
  "parseCronStep stepStr lo hi =
     (case parseCronInt stepStr of
        Inl e \<Rightarrow> Inl (CronStep stepStr)
      | Inr step \<Rightarrow>
          if step < 1 then Inl (CronStep stepStr)
          else case cron_step_loop (cron_step_fuel lo hi) lo hi step of
            None \<Rightarrow> Inl CronEmpty
          | Some vs \<Rightarrow> Inr vs)"

definition parseCronRange :: "string \<Rightarrow> int \<Rightarrow> int \<Rightarrow> int list result" where
  "parseCronRange part lo hi =
     (case index_of part ''-'' of
        None \<Rightarrow> Inl (CronInt part)
      | Some i \<Rightarrow>
          (case parseCronInt (take i part) of
             Inl e \<Rightarrow> Inl e
           | Inr a \<Rightarrow>
               (case parseCronInt (drop (Suc i) part) of
                  Inl e \<Rightarrow> Inl e
                | Inr b \<Rightarrow>
                    if a < lo \<or> b > hi \<or> a > b then Inl (CronRange a b) else Inr (cronRange a b))))"

definition parseCronPart :: "string \<Rightarrow> int \<Rightarrow> int \<Rightarrow> int list result" where
  "parseCronPart part lo hi =
     (if contains part ''-'' then parseCronRange part lo hi
      else case parseCronInt part of
        Inl e \<Rightarrow> Inl e
      | Inr v \<Rightarrow> if v < lo \<or> v > hi then Inl (CronOutOfBounds v) else Inr [v])"

text \<open>The values of all parts in order, or the first error.\<close>

fun cron_parts :: "string list \<Rightarrow> int \<Rightarrow> int \<Rightarrow> int list result" where
  "cron_parts [] lo hi = Inr []"
| "cron_parts (part # ps) lo hi =
     (case parseCronPart (trim_space part) lo hi of
        Inl e \<Rightarrow> Inl e
      | Inr vs \<Rightarrow> (case cron_parts ps lo hi of Inl e \<Rightarrow> Inl e | Inr ws \<Rightarrow> Inr (vs @ ws)))"

definition parseCronParts :: "string \<Rightarrow> int \<Rightarrow> int \<Rightarrow> int list result" where
  "parseCronParts field lo hi =
     (case cron_parts (split_on (CHR '','') field) lo hi of
        Inl e \<Rightarrow> Inl e
      | Inr vs \<Rightarrow>
          let result = dedup_by (\<lambda>v. v) {} vs
          in if result = [] then Inl CronEmpty else Inr (sort result))"

definition parseCronField :: "string \<Rightarrow> int \<Rightarrow> int \<Rightarrow> int list result" where
  "parseCronField field lo hi =
     (if field = ''*'' then Inr (cronRange lo hi)
      else if has_prefix field ''*/'' then parseCronStep (drop 2 field) lo hi
      else parseCronParts field lo hi)"

definition parseCron :: "string \<Rightarrow> cronFields result" where
  "parseCron expr =
     (case split_fields expr of
        [f0, f1, f2, f3, f4] \<Rightarrow>
          (case parseCronField f0 0 59 of Inl e \<Rightarrow> Inl e | Inr mins \<Rightarrow>
          (case parseCronField f1 0 23 of Inl e \<Rightarrow> Inl e | Inr hs \<Rightarrow>
          (case parseCronField f2 1 31 of Inl e \<Rightarrow> Inl e | Inr ds \<Rightarrow>
          (case parseCronField f3 1 12 of Inl e \<Rightarrow> Inl e | Inr ms \<Rightarrow>
          (case parseCronField f4 0 6 of Inl e \<Rightarrow> Inl e | Inr ws \<Rightarrow>
             Inr \<lparr>minutes = mins, hours = hs, doms = ds, months = ms, dows = ws\<rparr>)))))
      | fs \<Rightarrow> Inl (CronFieldCount (length fs)))"

definition isWildcard :: "int list \<Rightarrow> int \<Rightarrow> int \<Rightarrow> bool" where
  "isWildcard values lo hi \<longleftrightarrow>
     (case values of
        [] \<Rightarrow> False
      | v # _ \<Rightarrow> int (length values) = hi - lo + 1 \<and> v = lo \<and> last values = hi)"

section \<open>The next run\<close>

definition cron_day_match :: "cronFields \<Rightarrow> int \<Rightarrow> int \<Rightarrow> bool" where
  "cron_day_match f day wday =
     (let domWildcard = isWildcard (doms f) 1 31; dowWildcard = isWildcard (dows f) 0 6
      in if domWildcard \<and> dowWildcard then True
         else if domWildcard \<and> \<not> dowWildcard then wday \<in> set (dows f)
         else if \<not> domWildcard \<and> dowWildcard then day \<in> set (doms f)
         else day \<in> set (doms f) \<or> wday \<in> set (dows f))"

definition cron_day_times :: "cronFields \<Rightarrow> location \<Rightarrow> int \<Rightarrow> int \<Rightarrow> int \<Rightarrow> int list" where
  "cron_day_times f loc y mo d =
     concat (map (\<lambda>h. map (\<lambda>m. time_date loc y mo d h m 0 0) (minutes f)) (hours f))"

fun cron_search :: "cronFields \<Rightarrow> location \<Rightarrow> int \<Rightarrow> int \<Rightarrow> int list \<Rightarrow> int option" where
  "cron_search f loc now candidate [] = None"
| "cron_search f loc now candidate (day # days) =
     (let checkDate = add_days loc candidate day in
      case date_of loc checkDate of Civil y mo d \<Rightarrow>
        if mo \<notin> set (months f) then cron_search f loc now candidate days
        else if \<not> cron_day_match f d (weekday_of loc checkDate) then
          cron_search f loc now candidate days
        else case find (\<lambda>t. now < t) (cron_day_times f loc y mo d) of
          Some t \<Rightarrow> Some t
        | None \<Rightarrow> cron_search f loc now candidate days)"

definition maxCronLookaheadDays :: nat where
  "maxCronLookaheadDays = 366"

definition cron_candidate :: "int \<Rightarrow> int" where
  "cron_candidate now = now - now mod minute + minute"

definition nextCronRun :: "string \<Rightarrow> int \<Rightarrow> location \<Rightarrow> int result" where
  "nextCronRun expr now loc =
     (case parseCron expr of
        Inl e \<Rightarrow> Inl e
      | Inr f \<Rightarrow>
          (case cron_search f loc now (cron_candidate now) (map int [0 ..< maxCronLookaheadDays]) of
             Some t \<Rightarrow> Inr t
           | None \<Rightarrow> Inl NoCronMatch))"

definition nextDaily :: "string \<Rightarrow> int \<Rightarrow> location \<Rightarrow> int result" where
  "nextDaily timeOfDay now loc =
     (case parseTimeOfDay timeOfDay of
        Inl e \<Rightarrow> Inl e
      | Inr (h, m) \<Rightarrow>
          (case date_of loc now of Civil y mo d \<Rightarrow>
             let next = time_date loc y mo d h m 0 0
             in Inr (if \<not> next > now then add_days loc next 1 else next)))"

definition nextWeekly :: "int \<Rightarrow> string \<Rightarrow> int \<Rightarrow> location \<Rightarrow> int result" where
  "nextWeekly targetDay timeOfDay now loc =
     (case parseTimeOfDay timeOfDay of
        Inl e \<Rightarrow> Inl e
      | Inr (h, m) \<Rightarrow>
          (case date_of loc now of Civil y mo d \<Rightarrow>
             let next = time_date loc y mo d h m 0 0;
                 daysAhead = targetDay - weekday_of loc now;
                 daysAhead' = (if daysAhead < 0 \<or> (daysAhead = 0 \<and> \<not> next > now)
                               then daysAhead + 7 else daysAhead)
             in Inr (add_days loc next daysAhead')))"

definition nextRun ::
    "(string \<Rightarrow> string) \<Rightarrow> (string \<Rightarrow> location option) \<Rightarrow> schedule_spec \<Rightarrow> int \<Rightarrow> int result" where
  "nextRun ul load s now =
     (case load (Timezone s) of
        None \<Rightarrow> Inl (InvalidTimezone (Timezone s))
      | Some loc \<Rightarrow>
          (case Kind s of
             ScheduleInterval \<Rightarrow> Inr (now + everyDuration s)
           | ScheduleDaily \<Rightarrow> nextDaily (TimeOfDay s) now loc
           | ScheduleWeekly \<Rightarrow>
               nextWeekly (case validDayOfWeek (to_lower ul (DayOfWeek s)) of Some d \<Rightarrow> d | None \<Rightarrow> 0)
                 (TimeOfDay s) now loc
           | ScheduleCron \<Rightarrow> nextCronRun (Cron s) now loc
           | OtherKind k \<Rightarrow> Inl (UnknownKind k)))"

section \<open>Validation\<close>

definition check_time_of_day :: "string \<Rightarrow> schedule_error option" where
  "check_time_of_day t =
     (if t = [] then Some MissingTimeOfDay
      else case parseTimeOfDay t of Inl e \<Rightarrow> Some e | Inr _ \<Rightarrow> None)"

definition validate_kind :: "(string \<Rightarrow> string) \<Rightarrow> schedule_spec \<Rightarrow> schedule_error option" where
  "validate_kind ul s =
     (case Kind s of
        ScheduleInterval \<Rightarrow>
          (if Every s \<noteq> [] then
             (case parseEveryDuration (Every s) of Inl e \<Rightarrow> Some e | Inr _ \<Rightarrow> None)
           else None)
      | ScheduleDaily \<Rightarrow> check_time_of_day (TimeOfDay s)
      | ScheduleWeekly \<Rightarrow>
          (if DayOfWeek s = [] then Some MissingDayOfWeek
           else if validDayOfWeek (to_lower ul (DayOfWeek s)) = None
           then Some (InvalidDayOfWeek (DayOfWeek s))
           else check_time_of_day (TimeOfDay s))
      | ScheduleCron \<Rightarrow>
          (if Cron s = [] then Some MissingCron
           else case parseCron (Cron s) of Inl e \<Rightarrow> Some InvalidCron | Inr _ \<Rightarrow> None)
      | OtherKind k \<Rightarrow> Some (UnknownKind k))"

definition validateSchedule ::
    "(string \<Rightarrow> string) \<Rightarrow> (string \<Rightarrow> location option) \<Rightarrow> schedule_spec \<Rightarrow> schedule_error option" where
  "validateSchedule ul load s =
     (case validate_kind ul s of
        Some e \<Rightarrow> Some e
      | None \<Rightarrow>
          if Every s \<noteq> [] \<and> Kind s \<noteq> ScheduleInterval then Some EveryNotInterval
          else if Timezone s = [] then Some MissingTimezone
          else if load (Timezone s) = None then Some (InvalidTimezone (Timezone s))
          else None)"

section \<open>Derived limits\<close>

definition defaultTimeoutFor :: "schedule_spec \<Rightarrow> int" where
  "defaultTimeoutFor spec =
     (case Kind spec of
        ScheduleInterval \<Rightarrow>
          let interval = everyDuration spec;
              timeout = f_trunc (f_mul (f_of_int interval) (fl53 (8 / 10)));
              t1 = (if timeout > 1 * hour then 1 * hour else timeout)
          in if t1 < 1 * minute then 1 * minute else t1
      | _ \<Rightarrow> 30 * minute)"

definition intervalExecLimitPct :: int where "intervalExecLimitPct = 80"
definition minExecutionLimit :: int where "minExecutionLimit = 5 * minute"

text \<open>The interval branch of \<open>executionTimeLimit\<close>, before it is printed.\<close>

definition interval_exec_limit :: "int \<Rightarrow> int" where
  "interval_exec_limit d =
     (let limit = go_div (i64 (d * intervalExecLimitPct)) 100;
          limit1 = (if limit < minExecutionLimit then minExecutionLimit else limit)
      in if limit1 > d then d else limit1)"

text \<open>\<open>Duration.Seconds\<close> is a float: whole seconds plus the fraction.\<close>

definition duration_seconds :: "int \<Rightarrow> rat" where
  "duration_seconds d =
     fl53 (f_of_int (go_div d second) + f_div (f_of_int (go_mod d second)) (f_of_int 1000000000))"

definition durationToISO8601 :: "int \<Rightarrow> string" where
  "durationToISO8601 d =
     (if d \<le> 0 then ''PT0S''
      else
        let totalSec = f_trunc (duration_seconds d);
            hs = totalSec div 3600;
            mins = totalSec mod 3600 div 60;
            secs = totalSec mod 60
        in if hs = 0 \<and> mins = 0 \<and> secs = 0 then ''PT0S''
           else ''PT'' @
             (if hs > 0 then dec_int hs @ ''H'' else []) @
             (if mins > 0 then dec_int mins @ ''M'' else []) @
             (if secs > 0 then dec_int secs @ ''S'' else []))"

definition executionTimeLimit :: "schedule_spec \<Rightarrow> string" where
  "executionTimeLimit spec =
     (case Kind spec of
        ScheduleInterval \<Rightarrow> durationToISO8601 (interval_exec_limit (everyDuration spec))
      | ScheduleDaily \<Rightarrow> ''PT2H''
      | ScheduleWeekly \<Rightarrow> ''PT2H''
      | ScheduleCron \<Rightarrow> ''PT2H''
      | OtherKind _ \<Rightarrow> ''PT1H'')"

definition observesDST :: "location \<Rightarrow> int \<Rightarrow> bool" where
  "observesDST loc now =
     (let y = cyear (date_of loc now);
          jan = time_date loc y 1 15 12 0 0 0;
          jul = time_date loc y 7 15 12 0 0 0
      in fst (loc (jan div second)) \<noteq> fst (loc (jul div second)))"

datatype schedule_warning = TimezoneDiffers string string | ObservesDST string

definition scheduleWarnings ::
    "(string \<Rightarrow> location option) \<Rightarrow> string \<Rightarrow> int \<Rightarrow> schedule_spec \<Rightarrow> schedule_warning list" where
  "scheduleWarnings load localName now spec =
     (if Kind spec \<noteq> ScheduleInterval \<and> Timezone spec \<noteq> [] then
        (if localName \<noteq> [] \<and> localName \<noteq> Timezone spec
         then [TimezoneDiffers (Timezone spec) localName] else []) @
        (case load (Timezone spec) of
           Some loc \<Rightarrow> if observesDST loc now then [ObservesDST (Timezone spec)] else []
         | None \<Rightarrow> [])
      else [])"

section \<open>Cron fields\<close>

definition wf_field :: "int \<Rightarrow> int \<Rightarrow> int list \<Rightarrow> bool" where
  "wf_field lo hi vs \<longleftrightarrow> vs \<noteq> [] \<and> sorted_wrt (<) vs \<and> set vs \<subseteq> {lo..hi}"

lemma wf_cronRange: "lo \<le> hi \<Longrightarrow> wf_field lo hi (cronRange lo hi)"
  by (auto simp: wf_field_def cronRange_def sorted_wrt_map intro: sorted_wrt_mono_rel [OF _ sorted_wrt_upt])

lemma set_cronRange: "set (cronRange lo hi) = {lo..hi}"
proof
  show "{lo..hi} \<subseteq> set (cronRange lo hi)"
  proof
    fix x assume "x \<in> {lo..hi}"
    then have "x = lo + int (nat (x - lo))" "nat (x - lo) \<in> {0 ..< nat (hi - lo + 1)}" by auto
    then show "x \<in> set (cronRange lo hi)" unfolding cronRange_def by (metis image_eqI set_map set_upt)
  qed
qed (auto simp: cronRange_def)

text \<open>Without wrap-around the step loop lists every \<open>step\<close>-th value.\<close>

lemma cron_step_loop_spec:
  assumes "0 \<le> i" "1 \<le> step" "i + step < 2 ^ 63" "hi < 2 ^ 62" "nat (hi - i + 1) < n"
  shows "\<exists>vs. cron_step_loop n i hi step = Some vs \<and> sorted_wrt (<) vs \<and> (i \<le> hi \<longrightarrow> vs \<noteq> []) \<and>
              set vs = {x. i \<le> x \<and> x \<le> hi \<and> step dvd (x - i)}"
  using assms
proof (induction n arbitrary: i)
  case (Suc n)
  show ?case
  proof (cases "i \<le> hi")
    case False
    then show ?thesis by auto
  next
    case True
    have w: "i64 (i + step) = i + step" using Suc.prems by (intro i64_small) simp
    let ?S = "{x. i + step \<le> x \<and> x \<le> hi \<and> step dvd (x - (i + step))}"
    have "\<exists>vs. cron_step_loop n (i + step) hi step = Some vs \<and> sorted_wrt (<) vs \<and> set vs = ?S"
    proof (cases "i + step \<le> hi")
      case True
      then show ?thesis using Suc.IH [of "i + step"] Suc.prems by fastforce
    next
      case False
      moreover have "0 < n" using Suc.prems(5) \<open>i \<le> hi\<close> by linarith
      then obtain k where "n = Suc k" by (cases n) auto
      ultimately show ?thesis by auto
    qed
    then obtain vs where vs: "cron_step_loop n (i + step) hi step = Some vs" "sorted_wrt (<) vs"
      "set vs = ?S" by blast
    have "step dvd (x - i) \<longleftrightarrow> step dvd (x - (i + step))" for x
      using dvd_add_right_iff [of step "- step" "x - i"] by (simp add: algebra_simps)
    moreover have "i + step \<le> x" if "step dvd (x - i)" "i \<le> x" "x \<noteq> i" for x
      using that Suc.prems(2) zdvd_imp_le [of step "x - i"] by linarith
    ultimately have "insert i ?S = {x. i \<le> x \<and> x \<le> hi \<and> step dvd (x - i)}"
      using True Suc.prems(2) by force
    with vs True w Suc.prems(2) show ?thesis by auto
  qed
qed simp

lemma parseCronInt_range: "parseCronInt s = Inr v \<Longrightarrow> in_i64 v"
  by (auto simp: parseCronInt_def split: option.splits dest: atoi_range)

lemma parseCronStep_wf:
  assumes "parseCronStep st lo hi = Inr vs" "0 \<le> lo" "lo \<le> hi" "hi < 2 ^ 62"
    and "parseCronInt st = Inr step" "lo + step < 2 ^ 63"
  shows "wf_field lo hi vs"
proof -
  have "1 \<le> step" using assms(1,5) by (simp add: parseCronStep_def split: if_splits)
  moreover have "nat (hi - lo + 1) < cron_step_fuel lo hi"
    using assms(3) by (simp add: cron_step_fuel_def nat_add_distrib)
  ultimately obtain ws where "cron_step_loop (cron_step_fuel lo hi) lo hi step = Some ws"
    "sorted_wrt (<) ws" "ws \<noteq> []" "set ws = {x. lo \<le> x \<and> x \<le> hi \<and> step dvd (x - lo)}"
    using cron_step_loop_spec [of lo step hi "cron_step_fuel lo hi"] assms by blast
  then show ?thesis
    using assms(1,5) by (auto simp: parseCronStep_def wf_field_def split: if_splits)
qed

lemma parseCronPart_bounds: "parseCronPart part lo hi = Inr vs \<Longrightarrow> vs \<noteq> [] \<and> set vs \<subseteq> {lo..hi}"
  by (auto simp: parseCronPart_def parseCronRange_def set_cronRange
      split: if_splits sum.splits option.splits) (auto simp: cronRange_def)

lemma cron_parts_bounds: "cron_parts ps lo hi = Inr vs \<Longrightarrow> set vs \<subseteq> {lo..hi}"
proof (induction ps arbitrary: vs)
  case (Cons p ps)
  then obtain a b where "parseCronPart (trim_space p) lo hi = Inr a" "cron_parts ps lo hi = Inr b" "vs = a @ b"
    by (auto split: sum.splits)
  with Cons.IH parseCronPart_bounds show ?case by auto
qed simp

lemma sorted_distinct_strict: "sorted vs \<Longrightarrow> distinct vs \<Longrightarrow> sorted_wrt (<) (vs :: int list)"
  by (simp add: strict_sorted_iff)

lemma parseCronParts_wf:
  assumes "parseCronParts f lo hi = Inr vs"
  shows "wf_field lo hi vs"
proof -
  obtain ws where ws: "cron_parts (split_on (CHR '','') f) lo hi = Inr ws"
    and vs: "vs = sort (dedup_by (\<lambda>v. v) {} ws)" "dedup_by (\<lambda>v. v) {} ws \<noteq> []"
    using assms by (auto simp: parseCronParts_def Let_def split: sum.splits if_splits)
  have "set vs \<subseteq> {lo..hi}"
    using cron_parts_bounds [OF ws] dedup_by_subset [of "\<lambda>v. v" "{}" ws] vs by auto
  moreover have "sorted_wrt (<) vs"
    using dedup_by_distinct [of "\<lambda>v. v" "{}" ws] vs by (simp add: sorted_distinct_strict)
  moreover have "vs \<noteq> []"
    using vs by (metis list.size(3) length_0_conv length_sort)
  ultimately show ?thesis by (simp add: wf_field_def)
qed

lemma parseCronField_wf:
  assumes "parseCronField field lo hi = Inr vs" "0 \<le> lo" "lo \<le> hi" "hi < 2 ^ 62"
    and no_wrap: "\<And>step. parseCronInt (drop 2 field) = Inr step \<Longrightarrow> lo + step < 2 ^ 63"
  shows "wf_field lo hi vs"
proof (cases "field \<noteq> ''*'' \<and> has_prefix field ''*/''")
  case True
  then have st: "parseCronStep (drop 2 field) lo hi = Inr vs"
    using assms(1) by (simp add: parseCronField_def)
  then obtain step where "parseCronInt (drop 2 field) = Inr step"
    by (auto simp: parseCronStep_def split: sum.splits)
  with st no_wrap assms(2-4) show ?thesis by (blast intro: parseCronStep_wf)
next
  case False
  with assms show ?thesis
    by (auto simp: parseCronField_def wf_cronRange parseCronParts_wf split: if_splits)
qed

lemma parseCronField_wf0:
  "parseCronField field 0 hi = Inr vs \<Longrightarrow> 0 \<le> hi \<Longrightarrow> hi < 2 ^ 62 \<Longrightarrow> wf_field 0 hi vs"
  by (rule parseCronField_wf) (auto dest: parseCronInt_range simp: in_i64_def)

text \<open>With lower bound 1 the increment can wrap for one step value only.\<close>

definition wrapped_field :: "int list" where
  "wrapped_field = [1, - (2 ^ 63), - 1]"

lemma cron_step_loop_wrap:
  assumes "0 \<le> hi" "hi < 2 ^ 62"
  shows "1 \<le> hi \<Longrightarrow> cron_step_loop (Suc (Suc (Suc (Suc n)))) 1 hi (2 ^ 63 - 1) = Some wrapped_field"
  using assms by (simp add: i64_def wrapped_field_def)

lemma parseCronField_wf1:
  assumes "parseCronField field 1 hi = Inr vs" "1 \<le> hi" "hi < 2 ^ 62"
  shows "wf_field 1 hi vs \<or> vs = wrapped_field"
proof (cases "field \<noteq> ''*'' \<and> has_prefix field ''*/'' \<and> parseCronInt (drop 2 field) = Inr (2 ^ 63 - 1)")
  case True
  have "cron_step_fuel 1 hi = Suc (Suc (Suc (Suc (Suc (nat (hi - 1))))))"
    by (simp add: cron_step_fuel_def)
  then have "cron_step_loop (cron_step_fuel 1 hi) 1 hi (2 ^ 63 - 1) = Some wrapped_field"
    using cron_step_loop_wrap [of hi "Suc (nat (hi - 1))"] assms(2,3) by (simp only:)
  with True assms(1) show ?thesis by (simp add: parseCronField_def parseCronStep_def)
next
  case False
  show ?thesis
  proof (cases "field \<noteq> ''*'' \<and> has_prefix field ''*/''")
    case True
    then have "1 + step < 2 ^ 63" if "parseCronInt (drop 2 field) = Inr step" for step
      using False that parseCronInt_range [OF that] by (auto simp: in_i64_def)
    with parseCronField_wf [OF assms(1)] assms(2,3) show ?thesis by simp
  next
    case False
    with assms show ?thesis
      by (auto simp: parseCronField_def wf_cronRange parseCronParts_wf split: if_splits)
  qed
qed

lemma parseCron_cases:
  assumes "parseCron expr = Inr f"
  obtains f0 f1 f2 f3 f4 where
    "parseCronField f0 0 59 = Inr (minutes f)" "parseCronField f1 0 23 = Inr (hours f)"
    "parseCronField f2 1 31 = Inr (doms f)" "parseCronField f3 1 12 = Inr (months f)"
    "parseCronField f4 0 6 = Inr (dows f)"
  using assms by (auto simp: parseCron_def split: list.splits sum.splits)

lemma parseCron_fields:
  assumes "parseCron expr = Inr f"
  shows "wf_field 0 59 (minutes f) \<and> wf_field 0 23 (hours f) \<and> wf_field 0 6 (dows f) \<and>
         (wf_field 1 31 (doms f) \<or> doms f = wrapped_field) \<and>
         (wf_field 1 12 (months f) \<or> months f = wrapped_field)"
proof (rule parseCron_cases [OF assms])
  fix f0 f1 f2 f3 f4
  assume "parseCronField f0 0 59 = Inr (minutes f)" "parseCronField f1 0 23 = Inr (hours f)"
    "parseCronField f2 1 31 = Inr (doms f)" "parseCronField f3 1 12 = Inr (months f)"
    "parseCronField f4 0 6 = Inr (dows f)"
  then show ?thesis
    using parseCronField_wf0 [of f0 59] parseCronField_wf0 [of f1 23] parseCronField_wf0 [of f4 6]
      parseCronField_wf1 [of f2 31] parseCronField_wf1 [of f3 12] by simp
qed

section \<open>Searching for the next cron run\<close>

text \<open>What it means for an instant to match an expression, independently of the search.\<close>

definition cron_day_ok :: "cronFields \<Rightarrow> int \<Rightarrow> bool" where
  "cron_day_ok f n \<longleftrightarrow>
     (case civil_of_day n of Civil y mo d \<Rightarrow>
        mo \<in> set (months f) \<and> cron_day_match f d (weekday_of_day n))"

definition cron_matches :: "cronFields \<Rightarrow> location \<Rightarrow> int \<Rightarrow> bool" where
  "cron_matches f loc t \<longleftrightarrow>
     t mod second = 0 \<and> sec_of_day loc t mod 60 = 0 \<and>
     hour_of loc t \<in> set (hours f) \<and> minute_of loc t \<in> set (minutes f) \<and>
     cron_day_ok f (local_day loc t)"

definition block_secs :: "int list \<Rightarrow> int list \<Rightarrow> int list" where
  "block_secs hs ms = concat (map (\<lambda>h. map (\<lambda>m. h * 3600 + m * 60) ms) hs)"

definition day_secs :: "cronFields \<Rightarrow> int list" where
  "day_secs f = block_secs (hours f) (minutes f)"

definition wf_clock :: "cronFields \<Rightarrow> bool" where
  "wf_clock f \<longleftrightarrow> wf_field 0 59 (minutes f) \<and> wf_field 0 23 (hours f)"

lemma set_block_secs: "set (block_secs hs ms) = {h * 3600 + m * 60 | h m. h \<in> set hs \<and> m \<in> set ms}"
  by (auto simp: block_secs_def)

lemma sorted_block_secs:
  assumes "sorted_wrt (<) ms" "set ms \<subseteq> {0..59}" "sorted_wrt (<) hs"
  shows "sorted_wrt (<) (block_secs hs ms)"
  using assms(3)
proof (induction hs)
  case (Cons h hs)
  have "sorted_wrt (<) (map (\<lambda>m. h * 3600 + m * 60) ms)"
    using assms(1) by (simp add: sorted_wrt_map)
  moreover have "h * 3600 + m * 60 < s" if "m \<in> set ms" "s \<in> set (block_secs hs ms)" for m s
  proof -
    from that(2) obtain h' m' where "s = h' * 3600 + m' * 60" "h' \<in> set hs" "m' \<in> set ms"
      by (auto simp: set_block_secs)
    moreover from this have "h < h'" using Cons.prems by simp
    moreover have "m \<le> 59" "0 \<le> m'" using that(1) \<open>m' \<in> set ms\<close> assms(2) by auto
    ultimately show ?thesis by linarith
  qed
  ultimately show ?case
    using Cons by (auto simp: block_secs_def sorted_wrt_append)
qed (simp add: block_secs_def)

lemma day_secs_range:
  assumes "wf_clock f" "s \<in> set (day_secs f)"
  obtains h m where "s = h * 3600 + m * 60" "h \<in> set (hours f)" "m \<in> set (minutes f)"
    "0 \<le> h" "h \<le> 23" "0 \<le> m" "m \<le> 59"
  using assms by (fastforce simp: wf_clock_def wf_field_def day_secs_def set_block_secs)

lemma cron_matches_iff:
  assumes "fixed_zone loc off" "wf_clock f"
  shows "cron_matches f loc t \<longleftrightarrow>
    cron_day_ok f (local_day loc t) \<and>
    (\<exists>s \<in> set (day_secs f). t = local_instant off (local_day loc t) s)"
proof
  assume m: "cron_matches f loc t"
  then have "t = local_instant off (local_day loc t) (hour_of loc t * 3600 + minute_of loc t * 60)"
    using instant_split [OF assms(1), of t] clock_fields [of loc t] by (simp add: cron_matches_def)
  moreover have "hour_of loc t * 3600 + minute_of loc t * 60 \<in> set (day_secs f)"
    using m by (auto simp: cron_matches_def day_secs_def set_block_secs)
  ultimately show "cron_day_ok f (local_day loc t) \<and>
    (\<exists>s \<in> set (day_secs f). t = local_instant off (local_day loc t) s)"
    using m by (auto simp: cron_matches_def)
next
  assume r: "cron_day_ok f (local_day loc t) \<and>
    (\<exists>s \<in> set (day_secs f). t = local_instant off (local_day loc t) s)"
  then obtain s where s: "s \<in> set (day_secs f)" "t = local_instant off (local_day loc t) s" by blast
  obtain h m where hm: "s = h * 3600 + m * 60" "h \<in> set (hours f)" "m \<in> set (minutes f)"
    "0 \<le> h" "h \<le> 23" "0 \<le> m" "m \<le> 59" by (rule day_secs_range [OF assms(2) s(1)])
  then have "0 \<le> s" "s < 86400" by linarith+
  then have sod: "sec_of_day loc t = s"
    using s(2) local_instant_sod [OF assms(1), of s "local_day loc t"] by metis
  have "s mod 60 = 0" "s div 3600 = h" "s mod 3600 = m * 60"
    using hm by (simp_all add: mod_mult_self3 int_div_pos_eq [of s 3600 h "m * 60"] int_mod_pos_eq [of s 3600 h "m * 60"])
  moreover have "t mod second = 0" by (subst s(2)) (simp add: local_instant_def)
  ultimately show "cron_matches f loc t"
    using r hm sod by (simp add: cron_matches_def hour_of_def minute_of_def)
qed

text \<open>One iteration of the day loop, over day numbers.\<close>

definition cron_hit :: "cronFields \<Rightarrow> int \<Rightarrow> int \<Rightarrow> int \<Rightarrow> int option" where
  "cron_hit f off now n =
     (if cron_day_ok f n then find (\<lambda>t. now < t) (map (local_instant off n) (day_secs f)) else None)"

lemma cron_day_times_eq:
  assumes "fixed_zone loc off" "civil_of_day n = Civil y mo d"
  shows "cron_day_times f loc y mo d = map (local_instant off n) (day_secs f)"
  by (simp add: cron_day_times_def day_secs_def block_secs_def map_concat comp_def
      time_date_same_day [OF assms])

lemma cron_search_step:
  assumes "fixed_zone loc off"
  shows "cron_search f loc now cand (k # ks) =
    (case cron_hit f off now (local_day loc cand + k) of
       Some t \<Rightarrow> Some t | None \<Rightarrow> cron_search f loc now cand ks)"
proof -
  have day: "local_day loc (add_days loc cand k) = local_day loc cand + k"
    by (simp add: add_days_fixed [OF assms] local_day_add [OF assms])
  obtain y mo d where c: "civil_of_day (local_day loc cand + k) = Civil y mo d"
    by (cases "civil_of_day (local_day loc cand + k)")
  show ?thesis
    by (simp add: date_of_def day c Let_def weekday_of_def cron_hit_def cron_day_ok_def
        cron_day_times_eq [OF assms c])
qed

declare cron_search.simps(2) [simp del]

lemma cron_search_spec:
  assumes "fixed_zone loc off"
  shows "case cron_search f loc now cand ks of
      None \<Rightarrow> \<forall>k \<in> set ks. cron_hit f off now (local_day loc cand + k) = None
    | Some t \<Rightarrow> \<exists>xs k ys. ks = xs @ k # ys \<and> cron_hit f off now (local_day loc cand + k) = Some t \<and>
                 (\<forall>j \<in> set xs. cron_hit f off now (local_day loc cand + j) = None)"
proof (induction ks)
  case (Cons k ks)
  show ?case
  proof (cases "cron_hit f off now (local_day loc cand + k)")
    case None
    show ?thesis
    proof (cases "cron_search f loc now cand ks")
      case (Some t)
      with Cons.IH obtain xs j ys where "ks = xs @ j # ys"
        "cron_hit f off now (local_day loc cand + j) = Some t"
        "\<forall>j \<in> set xs. cron_hit f off now (local_day loc cand + j) = None" by auto
      with None Some show ?thesis
        by (auto simp: cron_search_step [OF assms] intro!: exI [of _ "k # xs"])
    qed (use None Cons.IH in \<open>simp add: cron_search_step [OF assms]\<close>)
  next
    case (Some t)
    then show ?thesis
      by (auto simp: cron_search_step [OF assms] intro!: exI [of _ "[]"])
  qed
qed simp

lemma cron_hit_None:
  "cron_hit f off now n = None \<Longrightarrow> cron_day_ok f n \<Longrightarrow> s \<in> set (day_secs f) \<Longrightarrow>
   local_instant off n s \<le> now"
  by (auto simp: cron_hit_def find_None_iff)

lemma cron_hit_Some:
  assumes "cron_hit f off now n = Some t" "wf_clock f"
  shows "cron_day_ok f n \<and> now < t \<and> (\<exists>s \<in> set (day_secs f). t = local_instant off n s) \<and>
         (\<forall>s \<in> set (day_secs f). now < local_instant off n s \<longrightarrow> t \<le> local_instant off n s)"
proof -
  have ok: "cron_day_ok f n" and fd: "find (\<lambda>t. now < t) (map (local_instant off n) (day_secs f)) = Some t"
    using assms(1) by (simp_all add: cron_hit_def split: if_splits)
  obtain xs ys where split: "map (local_instant off n) (day_secs f) = xs @ t # ys" "now < t"
    "\<forall>u \<in> set xs. \<not> now < u" using find_Some_split [OF fd] by blast
  have "sorted_wrt (<) (day_secs f)"
    using assms(2) unfolding day_secs_def by (intro sorted_block_secs) (auto simp: wf_clock_def wf_field_def)
  then have "sorted_wrt (<) (xs @ t # ys)"
    unfolding split(1) [symmetric] by (simp add: sorted_wrt_map local_instant_less)
  then have least: "t \<le> u" if "u \<in> set (xs @ t # ys)" "now < u" for u
    using that split(3) by (auto simp: sorted_wrt_append)
  have "local_instant off n s \<in> set (xs @ t # ys)" if "s \<in> set (day_secs f)" for s
    unfolding split(1) [symmetric] using that by simp
  moreover have "t \<in> set (map (local_instant off n) (day_secs f))" unfolding split(1) by simp
  ultimately show ?thesis using ok split(2) least by auto
qed

text \<open>Every matching instant after \<open>now\<close> is at or after the candidate minute.\<close>

lemma match_after_candidate:
  assumes "fixed_zone loc off" "off mod 60 = 0" "cron_matches f loc t" "now < t"
  shows "cron_candidate now \<le> t"
proof -
  have "t = local_instant off (local_day loc t) (hour_of loc t * 3600 + minute_of loc t * 60)"
    using assms(3) instant_split [OF assms(1), of t] clock_fields [of loc t] by (simp add: cron_matches_def)
  moreover obtain j where "off = 60 * j" using assms(2) by (metis mod_eq_0_iff_dvd dvdE)
  ultimately have "minute dvd t"
    by (auto simp: local_instant_def minute_def second_def intro!: dvdI
        [of _ _ "(local_day loc t - epoch_day) * 1440 + hour_of loc t * 60 + minute_of loc t - j"])
  then obtain q where t: "t = minute * q" by (rule dvdE)
  have "now div minute < q" using assms(4) t by (simp add: minute_def second_def)
  moreover have "cron_candidate now = minute * (now div minute + 1)"
    unfolding cron_candidate_def by (simp add: minus_mod_eq_mult_div algebra_simps)
  ultimately show ?thesis using t by (simp add: minute_def second_def)
qed

end
