(* ===== verification/ScheduleRuns.thy ===== *)
theory ScheduleRuns
  imports Schedule
begin

text \<open>
  Theorems about the next-run computation and the limits of \<open>Schedule\<close>. The next-run theorems
  are about zones without transitions, with an offset of whole minutes; \<open>cron_matches\<close> says
  when an instant satisfies an expression, independently of the search.
\<close>

section \<open>Cron\<close>

lemma parseCron_wf_clock: "parseCron expr = Inr f \<Longrightarrow> wf_clock f"
  using parseCron_fields by (simp add: wf_clock_def)

lemma upt_split_prefix:
  assumes "map int [0 ..< n] = xs @ k # ys"
  shows "set xs = {0 ..< k}" "0 \<le> k" "k < int n"
proof -
  have len: "length xs < n"
    using arg_cong [OF assms, of length] by simp
  have "k = map int [0 ..< n] ! length xs" using assms by (simp add: nth_append)
  then have k: "k = int (length xs)" using len by simp
  have "xs = take (length xs) (map int [0 ..< n])" using assms by simp
  then have "set xs = int ` {0 ..< length xs}"
    using len by (metis less_imp_le min.absorb1 plus_nat.add_0 set_map set_upt take_map take_upt)
  then show "set xs = {0 ..< k}" using k by (simp add: image_int_atLeastLessThan)
  show "0 \<le> k" "k < int n" using k len by simp_all
qed

lemma hit_excludes:
  assumes "fixed_zone loc off" "wf_clock f" "cron_matches f loc u" "now < u"
  shows "cron_hit f off now (local_day loc u) \<noteq> None"
proof
  assume none: "cron_hit f off now (local_day loc u) = None"
  obtain s where "s \<in> set (day_secs f)" "u = local_instant off (local_day loc u) s"
    "cron_day_ok f (local_day loc u)"
    using assms(3) by (auto simp: cron_matches_iff [OF assms(1,2)])
  with cron_hit_None [OF none] assms(4) show False by (metis not_less)
qed

lemma hit_is_match:
  assumes "fixed_zone loc off" "wf_clock f" "cron_hit f off now n = Some t"
  shows "cron_matches f loc t \<and> local_day loc t = n"
proof -
  obtain s where s: "s \<in> set (day_secs f)" "t = local_instant off n s" "cron_day_ok f n"
    using cron_hit_Some [OF assms(3,2)] by blast
  obtain h m where "s = h * 3600 + m * 60" "0 \<le> h" "h \<le> 23" "0 \<le> m" "m \<le> 59"
    by (rule day_secs_range [OF assms(2) s(1)])
  then have "local_day loc t = n"
    unfolding s(2) by (intro local_instant_day [OF assms(1)]) linarith+
  with s show ?thesis by (auto simp: cron_matches_iff [OF assms(1,2)])
qed

lemma match_day_after_candidate:
  assumes "fixed_zone loc off" "off mod 60 = 0" "cron_matches f loc u" "now < u"
  shows "local_day loc (cron_candidate now) \<le> local_day loc u"
  by (rule local_day_mono [OF assms(1) match_after_candidate [OF assms]])

text \<open>C18: The instant \<open>nextCronRun\<close> returns is after \<open>now\<close>, satisfies every field of the
  parsed expression on the local clock, and no earlier instant after \<open>now\<close> does.\<close>
theorem nextCronRun_least:
  assumes "fixed_zone loc off" "off mod 60 = 0" "nextCronRun expr now loc = Inr t"
  shows "\<exists>f. parseCron expr = Inr f \<and> now < t \<and> cron_matches f loc t \<and>
             (\<forall>u. now < u \<and> u < t \<longrightarrow> \<not> cron_matches f loc u)"
proof -
  let ?d = "local_day loc (cron_candidate now)"
  obtain f where f: "parseCron expr = Inr f"
    and s: "cron_search f loc now (cron_candidate now) (map int [0 ..< maxCronLookaheadDays]) = Some t"
    using assms(3) by (auto simp: nextCronRun_def split: sum.splits option.splits)
  note wf = parseCron_wf_clock [OF f]
  obtain xs k ys where k: "map int [0 ..< maxCronLookaheadDays] = xs @ k # ys"
    "cron_hit f off now (?d + k) = Some t" "\<forall>j \<in> set xs. cron_hit f off now (?d + j) = None"
    using cron_search_spec [OF assms(1), where f = f and now = now and cand = "cron_candidate now"
        and ks = "map int [0 ..< maxCronLookaheadDays]"] s
    by auto
  note hit = cron_hit_Some [OF k(2) wf] and m = hit_is_match [OF assms(1) wf k(2)]
  have "\<not> cron_matches f loc u" if u: "now < u" "u < t" for u
  proof
    assume cm: "cron_matches f loc u"
    have "?d \<le> local_day loc u" by (rule match_day_after_candidate [OF assms(1,2) cm u(1)])
    moreover have "local_day loc u \<le> ?d + k"
      using local_day_mono [OF assms(1), of u t] u m by simp
    moreover have "local_day loc u \<noteq> ?d + k"
      using cm u hit by (auto simp: cron_matches_iff [OF assms(1) wf])
    ultimately have "local_day loc u - ?d \<in> set xs" by (simp add: upt_split_prefix(1) [OF k(1)])
    with k(3) hit_excludes [OF assms(1) wf cm u(1)] show False by fastforce
  qed
  with f hit m show ?thesis by blast
qed

text \<open>An expression that has a matching instant within 366 local days of the candidate minute
  gets a next run, no later than that instant.\<close>
theorem nextCronRun_complete:
  assumes "fixed_zone loc off" "off mod 60 = 0" "parseCron expr = Inr f"
    and "cron_matches f loc u" "now < u"
    and "local_day loc u < local_day loc (cron_candidate now) + int maxCronLookaheadDays"
  shows "\<exists>t. nextCronRun expr now loc = Inr t \<and> t \<le> u"
proof -
  let ?d = "local_day loc (cron_candidate now)" and ?ks = "map int [0 ..< maxCronLookaheadDays]"
  note wf = parseCron_wf_clock [OF assms(3)]
  have "?d \<le> local_day loc u" by (rule match_day_after_candidate [OF assms(1,2,4,5)])
  then have j: "local_day loc u - ?d \<in> set ?ks"
    using assms(6) by (simp add: image_int_atLeastLessThan)
  note spec = cron_search_spec [OF assms(1), where f = f and now = now
      and cand = "cron_candidate now" and ks = ?ks]
  show ?thesis
  proof (cases "cron_search f loc now (cron_candidate now) ?ks")
    case None
    with spec have "\<forall>k \<in> set ?ks. cron_hit f off now (?d + k) = None" by simp
    from bspec [OF this j] hit_excludes [OF assms(1) wf assms(4,5)] show ?thesis by simp
  next
    case (Some t)
    then obtain xs k ys where k: "?ks = xs @ k # ys" "cron_hit f off now (?d + k) = Some t"
      "\<forall>j \<in> set xs. cron_hit f off now (?d + j) = None" using spec by auto
    have "t \<le> u"
    proof (rule ccontr)
      assume "\<not> t \<le> u"
      then have "local_day loc u \<le> ?d + k"
        using local_day_mono [OF assms(1), of u t] hit_is_match [OF assms(1) wf k(2)] by simp
      moreover have "local_day loc u \<noteq> ?d + k"
        using assms(4,5) \<open>\<not> t \<le> u\<close> cron_hit_Some [OF k(2) wf]
        by (auto simp: cron_matches_iff [OF assms(1) wf])
      ultimately have "local_day loc u - ?d \<in> set xs"
        using \<open>?d \<le> local_day loc u\<close> by (simp add: upt_split_prefix(1) [OF k(1)])
      with k(3) hit_excludes [OF assms(1) wf assms(4,5)] show False by fastforce
    qed
    then show ?thesis using Some assms(3) by (simp add: nextCronRun_def)
  qed
qed

section \<open>Daily and weekly schedules\<close>

lemma digit_val_bounds: "is_digit c \<Longrightarrow> 0 \<le> digit_val c \<and> digit_val c \<le> 9"
  by (auto simp: is_digit_def digit_val_def)

lemma parseTimeOfDay_range:
  "parseTimeOfDay s = Inr (h, m) \<Longrightarrow> 0 \<le> h \<and> h < 24 \<and> 0 \<le> m \<and> m < 60"
  by (auto simp: parseTimeOfDay_def parse_hour_digits_def
      split: option.splits prod.splits list.splits if_splits dest!: digit_val_bounds)

lemma day_window:
  assumes "fixed_zone loc off" "0 \<le> s" "s < 86400"
  shows "local_instant off (local_day loc now) s < now + 24 * hour"
    "now < local_instant off (local_day loc now) s + 24 * hour"
proof -
  have b: "0 \<le> sec_of_day loc now" "sec_of_day loc now \<le> 86399"
    using pos_mod_sign [of 86400 "local_secs loc now"] pos_mod_bound [of 86400 "local_secs loc now"]
    unfolding sec_of_day_def by simp_all
  define A where "A = ((local_day loc now - epoch_day) * 86400 - off) * 1000000000"
  have A: "local_instant off (local_day loc now) x = A + x * 1000000000" for x
    by (simp add: local_instant_def A_def second_def algebra_simps)
  have day: "24 * hour = 86400 * 1000000000" by (simp add: duration_defs)
  note facts = instant_bracket [OF assms(1), of now, unfolded A] b assms(2,3) second_def
  show "local_instant off (local_day loc now) s < now + 24 * hour"
    unfolding A day using facts by linarith
  show "now < local_instant off (local_day loc now) s + 24 * hour"
    unfolding A day using facts by linarith
qed

lemma add_days_instant:
  "fixed_zone loc off \<Longrightarrow> add_days loc (local_instant off n s) k = local_instant off (n + k) s"
  by (simp add: add_days_fixed local_instant_def algebra_simps)

lemma wall_clock:
  assumes "fixed_zone loc off" "0 \<le> h" "h < 24" "0 \<le> m" "m < 60"
  shows "local_day loc (local_instant off n (h * 3600 + m * 60)) = n"
    "hour_of loc (local_instant off n (h * 3600 + m * 60)) = h"
    "minute_of loc (local_instant off n (h * 3600 + m * 60)) = m"
proof -
  have r: "0 \<le> h * 3600 + m * 60" "h * 3600 + m * 60 < 86400" using assms(2-5) by linarith+
  show "local_day loc (local_instant off n (h * 3600 + m * 60)) = n"
    by (rule local_instant_day [OF assms(1) r])
  show "hour_of loc (local_instant off n (h * 3600 + m * 60)) = h"
    unfolding hour_of_def local_instant_sod [OF assms(1) r] using assms(2-5) by linarith
  show "minute_of loc (local_instant off n (h * 3600 + m * 60)) = m"
    unfolding minute_of_def local_instant_sod [OF assms(1) r] using assms(4,5)
    by (simp add: int_mod_pos_eq [of _ 3600 h "m * 60"])
qed

definition at_clock :: "location \<Rightarrow> string \<Rightarrow> int \<Rightarrow> bool" where
  "at_clock loc timeOfDay r \<longleftrightarrow> parseTimeOfDay timeOfDay = Inr (hour_of loc r, minute_of loc r)"

lemma at_clockI:
  "fixed_zone loc off \<Longrightarrow> parseTimeOfDay tod = Inr (h, m) \<Longrightarrow>
   at_clock loc tod (local_instant off n (h * 3600 + m * 60))"
  using wall_clock [of loc off h m n] parseTimeOfDay_range [of tod h m] by (simp add: at_clock_def)

lemma nextDaily_instant:
  assumes "fixed_zone loc off" "parseTimeOfDay tod = Inr (h, m)"
  shows "nextDaily tod now loc =
    Inr (local_instant off (local_day loc now +
           (if now < local_instant off (local_day loc now) (h * 3600 + m * 60) then 0 else 1))
         (h * 3600 + m * 60))"
proof -
  obtain y mo d where c: "civil_of_day (local_day loc now) = Civil y mo d"
    by (cases "civil_of_day (local_day loc now)")
  then show ?thesis
    using assms by (simp add: nextDaily_def date_of_def Let_def time_date_same_day [OF assms(1) c] add_days_instant)
qed

text \<open>The next daily run is the first instant after \<open>now\<close> at the requested clock time:
  strictly later, at most 24 hours away.\<close>
theorem nextDaily_within_a_day:
  assumes "fixed_zone loc off" "nextDaily tod now loc = Inr r"
  shows "at_clock loc tod r \<and> now < r \<and> r \<le> now + 24 * hour"
proof -
  obtain h m where p: "parseTimeOfDay tod = Inr (h, m)"
    using assms(2) by (auto simp: nextDaily_def split: sum.splits)
  note range = parseTimeOfDay_range [OF p]
  let ?s = "h * 3600 + m * 60" and ?n = "local_day loc now"
  have s: "0 \<le> ?s" "?s < 86400" using range by linarith+
  have shift: "local_instant off (?n + 1) ?s = local_instant off ?n ?s + 24 * hour"
    by (simp add: local_instant_def duration_defs)
  have r: "r = local_instant off (?n + (if now < local_instant off ?n ?s then 0 else 1)) ?s"
    using assms(2) nextDaily_instant [OF assms(1) p, of now] by simp
  show ?thesis
    using at_clockI [OF assms(1) p, of ?n] at_clockI [OF assms(1) p, of "?n + 1"]
      day_window [OF assms(1) s, of now] shift
    unfolding r by (cases "now < local_instant off ?n ?s") simp_all
qed

definition weekday_shift :: "int \<Rightarrow> int \<Rightarrow> bool \<Rightarrow> int" where
  "weekday_shift target today later =
     (if target - today < 0 \<or> (target - today = 0 \<and> \<not> later) then target - today + 7 else target - today)"

lemma nextWeekly_instant:
  assumes "fixed_zone loc off" "parseTimeOfDay tod = Inr (h, m)"
  shows "nextWeekly target tod now loc =
    Inr (local_instant off (local_day loc now +
           weekday_shift target (weekday_of loc now)
             (now < local_instant off (local_day loc now) (h * 3600 + m * 60)))
         (h * 3600 + m * 60))"
proof -
  obtain y mo d where c: "civil_of_day (local_day loc now) = Civil y mo d"
    by (cases "civil_of_day (local_day loc now)")
  then show ?thesis
    using assms
    by (simp add: nextWeekly_def date_of_def Let_def time_date_same_day [OF assms(1) c]
        add_days_instant weekday_shift_def)
qed

lemma weekday_shift_spec:
  assumes "0 \<le> target" "target < 7"
  shows "weekday_of_day (n + weekday_shift target (weekday_of_day n) later) = target"
    "0 \<le> weekday_shift target (weekday_of_day n) later" "weekday_shift target (weekday_of_day n) later \<le> 7"
    "weekday_shift target (weekday_of_day n) later = 0 \<Longrightarrow> later"
    "weekday_shift target (weekday_of_day n) later = 7 \<Longrightarrow> \<not> later"
proof -
  let ?w = "(n + 1) mod 7" and ?k = "weekday_shift target ((n + 1) mod 7) later"
  have w: "0 \<le> ?w" "?w < 7" by simp_all
  have "(n + ?k + 1) mod 7 = target"
  proof -
    have "n + 1 = (n + 1) div 7 * 7 + ?w" by simp
    then have "n + (target - ?w) + 1 = target + 7 * ((n + 1) div 7)"
      "n + (target - ?w + 7) + 1 = target + 7 * ((n + 1) div 7 + 1)"
      by (simp_all add: algebra_simps)
    then have "(n + (target - ?w) + 1) mod 7 = target" "(n + (target - ?w + 7) + 1) mod 7 = target"
      using assms by (simp_all only: mod_mult_self2) simp_all
    then show ?thesis by (simp add: weekday_shift_def)
  qed
  then show "weekday_of_day (n + weekday_shift target (weekday_of_day n) later) = target"
    by (simp add: weekday_of_day_def)
  show "0 \<le> weekday_shift target (weekday_of_day n) later" "weekday_shift target (weekday_of_day n) later \<le> 7"
    "weekday_shift target (weekday_of_day n) later = 0 \<Longrightarrow> later"
    "weekday_shift target (weekday_of_day n) later = 7 \<Longrightarrow> \<not> later"
    using assms w by (auto simp: weekday_shift_def weekday_of_day_def split: if_splits)
qed

text \<open>The next weekly run falls on the requested weekday at the requested clock time, strictly
  after \<open>now\<close> and at most seven days away.\<close>
theorem nextWeekly_within_a_week:
  assumes "fixed_zone loc off" "0 \<le> target" "target < 7" "nextWeekly target tod now loc = Inr r"
  shows "weekday_of loc r = target \<and> at_clock loc tod r \<and> now < r \<and> r \<le> now + 7 * (24 * hour)"
proof -
  obtain h m where p: "parseTimeOfDay tod = Inr (h, m)"
    using assms(4) by (auto simp: nextWeekly_def split: sum.splits)
  note range = parseTimeOfDay_range [OF p]
  let ?s = "h * 3600 + m * 60" and ?n = "local_day loc now"
  define later where "later \<longleftrightarrow> now < local_instant off ?n ?s"
  define k where "k = weekday_shift target (weekday_of loc now) later"
  have s: "0 \<le> ?s" "?s < 86400" using range by linarith+
  have shift: "local_instant off (?n + k) ?s = local_instant off ?n ?s + k * (24 * hour)"
    by (simp add: local_instant_def duration_defs)
  have r: "r = local_instant off (?n + k) ?s"
    using assms(4) nextWeekly_instant [OF assms(1) p, of target now] by (simp add: k_def later_def)
  have k: "weekday_of_day (?n + k) = target" "0 \<le> k" "k \<le> 7" "k = 0 \<Longrightarrow> later" "k = 7 \<Longrightarrow> \<not> later"
    using weekday_shift_spec [OF assms(2,3), of ?n later] by (simp_all add: k_def weekday_of_def)
  have day: "weekday_of loc r = target"
    unfolding r weekday_of_def using k(1) local_instant_day [OF assms(1) s] by simp
  have "now < r \<and> r \<le> now + 7 * (24 * hour)"
  proof (cases later)
    case True
    then have "k \<le> 6" using k by (cases "k = 7") auto
    with True show ?thesis
      using k(2) day_window [OF assms(1) s, of now] unfolding r shift later_def
      by (simp add: duration_defs)
  next
    case False
    then have "1 \<le> k" using k by (cases "k = 0") auto
    with False show ?thesis
      using k(3) day_window [OF assms(1) s, of now] unfolding r shift later_def
      by (simp add: duration_defs)
  qed
  with day show ?thesis unfolding r using at_clockI [OF assms(1) p] by blast
qed

section \<open>Validated schedules\<close>

lemma parseEveryDuration_bounds:
  "parseEveryDuration s = Inr d \<Longrightarrow> 1 * minute \<le> d \<and> d \<le> 23 * hour"
  by (auto simp: parseEveryDuration_def interval_defs split: option.splits if_splits)

lemma everyDuration_bounds: "1 * minute \<le> everyDuration s \<and> everyDuration s \<le> 23 * hour"
  by (auto simp: everyDuration_def interval_defs split: sum.splits dest!: parseEveryDuration_bounds)

lemma check_time_of_day_parses: "check_time_of_day t = None \<Longrightarrow> \<exists>h m. parseTimeOfDay t = Inr (h, m)"
  by (auto simp: check_time_of_day_def split: if_splits sum.splits)

lemma nextDaily_total: "parseTimeOfDay t = Inr hm \<Longrightarrow> \<exists>r. nextDaily t now loc = Inr r"
  by (auto simp: nextDaily_def Let_def split: prod.splits civil.splits)

lemma nextWeekly_total: "parseTimeOfDay t = Inr hm \<Longrightarrow> \<exists>r. nextWeekly w t now loc = Inr r"
  by (auto simp: nextWeekly_def Let_def split: prod.splits civil.splits)

lemma nextCronRun_total:
  "parseCron e = Inr f \<Longrightarrow> (\<exists>r. nextCronRun e now loc = Inr r) \<or> nextCronRun e now loc = Inl NoCronMatch"
  by (auto simp: nextCronRun_def split: option.splits)

text \<open>A schedule that passes validation always has a next run, for every zone and every instant,
  except that a cron expression can have no match within the look-ahead; an interval run is
  between one minute and 23 hours away.\<close>
theorem validated_schedule_runs:
  assumes "validateSchedule ul load s = None"
  shows "(\<exists>r. nextRun ul load s now = Inr r \<and>
            (Kind s = ScheduleInterval \<longrightarrow> now + minute \<le> r \<and> r \<le> now + 23 * hour)) \<or>
         (Kind s = ScheduleCron \<and> nextRun ul load s now = Inl NoCronMatch)"
proof -
  have valid: "validate_kind ul s = None" and zone: "load (Timezone s) \<noteq> None"
    using assms by (auto simp: validateSchedule_def split: option.splits if_splits)
  then obtain loc where loc: "load (Timezone s) = Some loc" by blast
  show ?thesis
  proof (cases "Kind s")
    case ScheduleInterval
    then show ?thesis
      using loc everyDuration_bounds [of s] by (simp add: nextRun_def)
  next
    case ScheduleDaily
    then obtain h m where "parseTimeOfDay (TimeOfDay s) = Inr (h, m)"
      using valid check_time_of_day_parses [of "TimeOfDay s"] by (auto simp: validate_kind_def)
    then show ?thesis
      using ScheduleDaily loc nextDaily_total [of "TimeOfDay s"] by (simp add: nextRun_def)
  next
    case ScheduleWeekly
    then obtain h m where "parseTimeOfDay (TimeOfDay s) = Inr (h, m)"
      using valid check_time_of_day_parses [of "TimeOfDay s"]
      by (auto simp: validate_kind_def split: if_splits)
    then show ?thesis
      using ScheduleWeekly loc nextWeekly_total [of "TimeOfDay s"] by (simp add: nextRun_def)
  next
    case ScheduleCron
    then obtain f where "parseCron (Cron s) = Inr f"
      using valid by (auto simp: validate_kind_def split: if_splits sum.splits)
    then show ?thesis
      using ScheduleCron loc nextCronRun_total [of "Cron s" f now loc] by (auto simp: nextRun_def)
  next
    case (OtherKind k)
    then show ?thesis using valid by (simp add: validate_kind_def)
  qed
qed

section \<open>Limits\<close>

lemma timeout_fraction:
  assumes "0 \<le> d" "d < 2 ^ 53"
  shows "f_trunc (f_mul (f_of_int d) (fl53 (8 / 10))) \<le> d"
proof -
  have c: "0 \<le> fl53 (8 / 10)" "fl53 (8 / 10) \<le> 1"
    using fl53_le_int [of "8 / 10" 1] by (simp_all add: fl53_nonneg)
  have d: "0 \<le> f_of_int d" "f_of_int d \<le> of_int d"
    using assms fl53_le_int [of "of_int d" d] by (simp_all add: f_of_int_def fl53_nonneg)
  have "f_of_int d * fl53 (8 / 10) \<le> of_int d"
    using c d mult_mono [of "f_of_int d" "of_int d" "fl53 (8 / 10)" 1] by simp
  then have "f_mul (f_of_int d) (fl53 (8 / 10)) \<le> of_int d"
    unfolding f_mul_def using c d assms(2) by (intro fl53_le_int) simp_all
  then show ?thesis
    using c d by (intro f_trunc_mono_int) (simp_all add: f_mul_def fl53_nonneg)
qed

lemma interval_exec_limit_eq:
  assumes "0 \<le> d" "d \<le> 23 * hour"
  shows "interval_exec_limit d = min d (max (5 * minute) (d * 80 div 100))"
proof -
  have "i64 (d * 80) = d * 80" using assms by (intro i64_small) (simp add: duration_defs)
  then show ?thesis
    using assms(1)
    by (simp add: interval_exec_limit_def intervalExecLimitPct_def minExecutionLimit_def
        go_div_nonneg Let_def min_def max_def duration_defs) linarith
qed

text \<open>The derived limits of every specification: the job timeout lies between a minute and an
  hour and never exceeds the interval; the scheduler's execution limit of an interval is at most
  the interval and at least the smaller of five minutes and the interval, and for intervals
  above five minutes it ends strictly before the next repetition.\<close>
theorem schedule_limits:
  "1 * minute \<le> defaultTimeoutFor spec \<and> defaultTimeoutFor spec \<le> 1 * hour \<and>
   (let d = everyDuration spec; l = interval_exec_limit d in
     (Kind spec = ScheduleInterval \<longrightarrow> defaultTimeoutFor spec \<le> d) \<and>
     min (5 * minute) d \<le> l \<and> l \<le> d \<and> (5 * minute < d \<longleftrightarrow> l < d))"
proof -
  let ?d = "everyDuration spec"
  have d: "1 * minute \<le> ?d" "?d \<le> 23 * hour" using everyDuration_bounds by blast+
  have t: "f_trunc (f_mul (f_of_int ?d) (fl53 (8 / 10))) \<le> ?d"
    using d by (intro timeout_fraction) (simp_all add: duration_defs)
  have "interval_exec_limit ?d = min ?d (max (5 * minute) (?d * 80 div 100))"
    using d by (intro interval_exec_limit_eq) (simp_all add: duration_defs)
  moreover have "?d * 80 div 100 < ?d" using d(1) by (simp add: duration_defs)
  moreover have "1 * minute \<le> defaultTimeoutFor spec \<and> defaultTimeoutFor spec \<le> 1 * hour \<and>
    (Kind spec = ScheduleInterval \<longrightarrow> defaultTimeoutFor spec \<le> ?d)"
    using t d unfolding defaultTimeoutFor_def Let_def
    by (auto simp: duration_defs split: schedule_kind.splits)
  ultimately show ?thesis
    using d by (auto simp: Let_def min_def max_def duration_defs)
qed

section \<open>Cron fields\<close>

text \<open>C40: A parsed expression has every field non-empty, strictly increasing and inside its range,
  except that a day-of-month or month field can be the list a wrapping step produces.\<close>
theorem parseCron_wellformed:
  assumes "parseCron expr = Inr f"
  shows "wf_field 0 59 (minutes f) \<and> wf_field 0 23 (hours f) \<and> wf_field 0 6 (dows f) \<and>
         (wf_field 1 31 (doms f) \<or> doms f = [1, - (2 ^ 63), - 1]) \<and>
         (wf_field 1 12 (months f) \<or> months f = [1, - (2 ^ 63), - 1])"
  using parseCron_fields [OF assms] by (simp add: wrapped_field_def)

text \<open>The exception happens: with the largest step the increment wraps, and the parser accepts
  a day-of-month field with values outside the range 1 to 31.\<close>
theorem parseCron_step_wraps:
  "\<exists>f. parseCron ''0 0 */9223372036854775807 * *'' = Inr f \<and> \<not> set (doms f) \<subseteq> {1..31}"
proof -
  have "parseCron ''0 0 */9223372036854775807 * *'' =
    Inr \<lparr>minutes = [0], hours = [0], doms = [1, - 9223372036854775808, - 1],
         months = map int [1 ..< 13], dows = map int [0 ..< 7]\<rparr>" by code_simp
  then show ?thesis by simp
qed

section \<open>Instances\<close>

theorem parseCron_wellformed_witness:
  "\<exists>f. parseCron ''*/15 8-10 * * 1,3'' = Inr f \<and> wf_field 0 59 (minutes f)"
proof -
  have "parseCron ''*/15 8-10 * * 1,3'' =
    Inr \<lparr>minutes = [0, 15, 30, 45], hours = [8, 9, 10], doms = map int [1 ..< 32],
         months = map int [1 ..< 13], dows = [1, 3]\<rparr>" by code_simp
  from parseCron_wellformed [OF this] this show ?thesis by blast
qed

definition monday_nine :: int where
  "monday_nine = 1704099600 * second"  \<comment> \<open>Monday 2024-01-01 09:00 UTC\<close>

theorem nextCronRun_least_witness:
  "\<exists>t f. nextCronRun ''30 9 * * *'' monday_nine utc_zone = Inr t \<and>
         parseCron ''30 9 * * *'' = Inr f \<and> monday_nine < t \<and> cron_matches f utc_zone t"
proof -
  have "nextCronRun ''30 9 * * *'' monday_nine utc_zone = Inr (monday_nine + 30 * minute)"
    by code_simp
  from nextCronRun_least [OF fixed_zone_utc _ this] this show ?thesis by auto
qed

theorem nextCronRun_complete_witness:
  "\<exists>t. nextCronRun ''30 9 * * *'' monday_nine utc_zone = Inr t \<and> t \<le> monday_nine + 30 * minute"
proof -
  define f where "f = \<lparr>minutes = [30], hours = [9], doms = map int [1 ..< 32],
    months = map int [1 ..< 13], dows = map int [0 ..< 7]\<rparr>"
  have f: "parseCron ''30 9 * * *'' = Inr f" "cron_matches f utc_zone (monday_nine + 30 * minute)"
    unfolding f_def by code_simp+
  have "local_day utc_zone (monday_nine + 30 * minute)
      < local_day utc_zone (cron_candidate monday_nine) + int maxCronLookaheadDays" by code_simp
  from nextCronRun_complete [OF fixed_zone_utc _ f(1,2) _ this] show ?thesis
    by (simp add: minute_def second_def)
qed

theorem nextDaily_within_a_day_witness:
  "nextDaily ''08:15'' monday_nine utc_zone = Inr (monday_nine + 23 * hour + 15 * minute) \<and>
   at_clock utc_zone ''08:15'' (monday_nine + 23 * hour + 15 * minute)"
proof -
  have "nextDaily ''08:15'' monday_nine utc_zone = Inr (monday_nine + 23 * hour + 15 * minute)"
    by code_simp
  from nextDaily_within_a_day [OF fixed_zone_utc this] this show ?thesis by blast
qed

theorem nextWeekly_within_a_week_witness:
  "nextWeekly 1 ''09:00'' monday_nine utc_zone = Inr (monday_nine + 7 * (24 * hour)) \<and>
   weekday_of utc_zone (monday_nine + 7 * (24 * hour)) = 1"
proof -
  have "nextWeekly 1 ''09:00'' monday_nine utc_zone = Inr (monday_nine + 7 * (24 * hour))"
    by code_simp
  from nextWeekly_within_a_week [OF fixed_zone_utc _ _ this] this show ?thesis by simp
qed

definition sample_schedule :: schedule_spec where
  "sample_schedule = \<lparr>Kind = ScheduleInterval, Every = ''90m'', TimeOfDay = [], DayOfWeek = [],
     Cron = [], Timezone = ''UTC'', MissedRunPolicy = [], OverlapPolicy = [], MisfireWindow = []\<rparr>"

theorem validated_schedule_runs_witness:
  "\<exists>r. nextRun id (\<lambda>_. Some utc_zone) sample_schedule monday_nine = Inr r \<and>
       monday_nine + minute \<le> r"
proof -
  have v: "validateSchedule id (\<lambda>_. Some utc_zone) sample_schedule = None" by code_simp
  have "Kind sample_schedule = ScheduleInterval" by (simp add: sample_schedule_def)
  with validated_schedule_runs [OF v, of monday_nine] show ?thesis by auto
qed

theorem schedule_limits_witness:
  "defaultTimeoutFor sample_schedule \<le> everyDuration sample_schedule \<and>
   everyDuration sample_schedule = 90 * minute"
proof -
  have k: "Kind sample_schedule = ScheduleInterval" by (simp add: sample_schedule_def)
  have e: "everyDuration sample_schedule = 90 * minute" by code_simp
  from schedule_limits [of sample_schedule] k e show ?thesis by (simp add: Let_def)
qed

end
