(* ===== verification/Chunker.thy ===== *)
theory Chunker
  imports GoText GoTime GoNum
begin

text \<open>
  Packing provider transcripts into chunks, \<open>internal/pipeline/chunker.go\<close>, and the look-back
  window, \<open>internal/pipeline/lookback.go\<close>. A transcript is a byte string; the headroom is
  the \<open>float64\<close> of the configuration, \<open>None\<close> for the nil pointer. Byte counts are
  lengths of strings in memory and do not overflow.
\<close>

record provider_block =
  Tool :: string
  Sources :: "string list"
  Header :: string
  Messages :: "string list"

record chunk =
  Index :: nat
  SourceLabels :: "string list"
  Transcript :: string
  Bytes :: int
  Split :: bool

record chunking_config =
  MaxChunkBytes :: int
  ProviderBoundaryHeadroom :: "rat option"

definition block_bytes :: "provider_block \<Rightarrow> int" where
  "block_bytes b = foldl (\<lambda>n m. n + int (length m)) (int (length (Header b))) (Messages b)"

definition block_text :: "provider_block \<Rightarrow> string" where
  "block_text b = Header b @ concat (Messages b)"

definition dedupeLabels :: "string list \<Rightarrow> string list" where
  "dedupeLabels xs = dedup_by (\<lambda>s. s) {} xs"

section \<open>Hard splitting\<close>

record splitter =
  sp_chunks :: "chunk list"
  sp_text :: string
  sp_bytes :: int

definition split_emit :: "provider_block \<Rightarrow> nat \<Rightarrow> splitter \<Rightarrow> splitter" where
  "split_emit b start s =
     (if sp_bytes s = 0 \<or> sp_bytes s = int (length (Header b))
      then s\<lparr>sp_bytes := 0, sp_text := []\<rparr>
      else s\<lparr>sp_chunks := sp_chunks s @
                [\<lparr>Index = start + length (sp_chunks s), SourceLabels = [Tool b],
                  Transcript = sp_text s, Bytes = sp_bytes s, Split = True\<rparr>],
             sp_bytes := 0, sp_text := []\<rparr>)"

definition split_start :: "provider_block \<Rightarrow> splitter \<Rightarrow> splitter" where
  "split_start b s =
     (if length (Header b) > 0
      then s\<lparr>sp_text := sp_text s @ Header b, sp_bytes := int (length (Header b))\<rparr> else s)"

definition split_message :: "provider_block \<Rightarrow> int \<Rightarrow> nat \<Rightarrow> splitter \<Rightarrow> string \<Rightarrow> splitter" where
  "split_message b budget start s m =
     (let msgBytes = int (length m); headerBytes = int (length (Header b)) in
      if msgBytes = 0 then s
      else if msgBytes + headerBytes > budget then
        (let s1 = split_emit b start s;
             s2 = s1\<lparr>sp_text := sp_text s1 @ Header b @ m, sp_bytes := headerBytes + msgBytes\<rparr>
         in split_start b (split_emit b start s2))
      else
        (let s1 = (if sp_bytes s + msgBytes > budget then split_start b (split_emit b start s) else s)
         in s1\<lparr>sp_text := sp_text s1 @ m, sp_bytes := sp_bytes s1 + msgBytes\<rparr>))"

definition split_init :: splitter where
  "split_init = \<lparr>sp_chunks = [], sp_text = [], sp_bytes = 0\<rparr>"

definition DefaultSince :: string where
  "DefaultSince = ''24h''"

definition split_warning :: "provider_block \<Rightarrow> nat \<Rightarrow> string \<Rightarrow> string" where
  "split_warning b n since =
     ''provider '' @ Tool b @ '' hard-split into '' @ dec_nat n @ '' chunks ('' @
     dec_int (block_bytes b) @ '' bytes); consider tightening since (current: '' @ since @
     '') to reduce input volume''"

definition hardSplit :: "provider_block \<Rightarrow> int \<Rightarrow> nat \<Rightarrow> string \<Rightarrow> chunk list \<times> string" where
  "hardSplit b budget start sinceLabel =
     (if budget \<le> 0 then ([], [])
      else
        let s = foldl (split_message b budget start) (split_start b split_init) (Messages b);
            chunks = sp_chunks (split_emit b start s);
            since = (if trim_space sinceLabel = [] then DefaultSince else sinceLabel)
        in (chunks, split_warning b (length chunks) since))"

section \<open>Packing\<close>

record packer =
  pk_chunks :: "chunk list"
  pk_warnings :: "string list"
  pk_bytes :: int
  pk_label :: "string list"
  pk_text :: string

definition pack_flush :: "packer \<Rightarrow> packer" where
  "pack_flush p =
     (if pk_bytes p = 0 then p
      else p\<lparr>pk_chunks := pk_chunks p @
                [\<lparr>Index = length (pk_chunks p), SourceLabels = dedupeLabels (pk_label p),
                  Transcript = pk_text p, Bytes = pk_bytes p, Split = False\<rparr>],
             pk_bytes := 0, pk_label := [], pk_text := []\<rparr>)"

definition pack_block :: "int \<Rightarrow> int \<Rightarrow> string \<Rightarrow> packer \<Rightarrow> provider_block \<Rightarrow> packer" where
  "pack_block maxBytes fillCap sinceLabel p b =
     (let blockBytes = block_bytes b in
      if blockBytes = 0 then p
      else if blockBytes > maxBytes then
        (let p1 = pack_flush p;
             (sub, warn) = hardSplit b maxBytes (length (pk_chunks p1)) sinceLabel
         in p1\<lparr>pk_chunks := pk_chunks p1 @ sub,
               pk_warnings := (if warn \<noteq> [] then pk_warnings p1 @ [warn] else pk_warnings p1)\<rparr>)
      else
        (let p1 = (if \<not> pk_bytes p + blockBytes \<le> fillCap \<and> pk_bytes p \<noteq> 0
                   then pack_flush p else p)
         in p1\<lparr>pk_text := pk_text p1 @ block_text b, pk_label := pk_label p1 @ [Tool b],
               pk_bytes := pk_bytes p1 + blockBytes\<rparr>))"

definition pack_init :: packer where
  "pack_init = \<lparr>pk_chunks = [], pk_warnings = [], pk_bytes = 0, pk_label = [], pk_text = []\<rparr>"

definition fill_cap :: "chunking_config \<Rightarrow> int" where
  "fill_cap cfg =
     (let h0 = (case ProviderBoundaryHeadroom cfg of Some h \<Rightarrow> h | None \<Rightarrow> 0);
          h1 = (if h0 < 0 then 0 else h0);
          h2 = (if h1 \<ge> 1 then fl53 (999 / 1000) else h1);
          cap = f_trunc (f_mul (f_of_int (MaxChunkBytes cfg)) (f_sub 1 h2))
      in if cap \<le> 0 then 1 else cap)"

definition packDisabled :: "provider_block list \<Rightarrow> chunk list" where
  "packDisabled blocks =
     [\<lparr>Index = 0, SourceLabels = dedupeLabels (map Tool blocks),
       Transcript = concat (map block_text blocks),
       Bytes = sum_list (map block_bytes blocks), Split = False\<rparr>]"

definition packChunks ::
    "provider_block list \<Rightarrow> chunking_config \<Rightarrow> string \<Rightarrow> chunk list \<times> string list" where
  "packChunks blocks cfg sinceLabel =
     (if blocks = [] then ([], [])
      else if MaxChunkBytes cfg \<le> 0 then (packDisabled blocks, [])
      else
        let p = pack_flush (foldl (pack_block (MaxChunkBytes cfg) (fill_cap cfg) sinceLabel)
                  pack_init blocks)
        in (pk_chunks p, pk_warnings p))"

section \<open>The look-back window\<close>

definition monthLookbackHours :: int where
  "monthLookbackHours = 30 * 24"

text \<open>\<open>strings.EqualFold\<close> with \<open>lifetime\<close>: no letter of it has a non-ASCII fold.\<close>

definition isLifetimeSince :: "string \<Rightarrow> bool" where
  "isLifetimeSince value \<longleftrightarrow> map lower_byte (trim_space value) = ''lifetime''"

definition splitLookbackValue :: "string \<Rightarrow> string \<times> string \<times> bool" where
  "splitLookbackValue value =
     (if has_suffix value ''mo'' then (take (length value - 2) value, ''mo'', length value > 2)
      else if length value < 2 then ([], [], False)
      else (take (length value - 1) value, drop (length value - 1) value, True))"

definition isDigitsOnly :: "string \<Rightarrow> bool" where
  "isDigitsOnly value \<longleftrightarrow> value \<noteq> [] \<and> list_all is_digit value"

text \<open>The multiplications are on \<open>time.Duration\<close>, a signed 64-bit integer.\<close>

definition parseLookbackDuration :: "int \<Rightarrow> string \<Rightarrow> int option" where
  "parseLookbackDuration amount unit_text =
     (if unit_text = ''m'' then Some (i64 (amount * minute))
      else if unit_text = ''h'' then Some (i64 (amount * hour))
      else if unit_text = ''d'' then Some (i64 (i64 (amount * 24) * hour))
      else if unit_text = ''w'' then Some (i64 (i64 (i64 (amount * 7) * 24) * hour))
      else if unit_text = ''mo'' then Some (i64 (i64 (amount * monthLookbackHours) * hour))
      else None)"

datatype lookback_error = InvalidWindow string | NotPositive string | UnknownUnit string

definition parseLookbackWindow :: "string \<Rightarrow> lookback_error + int \<times> bool" where
  "parseLookbackWindow value =
     (let trimmed = trim_space value in
      if trimmed = [] then Inr (0, False)
      else if isLifetimeSince trimmed then Inr (0, False)
      else
        (case splitLookbackValue trimmed of (amountText, unitText, ok) \<Rightarrow>
           if \<not> ok \<or> \<not> isDigitsOnly amountText then Inl (InvalidWindow value)
           else
             (case atoi amountText of
                None \<Rightarrow> Inl (NotPositive value)
              | Some amount \<Rightarrow>
                  if amount \<le> 0 then Inl (NotPositive value)
                  else
                    (case parseLookbackDuration amount unitText of
                       None \<Rightarrow> Inl (UnknownUnit value)
                     | Some dur \<Rightarrow> Inr (dur, True)))))"

text \<open>Sources are seen through their modification time, in nanoseconds.\<close>

definition filterSourcesByLookback ::
    "('s \<Rightarrow> int) \<Rightarrow> 's list \<Rightarrow> int \<Rightarrow> int \<Rightarrow> bool \<Rightarrow> 's list" where
  "filterSourcesByLookback modified sources now lookback enabled =
     (if \<not> enabled then sources
      else let cutoff = now + i64 (- lookback)
           in filter (\<lambda>s. \<not> modified s < cutoff) sources)"

section \<open>Correctness of hard splitting\<close>

lemma foldl_add_length: "foldl (\<lambda>n m. n + int (length m)) k ms = k + int (length (concat ms))"
  by (induction ms arbitrary: k) simp_all

lemma block_bytes_text: "block_bytes b = int (length (block_text b))"
  by (simp add: block_bytes_def block_text_def foldl_add_length)

text \<open>A chunk of a split block: the header and a non-empty payload, within the budget unless the
  payload is a single message that cannot fit.\<close>

definition split_chunk_ok :: "provider_block \<Rightarrow> int \<Rightarrow> chunk \<Rightarrow> bool" where
  "split_chunk_ok b budget c \<longleftrightarrow>
     Split c \<and> SourceLabels c = [Tool b] \<and> Bytes c = int (length (Transcript c)) \<and>
     (\<exists>p. Transcript c = Header b @ p \<and> p \<noteq> [] \<and>
          (Bytes c \<le> budget \<or> p \<in> set (Messages b) \<and> int (length (Header b @ p)) > budget))"

definition payload :: "provider_block \<Rightarrow> chunk \<Rightarrow> string" where
  "payload b c = drop (length (Header b)) (Transcript c)"

text \<open>Messages are atomic: the payloads of the chunks and the rest are groups of whole messages, in order; empty messages
  are skipped.\<close>

definition cut :: "provider_block \<Rightarrow> string list \<Rightarrow> chunk list \<Rightarrow> string \<Rightarrow> bool" where
  "cut b seen cs rest \<longleftrightarrow>
     (\<exists>gs ms. map (payload b) cs = map concat gs \<and> rest = concat ms \<and> concat gs @ ms = filter (\<lambda>m. m \<noteq> []) seen)"

lemma cutI:
  "map (payload b) cs = map concat gs \<Longrightarrow> rest = concat ms \<Longrightarrow> concat gs @ ms = filter (\<lambda>m. m \<noteq> []) seen \<Longrightarrow>
   cut b seen cs rest"
  unfolding cut_def by blast

lemma cut_close:
  assumes "cut b seen cs rest" "payload b c = rest"
  shows "cut b seen (cs @ [c]) []"
proof -
  obtain gs ms where "map (payload b) cs = map concat gs" "rest = concat ms" "concat gs @ ms = filter (\<lambda>m. m \<noteq> []) seen"
    using assms(1) unfolding cut_def by blast
  then show ?thesis using assms(2) by (intro cutI [where gs = "gs @ [ms]" and ms = "[]"]) simp_all
qed

lemma cut_add:
  assumes "cut b seen cs rest"
  shows "cut b (seen @ [m]) cs (rest @ m)"
proof -
  obtain gs ms where "map (payload b) cs = map concat gs" "rest = concat ms" "concat gs @ ms = filter (\<lambda>m. m \<noteq> []) seen"
    using assms unfolding cut_def by blast
  then show ?thesis by (intro cutI [where gs = gs and ms = "ms @ (if m = [] then [] else [m])"]) simp_all
qed

lemma cut_done:
  assumes "cut b seen cs []"
  shows "\<exists>gs. map (payload b) cs = map concat gs \<and> concat gs = filter (\<lambda>m. m \<noteq> []) seen"
proof -
  obtain gs ms where g: "map (payload b) cs = map concat gs" "concat ms = []" "concat gs @ ms = filter (\<lambda>m. m \<noteq> []) seen"
    using assms unfolding cut_def by metis
  have "set ms \<subseteq> set (filter (\<lambda>m. m \<noteq> []) seen)" unfolding g(3) [symmetric] by simp
  then have "ms = []" using g(2) by (cases ms) auto
  with g show ?thesis by auto
qed

definition split_inv :: "provider_block \<Rightarrow> int \<Rightarrow> nat \<Rightarrow> string list \<Rightarrow> splitter \<Rightarrow> bool" where
  "split_inv b budget start seen s \<longleftrightarrow>
     (\<exists>rest. sp_text s = Header b @ rest \<and> sp_bytes s = int (length (sp_text s)) \<and>
        (rest = [] \<or> sp_bytes s \<le> budget) \<and>
        cut b seen (sp_chunks s) rest \<and>
        list_all (split_chunk_ok b budget) (sp_chunks s) \<and>
        map Index (sp_chunks s) = [start ..< start + length (sp_chunks s)])"

definition new_chunk :: "provider_block \<Rightarrow> nat \<Rightarrow> splitter \<Rightarrow> chunk" where
  "new_chunk b start s =
     \<lparr>Index = start + length (sp_chunks s), SourceLabels = [Tool b],
      Transcript = sp_text s, Bytes = sp_bytes s, Split = True\<rparr>"

lemma split_emit_eq:
  assumes "sp_text s = Header b @ rest" "sp_bytes s = int (length (sp_text s))"
  shows "split_emit b start s =
    s\<lparr>sp_chunks := sp_chunks s @ (if rest = [] then [] else [new_chunk b start s]),
      sp_bytes := 0, sp_text := []\<rparr>"
proof -
  have "sp_bytes s = 0 \<or> sp_bytes s = int (length (Header b)) \<longleftrightarrow> rest = []"
    using assms by (cases rest) auto
  then show ?thesis by (auto simp: split_emit_def new_chunk_def)
qed

lemma split_start_eq:
  "sp_text s = [] \<Longrightarrow> sp_bytes s = 0 \<Longrightarrow>
   split_start b s = s\<lparr>sp_text := Header b, sp_bytes := int (length (Header b))\<rparr>"
  by (cases s) (simp add: split_start_def)

lemma split_inv_start: "split_inv b budget start [] (split_start b split_init)"
  by (simp add: split_inv_def split_start_eq split_init_def cut_def)

text \<open>Closing the current chunk keeps the invariant; \<open>ok\<close> is the budget or the single
  message.\<close>

lemma split_close:
  assumes txt_eq: "sp_text s = Header b @ rest" "sp_bytes s = int (length (sp_text s))"
    and rest: "rest = [] \<or> sp_bytes s \<le> budget \<or> rest \<in> set (Messages b) \<and> sp_bytes s > budget"
    and chunks: "cut b seen (sp_chunks s) rest"
      "list_all (split_chunk_ok b budget) (sp_chunks s)"
      "map Index (sp_chunks s) = [start ..< start + length (sp_chunks s)]"
  shows "split_inv b budget start seen (split_start b (split_emit b start s))"
    "list_all (split_chunk_ok b budget) (sp_chunks (split_emit b start s))"
    "cut b seen (sp_chunks (split_emit b start s)) []"
    "map Index (sp_chunks (split_emit b start s)) = [start ..< start + length (sp_chunks (split_emit b start s))]"
proof -
  have "rest \<noteq> [] \<Longrightarrow> split_chunk_ok b budget (new_chunk b start s)"
    using txt_eq rest by (auto simp: split_chunk_ok_def new_chunk_def)
  moreover have "payload b (new_chunk b start s) = rest"
    using txt_eq by (simp add: payload_def new_chunk_def)
  moreover have "rest \<noteq> [] \<Longrightarrow> cut b seen (sp_chunks s @ [new_chunk b start s]) []"
    using cut_close [OF chunks(1)] calculation(2) by blast
  moreover have "Index (new_chunk b start s) = start + length (sp_chunks s)"
    by (simp add: new_chunk_def)
  ultimately show
    "split_inv b budget start seen (split_start b (split_emit b start s))"
    "list_all (split_chunk_ok b budget) (sp_chunks (split_emit b start s))"
    "cut b seen (sp_chunks (split_emit b start s)) []"
    "map Index (sp_chunks (split_emit b start s)) = [start ..< start + length (sp_chunks (split_emit b start s))]"
    using chunks
    by (auto simp: split_emit_eq [OF txt_eq] split_start_eq split_inv_def)
qed

lemma split_message_inv:
  assumes "split_inv b budget start seen s" "m \<in> set (Messages b)"
  shows "split_inv b budget start (seen @ [m]) (split_message b budget start s m)"
proof -
  obtain rest where s: "sp_text s = Header b @ rest" "sp_bytes s = int (length (sp_text s))"
    "rest = [] \<or> sp_bytes s \<le> budget" "cut b seen (sp_chunks s) rest"
    "list_all (split_chunk_ok b budget) (sp_chunks s)"
    "map Index (sp_chunks s) = [start ..< start + length (sp_chunks s)]"
    using assms(1) by (auto simp: split_inv_def)
  have r: "rest = [] \<or> sp_bytes s \<le> budget \<or> rest \<in> set (Messages b) \<and> sp_bytes s > budget"
    using s(3) by blast
  note close = split_close [OF s(1,2) r s(4,5,6)]
  consider (empty) "m = []" | (big) "m \<noteq> []" "int (length m) + int (length (Header b)) > budget"
    | (fits) "m \<noteq> []" "int (length m) + int (length (Header b)) \<le> budget" by linarith
  then show ?thesis
  proof cases
    case empty
    then show ?thesis using assms(1) cut_add [where m = "[]"] by (fastforce simp: split_message_def split_inv_def)
  next
    case big
    let ?s1 = "split_emit b start s"
    let ?s2 = "?s1\<lparr>sp_text := sp_text ?s1 @ Header b @ m, sp_bytes := int (length (Header b)) + int (length m)\<rparr>"
    have t: "sp_text ?s1 = []" by (simp add: split_emit_eq [OF s(1,2)])
    have "cut b (seen @ [m]) (sp_chunks ?s2) m" using cut_add [OF close(3), of m] by simp
    then have "split_inv b budget start (seen @ [m]) (split_start b (split_emit b start ?s2))"
      by (intro split_close(1) [where rest = m]) (use t big assms(2) close in auto)
    then show ?thesis using big by (simp add: split_message_def Let_def)
  next
    case fits
    let ?s1 = "if sp_bytes s + int (length m) > budget then split_start b (split_emit b start s) else s"
    have "split_inv b budget start seen ?s1" using close(1) assms(1) by simp
    moreover have "sp_bytes ?s1 + int (length m) \<le> budget"
      using fits by (simp add: split_emit_eq [OF s(1,2)] split_start_eq)
    ultimately have "split_inv b budget start (seen @ [m])
      (?s1\<lparr>sp_text := sp_text ?s1 @ m, sp_bytes := sp_bytes ?s1 + int (length m)\<rparr>)"
      by (auto simp: split_inv_def intro: cut_add)
    then show ?thesis using fits by (simp add: split_message_def Let_def)
  qed
qed

lemma split_messages_inv:
  "split_inv b budget start seen s \<Longrightarrow> set ms \<subseteq> set (Messages b) \<Longrightarrow>
   split_inv b budget start (seen @ ms) (foldl (split_message b budget start) s ms)"
proof (induction ms arbitrary: s seen)
  case (Cons m ms)
  then have "split_inv b budget start (seen @ [m]) (split_message b budget start s m)"
    by (intro split_message_inv) auto
  with Cons show ?case by fastforce
qed simp

lemma hardSplit_spec:
  assumes "0 < budget" "hardSplit b budget start since = (cs, w)"
  shows "list_all (split_chunk_ok b budget) cs"
    "\<exists>gs. map (payload b) cs = map concat gs \<and> concat gs = filter (\<lambda>m. m \<noteq> []) (Messages b)"
    "map Index cs = [start ..< start + length cs]" "w \<noteq> []"
proof -
  let ?s = "foldl (split_message b budget start) (split_start b split_init) (Messages b)"
  have "split_inv b budget start (Messages b) ?s"
    using split_messages_inv [OF split_inv_start, of "Messages b" b] by simp
  then obtain rest where s: "sp_text ?s = Header b @ rest" "sp_bytes ?s = int (length (sp_text ?s))"
    "rest = [] \<or> sp_bytes ?s \<le> budget" "cut b (Messages b) (sp_chunks ?s) rest"
    "list_all (split_chunk_ok b budget) (sp_chunks ?s)"
    "map Index (sp_chunks ?s) = [start ..< start + length (sp_chunks ?s)]"
    by (auto simp: split_inv_def)
  have r: "rest = [] \<or> sp_bytes ?s \<le> budget \<or> rest \<in> set (Messages b) \<and> sp_bytes ?s > budget"
    using s(3) by blast
  have cs: "cs = sp_chunks (split_emit b start ?s)" and w: "w = split_warning b (length cs)
      (if trim_space since = [] then DefaultSince else since)"
    using assms by (auto simp: hardSplit_def Let_def)
  show "list_all (split_chunk_ok b budget) cs" "map Index cs = [start ..< start + length cs]" "w \<noteq> []"
    unfolding cs using split_close(2-4) [OF s(1,2) r s(4,5,6)] w by (simp_all add: split_warning_def)
  show "\<exists>gs. map (payload b) cs = map concat gs \<and> concat gs = filter (\<lambda>m. m \<noteq> []) (Messages b)"
    unfolding cs by (rule cut_done [OF split_close(3) [OF s(1,2) r s(4,5,6)]])
qed

text \<open>Hard splitting loses and reorders nothing: the payloads of the chunks concatenate to the
  messages of the block. Every chunk repeats the header, carries some payload, and stays within the
  budget unless it holds one message that does not fit next to the header.\<close>
theorem hardSplit_lossless:
  assumes "0 < budget" "hardSplit b budget start since = (cs, w)"
  shows "concat (map (payload b) cs) = concat (Messages b) \<and>
         map Index cs = [start ..< start + length cs] \<and>
         (\<forall>c \<in> set cs. split_chunk_ok b budget c)"
proof -
  obtain gs where g: "map (payload b) cs = map concat gs" "concat gs = filter (\<lambda>m. m \<noteq> []) (Messages b)"
    using hardSplit_spec(2) [OF assms] by blast
  have "concat (filter (\<lambda>m. m \<noteq> []) ms) = (concat ms :: string)" for ms by (induction ms) auto
  moreover have "concat (map concat gs) = (concat (concat gs) :: string)" by (induction gs) simp_all
  ultimately have "concat (map (payload b) cs) = concat (Messages b)" using g by simp
  with hardSplit_spec [OF assms] show ?thesis by (simp add: list_all_iff)
qed

section \<open>Correctness of packing\<close>

text \<open>What a block may contribute to the transcripts: its text, or, if it is oversize, groups of its messages with
  the header before each of them.\<close>

definition contributes :: "int \<Rightarrow> provider_block \<Rightarrow> string \<Rightarrow> bool" where
  "contributes maxBytes b t \<longleftrightarrow>
     (if block_bytes b > maxBytes
      then \<exists>gs. t = concat (map (\<lambda>g. Header b @ concat g) gs) \<and> concat gs = filter (\<lambda>m. m \<noteq> []) (Messages b)
      else t = block_text b)"

lemma hardSplit_contributes:
  assumes "0 < B" "block_bytes b > B" "hardSplit b B start since = (cs, w)"
  shows "contributes B b (concat (map Transcript cs))"
proof -
  obtain gs where g: "map (payload b) cs = map concat gs" "concat gs = filter (\<lambda>m. m \<noteq> []) (Messages b)"
    using hardSplit_spec(2) [OF assms(1,3)] by blast
  have "Transcript c = Header b @ payload b c" if "c \<in> set cs" for c
    using hardSplit_spec(1) [OF assms(1,3)] that by (auto simp: list_all_iff split_chunk_ok_def payload_def)
  then have "map Transcript cs = map (\<lambda>c. Header b @ payload b c) cs" by simp
  also have "\<dots> = map (\<lambda>x. Header b @ x) (map (payload b) cs)" by simp
  finally have "map Transcript cs = map (\<lambda>g. Header b @ concat g) gs" unfolding g(1) by simp
  with g(2) assms(2) show ?thesis unfolding contributes_def by auto
qed

definition whole_blocks :: "provider_block list \<Rightarrow> int \<Rightarrow> int \<Rightarrow> provider_block list \<Rightarrow> int \<Rightarrow> bool" where
  "whole_blocks blocks maxBytes fill bs n \<longleftrightarrow>
     bs \<noteq> [] \<and> set bs \<subseteq> set blocks \<and> n = int (length (concat (map block_text bs))) \<and>
     0 < n \<and> n \<le> maxBytes \<and> (n \<le> fill \<or> length bs = 1)"

definition pack_chunk_ok :: "provider_block list \<Rightarrow> int \<Rightarrow> int \<Rightarrow> chunk \<Rightarrow> bool" where
  "pack_chunk_ok blocks maxBytes fill c \<longleftrightarrow>
     (if Split c then \<exists>b \<in> set blocks. block_bytes b > maxBytes \<and> split_chunk_ok b maxBytes c
      else \<exists>bs. whole_blocks blocks maxBytes fill bs (Bytes c) \<and>
             Transcript c = concat (map block_text bs) \<and> SourceLabels c = dedupeLabels (map Tool bs))"

definition pack_inv ::
    "provider_block list \<Rightarrow> int \<Rightarrow> int \<Rightarrow> provider_block list \<Rightarrow> packer \<Rightarrow> bool" where
  "pack_inv blocks maxBytes fill seen p \<longleftrightarrow>
     (\<exists>ts. list_all2 (contributes maxBytes) seen ts \<and> concat (map Transcript (pk_chunks p)) @ pk_text p = concat ts) \<and>
     list_all (pack_chunk_ok blocks maxBytes fill) (pk_chunks p) \<and>
     map Index (pk_chunks p) = [0 ..< length (pk_chunks p)] \<and>
     length (pk_warnings p) = length (filter (\<lambda>b. block_bytes b > maxBytes) seen) \<and>
     (pk_bytes p = 0 \<and> pk_text p = [] \<and> pk_label p = [] \<or>
      (\<exists>bs. whole_blocks blocks maxBytes fill bs (pk_bytes p) \<and>
          pk_text p = concat (map block_text bs) \<and> pk_label p = map Tool bs))"

lemma pack_flush_inv:
  assumes "pack_inv blocks B fill seen p"
  shows "pack_inv blocks B fill seen (pack_flush p) \<and> pk_bytes (pack_flush p) = 0 \<and>
    pk_text (pack_flush p) = [] \<and> pk_label (pack_flush p) = []"
proof (cases "pk_bytes p = 0")
  case True
  then show ?thesis using assms by (auto simp: pack_inv_def pack_flush_def whole_blocks_def)
next
  case False
  then obtain bs where "whole_blocks blocks B fill bs (pk_bytes p)"
    "pk_text p = concat (map block_text bs)" "pk_label p = map Tool bs"
    using assms by (auto simp: pack_inv_def)
  with False assms show ?thesis
    by (auto simp: pack_inv_def pack_flush_def pack_chunk_ok_def)
qed

lemma pack_inv_more:
  assumes "pack_inv blocks B fill seen p" "contributes B b t"
  shows "\<exists>ts. list_all2 (contributes B) (seen @ [b]) ts \<and>
    (concat (map Transcript (pk_chunks p)) @ pk_text p) @ t = concat ts"
proof -
  obtain ts where "list_all2 (contributes B) seen ts" "concat (map Transcript (pk_chunks p)) @ pk_text p = concat ts"
    using assms(1) unfolding pack_inv_def by blast
  then show ?thesis using assms(2) by (intro exI [of _ "ts @ [t]"]) (simp add: list_all2_appendI)
qed

lemma pack_block_inv:
  assumes inv: "pack_inv blocks B fill seen p" and b: "b \<in> set blocks" and B: "0 < B" "fill \<le> B"
  shows "pack_inv blocks B fill (seen @ [b]) (pack_block B fill since p b)"
proof -
  consider (zero) "block_bytes b = 0" | (big) "block_bytes b > B" | (fits) "0 < block_bytes b" "block_bytes b \<le> B"
    using linorder_less_linear [of 0 "block_bytes b"] by (fastforce simp: block_bytes_text)
  then show ?thesis
  proof cases
    case zero
    then have "contributes B b []" using B by (simp add: contributes_def block_bytes_text)
    with zero pack_inv_more [OF inv this] show ?thesis
      using B inv by (simp add: pack_block_def pack_inv_def block_bytes_text)
  next
    case big
    let ?p = "pack_flush p"
    obtain cs w where h: "hardSplit b B (length (pk_chunks ?p)) since = (cs, w)" by fastforce
    have "contributes B b (concat (map Transcript cs))" by (rule hardSplit_contributes [OF B(1) big h])
    from pack_inv_more [OF _ this] pack_flush_inv [OF inv]
    have "\<exists>ts. list_all2 (contributes B) (seen @ [b]) ts \<and>
        concat (map Transcript (pk_chunks ?p)) @ concat (map Transcript cs) = concat ts" by fastforce
    moreover have "list_all (pack_chunk_ok blocks B fill) cs"
      unfolding list_all_iff
    proof
      fix c assume "c \<in> set cs"
      then have ok: "split_chunk_ok b B c" using hardSplit_spec(1) [OF B(1) h] by (simp add: list_all_iff)
      then have "Split c" by (simp add: split_chunk_ok_def)
      with ok b big show "pack_chunk_ok blocks B fill c" unfolding pack_chunk_ok_def by auto
    qed
    ultimately show ?thesis
      using pack_flush_inv [OF inv] hardSplit_spec(3,4) [OF B(1) h] big B
      by (auto simp: pack_block_def Let_def h pack_inv_def upt_add_eq_append [of 0, simplified])
  next
    case fits
    let ?full = "\<not> pk_bytes p + block_bytes b \<le> fill \<and> pk_bytes p \<noteq> 0"
    define q where "q = (if ?full then pack_flush p else p)"
    have i: "pack_inv blocks B fill seen q" using inv pack_flush_inv by (simp add: q_def)
    have room: "pk_bytes q = 0 \<or> pk_bytes q + block_bytes b \<le> fill"
      using pack_flush_inv [OF inv] by (auto simp: q_def)
    have "contributes B b (block_text b)" using fits by (simp add: contributes_def)
    note stream = pack_inv_more [OF i this]
    obtain bs where bs: "pk_text q = concat (map block_text bs)" "pk_label q = map Tool bs"
      "set bs \<subseteq> set blocks" "pk_bytes q = int (length (concat (map block_text bs)))"
      "pk_bytes q = 0 \<Longrightarrow> bs = []"
    proof (cases "pk_bytes q = 0")
      case True
      then have "pk_text q = [] \<and> pk_label q = []" using i unfolding pack_inv_def whole_blocks_def by auto
      with True that [of "[]"] show ?thesis by simp
    next
      case False
      with i obtain bs where bs: "whole_blocks blocks B fill bs (pk_bytes q)"
        "pk_text q = concat (map block_text bs)" "pk_label q = map Tool bs"
        unfolding pack_inv_def by auto
      from bs(1) have "set bs \<subseteq> set blocks" "pk_bytes q = int (length (concat (map block_text bs)))"
        unfolding whole_blocks_def by blast+
      with False show ?thesis by (intro that [OF bs(2,3)]) simp_all
    qed
    have n: "pk_bytes q + block_bytes b = int (length (concat (map block_text (bs @ [b]))))"
      using bs(4) by (simp add: block_bytes_text)
    have "pk_bytes q + block_bytes b \<le> B" using room fits B by auto
    moreover have "pk_bytes q + block_bytes b \<le> fill \<or> length (bs @ [b]) = 1"
      using room bs(5) by auto
    moreover have "0 < pk_bytes q + block_bytes b" using fits bs(4) by linarith
    ultimately have w: "whole_blocks blocks B fill (bs @ [b]) (pk_bytes q + block_bytes b)"
      using n bs(3) b by (simp add: whole_blocks_def)
    have "pack_inv blocks B fill (seen @ [b])
      (q\<lparr>pk_text := pk_text q @ block_text b, pk_label := pk_label q @ [Tool b],
          pk_bytes := pk_bytes q + block_bytes b\<rparr>)"
    proof -
      have "\<exists>bs'. whole_blocks blocks B fill bs' (pk_bytes q + block_bytes b) \<and>
        pk_text q @ block_text b = concat (map block_text bs') \<and> pk_label q @ [Tool b] = map Tool bs'"
        using w bs(1,2) by (intro exI [of _ "bs @ [b]"]) simp
      with i fits stream show ?thesis unfolding pack_inv_def by simp
    qed
    moreover have "pack_block B fill since p b =
      q\<lparr>pk_text := pk_text q @ block_text b, pk_label := pk_label q @ [Tool b],
          pk_bytes := pk_bytes q + block_bytes b\<rparr>"
      using fits unfolding pack_block_def Let_def q_def by auto
    ultimately show ?thesis by simp
  qed
qed

lemma fill_cap_bounds:
  assumes "0 < MaxChunkBytes cfg" "MaxChunkBytes cfg < 2 ^ 53"
  shows "0 < fill_cap cfg" "fill_cap cfg \<le> MaxChunkBytes cfg"
proof -
  let ?M = "MaxChunkBytes cfg"
  define h where "h = (let h0 = (case ProviderBoundaryHeadroom cfg of Some h \<Rightarrow> h | None \<Rightarrow> 0);
    h1 = (if h0 < 0 then 0 else h0) in if h1 \<ge> 1 then fl53 (999 / 1000) else h1)"
  have "0 \<le> h" "h \<le> 1"
    using fl53_le_int [of "999 / 1000" 1] fl53_nonneg [of "999 / 1000"]
    by (auto simp: h_def Let_def split: option.splits)
  then have f: "0 \<le> f_sub 1 h" "f_sub 1 h \<le> 1"
    using fl53_le_int [of "1 - h" 1] by (simp_all add: f_sub_def fl53_nonneg)
  have m: "0 \<le> f_of_int ?M" "f_of_int ?M \<le> of_int ?M"
    using assms fl53_le_int [of "of_int ?M" ?M] by (simp_all add: f_of_int_def fl53_nonneg)
  have "f_of_int ?M * f_sub 1 h \<le> of_int ?M"
    using f m mult_mono [of "f_of_int ?M" "of_int ?M" "f_sub 1 h" 1] by simp
  then have "f_mul (f_of_int ?M) (f_sub 1 h) \<le> of_int ?M"
    unfolding f_mul_def using f m assms(2) by (intro fl53_le_int) simp_all
  then have "f_trunc (f_mul (f_of_int ?M) (f_sub 1 h)) \<le> ?M"
    using f m by (intro f_trunc_mono_int) (simp_all add: f_mul_def fl53_nonneg)
  moreover have "fill_cap cfg = (let cap = f_trunc (f_mul (f_of_int ?M) (f_sub 1 h)) in if cap \<le> 0 then 1 else cap)"
    by (simp add: fill_cap_def h_def Let_def)
  ultimately show "0 < fill_cap cfg" "fill_cap cfg \<le> ?M" using assms(1) by (simp_all add: Let_def)
qed

lemma pack_blocks_inv:
  "pack_inv blocks B fill seen p \<Longrightarrow> set bs \<subseteq> set blocks \<Longrightarrow> 0 < B \<Longrightarrow> fill \<le> B \<Longrightarrow>
   pack_inv blocks B fill (seen @ bs) (foldl (pack_block B fill since) p bs)"
proof (induction bs arbitrary: p seen)
  case (Cons b bs)
  then have "pack_inv blocks B fill (seen @ [b]) (pack_block B fill since p b)"
    by (intro pack_block_inv) auto
  with Cons show ?case by fastforce
qed simp

text \<open>C21: Packing keeps the transcript and the limits, for a positive maximum below \<open>2 ^ 53\<close>. The chunk
  transcripts concatenate to what the blocks contribute in their order: the text of a block, or, if
  it is oversize, all its messages, none split, in groups with the header before each. Indices
  count from zero, an unsplit chunk consists of whole blocks with exactly their labels and exceeds
  the fill limit only when it is a single block, no chunk but a single-message one exceeds the
  maximum, and there is one warning for each oversize block.\<close>
theorem packChunks_lossless:
  assumes "0 < MaxChunkBytes cfg" "MaxChunkBytes cfg < 2 ^ 53"
    and "packChunks blocks cfg since = (cs, ws)"
  shows "(\<exists>ts. list_all2 (contributes (MaxChunkBytes cfg)) blocks ts \<and> concat (map Transcript cs) = concat ts) \<and>
         map Index cs = [0 ..< length cs] \<and>
         (\<forall>c \<in> set cs. pack_chunk_ok blocks (MaxChunkBytes cfg) (fill_cap cfg) c) \<and>
         length ws = length (filter (\<lambda>b. block_bytes b > MaxChunkBytes cfg) blocks)"
proof (cases "blocks = []")
  case True
  then show ?thesis using assms(3) by (simp add: packChunks_def)
next
  case False
  let ?B = "MaxChunkBytes cfg" and ?fill = "fill_cap cfg"
  define p where "p = pack_flush (foldl (pack_block ?B ?fill since) pack_init blocks)"
  have "pack_inv blocks ?B ?fill [] pack_init" by (simp add: pack_inv_def pack_init_def)
  then have "pack_inv blocks ?B ?fill blocks (foldl (pack_block ?B ?fill since) pack_init blocks)"
    using pack_blocks_inv [of blocks ?B ?fill "[]" pack_init blocks] assms(1) fill_cap_bounds [OF assms(1,2)]
    by simp
  then have inv: "pack_inv blocks ?B ?fill blocks p" and rest: "pk_text p = []"
    using pack_flush_inv unfolding p_def by blast+
  have "cs = pk_chunks p" "ws = pk_warnings p"
    using assms(1,3) False by (simp_all add: packChunks_def Let_def p_def)
  with inv rest show ?thesis by (auto simp: pack_inv_def list_all_iff)
qed

section \<open>The look-back window\<close>

definition lookback_units :: "(string \<times> int) list" where
  "lookback_units = [(''m'', minute), (''h'', hour), (''d'', 24 * hour), (''w'', 7 * 24 * hour),
     (''mo'', 30 * 24 * hour)]"

lemma digit_solid: "is_digit c \<Longrightarrow> solid c"
  by (simp add: is_digit_def solid_def)

lemma unit_nonempty: "(u, d) \<in> set lookback_units \<Longrightarrow> u \<noteq> [] \<and> solid (last u)"
  by (auto simp: lookback_units_def solid_def)

lemma trim_amount:
  assumes "(u, d) \<in> set lookback_units"
  shows "trim_space (dec_nat n @ u) = dec_nat n @ u"
proof (rule trim_space_solid)
  show "solid (hd (dec_nat n @ u))"
    using dec_nat_digits [of n] by (cases "dec_nat n") (auto intro: digit_solid)
qed (use unit_nonempty [OF assms] in auto)

lemma not_lifetime:
  assumes "(u, d) \<in> set lookback_units"
  shows "\<not> isLifetimeSince (dec_nat n @ u)"
proof -
  obtain c cs where c: "dec_nat n = c # cs" "is_digit c"
    using dec_nat_digits [of n] by (cases "dec_nat n") auto
  then have "lower_byte c = c" by (auto simp: lower_byte_def is_digit_def)
  moreover have "trim_space (c # cs @ u) = c # cs @ u" using trim_amount [OF assms, of n] c by simp
  ultimately show ?thesis using c by (auto simp: isLifetimeSince_def is_digit_def)
qed

lemma split_amount:
  assumes "(u, d) \<in> set lookback_units"
  shows "splitLookbackValue (dec_nat n @ u) = (dec_nat n, u, True)"
proof -
  obtain c cs where c: "dec_nat n = cs @ [c]" "is_digit c"
    using dec_nat_digits [of n] by (cases "dec_nat n" rule: rev_cases) auto
  have "\<not> has_suffix (dec_nat n @ [x]) ''mo''" if "x \<in> {CHR ''m'', CHR ''h'', CHR ''d'', CHR ''w''}" for x
    using that c by (auto simp: has_suffix_def has_prefix_iff is_digit_def)
  then have "splitLookbackValue (dec_nat n @ [x]) = (dec_nat n, [x], True)"
    if "x \<in> {CHR ''m'', CHR ''h'', CHR ''d'', CHR ''w''}" for x
    using that c by (simp add: splitLookbackValue_def)
  moreover have "has_suffix (dec_nat n @ ''mo'') ''mo''" by (simp only: has_suffix_iff) blast
  then have "splitLookbackValue (dec_nat n @ ''mo'') = (dec_nat n, ''mo'', True)"
    by (simp add: splitLookbackValue_def)
  moreover have "u = ''mo'' \<or> u \<in> (\<lambda>x. [x]) ` {CHR ''m'', CHR ''h'', CHR ''d'', CHR ''w''}"
    using assms by (auto simp: lookback_units_def)
  ultimately show ?thesis by fastforce
qed

lemma atoi_dec_nat: "int n < 2 ^ 63 \<Longrightarrow> atoi (dec_nat n) = Some (int n)"
  using atoi_dec_int [of "int n"] by (simp add: dec_int_def in_i64_def)

lemma lookback_duration:
  assumes "(u, d) \<in> set lookback_units"
  shows "parseLookbackDuration a u = Some (i64 (a * d))"
proof -
  show ?thesis
    using assms by (auto simp: lookback_units_def parseLookbackDuration_def i64_mult_left monthLookbackHours_def mult.assoc)
qed

lemma parseLookbackWindow_amount:
  assumes "(u, d) \<in> set lookback_units" "0 < n" "int n < 2 ^ 63"
  shows "parseLookbackWindow (dec_nat n @ u) = Inr (i64 (int n * d), True)"
proof -
  have "isDigitsOnly (dec_nat n)" by (simp add: isDigitsOnly_def dec_nat_digits)
  then show ?thesis
    using assms(2,3)
    by (simp add: parseLookbackWindow_def trim_amount [OF assms(1)] not_lifetime [OF assms(1)]
        split_amount [OF assms(1)] atoi_dec_nat lookback_duration [OF assms(1)])
qed

text \<open>A look-back value of \<open>n\<close> units selects exactly the sources modified at most
  that long ago, in their order, as long as the window fits the duration type.\<close>
theorem lookback_selects_recent:
  assumes "(u, d) \<in> set lookback_units" "0 < n" "int n * d < 2 ^ 63"
  shows "parseLookbackWindow (dec_nat n @ u) = Inr (int n * d, True) \<and>
         filterSourcesByLookback modified sources now (int n * d) True =
           filter (\<lambda>s. now - modified s \<le> int n * d) sources"
proof -
  have d: "1 \<le> d" using assms(1) by (auto simp: lookback_units_def duration_defs)
  then have "int n * 1 \<le> int n * d" by (intro mult_left_mono) simp_all
  then have n: "int n < 2 ^ 63" using assms(3) by linarith
  have i: "i64 (int n * d) = int n * d" "i64 (- (int n * d)) = - (int n * d)"
    using assms(3) d by (simp_all add: i64_small abs_mult)
  show ?thesis
    using parseLookbackWindow_amount [OF assms(1,2) n] i
    by (auto simp: filterSourcesByLookback_def intro!: filter_cong)
qed

text \<open>A larger amount is accepted too, and the product wraps: the parsed window of 153722868
  minutes is negative, and it drops even a source modified at this moment.\<close>
theorem lookback_overflow_drops_sources:
  "\<exists>w. parseLookbackWindow ''153722868m'' = Inr (w, True) \<and> w < 0 \<and>
       filterSourcesByLookback (\<lambda>t. t) [now - minute, now] now w True = []"
proof -
  have "parseLookbackWindow ''153722868m'' = Inr (- 9223371993709551616, True)" by code_simp
  moreover have "i64 9223371993709551616 = 9223371993709551616" by (simp add: i64_small)
  ultimately show ?thesis
    by (simp add: filterSourcesByLookback_def minute_def second_def)
qed

section \<open>Instances\<close>

definition small_block :: provider_block where
  "small_block = \<lparr>Tool = ''codex'', Sources = [], Header = ''H:'', Messages = [''one'', ''two'', ''three'']\<rparr>"

theorem hardSplit_lossless_witness:
  "\<exists>cs w. hardSplit small_block 6 2 [] = (cs, w) \<and> length cs = 3 \<and>
          concat (map (payload small_block) cs) = ''onetwothree''"
proof -
  have n: "length (fst (hardSplit small_block 6 2 [])) = 3" by code_simp
  obtain cs w where h: "hardSplit small_block 6 2 [] = (cs, w)" by fastforce
  from hardSplit_lossless [OF _ h] h n show ?thesis by (simp add: small_block_def)
qed

definition small_config :: chunking_config where
  "small_config = \<lparr>MaxChunkBytes = 20, ProviderBoundaryHeadroom = None\<rparr>"

definition long_block :: provider_block where
  "long_block = \<lparr>Tool = ''claude'', Sources = [], Header = ''H:'',
     Messages = [''one'', [], ''twothreefourfivesix'', ''seven'']\<rparr>"

theorem packChunks_lossless_witness:
  "\<exists>ts. list_all2 (contributes 20) [small_block, long_block] ts \<and>
     concat (map Transcript (fst (packChunks [small_block, long_block] small_config []))) = concat ts \<and>
     map Transcript (fst (packChunks [small_block, long_block] small_config [])) =
       [''H:onetwothree'', ''H:one'', ''H:twothreefourfivesix'', ''H:seven'']"
proof -
  obtain cs ws where p: "packChunks [small_block, long_block] small_config [] = (cs, ws)" by fastforce
  have "map Transcript (fst (packChunks [small_block, long_block] small_config [])) =
       [''H:onetwothree'', ''H:one'', ''H:twothreefourfivesix'', ''H:seven'']" by code_simp
  with packChunks_lossless [OF _ _ p] p show ?thesis by (auto simp: small_config_def)
qed

theorem lookback_selects_recent_witness:
  "parseLookbackWindow ''7d'' = Inr (7 * (24 * hour), True)"
proof -
  have u: "(''d'', 24 * hour) \<in> set lookback_units" by (simp add: lookback_units_def)
  have "dec_nat 7 = ''7''" by code_simp
  with lookback_selects_recent [OF u, of 7 "\<lambda>t. t" "[]"] show ?thesis by (simp add: duration_defs)
qed

end
