(* ===== verification/Migrate.thy ===== *)
theory Migrate
  imports Prelude GoNum "HOL-Library.AList"
begin

text \<open>
  The versioned-document framework, \<open>internal/migrate/migrate.go\<close>. A persisted file is a
  JSON object, an association list from keys to raw members; other text is \<open>Malformed\<close>,
  and the text \<open>null\<close>, which decodes into a struct or a nil map without error, is
  \<open>NullDoc\<close>. A member is a null, an integer, or another value of the type \<open>'v\<close> that
  the file's schema gives (its text when it has no meaning there). The locale
  \<open>migration_chain\<close> is the contract of a registry: contiguous steps, each of which writes its
  target version.
\<close>

datatype 'v raw = RNull | RInt int | RVal 'v

datatype 'v document = Malformed | NullDoc | Obj "(string \<times> 'v raw) list"

datatype migrate_error =
    Unmarshal | VersionField | ExplicitZero | Downgrade int int | Step int int | Incomplete int int
  | NilMapWrite

record 'v migration =
  mg_from :: int
  mg_to :: int
  mg_run :: "'v document \<Rightarrow> migrate_error + 'v document"

record 'v registry =
  rg_name :: string
  rg_current :: int
  rg_migrations :: "'v migration list"

record migrate_result =
  rs_from :: int
  rs_to :: int
  rs_steps :: nat

definition migrated :: "migrate_result \<Rightarrow> bool" where
  "migrated r \<longleftrightarrow> rs_steps r > 0"

text \<open>\<open>json.Unmarshal\<close> of a null into an \<open>int\<close> leaves it at zero.\<close>

definition peekVersion :: "'v document \<Rightarrow> migrate_error + int \<times> bool" where
  "peekVersion d =
     (case d of
        Malformed \<Rightarrow> Inl Unmarshal
      | NullDoc \<Rightarrow> Inr (0, False)
      | Obj kvs \<Rightarrow>
          (case map_of kvs ''version'' of
             None \<Rightarrow> Inr (0, False)
           | Some RNull \<Rightarrow> Inr (0, True)
           | Some (RInt v) \<Rightarrow> if in_i64 v then Inr (v, True) else Inl VersionField
           | Some (RVal _) \<Rightarrow> Inl VersionField))"

text \<open>A null document unmarshals to a nil map, and writing to it panics.\<close>

definition setVersion :: "'v document \<Rightarrow> int \<Rightarrow> migrate_error + 'v document" where
  "setVersion d v =
     (case d of
        Malformed \<Rightarrow> Inl Unmarshal
      | NullDoc \<Rightarrow> Inl NilMapWrite
      | Obj kvs \<Rightarrow> Inr (Obj (AList.update ''version'' (RInt v) kvs)))"

fun run_steps ::
    "'v migration list \<Rightarrow> 'v document \<Rightarrow> int \<Rightarrow> nat \<Rightarrow> migrate_error + 'v document \<times> int \<times> nat" where
  "run_steps [] d ver steps = Inr (d, ver, steps)"
| "run_steps (m # ms) d ver steps =
     (if mg_from m < ver then run_steps ms d ver steps
      else if mg_from m > ver then Inr (d, ver, steps)
      else
        (case mg_run m d of
           Inl NilMapWrite \<Rightarrow> Inl NilMapWrite
         | Inl _ \<Rightarrow> Inl (Step (mg_from m) (mg_to m))
         | Inr d' \<Rightarrow> run_steps ms d' (mg_to m) (Suc steps)))"

definition run_registry :: "'v registry \<Rightarrow> 'v document \<Rightarrow> migrate_error + 'v document \<times> migrate_result" where
  "run_registry r d =
     (case peekVersion d of
        Inl e \<Rightarrow> Inl e
      | Inr (fileVer, hasVersion) \<Rightarrow>
          if hasVersion \<and> fileVer = 0 then Inl ExplicitZero
          else if hasVersion \<and> fileVer > rg_current r then Inl (Downgrade fileVer (rg_current r))
          else
            let v = (if hasVersion then fileVer else 0) in
            if v = rg_current r then Inr (d, \<lparr>rs_from = v, rs_to = rg_current r, rs_steps = 0\<rparr>)
            else
              (case run_steps (rg_migrations r) d v 0 of
                 Inl e \<Rightarrow> Inl e
               | Inr (d', v', n) \<Rightarrow>
                   if v' \<noteq> rg_current r then Inl (Incomplete v' (rg_current r))
                   else Inr (d', \<lparr>rs_from = v, rs_to = rg_current r, rs_steps = n\<rparr>)))"

section \<open>The contract of a registry\<close>

definition is_object :: "'v document \<Rightarrow> bool" where
  "is_object d \<longleftrightarrow> (case d of Obj _ \<Rightarrow> True | _ \<Rightarrow> False)"

lemma peek_setVersion:
  "setVersion d v = Inr d' \<Longrightarrow> in_i64 v \<Longrightarrow> peekVersion d' = Inr (v, True) \<and> is_object d'"
  by (auto simp: setVersion_def peekVersion_def is_object_def update_conv split: document.splits)

lemma setVersion_object: "is_object d \<Longrightarrow> \<exists>d'. setVersion d v = Inr d'"
  by (auto simp: setVersion_def is_object_def split: document.splits)

locale migration_chain =
  fixes r :: "'v registry"
  assumes contiguous: "\<And>i. i < length (rg_migrations r) \<Longrightarrow>
      mg_from (rg_migrations r ! i) = int i \<and> mg_to (rg_migrations r ! i) = int i + 1"
    and current: "rg_current r = int (length (rg_migrations r))"
    and nonempty: "rg_migrations r \<noteq> []"
    and step: "\<And>m d. m \<in> set (rg_migrations r) \<Longrightarrow> is_object d \<Longrightarrow>
      \<exists>d'. mg_run m d = Inr d' \<and> is_object d' \<and> peekVersion d' = Inr (mg_to m, True)"
begin

lemma steps_skip:
  assumes "k \<le> v" "v \<le> length (rg_migrations r)"
  shows "run_steps (drop k (rg_migrations r)) d (int v) n = run_steps (drop v (rg_migrations r)) d (int v) n"
  using assms
proof (induction "v - k" arbitrary: k)
  case (Suc j)
  then have k: "k < v" "k < length (rg_migrations r)" by simp_all
  then have "drop k (rg_migrations r) = rg_migrations r ! k # drop (Suc k) (rg_migrations r)"
    using k(2) by (simp add: Cons_nth_drop_Suc)
  then have "run_steps (drop k (rg_migrations r)) d (int v) n = run_steps (drop (Suc k) (rg_migrations r)) d (int v) n"
    using contiguous [OF k(2)] k(1) by simp
  with Suc show ?case by simp
qed simp

lemma steps_run:
  assumes "v < length (rg_migrations r)" "is_object d"
  shows "\<exists>d'. run_steps (drop v (rg_migrations r)) d (int v) n =
      Inr (d', rg_current r, n + (length (rg_migrations r) - v)) \<and>
      is_object d' \<and> peekVersion d' = Inr (rg_current r, True)"
  using assms
proof (induction "length (rg_migrations r) - v" arbitrary: v d n)
  case (Suc j)
  note v = Suc.prems(1)
  let ?m = "rg_migrations r ! v"
  obtain d1 where d1: "mg_run ?m d = Inr d1" "is_object d1" "peekVersion d1 = Inr (mg_to ?m, True)"
    using step [of ?m d] v Suc.prems(2) by auto
  have "drop v (rg_migrations r) = ?m # drop (Suc v) (rg_migrations r)"
    using v by (simp add: Cons_nth_drop_Suc)
  then have run: "run_steps (drop v (rg_migrations r)) d (int v) n =
      run_steps (drop (Suc v) (rg_migrations r)) d1 (int (Suc v)) (Suc n)"
    using contiguous [OF v] d1 by (simp add: add.commute)
  show ?case
  proof (cases "Suc v = length (rg_migrations r)")
    case True
    then show ?thesis
      using run d1 contiguous [OF v] current by auto
  next
    case False
    have j: "j = length (rg_migrations r) - Suc v" using Suc.hyps(2) by simp
    have n: "Suc n + (length (rg_migrations r) - Suc v) = n + (length (rg_migrations r) - v)"
      using v by simp
    have "Suc v < length (rg_migrations r)" using v False by simp
    from Suc.hyps(1) [OF j this d1(2), of "Suc n"] show ?thesis unfolding run n .
  qed
qed simp

lemma upgrades:
  assumes "is_object d" "peekVersion d = Inr (v, has)" "0 \<le> v" "v \<le> rg_current r" "\<not> (has \<and> v = 0)"
  shows "\<exists>d' n. run_registry r d = Inr (d', \<lparr>rs_from = v, rs_to = rg_current r, rs_steps = n\<rparr>) \<and>
      is_object d' \<and> peekVersion d' = Inr (rg_current r, True) \<and> int n = rg_current r - v"
proof -
  have v: "\<not> has \<Longrightarrow> v = 0"
    using assms(1,2) by (auto simp: peekVersion_def is_object_def split: document.splits option.splits raw.splits if_splits)
  show ?thesis
  proof (cases "v = rg_current r")
    case True
    with nonempty current have has using v by auto
    with True assms show ?thesis by (simp add: run_registry_def Let_def)
  next
    case False
    let ?v = "nat v"
    have lt: "?v < length (rg_migrations r)" using False assms(3,4) current by linarith
    obtain d' where "run_steps (drop ?v (rg_migrations r)) d (int ?v) 0 =
        Inr (d', rg_current r, 0 + (length (rg_migrations r) - ?v))"
      "is_object d'" "peekVersion d' = Inr (rg_current r, True)"
      using steps_run [OF lt assms(1)] by blast
    moreover have "run_steps (rg_migrations r) d v 0 = run_steps (drop ?v (rg_migrations r)) d (int ?v) 0"
      using steps_skip [of 0 ?v] lt assms(3) by simp
    ultimately show ?thesis
      using assms v False current lt by (auto simp: run_registry_def Let_def)
  qed
qed

lemma negative_refused:
  assumes "peekVersion d = Inr (v, has)" "v < 0"
  shows "\<exists>e. run_registry r d = Inl e"
proof -
  have "\<not> v = rg_current r" using assms(2) current by simp
  moreover have "run_steps (rg_migrations r) d v 0 = Inr (d, v, 0)"
    using nonempty contiguous [of 0] assms(2) by (cases "rg_migrations r") auto
  moreover have has using assms by (auto simp: peekVersion_def split: document.splits option.splits raw.splits if_splits)
  ultimately show ?thesis using assms by (auto simp: run_registry_def Let_def)
qed

text \<open>What a successful run returns is at the current version, and running again returns it
  unchanged.\<close>

lemma success_current:
  assumes "is_object d" "run_registry r d = Inr (d', res)"
  shows "peekVersion d' = Inr (rg_current r, True) \<and> is_object d' \<and>
         run_registry r d' = Inr (d', \<lparr>rs_from = rg_current r, rs_to = rg_current r, rs_steps = 0\<rparr>)"
proof -
  obtain v has where p: "peekVersion d = Inr (v, has)"
    using assms(2) by (auto simp: run_registry_def split: sum.splits)
  have "0 \<le> v" using negative_refused [OF p] assms(2) by (cases "v < 0") auto
  moreover have "v \<le> rg_current r" "\<not> (has \<and> v = 0)"
  proof -
    show "\<not> (has \<and> v = 0)" using assms(2) p by (auto simp: run_registry_def)
    show "v \<le> rg_current r"
    proof (cases has)
      case True
      then show ?thesis using assms(2) p by (auto simp: run_registry_def split: if_splits)
    next
      case False
      then have "v = 0"
        using assms(1) p by (auto simp: peekVersion_def is_object_def split: document.splits option.splits raw.splits if_splits)
      then show ?thesis using current by simp
    qed
  qed
  ultimately have "peekVersion d' = Inr (rg_current r, True) \<and> is_object d'"
    using upgrades [OF assms(1) p] assms(2) by auto
  moreover have "rg_current r \<noteq> 0" using current nonempty by simp
  ultimately show ?thesis by (simp add: run_registry_def Let_def)
qed

end

end
