(* ===== verification/StateStore.thy ===== *)
theory StateStore
  imports Migrate GoText
begin

text \<open>
  The per-project state document, \<open>internal/state\<close>: \<open>tracker.go\<close> (schema, load, save,
  normalisation, error truncation, chat cache keys), \<open>findings.go\<close>, \<open>merge.go\<close> and
  \<open>provider_usage.go\<close>. A Go map is an association list with distinct keys, \<open>None\<close> for
  the nil map; times are nanoseconds. The document on disk is a JSON object whose members hold
  already decoded values of the schema's field types. The project directory is a map from base
  names to files; a write succeeds or fails as the parameter \<open>wr\<close> says.
\<close>

type_synonym 'v dict = "(string \<times> 'v) list"

definition zero_time :: int where
  "zero_time = - (62135596800 * 10 ^ 9)"

definition or_empty :: "'v dict option \<Rightarrow> 'v dict" where
  "or_empty m = (case m of Some d \<Rightarrow> d | None \<Rightarrow> [])"

section \<open>The schema\<close>

record apply_spec =
  Category :: string
  TargetFile :: string
  Strategy :: string
  Anchor :: string
  Snippet :: string

record reversal =
  RevPath :: string
  RevStrategy :: string
  PreImageSHA256 :: string
  PostImageSHA256 :: string
  PreImage :: string

record finding_state =
  Status :: string
  AppliedAt :: int
  AppliedReversal :: "reversal option"
  DismissedAt :: int
  ResolvedAt :: int
  ProjectName :: string
  ApplySpec :: "apply_spec option"

definition FindingStatusApplied :: string where "FindingStatusApplied = ''applied''"
definition FindingStatusDismissed :: string where "FindingStatusDismissed = ''dismissed''"
definition FindingStatusResolved :: string where "FindingStatusResolved = ''resolved''"

lemmas finding_status_defs =
  FindingStatusApplied_def FindingStatusDismissed_def FindingStatusResolved_def

definition zero_finding :: finding_state where
  "zero_finding = \<lparr>Status = [], AppliedAt = zero_time, AppliedReversal = None,
     DismissedAt = zero_time, ResolvedAt = zero_time, ProjectName = [], ApplySpec = None\<rparr>"

record provider_usage =
  Runs :: int
  TotalTokens :: int
  Timeouts :: int
  Failures :: int
  LastSuccessUTC :: int
  LastError :: string

definition zero_usage :: provider_usage where
  "zero_usage = \<lparr>Runs = 0, TotalTokens = 0, Timeouts = 0, Failures = 0,
     LastSuccessUTC = zero_time, LastError = []\<rparr>"

record cached_mistake =
  MistakeCategory :: string
  Summary :: string
  EvidenceExcerpt :: string
  Confidence :: float64

record cached_phase1 =
  Mistakes :: "cached_mistake list dict"
  CacheKey :: string
  Timestamp :: int

record project_state =
  Version :: int
  LastRunUTC :: int
  RepoHeadSHA :: string
  ChatHashes :: "string dict option"
  FindingHashes :: "string list"
  ProviderUsage :: "provider_usage dict option"
  UsageStats :: "int dict option"
  LastRunPerCategory :: "int dict option"
  Findings :: "finding_state dict option"
  CachedPhase1 :: "cached_phase1 option"

definition StateVersion :: int where "StateVersion = 2"

definition defaultState :: project_state where
  "defaultState = \<lparr>Version = StateVersion, LastRunUTC = zero_time, RepoHeadSHA = [],
     ChatHashes = Some [], FindingHashes = [], ProviderUsage = Some [], UsageStats = Some [],
     LastRunPerCategory = Some [], Findings = Some [], CachedPhase1 = None\<rparr>"

definition normalizeState :: "project_state \<Rightarrow> project_state" where
  "normalizeState s =
     s\<lparr>ChatHashes := Some (or_empty (ChatHashes s)),
       ProviderUsage := Some (or_empty (ProviderUsage s)),
       UsageStats := Some (or_empty (UsageStats s)),
       LastRunPerCategory := Some (or_empty (LastRunPerCategory s)),
       Findings := Some (or_empty (Findings s))\<rparr>"

section \<open>The document\<close>

datatype member =
    MTime int | MString string | MStrings "string list" | MStringMap "string dict"
  | MUsage "provider_usage dict" | MInts "int dict" | MTimes "int dict"
  | MFindings "finding_state dict" | MPhase1 cached_phase1 | MOther string

type_synonym doc = "member document"

definition stateMigration1 :: "doc \<Rightarrow> migrate_error + doc" where
  "stateMigration1 d = setVersion d 1"

definition stateMigration2 :: "doc \<Rightarrow> migrate_error + doc" where
  "stateMigration2 d =
     (case d of
        Malformed \<Rightarrow> Inl Unmarshal
      | NullDoc \<Rightarrow> Inl NilMapWrite
      | Obj kvs \<Rightarrow>
          Inr (Obj (AList.update ''version'' (RInt 2)
                     (AList.update ''chat_hashes'' (RVal (MStringMap [])) kvs))))"

definition stateMigrations :: "member registry" where
  "stateMigrations = \<lparr>rg_name = ''state.json'', rg_current = StateVersion,
     rg_migrations = [\<lparr>mg_from = 0, mg_to = 1, mg_run = stateMigration1\<rparr>,
                      \<lparr>mg_from = 1, mg_to = 2, mg_run = stateMigration2\<rparr>]\<rparr>"

text \<open>Decoding a member: absent or null leaves the zero value, another type is an error.\<close>

definition json_field :: "('v raw \<Rightarrow> 'a option) \<Rightarrow> 'a \<Rightarrow> (string \<times> 'v raw) list \<Rightarrow> string \<Rightarrow> 'a option" where
  "json_field dec zero kvs k =
     (case map_of kvs k of None \<Rightarrow> Some zero | Some RNull \<Rightarrow> Some zero | Some r \<Rightarrow> dec r)"

definition dec_int_field :: "'v raw \<Rightarrow> int option" where
  "dec_int_field r = (case r of RInt v \<Rightarrow> if in_i64 v then Some v else None | _ \<Rightarrow> None)"

definition decode_state :: "doc \<Rightarrow> project_state option" where
  "decode_state d =
     (case d of
        Malformed \<Rightarrow> None
      | NullDoc \<Rightarrow> None
      | Obj kvs \<Rightarrow>
          (case (json_field dec_int_field 0 kvs ''version'',
                 json_field (\<lambda>r. case r of RVal (MTime t) \<Rightarrow> Some t | _ \<Rightarrow> None) zero_time kvs ''last_run_utc'',
                 json_field (\<lambda>r. case r of RVal (MString t) \<Rightarrow> Some t | _ \<Rightarrow> None) [] kvs ''repo_head_sha'',
                 json_field (\<lambda>r. case r of RVal (MStringMap m) \<Rightarrow> Some (Some m) | _ \<Rightarrow> None) None kvs ''chat_hashes'',
                 json_field (\<lambda>r. case r of RVal (MStrings m) \<Rightarrow> Some m | _ \<Rightarrow> None) [] kvs ''finding_hashes'',
                 json_field (\<lambda>r. case r of RVal (MUsage m) \<Rightarrow> Some (Some m) | _ \<Rightarrow> None) None kvs ''provider_usage'',
                 json_field (\<lambda>r. case r of RVal (MInts m) \<Rightarrow> Some (Some m) | _ \<Rightarrow> None) None kvs ''usage_stats'',
                 json_field (\<lambda>r. case r of RVal (MTimes m) \<Rightarrow> Some (Some m) | _ \<Rightarrow> None) None kvs ''last_run_per_category'',
                 json_field (\<lambda>r. case r of RVal (MFindings m) \<Rightarrow> Some (Some m) | _ \<Rightarrow> None) None kvs ''findings'',
                 json_field (\<lambda>r. case r of RVal (MPhase1 m) \<Rightarrow> Some (Some m) | _ \<Rightarrow> None) None kvs ''cached_phase1'')
           of (Some v, Some t, Some sha, Some ch, Some fh, Some pu, Some us, Some lc, Some fs, Some cp) \<Rightarrow>
                Some \<lparr>Version = v, LastRunUTC = t, RepoHeadSHA = sha, ChatHashes = ch, FindingHashes = fh,
                      ProviderUsage = pu, UsageStats = us, LastRunPerCategory = lc, Findings = fs,
                      CachedPhase1 = cp\<rparr>
            | _ \<Rightarrow> None))"

text \<open>Encoding, with \<open>omitempty\<close> where the struct tags say so.\<close>

definition nullable :: "('a \<Rightarrow> member) \<Rightarrow> 'a option \<Rightarrow> member raw" where
  "nullable c m = (case m of Some d \<Rightarrow> RVal (c d) | None \<Rightarrow> RNull)"

definition omit_empty :: "string \<Rightarrow> ('v dict \<Rightarrow> member) \<Rightarrow> 'v dict option \<Rightarrow> (string \<times> member raw) list" where
  "omit_empty k c m = (if or_empty m = [] then [] else [(k, RVal (c (or_empty m)))])"

definition encode_state :: "project_state \<Rightarrow> doc" where
  "encode_state s = Obj (
     [(''version'', RInt (Version s)), (''last_run_utc'', RVal (MTime (LastRunUTC s)))] @
     (if RepoHeadSHA s = [] then [] else [(''repo_head_sha'', RVal (MString (RepoHeadSHA s)))]) @
     [(''chat_hashes'', nullable MStringMap (ChatHashes s)),
      (''finding_hashes'', RVal (MStrings (FindingHashes s))),
      (''provider_usage'', nullable MUsage (ProviderUsage s))] @
     omit_empty ''usage_stats'' MInts (UsageStats s) @
     omit_empty ''last_run_per_category'' MTimes (LastRunPerCategory s) @
     omit_empty ''findings'' MFindings (Findings s) @
     (case CachedPhase1 s of None \<Rightarrow> [] | Some c \<Rightarrow> [(''cached_phase1'', RVal (MPhase1 c))]))"

section \<open>Load and save\<close>

datatype 'd stored = Absent | Unreadable | File 'd

type_synonym 'd dir = "string \<Rightarrow> 'd stored"

datatype store_error = ReadError | MigrateError migrate_error | DecodeError | BackupFailed int | WriteFailed

definition stateFile :: string where "stateFile = ''state.json''"

definition backup_name :: "string \<Rightarrow> int \<Rightarrow> string" where
  "backup_name base v = base @ ''.v'' @ dec_int v @ ''.bak''"

definition loadWithResult :: "doc dir \<Rightarrow> store_error + project_state \<times> migrate_result" where
  "loadWithResult fs =
     (case fs stateFile of
        Absent \<Rightarrow> Inr (defaultState, \<lparr>rs_from = 0, rs_to = StateVersion, rs_steps = 0\<rparr>)
      | Unreadable \<Rightarrow> Inl ReadError
      | File d \<Rightarrow>
          (case run_registry stateMigrations d of
             Inl e \<Rightarrow> Inl (MigrateError e)
           | Inr (d', res) \<Rightarrow>
               (case decode_state d' of
                  None \<Rightarrow> Inl DecodeError
                | Some s \<Rightarrow> Inr (normalizeState s, res))))"

definition load_project :: "doc dir \<Rightarrow> store_error + project_state" where
  "load_project fs = (case loadWithResult fs of Inl e \<Rightarrow> Inl e | Inr (s, _) \<Rightarrow> Inr s)"

text \<open>The backup of an older document before it is overwritten; an existing backup is kept.\<close>

definition backup_older ::
    "(string \<Rightarrow> bool) \<Rightarrow> string \<Rightarrow> int \<Rightarrow> 'v document dir \<Rightarrow> store_error + 'v document dir" where
  "backup_older wr base current fs =
     (case fs base of
        File d \<Rightarrow>
          (let prior = (case peekVersion d of Inr (v, True) \<Rightarrow> v | _ \<Rightarrow> 0) in
           if prior < current \<and> fs (backup_name base prior) = Absent
           then (if wr (backup_name base prior) then Inr (fs(backup_name base prior := File d))
                 else Inl (BackupFailed prior))
           else Inr fs)
      | _ \<Rightarrow> Inr fs)"

definition save_project ::
    "(string \<Rightarrow> bool) \<Rightarrow> project_state \<Rightarrow> doc dir \<Rightarrow> store_error + doc dir" where
  "save_project wr s fs =
     (case backup_older wr stateFile StateVersion fs of
        Inl e \<Rightarrow> Inl e
      | Inr fs1 \<Rightarrow>
          let s1 = normalizeState (if Version s = 0 then s\<lparr>Version := StateVersion\<rparr> else s)
          in if wr stateFile then Inr (fs1(stateFile := File (encode_state s1))) else Inl WriteFailed)"

section \<open>Merging a pipeline result\<close>

definition mergeStringSliceUnion :: "string list \<Rightarrow> string list \<Rightarrow> string list" where
  "mergeStringSliceUnion base extra =
     (if extra = [] then base else dedup_by (\<lambda>s. s) {} (base @ extra))"

definition merge_finding :: "finding_state dict \<Rightarrow> string \<times> finding_state \<Rightarrow> finding_state dict" where
  "merge_finding disk entry =
     (case entry of (hash, pipelineEntry) \<Rightarrow>
        (case map_of disk hash of
           None \<Rightarrow> AList.update hash pipelineEntry disk
         | Some existing \<Rightarrow>
             if ApplySpec existing = None \<and> ApplySpec pipelineEntry \<noteq> None
             then AList.update hash (existing\<lparr>ApplySpec := ApplySpec pipelineEntry\<rparr>) disk
             else disk))"

definition merge_states :: "project_state \<Rightarrow> project_state \<Rightarrow> project_state" where
  "merge_states onDisk p =
     onDisk\<lparr>LastRunUTC := LastRunUTC p, RepoHeadSHA := RepoHeadSHA p, ChatHashes := ChatHashes p,
       LastRunPerCategory := LastRunPerCategory p, ProviderUsage := ProviderUsage p,
       UsageStats := UsageStats p, CachedPhase1 := CachedPhase1 p,
       FindingHashes := mergeStringSliceUnion (FindingHashes onDisk) (FindingHashes p),
       Findings := Some (foldl merge_finding (or_empty (Findings onDisk)) (or_empty (Findings p)))\<rparr>"

definition mergePipelineResult ::
    "(string \<Rightarrow> bool) \<Rightarrow> project_state \<Rightarrow> doc dir \<Rightarrow> store_error + doc dir" where
  "mergePipelineResult wr p fs =
     (case load_project fs of
        Inl e \<Rightarrow> Inl e
      | Inr onDisk \<Rightarrow> save_project wr (merge_states onDisk p) fs)"

section \<open>Provider usage\<close>

definition maxErrorLen :: nat where "maxErrorLen = 500"

definition ellipsis :: string where
  "ellipsis = [CHR 0xE2, CHR 0x80, CHR 0xA6]"

definition truncateError :: "string \<Rightarrow> string" where
  "truncateError msg =
     (if msg = [] then []
      else if length (runes msg) \<le> maxErrorLen then msg
      else encode_runes (take maxErrorLen (runes msg)) @ ellipsis)"

definition recordProviderSuccess :: "string \<Rightarrow> int \<Rightarrow> int \<Rightarrow> project_state \<Rightarrow> project_state" where
  "recordProviderSuccess providerID tokens now s =
     (if trim_space providerID = [] then s
      else
        let m = or_empty (ProviderUsage s);
            u = (case map_of m providerID of Some u \<Rightarrow> u | None \<Rightarrow> zero_usage);
            u1 = u\<lparr>Runs := i64 (Runs u + 1),
                  TotalTokens := (if tokens > 0 then i64 (TotalTokens u + tokens) else TotalTokens u),
                  LastSuccessUTC := now, LastError := []\<rparr>
        in s\<lparr>ProviderUsage := Some (AList.update providerID u1 m)\<rparr>)"

text \<open>The error is its message and whether it wraps \<open>context.DeadlineExceeded\<close>.\<close>

definition recordProviderFailure :: "string \<Rightarrow> (string \<times> bool) option \<Rightarrow> project_state \<Rightarrow> project_state" where
  "recordProviderFailure providerID err s =
     (case err of
        None \<Rightarrow> s
      | Some (msg, deadline) \<Rightarrow>
          if trim_space providerID = [] then s
          else
            let m = or_empty (ProviderUsage s);
                u = (case map_of m providerID of Some u \<Rightarrow> u | None \<Rightarrow> zero_usage);
                u1 = (if deadline then u\<lparr>Timeouts := i64 (Timeouts u + 1)\<rparr>
                      else u\<lparr>Failures := i64 (Failures u + 1)\<rparr>)
            in s\<lparr>ProviderUsage := Some (AList.update providerID (u1\<lparr>LastError := truncateError msg\<rparr>) m)\<rparr>)"

section \<open>Chat cache keys\<close>

text \<open>Eight big-endian length bytes before each field; \<open>sha\<close> is the hex-encoded SHA-256.\<close>

definition put_uint64 :: "nat \<Rightarrow> string" where
  "put_uint64 n = map (\<lambda>k. char_of (n div 256 ^ k mod 256)) [7, 6, 5, 4, 3, 2, 1, 0]"

definition len_prefixed :: "string \<Rightarrow> string" where
  "len_prefixed s = put_uint64 (length s) @ s"

definition chatCacheKey :: "(string \<Rightarrow> string) \<Rightarrow> string \<Rightarrow> string \<Rightarrow> string \<Rightarrow> string" where
  "chatCacheKey sha path fileHash repoHeadSHA =
     sha (len_prefixed path @ len_prefixed fileHash @ len_prefixed repoHeadSHA)"

section \<open>Migrations\<close>

lemma stateMigration2_object:
  "is_object d \<Longrightarrow> \<exists>d'. stateMigration2 d = Inr d' \<and> is_object d' \<and> peekVersion d' = Inr (2, True)"
  by (auto simp: stateMigration2_def is_object_def peekVersion_def update_conv in_i64_def split: document.splits)

lemma stateMigration1_object:
  "is_object d \<Longrightarrow> \<exists>d'. stateMigration1 d = Inr d' \<and> is_object d' \<and> peekVersion d' = Inr (1, True)"
  unfolding stateMigration1_def
  using setVersion_object [of d 1] peek_setVersion [of d 1] by (fastforce simp: in_i64_def)

interpretation state_chain: migration_chain stateMigrations
proof
  show "mg_from (rg_migrations stateMigrations ! i) = int i \<and> mg_to (rg_migrations stateMigrations ! i) = int i + 1"
    if "i < length (rg_migrations stateMigrations)" for i
    using that by (auto simp: stateMigrations_def less_Suc_eq numeral_2_eq_2)
  show "\<exists>d'. mg_run m d = Inr d' \<and> is_object d' \<and> peekVersion d' = Inr (mg_to m, True)"
    if "m \<in> set (rg_migrations stateMigrations)" "is_object d" for m d
    using that stateMigration1_object [of d] stateMigration2_object [of d]
    by (auto simp: stateMigrations_def)
qed (simp_all add: stateMigrations_def StateVersion_def)

lemma stateMigrations_current [simp]: "rg_current stateMigrations = 2"
  by (simp add: stateMigrations_def StateVersion_def)

section \<open>Round trip\<close>

text \<open>
  The contract of a persisted document: loading after a successful save gives the normal form of
  what was saved, for documents that satisfy \<open>ok\<close>, and what is loaded satisfies it and is
  normal. \<open>cycle\<close> is a locked load-mutate-save.
\<close>

locale persisted =
  fixes load :: "'f \<Rightarrow> 'e + 'd"
    and save :: "'d \<Rightarrow> 'f \<Rightarrow> 'e + 'f"
    and norm :: "'d \<Rightarrow> 'd"
    and ok :: "'d \<Rightarrow> bool"
  assumes save_load: "ok d \<Longrightarrow> save d f = Inr f' \<Longrightarrow> load f' = Inr (norm d)"
    and load_ok: "load f = Inr d \<Longrightarrow> ok d"
begin

definition cycle :: "('d \<Rightarrow> 'd) \<Rightarrow> 'f \<Rightarrow> 'e + 'f" where
  "cycle g f = (case load f of Inl e \<Rightarrow> Inl e | Inr d \<Rightarrow> save (g d) f)"

lemma cycle_load:
  assumes "cycle g f = Inr f'" and keeps: "\<And>d. ok d \<Longrightarrow> ok (g d)"
  shows "\<exists>d. load f = Inr d \<and> load f' = Inr (norm (g d))"
proof -
  obtain d where d: "load f = Inr d" "save (g d) f = Inr f'"
    using assms(1) by (auto simp: cycle_def split: sum.splits)
  then have "load f' = Inr (norm (g d))" using save_load keeps load_ok by blast
  with d(1) show ?thesis by blast
qed

lemma two_cycles:
  assumes "cycle g f = Inr f1" "cycle h f1 = Inr f2" "\<And>d. ok d \<Longrightarrow> ok (g d)" "\<And>d. ok d \<Longrightarrow> ok (h d)"
  shows "\<exists>d. load f = Inr d \<and> load f2 = Inr (norm (h (norm (g d))))"
  using cycle_load [OF assms(1,3)] cycle_load [OF assms(2,4)] by fastforce

end

definition savable :: "project_state \<Rightarrow> bool" where
  "savable s \<longleftrightarrow> Version s = 0 \<or> Version s = StateVersion"

definition normal_state :: "project_state \<Rightarrow> project_state" where
  "normal_state s = normalizeState (s\<lparr>Version := StateVersion\<rparr>)"

lemma or_empty_simps [simp]: "or_empty (Some d) = d" "or_empty None = []"
  by (simp_all add: or_empty_def)

lemma normalizeState_idem [simp]: "normalizeState (normalizeState s) = normalizeState s"
  by (simp add: normalizeState_def)

lemma Version_normalizeState [simp]: "Version (normalizeState s) = Version s"
  by (simp add: normalizeState_def)

lemmas encode_simps =
  encode_state_def json_field_def dec_int_field_def nullable_def omit_empty_def

lemma json_field_absent: "map_of kvs k = None \<Longrightarrow> json_field dec z kvs k = Some z"
  by (simp add: json_field_def)

lemma decode_encode:
  assumes "in_i64 (Version s)"
  shows "\<exists>s'. decode_state (encode_state (normalizeState s)) = Some s' \<and>
              normalizeState s' = normalizeState s \<and> Version s' = Version s"
  using assms
  by (cases s; cases "CachedPhase1 s")
     (auto simp: decode_state_def encode_simps normalizeState_def split: if_splits)

lemma peek_encode:
  "in_i64 (Version s) \<Longrightarrow> peekVersion (encode_state s) = Inr (Version s, True) \<and> is_object (encode_state s)"
  by (simp add: peekVersion_def is_object_def encode_state_def)

lemma run_encode:
  assumes "Version s = StateVersion"
  shows "run_registry stateMigrations (encode_state s) =
    Inr (encode_state s, \<lparr>rs_from = 2, rs_to = 2, rs_steps = 0\<rparr>)"
  using peek_encode [of s] assms by (simp add: run_registry_def StateVersion_def in_i64_def Let_def)

lemma normal_state_eq:
  "savable s \<Longrightarrow> normalizeState (if Version s = 0 then s\<lparr>Version := StateVersion\<rparr> else s) = normal_state s"
  by (cases s) (auto simp: savable_def normal_state_def)

lemma load_saved:
  assumes "savable s" "save_project wr s fs = Inr fs'"
  shows "load_project fs' = Inr (normal_state s)"
proof -
  have fs': "fs' stateFile = File (encode_state (normal_state s))"
    using assms by (auto simp: save_project_def Let_def normal_state_eq split: sum.splits if_splits)
  have v: "Version (normal_state s) = StateVersion" by (simp add: normal_state_def)
  obtain s' where "decode_state (encode_state (normal_state s)) = Some s'"
    "normalizeState s' = normal_state s"
    using decode_encode [of "s\<lparr>Version := StateVersion\<rparr>"]
    by (auto simp: normal_state_def StateVersion_def in_i64_def)
  with fs' run_encode [OF v] show ?thesis
    by (simp add: load_project_def loadWithResult_def)
qed

text \<open>Whatever loads is at the current version, with every map allocated.\<close>

lemma decode_version_field:
  "decode_state (Obj kvs) = Some s \<Longrightarrow> json_field dec_int_field 0 kvs ''version'' = Some (Version s)"
  by (auto simp: decode_state_def split: option.splits)

lemma version_of_decoded:
  assumes "decode_state d = Some s" "peekVersion d = Inr (v, True)"
  shows "Version s = v"
proof (cases d)
  case (Obj kvs)
  then show ?thesis
    using assms(2) decode_version_field [of kvs s] assms(1)
    by (auto simp: peekVersion_def json_field_def dec_int_field_def split: option.splits raw.splits if_splits)
qed (use assms in \<open>simp_all add: decode_state_def\<close>)

lemma run_registry_object:
  "run_registry stateMigrations d = Inr (d', r) \<Longrightarrow> is_object d"
  by (auto simp: run_registry_def peekVersion_def is_object_def stateMigrations_def StateVersion_def
      stateMigration1_def setVersion_def Let_def split: document.splits)

lemma load_current:
  assumes "load_project fs = Inr s"
  shows "Version s = StateVersion \<and> normal_state s = s"
proof (cases "fs stateFile")
  case (File d)
  then obtain d' res s0 where r: "run_registry stateMigrations d = Inr (d', res)"
    "decode_state d' = Some s0" "s = normalizeState s0"
    using assms by (auto simp: load_project_def loadWithResult_def split: sum.splits option.splits)
  have "peekVersion d' = Inr (2, True)"
    using state_chain.success_current [OF run_registry_object [OF r(1)] r(1)] by simp
  then have "Version s = StateVersion" using version_of_decoded [OF r(2)] r(3) by (simp add: StateVersion_def)
  moreover from this have "normal_state s = normalizeState s" by (cases s) (simp add: normal_state_def)
  ultimately show ?thesis using r(3) by simp
qed (use assms in \<open>auto simp: load_project_def loadWithResult_def defaultState_def normal_state_def
      normalizeState_def\<close>)

interpretation state_doc: persisted load_project "save_project wr" normal_state savable for wr
  by unfold_locales (auto simp: savable_def load_saved dest: load_current)

text \<open>The state document round-trips: after a successful save of a state of the current schema
  (or with an unset version), loading gives the same state with its version set and its nil maps
  allocated, although empty maps are omitted from the file.\<close>
theorem state_roundtrip:
  assumes "Version s = 0 \<or> Version s = StateVersion" "save_project wr s fs = Inr fs'"
  shows "load_project fs' = Inr (normalizeState (s\<lparr>Version := StateVersion\<rparr>))"
  using state_doc.save_load [of s wr fs fs'] assms by (simp add: savable_def normal_state_def)

text \<open>Loading is version safe. Whatever loads has the current version; an explicit version 0, a
  negative version and a version above the current one are refused.\<close>
theorem load_version_safe:
  assumes "fs stateFile = File d" "peekVersion d = Inr (v, True)"
  shows "(v \<le> 0 \<or> v > StateVersion \<longrightarrow> (\<exists>e. load_project fs = Inl (MigrateError e))) \<and>
         (\<forall>s. load_project fs = Inr s \<longrightarrow> Version s = StateVersion \<and> 0 < v \<and> v \<le> StateVersion)"
proof -
  have r: "\<exists>e. run_registry stateMigrations d = Inl e" if "v \<le> 0 \<or> v > StateVersion"
  proof (cases "v < 0")
    case True
    then show ?thesis using state_chain.negative_refused [OF assms(2)] by blast
  next
    case False
    then show ?thesis using that assms(2) by (auto simp: run_registry_def StateVersion_def)
  qed
  then have "\<exists>e. load_project fs = Inl (MigrateError e)" if "v \<le> 0 \<or> v > StateVersion"
    using that assms(1) by (fastforce simp: load_project_def loadWithResult_def)
  then show ?thesis using load_current [of fs] by fastforce
qed

section \<open>Upgrades\<close>

lemma run_legacy:
  assumes "peekVersion (Obj kvs) = Inr (v, has)" "0 \<le> v" "v < StateVersion" "\<not> (has \<and> v = 0)"
  shows "\<exists>kvs' r. run_registry stateMigrations (Obj kvs) = Inr (Obj kvs', r) \<and> rs_from r = v \<and> migrated r \<and>
    map_of kvs' = (map_of kvs)(''version'' \<mapsto> RInt 2, ''chat_hashes'' \<mapsto> RVal (MStringMap []))"
proof -
  have "\<not> has \<longrightarrow> v = 0" using assms(1) by (auto simp: peekVersion_def split: option.splits raw.splits if_splits)
  moreover have "v = 0 \<or> v = 1" using assms(2,3) by (auto simp: StateVersion_def)
  ultimately show ?thesis
    using assms
    by (auto simp: run_registry_def stateMigrations_def StateVersion_def stateMigration1_def
        stateMigration2_def setVersion_def migrated_def update_conv fun_upd_twist Let_def)
qed

text \<open>A document of an older schema, or of none, upgrades in one load: every member but the
  version and the chat hashes is kept, and the chat hashes are cleared.\<close>
theorem legacy_upgrade_keeps_members:
  assumes "peekVersion (Obj kvs) = Inr (v, has)" "0 \<le> v" "v < StateVersion" "has \<longrightarrow> v \<noteq> 0"
  shows "\<exists>kvs' r. run_registry stateMigrations (Obj kvs) = Inr (Obj kvs', r) \<and> migrated r \<and>
    peekVersion (Obj kvs') = Inr (StateVersion, True) \<and>
    (\<forall>k. k \<noteq> ''version'' \<and> k \<noteq> ''chat_hashes'' \<longrightarrow> map_of kvs' k = map_of kvs k) \<and>
    map_of kvs' ''chat_hashes'' = Some (RVal (MStringMap []))"
proof -
  obtain kvs' r where "run_registry stateMigrations (Obj kvs) = Inr (Obj kvs', r)" "migrated r"
    "map_of kvs' = (map_of kvs)(''version'' \<mapsto> RInt 2, ''chat_hashes'' \<mapsto> RVal (MStringMap []))"
    using run_legacy [OF assms(1-3)] assms(4) by blast
  then show ?thesis
    by (intro exI [of _ kvs'] exI [of _ r]) (auto simp: peekVersion_def StateVersion_def in_i64_def)
qed

text \<open>A state file that holds \<open>null\<close> is not refused with an error: the first migration
  writes into a nil map, which panics.\<close>
theorem null_document_panics:
  "load_project ((\<lambda>_. Absent)(stateFile := File NullDoc)) = Inl (MigrateError NilMapWrite)"
  by (simp add: load_project_def loadWithResult_def run_registry_def peekVersion_def stateMigrations_def
      stateMigration1_def setVersion_def StateVersion_def Let_def)

lemma backup_name_other [simp]: "backup_name base v \<noteq> base"
proof
  assume "backup_name base v = base"
  then have "length (backup_name base v) = length base" by simp
  then show False by (simp add: backup_name_def)
qed

text \<open>Saving never destroys what an older version wrote. The document being replaced is kept
  under its backup name when its version is older, every other file, existing backups included,
  is unchanged, and no file is touched when the backup cannot be written.\<close>
theorem save_preserves_files:
  assumes "save_project wr s fs = Inr fs'"
  shows "(\<forall>name. name \<noteq> stateFile \<and> fs name \<noteq> Absent \<longrightarrow> fs' name = fs name) \<and>
    (\<forall>d v. fs stateFile = File d \<and> peekVersion d = Inr (v, True) \<and> v < StateVersion \<and>
        fs (backup_name stateFile v) = Absent \<longrightarrow> fs' (backup_name stateFile v) = File d)"
proof -
  obtain fs1 where b: "backup_older wr stateFile StateVersion fs = Inr fs1"
    and fs': "\<And>name. name \<noteq> stateFile \<Longrightarrow> fs' name = fs1 name"
    using assms by (auto simp: save_project_def Let_def split: sum.splits if_splits)
  have "fs1 name = fs name" if "name \<noteq> stateFile" "fs name \<noteq> Absent" for name
    using b that by (auto simp: backup_older_def Let_def split: stored.splits if_splits)
  moreover have "fs1 (backup_name stateFile v) = File d"
    if "fs stateFile = File d" "peekVersion d = Inr (v, True)" "v < StateVersion"
      "fs (backup_name stateFile v) = Absent" for d v
    using b that by (auto simp: backup_older_def Let_def split: if_splits)
  ultimately show ?thesis by (simp add: fs')
qed

section \<open>Merging\<close>

definition merged_entry :: "finding_state option \<Rightarrow> finding_state option \<Rightarrow> finding_state option" where
  "merged_entry disk pipe =
     (case disk of
        None \<Rightarrow> pipe
      | Some e \<Rightarrow>
          (case pipe of
             Some p \<Rightarrow> Some (if ApplySpec e = None then e\<lparr>ApplySpec := ApplySpec p\<rparr> else e)
           | None \<Rightarrow> Some e))"

lemma merge_finding_lookup:
  "map_of (merge_finding disk (h, p)) k =
     (if k = h then merged_entry (map_of disk k) (Some p) else map_of disk k)"
  by (cases "map_of disk h") (auto simp: merge_finding_def merged_entry_def update_conv)

lemma merge_findings_lookup:
  "distinct (map fst es) \<Longrightarrow>
   map_of (foldl merge_finding disk es) k = merged_entry (map_of disk k) (map_of es k)"
proof (induction es arbitrary: disk)
  case Nil
  then show ?case by (simp add: merged_entry_def split: option.splits)
next
  case (Cons e es)
  obtain h p where e: "e = (h, p)" by fastforce
  then have "map_of es h = None" using Cons.prems by (simp add: map_of_eq_None_iff)
  with Cons e show ?case by (auto simp: merge_finding_lookup merged_entry_def split: option.splits)
qed

text \<open>The fields the web handlers own.\<close>

definition same_lifecycle :: "finding_state \<Rightarrow> finding_state \<Rightarrow> bool" where
  "same_lifecycle a b \<longleftrightarrow>
     Status a = Status b \<and> AppliedAt a = AppliedAt b \<and> AppliedReversal a = AppliedReversal b \<and>
     DismissedAt a = DismissedAt b \<and> ResolvedAt a = ResolvedAt b \<and> ProjectName a = ProjectName b"

lemma merge_result_loads:
  assumes "mergePipelineResult wr p fs = Inr fs'"
  obtains disk where "load_project fs = Inr disk" "load_project fs' = Inr (normal_state (merge_states disk p))"
proof -
  have cyc: "state_doc.cycle wr (\<lambda>d. merge_states d p) fs = Inr fs'"
    using assms by (simp add: state_doc.cycle_def mergePipelineResult_def)
  have keeps: "savable (merge_states d p)" if "savable d" for d
    using that by (simp add: savable_def merge_states_def)
  show ?thesis using state_doc.cycle_load [OF cyc keeps] that by blast
qed

text \<open>C31: A pipeline result is merged without a lost update. Every finding on disk keeps its
  lifecycle fields and any recorded apply plan, findings the disk does not have are taken from the
  pipeline, nothing else appears, the finding hashes only grow, and the result does not depend on
  the order in which the pipeline's map is traversed.\<close>
theorem merge_no_lost_update:
  assumes "mergePipelineResult wr p fs = Inr fs'" "distinct (map fst (or_empty (Findings p)))"
  shows "\<exists>disk merged. load_project fs = Inr disk \<and> load_project fs' = Inr merged \<and>
    (\<forall>h e. map_of (or_empty (Findings disk)) h = Some e \<longrightarrow>
       (\<exists>e'. map_of (or_empty (Findings merged)) h = Some e' \<and> same_lifecycle e' e \<and>
             (ApplySpec e \<noteq> None \<longrightarrow> ApplySpec e' = ApplySpec e))) \<and>
    (\<forall>h. map_of (or_empty (Findings disk)) h = None \<longrightarrow>
       map_of (or_empty (Findings merged)) h = map_of (or_empty (Findings p)) h) \<and>
    set (FindingHashes merged) = set (FindingHashes disk) \<union> set (FindingHashes p) \<and>
    LastRunUTC merged = LastRunUTC p \<and> RepoHeadSHA merged = RepoHeadSHA p \<and>
    CachedPhase1 merged = CachedPhase1 p"
proof -
  obtain disk where disk: "load_project fs = Inr disk"
    "load_project fs' = Inr (normal_state (merge_states disk p))"
    using merge_result_loads [OF assms(1)] by blast
  have f: "or_empty (Findings (normal_state (merge_states disk p))) =
      foldl merge_finding (or_empty (Findings disk)) (or_empty (Findings p))"
    by (simp add: normal_state_def normalizeState_def merge_states_def)
  have "dedup_by (\<lambda>s. s) {} xs = ys \<Longrightarrow> set ys = set xs" for xs ys :: "string list"
    using dedup_by_keys [of "\<lambda>s. s" "{}" xs] by auto
  then have "set (FindingHashes (normal_state (merge_states disk p))) =
      set (FindingHashes disk) \<union> set (FindingHashes p)"
    by (simp add: normal_state_def normalizeState_def merge_states_def mergeStringSliceUnion_def)
  then show ?thesis
    using disk unfolding f
    by (intro exI [of _ disk] exI [of _ "normal_state (merge_states disk p)"])
       (auto simp: f merge_findings_lookup [OF assms(2)] merged_entry_def same_lifecycle_def
         normal_state_def normalizeState_def merge_states_def split: option.splits)
qed

section \<open>Provider usage\<close>

text \<open>A persisted error message has at most 501 runes, and a message of at most 500 runes is
  kept as it is.\<close>
theorem truncateError_bounded:
  "rune_count (truncateError msg) \<le> Suc maxErrorLen \<and>
   (rune_count msg > maxErrorLen \<or> truncateError msg = msg)"
proof -
  have "rune_count ellipsis = 1" "rune_count [] = 0" by code_simp+
  then show ?thesis
    using rune_count_take [of maxErrorLen msg ellipsis]
    by (auto simp: truncateError_def rune_count_def [symmetric] not_le)
qed

text \<open>Recording the outcome of a provider call touches that provider's counters only. A success
  counts one run and clears the error; a failure counts one timeout or one failure and keeps the
  runs, tokens and last success.\<close>
theorem provider_outcome_frame:
  assumes "trim_space pid \<noteq> []"
    and "s1 = recordProviderSuccess pid tokens now s"
    and "s2 = recordProviderFailure pid (Some (msg, deadline)) s"
    and "u = (case map_of (or_empty (ProviderUsage s)) pid of Some u \<Rightarrow> u | None \<Rightarrow> zero_usage)"
  shows "(\<exists>u1. map_of (or_empty (ProviderUsage s1)) pid = Some u1 \<and> Runs u1 = i64 (Runs u + 1) \<and>
            LastError u1 = [] \<and> LastSuccessUTC u1 = now \<and> Timeouts u1 = Timeouts u \<and> Failures u1 = Failures u) \<and>
    (\<exists>u2. map_of (or_empty (ProviderUsage s2)) pid = Some u2 \<and> Runs u2 = Runs u \<and>
            TotalTokens u2 = TotalTokens u \<and> LastSuccessUTC u2 = LastSuccessUTC u \<and>
            LastError u2 = truncateError msg \<and>
            (Timeouts u2, Failures u2) =
              (if deadline then (i64 (Timeouts u + 1), Failures u) else (Timeouts u, i64 (Failures u + 1)))) \<and>
    (\<forall>q. q \<noteq> pid \<longrightarrow> map_of (or_empty (ProviderUsage s1)) q = map_of (or_empty (ProviderUsage s)) q \<and>
                  map_of (or_empty (ProviderUsage s2)) q = map_of (or_empty (ProviderUsage s)) q) \<and>
    Findings s1 = Findings s \<and> Findings s2 = Findings s"
  using assms
  by (simp add: recordProviderSuccess_def recordProviderFailure_def Let_def update_conv)

section \<open>Chat cache keys\<close>

lemma digits_256_inj:
  "(\<And>k. k < m \<Longrightarrow> a div 256 ^ k mod 256 = b div 256 ^ k mod 256) \<Longrightarrow> a mod 256 ^ m = (b :: nat) mod 256 ^ m"
proof (induction m)
  case (Suc m)
  have "x mod 256 ^ Suc m = 256 ^ m * (x div 256 ^ m mod 256) + x mod 256 ^ m" for x :: nat
    using mod_mult2_eq [of x "256 ^ m" 256] by (simp add: mult.commute)
  with Suc show ?case by simp
qed simp

lemma put_uint64_inj:
  assumes "put_uint64 a = put_uint64 b" "a < 2 ^ 64" "b < 2 ^ 64"
  shows "a = b"
proof -
  have "\<forall>k \<in> set [7, 6, 5, 4, 3, 2, 1, 0]. char_of (a div 256 ^ k mod 256) = (char_of (b div 256 ^ k mod 256) :: char)"
    using assms(1) unfolding put_uint64_def by (simp only: map_eq_conv)
  moreover have "k \<in> set [7, 6, 5, 4, 3, 2, 1, 0]" if "k < 8" for k :: nat
    using that by (auto simp: less_Suc_eq eval_nat_numeral)
  ultimately have c: "char_of (a div 256 ^ k mod 256) = (char_of (b div 256 ^ k mod 256) :: char)" if "k < 8" for k
    using that by blast
  have "a div 256 ^ k mod 256 = b div 256 ^ k mod 256" if "k < 8" for k
    using arg_cong [OF c [OF that], of "of_char :: char \<Rightarrow> nat"] by simp
  then have "a mod 256 ^ 8 = b mod 256 ^ 8" by (rule digits_256_inj)
  with assms(2,3) show ?thesis by simp
qed

lemma len_prefixed_cut:
  assumes "len_prefixed a @ s = len_prefixed b @ t" "length a < 2 ^ 64" "length b < 2 ^ 64"
  shows "a = b \<and> s = t"
proof -
  have len: "length (put_uint64 n) = 8" for n by (simp add: put_uint64_def)
  have "put_uint64 (length a) = put_uint64 (length b)" "a @ s = b @ t"
    using assms(1) len by (simp_all add: len_prefixed_def append_eq_append_conv)
  with put_uint64_inj assms(2,3) show ?thesis by auto
qed

text \<open>The bytes hashed for a cache key determine its three fields, whatever bytes these contain,
  so two keys over different fields differ unless the hash collides.\<close>
theorem chatCacheKey_preimage_injective:
  assumes "\<forall>f \<in> {p, h, r, p', h', r'}. length f < 2 ^ 64"
  shows "chatCacheKey (\<lambda>bytes. bytes) p h r = chatCacheKey (\<lambda>bytes. bytes) p' h' r' \<longleftrightarrow>
         p = p' \<and> h = h' \<and> r = r'"
proof
  assume eq: "chatCacheKey (\<lambda>bytes. bytes) p h r = chatCacheKey (\<lambda>bytes. bytes) p' h' r'"
  have "p = p' \<and> len_prefixed h @ len_prefixed r = len_prefixed h' @ len_prefixed r'"
    using eq assms by (intro len_prefixed_cut) (simp_all add: chatCacheKey_def)
  moreover from this have "h = h' \<and> len_prefixed r = len_prefixed r'"
    using assms by (intro len_prefixed_cut) simp_all
  ultimately show "p = p' \<and> h = h' \<and> r = r'"
    using len_prefixed_cut [of r "[]" r' "[]"] assms by simp
qed simp

section \<open>Instances\<close>

lemma save_succeeds: "\<exists>fs'. save_project (\<lambda>_. True) s fs = Inr fs'"
  by (auto simp: save_project_def backup_older_def Let_def split: stored.splits sum.splits)

theorem state_roundtrip_witness:
  "\<exists>fs'. save_project (\<lambda>_. True) defaultState (\<lambda>_. Absent) = Inr fs' \<and> load_project fs' = Inr defaultState"
proof -
  obtain fs' where fs': "save_project (\<lambda>_. True) defaultState (\<lambda>_. Absent) = Inr fs'"
    using save_succeeds by blast
  have "Version defaultState = StateVersion" by (simp add: defaultState_def)
  with state_roundtrip [OF _ fs'] fs' show ?thesis by (simp add: defaultState_def normalizeState_def)
qed

definition versioned_dir :: "int \<Rightarrow> doc dir" where
  "versioned_dir v = (\<lambda>_. Absent)(stateFile := File (Obj [(''version'', RInt v), (''findings'', RNull)]))"

lemma versioned_dir_file: "versioned_dir v stateFile = File (Obj [(''version'', RInt v), (''findings'', RNull)])"
  by (simp add: versioned_dir_def)

theorem load_version_safe_witness:
  "\<exists>e. load_project (versioned_dir 7) = Inl (MigrateError e)"
proof -
  have "peekVersion (Obj [(''version'', RInt 7), (''findings'', RNull :: member raw)]) = Inr (7, True)"
    by (simp add: peekVersion_def in_i64_def)
  from load_version_safe [where fs = "versioned_dir 7", OF versioned_dir_file this] show ?thesis by (simp add: StateVersion_def)
qed

theorem legacy_upgrade_keeps_members_witness:
  "\<exists>kvs' r. run_registry stateMigrations (Obj [(''repo_head_sha'', RVal (MString ''abc''))]) = Inr (Obj kvs', r) \<and>
            map_of kvs' ''repo_head_sha'' = Some (RVal (MString ''abc''))"
proof -
  have "peekVersion (Obj [(''repo_head_sha'', RVal (MString ''abc''))]) = Inr (0, False)"
    by (simp add: peekVersion_def)
  from legacy_upgrade_keeps_members [OF this] show ?thesis by (fastforce simp: StateVersion_def)
qed

theorem save_preserves_files_witness:
  "\<exists>fs'. save_project (\<lambda>_. True) defaultState (versioned_dir 1) = Inr fs' \<and>
         fs' (backup_name stateFile 1) = versioned_dir 1 stateFile"
proof -
  obtain fs' where fs': "save_project (\<lambda>_. True) defaultState (versioned_dir 1) = Inr fs'"
    using save_succeeds by blast
  have "versioned_dir 1 (backup_name stateFile 1) = Absent" by (simp add: versioned_dir_def)
  then show ?thesis
    using save_preserves_files [OF fs'] fs' by (simp add: versioned_dir_file peekVersion_def in_i64_def StateVersion_def)
qed

definition dismissed_entry :: finding_state where
  "dismissed_entry = zero_finding\<lparr>Status := FindingStatusDismissed\<rparr>"

theorem merge_no_lost_update_witness:
  "\<exists>fs fs' merged e.
     load_project fs = Inr (defaultState\<lparr>Findings := Some [(''ab'', dismissed_entry)]\<rparr>) \<and>
     mergePipelineResult (\<lambda>_. True) (defaultState\<lparr>Findings := Some [(''ab'', zero_finding)]\<rparr>) fs = Inr fs' \<and>
     load_project fs' = Inr merged \<and>
     map_of (or_empty (Findings merged)) ''ab'' = Some e \<and> Status e = FindingStatusDismissed"
proof -
  let ?s = "defaultState\<lparr>Findings := Some [(''ab'', dismissed_entry)]\<rparr>"
  let ?p = "defaultState\<lparr>Findings := Some [(''ab'', zero_finding)]\<rparr>"
  obtain fs where "save_project (\<lambda>_. True) ?s (\<lambda>_. Absent) = Inr fs" using save_succeeds by blast
  then have l: "load_project fs = Inr ?s"
    using load_saved [of ?s] by (simp add: savable_def normal_state_def normalizeState_def defaultState_def)
  then obtain fs' where m: "mergePipelineResult (\<lambda>_. True) ?p fs = Inr fs'"
    using save_succeeds by (fastforce simp: mergePipelineResult_def)
  have "distinct (map fst (or_empty (Findings ?p)))" by (simp add: defaultState_def)
  from merge_no_lost_update [OF m this] obtain disk merged where
    "load_project fs = Inr disk" "load_project fs' = Inr merged"
    "\<forall>h e. map_of (or_empty (Findings disk)) h = Some e \<longrightarrow>
       (\<exists>e'. map_of (or_empty (Findings merged)) h = Some e' \<and> same_lifecycle e' e)" by blast
  moreover from this l have "disk = ?s" by simp
  then have "map_of (or_empty (Findings disk)) ''ab'' = Some dismissed_entry" by (simp add: defaultState_def)
  ultimately obtain e where "load_project fs' = Inr merged"
    "map_of (or_empty (Findings merged)) ''ab'' = Some e" "same_lifecycle e dismissed_entry" by blast
  with l m show ?thesis
    by (intro exI conjI) (auto simp: same_lifecycle_def dismissed_entry_def)
qed

theorem provider_outcome_frame_witness:
  "\<exists>u. map_of (or_empty (ProviderUsage (recordProviderFailure ''kiro'' (Some (''slow'', True)) defaultState))) ''kiro''
         = Some u \<and> Timeouts u = 1 \<and> Failures u = 0"
proof -
  have t: "trim_space ''kiro'' \<noteq> []" by code_simp
  have "i64 1 = 1" by (simp add: i64_small)
  then show ?thesis
    using provider_outcome_frame [OF t refl refl refl, of 0 0 defaultState "''slow''" True]
    by (auto simp: defaultState_def zero_usage_def)
qed

theorem chatCacheKey_preimage_injective_witness:
  "chatCacheKey (\<lambda>bytes. bytes) ''a'' ''bc'' [] \<noteq> chatCacheKey (\<lambda>bytes. bytes) ''ab'' ''c'' []"
  using chatCacheKey_preimage_injective [of "''a''" "''bc''" "[]" "''ab''" "''c''" "[]"] by simp

end
