(* ===== verification/History.thy ===== *)
theory History
  imports StateStore "HOL-Library.List_Lexorder" "HOL-Library.Char_ord"
begin

text \<open>
  The per-project daily rollup, \<open>internal/state/history.go\<close>: its schema and migration, loading
  and saving \<open>history.json\<close>, and the update of today's bucket. Dates are ISO strings compared
  bytewise; counters are 64-bit integers that wrap.
\<close>

section \<open>The document\<close>

record day_summary =
  Date :: string
  DayRuns :: int
  FindingsNew :: int
  FindingsTotal :: int
  Tokens :: int
  AvgRunDurationMillis :: int
  PerCategory :: "int dict option"

record day_delta =
  DeltaRuns :: int
  DeltaNew :: int
  DeltaTotal :: int
  DeltaTokens :: int
  RunDurationMillis :: int
  DeltaPerCategory :: "int dict"

record history =
  HistoryVersion :: int
  Days :: "day_summary list"

definition historyFile :: string where "historyFile = ''history.json''"
definition historyVersion :: int where "historyVersion = 1"
definition maxHistoryDays :: nat where "maxHistoryDays = 90"

type_synonym hdoc = "day_summary list document"

definition historyMigrations :: "day_summary list registry" where
  "historyMigrations = \<lparr>rg_name = ''history.json'', rg_current = historyVersion,
     rg_migrations = [\<lparr>mg_from = 0, mg_to = 1, mg_run = \<lambda>d. setVersion d 1\<rparr>]\<rparr>"

definition decode_history :: "hdoc \<Rightarrow> history option" where
  "decode_history d =
     (case d of
        Malformed \<Rightarrow> None
      | NullDoc \<Rightarrow> None
      | Obj kvs \<Rightarrow>
          (case (json_field dec_int_field 0 kvs ''version'',
                 json_field (\<lambda>r. case r of RVal ds \<Rightarrow> Some ds | _ \<Rightarrow> None) [] kvs ''days'')
           of (Some v, Some ds) \<Rightarrow> Some \<lparr>HistoryVersion = v, Days = ds\<rparr>
            | _ \<Rightarrow> None))"

text \<open>\<open>per_category\<close> is omitted when empty, so an empty map comes back as nil.\<close>

definition omit_categories :: "day_summary \<Rightarrow> day_summary" where
  "omit_categories d = d\<lparr>PerCategory := (if or_empty (PerCategory d) = [] then None else PerCategory d)\<rparr>"

definition encode_history :: "history \<Rightarrow> hdoc" where
  "encode_history h = Obj [(''version'', RInt (HistoryVersion h)), (''days'', RVal (map omit_categories (Days h)))]"

definition loadHistory :: "hdoc dir \<Rightarrow> store_error + history" where
  "loadHistory fs =
     (case fs historyFile of
        Absent \<Rightarrow> Inr \<lparr>HistoryVersion = historyVersion, Days = []\<rparr>
      | Unreadable \<Rightarrow> Inl ReadError
      | File d \<Rightarrow>
          (case run_registry historyMigrations d of
             Inl e \<Rightarrow> Inl (MigrateError e)
           | Inr (d', _) \<Rightarrow> (case decode_history d' of None \<Rightarrow> Inl DecodeError | Some h \<Rightarrow> Inr h)))"

definition saveHistory :: "(string \<Rightarrow> bool) \<Rightarrow> history \<Rightarrow> hdoc dir \<Rightarrow> store_error + hdoc dir" where
  "saveHistory wr h fs =
     (case backup_older wr historyFile historyVersion fs of
        Inl e \<Rightarrow> Inl e
      | Inr fs1 \<Rightarrow>
          if wr historyFile
          then Inr (fs1(historyFile := File (encode_history (h\<lparr>HistoryVersion := historyVersion\<rparr>))))
          else Inl WriteFailed)"

section \<open>Updating today's bucket\<close>

fun find_day :: "string \<Rightarrow> day_summary list \<Rightarrow> nat option" where
  "find_day today [] = None"
| "find_day today (d # ds) = (if Date d = today then Some 0 else map_option Suc (find_day today ds))"

definition new_day :: "string \<Rightarrow> day_summary" where
  "new_day today = \<lparr>Date = today, DayRuns = 0, FindingsNew = 0, FindingsTotal = 0, Tokens = 0,
     AvgRunDurationMillis = 0, PerCategory = Some []\<rparr>"

definition add_category :: "int dict \<Rightarrow> string \<times> int \<Rightarrow> int dict" where
  "add_category m kv =
     (case kv of (k, n) \<Rightarrow> AList.update k (i64 ((case map_of m k of Some x \<Rightarrow> x | None \<Rightarrow> 0) + n)) m)"

definition update_bucket :: "day_delta \<Rightarrow> day_summary \<Rightarrow> day_summary" where
  "update_bucket delta b =
     (let priorRuns = DayRuns b;
          runs = i64 (DayRuns b + DeltaRuns delta);
          avg = (if runs > 0
                 then i64 (go_div (i64 (i64 (AvgRunDurationMillis b * priorRuns) +
                                        i64 (RunDurationMillis delta * DeltaRuns delta))) runs)
                 else AvgRunDurationMillis b)
      in b\<lparr>DayRuns := runs, FindingsNew := i64 (FindingsNew b + DeltaNew delta),
           FindingsTotal := DeltaTotal delta, Tokens := i64 (Tokens b + DeltaTokens delta),
           AvgRunDurationMillis := avg,
           PerCategory := Some (foldl add_category (or_empty (PerCategory b)) (DeltaPerCategory delta))\<rparr>)"

definition update_days :: "string \<Rightarrow> day_delta \<Rightarrow> day_summary list \<Rightarrow> day_summary list" where
  "update_days today delta days =
     (let days1 = (case find_day today days of
            Some i \<Rightarrow> days[i := update_bucket delta (days ! i)]
          | None \<Rightarrow> days @ [update_bucket delta (new_day today)]);
          days2 = sort_key Date days1
      in if length days2 > maxHistoryDays then drop (length days2 - maxHistoryDays) days2 else days2)"

definition updateHistoryToday ::
    "(string \<Rightarrow> bool) \<Rightarrow> string \<Rightarrow> day_delta \<Rightarrow> hdoc dir \<Rightarrow> store_error + hdoc dir" where
  "updateHistoryToday wr today delta fs =
     (case loadHistory fs of
        Inl e \<Rightarrow> Inl e
      | Inr h \<Rightarrow> saveHistory wr (h\<lparr>Days := update_days today delta (Days h)\<rparr>) fs)"

section \<open>Persistence\<close>

interpretation history_chain: migration_chain historyMigrations
proof
  show "mg_from (rg_migrations historyMigrations ! i) = int i \<and> mg_to (rg_migrations historyMigrations ! i) = int i + 1"
    if "i < length (rg_migrations historyMigrations)" for i
    using that by (simp add: historyMigrations_def)
  show "\<exists>d'. mg_run m d = Inr d' \<and> is_object d' \<and> peekVersion d' = Inr (mg_to m, True)"
    if "m \<in> set (rg_migrations historyMigrations)" "is_object d" for m d
    using that setVersion_object [of d 1] peek_setVersion [of d 1]
    by (fastforce simp: historyMigrations_def in_i64_def)
qed (simp_all add: historyMigrations_def historyVersion_def)

definition stored_history :: "history \<Rightarrow> history" where
  "stored_history h = \<lparr>HistoryVersion = historyVersion, Days = map omit_categories (Days h)\<rparr>"

lemma load_saved_history:
  assumes "saveHistory wr h fs = Inr fs'"
  shows "loadHistory fs' = Inr (stored_history h)"
proof -
  let ?h = "h\<lparr>HistoryVersion := historyVersion\<rparr>"
  have "fs' historyFile = File (encode_history ?h)"
    using assms by (auto simp: saveHistory_def split: sum.splits if_splits)
  moreover have "run_registry historyMigrations (encode_history ?h) =
      Inr (encode_history ?h, \<lparr>rs_from = 1, rs_to = 1, rs_steps = 0\<rparr>)"
    by (simp add: run_registry_def peekVersion_def encode_history_def historyMigrations_def
        historyVersion_def in_i64_def Let_def)
  ultimately show ?thesis
    by (simp add: loadHistory_def decode_history_def encode_history_def json_field_def dec_int_field_def
        historyVersion_def in_i64_def stored_history_def)
qed

interpretation history_doc: persisted loadHistory "saveHistory wr" stored_history "\<lambda>_. True" for wr
  by unfold_locales (auto simp: load_saved_history)

section \<open>The rollup\<close>

definition days_ok :: "day_summary list \<Rightarrow> bool" where
  "days_ok ds \<longleftrightarrow> sorted (map Date ds) \<and> distinct (map Date ds) \<and> length ds \<le> maxHistoryDays"

lemma find_day_Some: "find_day t ds = Some i \<Longrightarrow> i < length ds \<and> Date (ds ! i) = t"
  by (induction ds arbitrary: i) (auto split: if_splits)

lemma find_day_None: "find_day t ds = None \<longleftrightarrow> t \<notin> Date ` set ds"
  by (induction ds) auto

lemma Date_update_bucket [simp]: "Date (update_bucket delta b) = Date b"
  by (simp add: update_bucket_def Let_def)

definition put_day :: "string \<Rightarrow> day_delta \<Rightarrow> day_summary list \<Rightarrow> day_summary list" where
  "put_day t delta ds =
     (case find_day t ds of
        Some i \<Rightarrow> ds[i := update_bucket delta (ds ! i)]
      | None \<Rightarrow> ds @ [update_bucket delta (new_day t)])"

definition prior_day :: "string \<Rightarrow> day_summary list \<Rightarrow> day_summary" where
  "prior_day t ds = (case find_day t ds of Some i \<Rightarrow> ds ! i | None \<Rightarrow> new_day t)"

lemma put_day_dates: "distinct (map Date ds) \<Longrightarrow> distinct (map Date (put_day t delta ds))"
proof (cases "find_day t ds")
  case None
  assume "distinct (map Date ds)"
  with None show ?thesis by (auto simp: put_day_def find_day_None [symmetric] new_day_def)
next
  case (Some i)
  assume d: "distinct (map Date ds)"
  have "map Date (ds[i := update_bucket delta (ds ! i)]) = map Date ds"
    using find_day_Some [OF Some] by (simp add: map_update list_update_same_conv)
  with d Some show ?thesis by (simp add: put_day_def)
qed

lemma put_day_members:
  assumes "distinct (map Date ds)" "d \<in> set (put_day t delta ds)"
  shows "if Date d = t then d = update_bucket delta (prior_day t ds) else d \<in> set ds"
proof (cases "find_day t ds")
  case None
  then have "t \<notin> Date ` set ds" by (simp add: find_day_None)
  with None assms(2) show ?thesis by (auto simp: put_day_def prior_day_def new_day_def)
next
  case (Some i)
  then have i: "i < length ds" "Date (ds ! i) = t" using find_day_Some by blast+
  obtain j where j: "j < length ds" "d = ds[i := update_bucket delta (ds ! i)] ! j"
    using assms(2) Some by (auto simp: put_day_def in_set_conv_nth)
  show ?thesis
  proof (cases "j = i")
    case True
    then show ?thesis using i j Some by (simp add: prior_day_def)
  next
    case False
    then have "Date (ds ! j) \<noteq> t"
      using assms(1) i j(1) by (metis distinct_conv_nth length_map nth_map)
    then show ?thesis using False j by (simp add: nth_list_update)
  qed
qed

lemma put_day_keeps: "old \<in> set ds \<Longrightarrow> Date old \<in> Date ` set (put_day t delta ds)"
proof (cases "find_day t ds")
  case (Some i)
  assume "old \<in> set ds"
  have "map Date (ds[i := update_bucket delta (ds ! i)]) = map Date ds"
    using find_day_Some [OF Some] by (simp add: map_update list_update_same_conv)
  with \<open>old \<in> set ds\<close> Some show ?thesis by (metis put_day_def option.simps(5) image_eqI set_map)
qed (simp add: put_day_def)

definition keep_latest :: "day_summary list \<Rightarrow> day_summary list" where
  "keep_latest ds = drop (length ds - maxHistoryDays) ds"

lemma update_days_eq: "update_days t delta ds = keep_latest (sort_key Date (put_day t delta ds))"
  by (simp add: update_days_def put_day_def keep_latest_def Let_def)

lemma sort_put_day:
  assumes "distinct (map Date ds)"
  shows "sorted_wrt (<) (map Date (sort_key Date (put_day t delta ds)))"
proof -
  have "distinct (map Date (sort_key Date (put_day t delta ds)))"
    using put_day_dates [OF assms, of t delta] by (simp add: distinct_map)
  then show ?thesis by (simp add: strict_sorted_iff)
qed

lemma keep_latest_ok: "sorted_wrt (<) (map Date ds) \<Longrightarrow> days_ok (keep_latest ds)"
proof -
  assume s: "sorted_wrt (<) (map Date ds)"
  then have "sorted_wrt (<) (map Date (keep_latest ds))"
    by (simp add: keep_latest_def drop_map [symmetric] sorted_wrt_drop)
  then show ?thesis by (simp add: days_ok_def strict_sorted_iff keep_latest_def)
qed

lemma keep_latest_drops_older:
  assumes "sorted_wrt (<) (map Date ds)" "x \<in> set ds" "x \<notin> set (keep_latest ds)" "y \<in> set (keep_latest ds)"
  shows "Date x < Date y"
proof -
  let ?n = "length ds - maxHistoryDays"
  have "x \<in> set (take ?n ds)"
    using assms(2,3) by (metis Un_iff append_take_drop_id keep_latest_def set_append)
  moreover have "sorted_wrt (<) (map Date (take ?n ds) @ map Date (keep_latest ds))"
    using assms(1) by (simp add: keep_latest_def flip: map_append)
  ultimately show ?thesis using assms(4) by (auto simp: sorted_wrt_append)
qed

lemma Date_omit [simp]: "Date (omit_categories d) = Date d"
  by (simp add: omit_categories_def)

lemma days_ok_omit [simp]: "days_ok (map omit_categories ds) = days_ok ds"
  by (simp add: days_ok_def comp_def)

text \<open>A successful update leaves at most ninety days with distinct dates in ascending order.
  Today's bucket, when kept, is the prior bucket (or a fresh one) with the run merged in, every
  other day is unchanged, and a day is dropped only when it is older than all that remain.\<close>
theorem history_update:
  assumes "updateHistoryToday wr t delta fs = Inr fs'" "loadHistory fs = Inr h"
    and "distinct (map Date (Days h))"
  shows "\<exists>h'. loadHistory fs' = Inr h' \<and> days_ok (Days h') \<and>
    (\<forall>d \<in> set (Days h'). if Date d = t then d = omit_categories (update_bucket delta (prior_day t (Days h)))
                         else d \<in> omit_categories ` set (Days h)) \<and>
    (\<forall>old \<in> set (Days h). Date old \<notin> Date ` set (Days h') \<longrightarrow> (\<forall>d \<in> set (Days h'). Date old < Date d))"
proof -
  define ds where "ds = sort_key Date (put_day t delta (Days h))"
  let ?ds = "keep_latest ds"
  have "saveHistory wr (h\<lparr>Days := update_days t delta (Days h)\<rparr>) fs = Inr fs'"
    using assms(1,2) by (simp add: updateHistoryToday_def)
  then have l: "loadHistory fs' = Inr \<lparr>HistoryVersion = historyVersion, Days = map omit_categories ?ds\<rparr>"
    using history_doc.save_load by (simp add: stored_history_def update_days_eq ds_def)
  have sorted: "sorted_wrt (<) (map Date ds)" unfolding ds_def by (rule sort_put_day [OF assms(3)])
  have mem: "d \<in> set ?ds \<Longrightarrow> d \<in> set (put_day t delta (Days h))" for d
    by (auto simp: keep_latest_def ds_def dest: in_set_dropD)
  have older: "Date old < Date d"
    if "old \<in> set (Days h)" "Date old \<notin> Date ` set ?ds" "d \<in> set ?ds" for old d
  proof -
    have "Date old \<in> Date ` set (put_day t delta (Days h))" by (rule put_day_keeps) (rule that)
    then obtain x where x: "x \<in> set ds" "Date x = Date old" by (auto simp: ds_def)
    then have "x \<notin> set ?ds" using that(2) by (metis imageI)
    from keep_latest_drops_older [OF sorted x(1) this that(3)] show ?thesis by (simp add: x(2))
  qed
  show ?thesis
    using l keep_latest_ok [OF sorted] put_day_members [OF assms(3) mem] older
    by (intro exI [of _ "\<lparr>HistoryVersion = historyVersion, Days = map omit_categories ?ds\<rparr>"])
       (auto simp: image_image split: if_splits)
qed

definition one_run :: day_delta where
  "one_run = \<lparr>DeltaRuns = 1, DeltaNew = 2, DeltaTotal = 5, DeltaTokens = 10, RunDurationMillis = 300,
     DeltaPerCategory = [(''docs'', 2)]\<rparr>"

theorem history_update_witness:
  "\<exists>fs' h'. updateHistoryToday (\<lambda>_. True) ''2024-05-01'' one_run (\<lambda>_. Absent) = Inr fs' \<and>
            loadHistory fs' = Inr h' \<and> days_ok (Days h')"
proof -
  have l: "loadHistory (\<lambda>_. Absent) = Inr \<lparr>HistoryVersion = historyVersion, Days = []\<rparr>"
    by (simp add: loadHistory_def)
  obtain fs' where "updateHistoryToday (\<lambda>_. True) ''2024-05-01'' one_run (\<lambda>_. Absent) = Inr fs'"
    by (auto simp: updateHistoryToday_def l saveHistory_def backup_older_def)
  from history_update [OF this l] this show ?thesis by auto
qed

end
