(* ===== verification/AtomicFile.thy ===== *)
theory AtomicFile
  imports Main
begin

text \<open>
  Atomic file writes, \<open>internal/fsutil/atomic.go\<close>, with what a loss of power leaves behind. Directory
  entries lead to inodes. A change of the directory may be lost until the directory is synced, entry by
  entry, and the content of an inode that was not synced since it was last written may be anything. The
  arguments say which system call of the sequence fails, how much of the content a failing write
  transfers, whether the temporary file can be removed and whether the directory accepts a sync. The
  result lists every state of the disk the call passes through.
\<close>

section \<open>Disks\<close>

text \<open>\<open>unsettled\<close> holds the earlier directories since the last sync, \<open>dirty\<close> the inodes not synced.\<close>

record disk =
  entries :: "string \<rightharpoonup> nat"
  unsettled :: "(string \<rightharpoonup> nat) list"
  contents :: "nat \<Rightarrow> string"
  dirty :: "nat list"

definition view :: "disk \<Rightarrow> string \<Rightarrow> string option" where
  "view s f = map_option (contents s) (entries s f)"

text \<open>What may be found under a name after a crash.\<close>

definition found_in :: "disk \<Rightarrow> (string \<rightharpoonup> nat) \<Rightarrow> string \<Rightarrow> string option \<Rightarrow> bool" where
  "found_in s d f x \<longleftrightarrow>
     (case d f of
        None \<Rightarrow> x = None
      | Some i \<Rightarrow> x \<noteq> None \<and> (i \<in> set (dirty s) \<or> x = Some (contents s i)))"

definition after_crash :: "disk \<Rightarrow> string \<Rightarrow> string option \<Rightarrow> bool" where
  "after_crash s f x \<longleftrightarrow> list_ex (\<lambda>d. found_in s d f x) (entries s # unsettled s)"

definition change_entries :: "((string \<rightharpoonup> nat) \<Rightarrow> (string \<rightharpoonup> nat)) \<Rightarrow> disk \<Rightarrow> disk" where
  "change_entries upd s = s\<lparr>entries := upd (entries s), unsettled := entries s # unsettled s\<rparr>"

definition put_content :: "nat \<Rightarrow> string \<Rightarrow> disk \<Rightarrow> disk" where
  "put_content ino c s = s\<lparr>contents := (contents s)(ino := c), dirty := ino # dirty s\<rparr>"

definition create_temp :: "string \<Rightarrow> nat \<Rightarrow> disk \<Rightarrow> disk" where
  "create_temp temp ino s = put_content ino [] (change_entries (\<lambda>d. d(temp \<mapsto> ino)) s)"

definition sync_file :: "nat \<Rightarrow> disk \<Rightarrow> disk" where
  "sync_file ino s = s\<lparr>dirty := removeAll ino (dirty s)\<rparr>"

definition rename_to :: "string \<Rightarrow> string \<Rightarrow> nat \<Rightarrow> disk \<Rightarrow> disk" where
  "rename_to temp path ino s = change_entries (\<lambda>d. d(temp := None, path \<mapsto> ino)) s"

definition remove_file :: "bool \<Rightarrow> string \<Rightarrow> disk \<Rightarrow> disk" where
  "remove_file ok f s = (if ok then change_entries (\<lambda>d. d(f := None)) s else s)"

definition sync_dir :: "bool \<Rightarrow> disk \<Rightarrow> disk" where
  "sync_dir ok s = (if ok then s\<lparr>unsettled := []\<rparr> else s)"

section \<open>The write\<close>

datatype atomic_error =
  OpenTemp | ChmodTemp | WriteTemp | SyncTemp | CloseTemp | RenameTemp

record atomic_env =
  ae_fails :: "atomic_error option"
  ae_part :: nat
  ae_random :: string
  ae_inode :: nat
  ae_unlinks :: bool
  ae_dir_syncs :: bool

definition temp_name :: "string \<Rightarrow> string \<Rightarrow> string" where
  "temp_name path rnd = path @ ''.tmp.'' @ rnd"

text \<open>A failing step after the temporary file exists closes and removes it.\<close>

definition discard :: "atomic_env \<Rightarrow> string \<Rightarrow> atomic_error \<Rightarrow> disk list \<Rightarrow> atomic_error option \<times> disk list" where
  "discard env temp e trace = (Some e, trace @ [remove_file (ae_unlinks env) temp (last trace)])"

definition writeFileAtomic ::
    "atomic_env \<Rightarrow> string \<Rightarrow> string \<Rightarrow> disk \<Rightarrow> atomic_error option \<times> disk list" where
  "writeFileAtomic env path bytes s =
     (let temp = temp_name path (ae_random env);
          ino = ae_inode env;
          fails = ae_fails env;
          opened = create_temp temp ino s;
          partly = put_content ino (take (ae_part env) bytes) opened;
          written = put_content ino bytes partly;
          synced = sync_file ino written;
          renamed = rename_to temp path ino synced
      in if fails = Some OpenTemp then (Some OpenTemp, [s])
         else if fails = Some ChmodTemp then discard env temp ChmodTemp [s, opened]
         else if fails = Some WriteTemp then discard env temp WriteTemp [s, opened, partly]
         else if fails = Some SyncTemp then discard env temp SyncTemp [s, opened, partly, written]
         else if fails = Some CloseTemp then discard env temp CloseTemp [s, opened, partly, written, synced]
         else if fails = Some RenameTemp then discard env temp RenameTemp [s, opened, partly, written, synced]
         else (None, [s, opened, partly, written, synced, renamed, sync_dir (ae_dir_syncs env) renamed]))"

section \<open>All or nothing\<close>

lemma temp_name_other [simp]: "temp_name path rnd \<noteq> path" "path \<noteq> temp_name path rnd"
proof -
  have "length (temp_name path rnd) \<noteq> length path" by (simp add: temp_name_def)
  then show "temp_name path rnd \<noteq> path" "path \<noteq> temp_name path rnd" by metis+
qed

lemmas disk_ops =
  create_temp_def put_content_def change_entries_def sync_file_def rename_to_def remove_file_def sync_dir_def

lemma entries_after [simp]:
  "entries (put_content ino c s) = entries s" "entries (sync_file ino s) = entries s"
  "entries (sync_dir ok s) = entries s" "entries (create_temp temp ino s) = (entries s)(temp \<mapsto> ino)"
  "entries (rename_to temp path ino s) = (entries s)(temp := None, path \<mapsto> ino)"
  "entries (remove_file ok f s) = (if ok then (entries s)(f := None) else entries s)"
  by (simp_all add: disk_ops)

lemma contents_after [simp]:
  "contents (put_content ino c s) = (contents s)(ino := c)" "contents (sync_file ino s) = contents s"
  "contents (sync_dir ok s) = contents s" "contents (create_temp temp ino s) = (contents s)(ino := [])"
  "contents (rename_to temp path ino s) = contents s" "contents (remove_file ok f s) = contents s"
  by (simp_all add: disk_ops)

lemma other_inode:
  "d f \<noteq> Some ino \<Longrightarrow> map_option (c(ino := x)) (d f) = map_option c (d f)"
  by (cases "d f") simp_all

text \<open>The state relative to the one at the start: other names are untouched, and the target has its old
  entries, or the new inode once that is synced.\<close>

definition unused :: "nat \<Rightarrow> disk \<Rightarrow> bool" where
  "unused ino s \<longleftrightarrow> list_all (\<lambda>d. ino \<notin> ran d) (entries s # unsettled s)"

definition dir_ok :: "string \<Rightarrow> string \<Rightarrow> nat \<Rightarrow> bool \<Rightarrow> disk \<Rightarrow> (string \<rightharpoonup> nat) \<Rightarrow> bool" where
  "dir_ok path temp ino complete s d \<longleftrightarrow> (\<exists>d0 \<in> set (entries s # unsettled s).
     \<forall>f. f \<noteq> temp \<longrightarrow> d f = d0 f \<or> (f = path \<and> d f = Some ino \<and> complete))"

definition step_ok :: "string \<Rightarrow> string \<Rightarrow> nat \<Rightarrow> string \<Rightarrow> disk \<Rightarrow> disk \<Rightarrow> bool" where
  "step_ok path temp ino bytes s t \<longleftrightarrow>
     (\<forall>i. i \<noteq> ino \<longrightarrow> contents t i = contents s i \<and> (i \<in> set (dirty t) \<longleftrightarrow> i \<in> set (dirty s))) \<and>
     (\<forall>d \<in> set (entries t # unsettled t).
        dir_ok path temp ino (ino \<notin> set (dirty t) \<and> contents t ino = bytes) s d)"

lemma step_ok_crash:
  assumes "step_ok path temp ino bytes s t" "unused ino s" "f \<noteq> temp" "after_crash t f x"
  shows "after_crash s f x \<or> f = path \<and> x = Some bytes"
proof -
  obtain d where d: "d \<in> set (entries t # unsettled t)" "found_in t d f x"
    using assms(4) unfolding after_crash_def list_ex_iff by blast
  then obtain d0 where d0: "d0 \<in> set (entries s # unsettled s)"
    and cases: "d f = d0 f \<or> f = path \<and> d f = Some ino \<and> ino \<notin> set (dirty t) \<and> contents t ino = bytes"
    using assms(1,3) unfolding step_ok_def dir_ok_def by blast
  from cases show ?thesis
  proof
    assume same: "d f = d0 f"
    have "d0 f \<noteq> Some ino" using assms(2) d0 by (auto simp: unused_def list_all_iff ran_def)
    then have "found_in s d0 f x"
      using assms(1) d(2) by (auto simp: found_in_def same step_ok_def split: option.splits)
    then show ?thesis using d0 unfolding after_crash_def list_ex_iff by blast
  next
    assume new: "f = path \<and> d f = Some ino \<and> ino \<notin> set (dirty t) \<and> contents t ino = bytes"
    then have "d f = Some ino" by blast
    with d(2) new show ?thesis by (simp add: found_in_def)
  qed
qed

text \<open>Before the rename the directories agree with the earlier ones on every name but the temporary one.\<close>

definition same_but :: "string \<Rightarrow> nat \<Rightarrow> disk \<Rightarrow> disk \<Rightarrow> bool" where
  "same_but temp ino s t \<longleftrightarrow>
     (\<forall>i. i \<noteq> ino \<longrightarrow> contents t i = contents s i \<and> (i \<in> set (dirty t) \<longleftrightarrow> i \<in> set (dirty s))) \<and>
     (\<forall>d \<in> set (entries t # unsettled t). \<exists>d0 \<in> set (entries s # unsettled s). \<forall>f. f \<noteq> temp \<longrightarrow> d f = d0 f)"

lemma same_but_refl: "same_but temp ino s s"
  unfolding same_but_def by blast

lemma same_but_content:
  "same_but temp ino s t \<Longrightarrow> same_but temp ino s (put_content ino c t)"
  "same_but temp ino s t \<Longrightarrow> same_but temp ino s (sync_file ino t)"
  unfolding same_but_def by (simp_all add: put_content_def sync_file_def)

lemma same_but_change:
  assumes "same_but temp ino s t" "\<And>f. f \<noteq> temp \<Longrightarrow> upd (entries t) f = entries t f"
  shows "same_but temp ino s (change_entries upd t)"
  using assms unfolding same_but_def by (simp add: change_entries_def)

lemma same_but_temp:
  "same_but temp ino s t \<Longrightarrow> same_but temp ino s (create_temp temp ino t)"
  "same_but temp ino s t \<Longrightarrow> same_but temp ino s (remove_file ok temp t)"
  by (auto simp: create_temp_def remove_file_def intro!: same_but_content(1) same_but_change)

lemma same_but_step:
  assumes "same_but temp ino s t"
  shows "step_ok path temp ino bytes s t"
  using assms unfolding same_but_def step_ok_def dir_ok_def by meson

lemma renamed_step:
  assumes "same_but temp ino s t" "ino \<notin> set (dirty t)" "contents t ino = bytes"
  shows "step_ok path temp ino bytes s (rename_to temp path ino t)"
proof -
  let ?new = "(entries t)(temp := None, path \<mapsto> ino)"
  have old: "step_ok path temp ino bytes s t" by (rule same_but_step [OF assms(1)])
  obtain d0 where d0: "d0 \<in> set (entries s # unsettled s)" "\<forall>f. f \<noteq> temp \<longrightarrow> entries t f = d0 f"
    using assms(1) unfolding same_but_def by (metis list.set_intros(1))
  have "dir_ok path temp ino True s ?new"
    unfolding dir_ok_def using d0 by (intro bexI [of _ d0]) simp_all
  with old assms(2,3) show ?thesis
    by (simp add: step_ok_def rename_to_def change_entries_def)
qed

lemma synced_step:
  "step_ok path temp ino bytes s t \<Longrightarrow> step_ok path temp ino bytes s (sync_dir ok t)"
  unfolding step_ok_def sync_dir_def by simp

lemmas same_but_ops = same_but_refl same_but_content same_but_temp

lemma trace_steps:
  "list_all (step_ok path (temp_name path (ae_random env)) (ae_inode env) bytes s)
     (snd (writeFileAtomic env path bytes s))"
proof -
  let ?temp = "temp_name path (ae_random env)" and ?ino = "ae_inode env"
  let ?synced = "sync_file ?ino (put_content ?ino bytes (put_content ?ino (take (ae_part env) bytes)
                   (create_temp ?temp ?ino s)))"
  have "step_ok path ?temp ?ino bytes s (rename_to ?temp path ?ino ?synced)"
  proof (rule renamed_step)
    show "same_but ?temp ?ino s ?synced" by (intro same_but_ops)
  qed (simp_all add: sync_file_def put_content_def)
  then show ?thesis
    by (simp add: writeFileAtomic_def discard_def Let_def synced_step same_but_step same_but_ops)
qed

lemma last_view:
  assumes "entries s temp = None" "temp = temp_name path (ae_random env)" "\<And>f. entries s f \<noteq> Some (ae_inode env)"
    and "writeFileAtomic env path bytes s = (err, trace)"
  shows "(\<forall>f. f \<noteq> temp \<longrightarrow> view (last trace) f = (if err = None \<and> f = path then Some bytes else view s f)) \<and>
    (err = None \<or> ae_unlinks env \<or> err = Some OpenTemp \<longrightarrow> view (last trace) temp = None)"
proof (cases "ae_fails env")
  case None
  then show ?thesis
    using assms by (auto simp: writeFileAtomic_def Let_def view_def other_inode)
next
  case (Some e)
  have "temp \<noteq> path" using assms(2) by simp
  with Some show ?thesis
    using assms by (cases e) (auto simp: writeFileAtomic_def discard_def Let_def view_def other_inode)
qed

lemma last_settled:
  assumes "writeFileAtomic env path bytes s = (None, trace)" "ae_dir_syncs env" "after_crash (last trace) path x"
  shows "x = Some bytes"
  using assms
  by (auto simp: writeFileAtomic_def discard_def Let_def after_crash_def found_in_def disk_ops split: if_splits)

text \<open>C39: An atomic write is all or nothing, also when the power fails. Let the target be on the disk for good
  (a crash would leave what is there) and let the temporary name and its inode be new. Then, whatever
  fails and wherever the call is cut short, a crash leaves of the target its old content or the complete new
  one, and of every other file but the temporary one nothing that it could not have left before. When
  the call returns, an error has changed no file, the temporary one excepted if it cannot be
  removed; a success has put the new content under the name, left no temporary file, and
  made the change survive a crash if the directory accepts the sync.\<close>
theorem writeFileAtomic_all_or_nothing:
  assumes "writeFileAtomic env path bytes s = (err, trace)" "temp = temp_name path (ae_random env)"
    and "entries s temp = None" "unused (ae_inode env) s" "\<forall>x. after_crash s path x \<longrightarrow> x = view s path"
  shows "(\<forall>t \<in> set trace. \<forall>f x. f \<noteq> temp \<and> after_crash t f x \<longrightarrow>
            (if f = path then x = view s path \<or> x = Some bytes else after_crash s f x)) \<and>
    (\<forall>f. f \<noteq> temp \<longrightarrow> view (last trace) f = (if err = None \<and> f = path then Some bytes else view s f)) \<and>
    (err = None \<or> ae_unlinks env \<or> err = Some OpenTemp \<longrightarrow> view (last trace) temp = None) \<and>
    (err = None \<and> ae_dir_syncs env \<longrightarrow> (\<forall>x. after_crash (last trace) path x \<longrightarrow> x = Some bytes))"
proof -
  let ?ino = "ae_inode env"
  have temp: "temp \<noteq> path" "path \<noteq> temp" using assms(2) by simp_all
  have used: "entries s f \<noteq> Some ?ino" for f using assms(4) by (auto simp: unused_def ran_def)
  have traced: "\<forall>t \<in> set trace. step_ok path temp ?ino bytes s t"
    using trace_steps [where path = path and env = env and s = s] assms(1,2) by (simp add: list_all_iff)
  have last: "(\<forall>f. f \<noteq> temp \<longrightarrow> view (last trace) f = (if err = None \<and> f = path then Some bytes else view s f)) \<and>
    (err = None \<or> ae_unlinks env \<or> err = Some OpenTemp \<longrightarrow> view (last trace) temp = None)"
    using last_view [where env = env and s = s and temp = temp] assms(1-3) used by simp
  have settled: "err = None \<and> ae_dir_syncs env \<longrightarrow> (\<forall>x. after_crash (last trace) path x \<longrightarrow> x = Some bytes)"
    using assms(1) last_settled by blast
  have "(if f = path then x = view s path \<or> x = Some bytes else after_crash s f x)"
    if "t \<in> set trace" "f \<noteq> temp" "after_crash t f x" for t f x
    using step_ok_crash [OF _ assms(4) that(2,3)] traced that(1) assms(5) by auto
  with last settled show ?thesis by blast
qed

definition sample_disk :: disk where
  "sample_disk = \<lparr>entries = [''f'' \<mapsto> 1], unsettled = [], contents = (\<lambda>_. ''old''), dirty = []\<rparr>"

definition unlucky :: atomic_env where
  "unlucky = \<lparr>ae_fails = Some RenameTemp, ae_part = 2, ae_random = ''7'', ae_inode = 2, ae_unlinks = False,
     ae_dir_syncs = True\<rparr>"

theorem writeFileAtomic_all_or_nothing_witness:
  "view (last (snd (writeFileAtomic unlucky ''f'' ''new'' sample_disk))) ''f'' = Some ''old''"
proof -
  have p: "''f'' \<noteq> temp_name ''f'' (ae_random unlucky)" by simp
  have e: "fst (writeFileAtomic unlucky ''f'' ''new'' sample_disk) = Some RenameTemp"
    by (simp add: writeFileAtomic_def unlucky_def discard_def Let_def)
  from writeFileAtomic_all_or_nothing [of unlucky "''f''" "''new''" sample_disk, OF prod.collapse [symmetric] refl] p e
  show ?thesis
    by (auto simp: sample_disk_def unlucky_def unused_def view_def after_crash_def found_in_def temp_name_def split: if_splits)
qed

end
