(* ===== verification/FsPath.thy ===== *)
theory FsPath
  imports GoText
begin

text \<open>
  Paths and atomic writes, \<open>internal/fsutil/path.go\<close> and \<open>atomic.go\<close>, on a Unix system.
  The file system is seen through \<open>ev\<close>, the result of \<open>filepath.EvalSymlinks\<close> for each
  path, and \<open>cwd\<close>; the lexical functions of \<open>path/filepath\<close> are defined.
\<close>

abbreviation slash :: char where "slash \<equiv> CHR ''/''"

section \<open>Lexical path operations\<close>

fun clean_elems :: "bool \<Rightarrow> string list \<Rightarrow> string list \<Rightarrow> string list" where
  "clean_elems rooted out [] = rev out"
| "clean_elems rooted out (e # es) =
     (if e = [] \<or> e = ''.'' then clean_elems rooted out es
      else if e = ''..'' then
        (case out of
           [] \<Rightarrow> if rooted then clean_elems rooted [] es else clean_elems rooted [''..''] es
         | u # us \<Rightarrow> if u \<noteq> ''..'' then clean_elems rooted us es else clean_elems rooted (''..'' # out) es)
      else clean_elems rooted (e # out) es)"

definition is_abs :: "string \<Rightarrow> bool" where
  "is_abs p \<longleftrightarrow> has_prefix p [slash]"

definition abs_path :: "string list \<Rightarrow> string" where
  "abs_path es = slash # join [slash] es"

definition clean :: "string \<Rightarrow> string" where
  "clean p =
     (if is_abs p then abs_path (clean_elems True [] (split_on slash p))
      else let es = clean_elems False [] (split_on slash p) in if es = [] then ''.'' else join [slash] es)"

definition join_paths :: "string list \<Rightarrow> string" where
  "join_paths ps = (case dropWhile (\<lambda>p. p = []) ps of [] \<Rightarrow> [] | qs \<Rightarrow> clean (join [slash] qs))"

text \<open>\<open>filepath.Dir\<close>: everything up to the last slash, cleaned. \<open>filepath.Base\<close>: the
  last element.\<close>

definition dir_of :: "string \<Rightarrow> string" where
  "dir_of p = clean (rev (dropWhile (\<lambda>c. c \<noteq> slash) (rev p)))"

definition base_of :: "string \<Rightarrow> string" where
  "base_of p =
     (if p = [] then ''.''
      else let q = dropWhile (\<lambda>c. c = slash) (rev p);
               b = rev (takeWhile (\<lambda>c. c \<noteq> slash) q)
           in if b = [] then [slash] else b)"

definition make_abs :: "string \<Rightarrow> string \<Rightarrow> string" where
  "make_abs cwd p = (if is_abs p then clean p else join_paths [cwd, p])"

section \<open>Symlinks\<close>

datatype eval_result = Resolved string | NotExist | EvalError

text \<open>
  The walk up to the deepest existing ancestor. \<open>tail\<close> holds the elements walked over, the
  last one first; \<open>None\<close> when the fuel runs out.
\<close>

fun rejoin :: "string \<Rightarrow> string list \<Rightarrow> string" where
  "rejoin out [] = out"
| "rejoin out (t # ts) = rejoin (join_paths [out, t]) ts"

fun walk_up :: "nat \<Rightarrow> (string \<Rightarrow> eval_result) \<Rightarrow> string \<Rightarrow> string \<Rightarrow> string list \<Rightarrow> (unit + string) option" where
  "walk_up 0 ev p current tail = None"
| "walk_up (Suc n) ev p current tail =
     (let parent = dir_of current in
      if parent = current then Some (Inr p)
      else
        let tail' = tail @ [base_of current] in
        case ev parent of
          Resolved rp \<Rightarrow> Some (Inr (clean (rejoin rp (rev tail'))))
        | NotExist \<Rightarrow> walk_up n ev p parent tail'
        | EvalError \<Rightarrow> Some (Inl ()))"

definition walk_fuel :: "string \<Rightarrow> nat" where
  "walk_fuel p = length p + 2"

definition resolveSymlinks :: "(string \<Rightarrow> eval_result) \<Rightarrow> string \<Rightarrow> unit + string" where
  "resolveSymlinks ev p =
     (case ev p of
        Resolved r \<Rightarrow> Inr (clean r)
      | EvalError \<Rightarrow> Inl ()
      | NotExist \<Rightarrow>
          (case walk_up (walk_fuel p) ev p p [] of Some r \<Rightarrow> r | None \<Rightarrow> Inl ()))"

definition canonical_for_containment :: "(string \<Rightarrow> eval_result) \<Rightarrow> string \<Rightarrow> string \<Rightarrow> string" where
  "canonical_for_containment ev cwd p =
     (let q = (if is_abs p then p else make_abs cwd p) in
      case resolveSymlinks ev q of Inr r \<Rightarrow> r | Inl _ \<Rightarrow> clean q)"

definition pathWithinRoot :: "(string \<Rightarrow> eval_result) \<Rightarrow> string \<Rightarrow> string \<Rightarrow> string \<Rightarrow> bool" where
  "pathWithinRoot ev cwd path rt \<longleftrightarrow>
     path \<noteq> [] \<and> rt \<noteq> [] \<and>
     (let cp = canonical_for_containment ev cwd path; cr = canonical_for_containment ev cwd rt
      in cp = cr \<or> has_prefix cp (cr @ [slash]))"

definition expandUserHome :: "string option \<Rightarrow> string \<Rightarrow> string option" where
  "expandUserHome home p =
     (if p = ''~'' \<or> has_prefix p ''~/'' \<or> has_prefix p [CHR ''~'', CHR 0x5C] then
        (case home of
           None \<Rightarrow> None
         | Some h \<Rightarrow> if p = ''~'' then Some h else Some (join_paths [h, drop 2 p]))
      else Some p)"

definition canonicalPath :: "(string \<Rightarrow> eval_result) \<Rightarrow> string option \<Rightarrow> string \<Rightarrow> string \<Rightarrow> string" where
  "canonicalPath ev home cwd p =
     (if p = [] then []
      else
        let r0 = (case expandUserHome home p of Some r \<Rightarrow> r | None \<Rightarrow> p);
            r1 = clean (if is_abs r0 then r0 else make_abs cwd r0)
        in case ev r1 of Resolved c \<Rightarrow> c | _ \<Rightarrow> r1)"

datatype root_error = NullByte | SymlinkError

definition normalizeRootPath :: "(string \<Rightarrow> eval_result) \<Rightarrow> string \<Rightarrow> string \<Rightarrow> root_error + string" where
  "normalizeRootPath ev cwd rt =
     (let trimmed = trim_space rt in
      if trimmed = [] then Inr []
      else if CHR 0x00 \<in> set trimmed then Inl NullByte
      else case ev (clean (make_abs cwd trimmed)) of
        Resolved r \<Rightarrow> Inr (clean r)
      | _ \<Rightarrow> Inl SymlinkError)"

section \<open>Clean paths\<close>

definition plain :: "string \<Rightarrow> bool" where
  "plain e \<longleftrightarrow> e \<noteq> [] \<and> slash \<notin> set e \<and> e \<noteq> ''.'' \<and> e \<noteq> ''..''"

definition elems :: "string \<Rightarrow> string list" where
  "elems p = clean_elems True [] (split_on slash p)"

lemma clean_elems_plain_out:
  "list_all plain out \<Longrightarrow> \<forall>e \<in> set es. slash \<notin> set e \<Longrightarrow> list_all plain (clean_elems True out es)"
proof (induction es arbitrary: out)
  case (Cons e es)
  consider "e = [] \<or> e = ''.''" | "e = ''..''" | "plain e"
    using Cons.prems(2) by (auto simp: plain_def)
  then show ?case
  proof cases
    case 2
    show ?thesis
    proof (cases out)
      case (Cons u us)
      then have "plain u" and us: "list_all plain us" using Cons.prems(1) by simp_all
      then have u: "u \<noteq> ''..''" by (simp add: plain_def)
      from Cons.IH [of us] us Cons.prems(2) u 2 \<open>out = u # us\<close> show ?thesis by simp
    qed (use 2 Cons.IH [of "[]"] Cons.prems(2) in simp)
  next
    case 3
    then have "clean_elems True out (e # es) = clean_elems True (e # out) es" by (simp add: plain_def)
    with 3 Cons show ?thesis by simp
  qed (use Cons in auto)
qed (simp add: list_all_iff)

lemma elems_plain: "list_all plain (elems p)"
  unfolding elems_def by (rule clean_elems_plain_out) (auto dest: split_on_no_sep)

lemma clean_elems_id: "list_all plain es \<Longrightarrow> clean_elems True out es = rev out @ es"
  by (induction es arbitrary: out) (auto simp: plain_def)

lemma split_on_append: "c \<notin> set x \<Longrightarrow> split_on c (x @ c # y) = x # split_on c y"
  by (induction x) auto

lemma split_on_single: "c \<notin> set x \<Longrightarrow> split_on c x = [x]"
  by (induction x) auto

lemma split_on_join: "es \<noteq> [] \<Longrightarrow> \<forall>e \<in> set es. c \<notin> set e \<Longrightarrow> split_on c (join [c] es) = es"
proof (induction es)
  case (Cons e es)
  then show ?case by (cases es) (auto simp: split_on_single split_on_append)
qed simp

lemma split_abs_path: "list_all plain es \<Longrightarrow> clean_elems True [] (split_on slash (abs_path es)) = es"
  by (cases "es = []")
     (auto simp: abs_path_def split_on_join list_all_iff plain_def intro: clean_elems_id [where out = "[]", simplified])

lemma elems_abs_path: "list_all plain es \<Longrightarrow> elems (abs_path es) = es"
  by (simp add: elems_def split_abs_path)

lemma is_abs_abs_path [simp]: "is_abs (abs_path es)"
  by (simp add: is_abs_def abs_path_def has_prefix_iff)

lemma clean_abs: "is_abs p \<Longrightarrow> clean p = abs_path (elems p)"
  by (simp add: clean_def elems_def)

lemma clean_abs_path: "list_all plain es \<Longrightarrow> clean (abs_path es) = abs_path es"
  by (simp add: clean_abs elems_abs_path)

lemma abs_path_inj: "list_all plain es \<Longrightarrow> list_all plain fs \<Longrightarrow> abs_path es = abs_path fs \<longleftrightarrow> es = fs"
  using elems_abs_path by metis

text \<open>Cleaning an absolute path is idempotent and leaves plain elements only: no empty one, no
  \<open>.\<close>, no \<open>..\<close>.\<close>
theorem clean_absolute:
  assumes "is_abs p"
  shows "clean (clean p) = clean p \<and> clean p = abs_path (elems p) \<and> (\<forall>e \<in> set (elems p). plain e)"
  using clean_abs [OF assms] clean_abs_path [OF elems_plain] elems_plain [of p]
  by (simp add: list_all_iff)

section \<open>Joining and splitting off the last element\<close>

lemma split_on_append_gen: "split_on c (x @ c # y) = split_on c x @ split_on c y"
  by (induction x) (auto split: list.splits)

lemma clean_elems_append:
  "clean_elems True out (xs @ ys) = clean_elems True (rev (clean_elems True out xs)) ys"
  by (induction xs arbitrary: out) (auto split: list.splits)

lemma elems_append: "elems (p @ slash # q) = clean_elems True (rev (elems p)) (split_on slash q)"
  by (simp add: elems_def split_on_append_gen clean_elems_append)

lemma elems_snoc: "plain t \<Longrightarrow> elems (p @ slash # t) = elems p @ [t]"
  by (simp add: elems_append split_on_single plain_def)

lemma is_abs_append: "is_abs p \<Longrightarrow> is_abs (p @ q)"
  by (auto simp: is_abs_def has_prefix_iff)

lemma is_abs_nonempty: "is_abs p \<Longrightarrow> p \<noteq> []"
  by (auto simp: is_abs_def has_prefix_iff)

lemma join_paths_abs: "is_abs p \<Longrightarrow> join_paths [p, t] = clean (p @ slash # t)"
  using is_abs_nonempty [of p] by (simp add: join_paths_def)

lemma is_abs_clean: "is_abs p \<Longrightarrow> is_abs (clean p)"
  by (simp add: clean_abs)

lemma rejoin_abs: "is_abs p \<Longrightarrow> is_abs (rejoin p ts)"
  by (induction ts arbitrary: p) (simp_all add: join_paths_abs is_abs_clean is_abs_append)

lemma elems_clean: "is_abs p \<Longrightarrow> elems (clean p) = elems p"
  by (simp add: clean_abs elems_abs_path elems_plain)

lemma elems_rejoin: "is_abs p \<Longrightarrow> list_all plain ts \<Longrightarrow> elems (rejoin p ts) = elems p @ ts"
  by (induction ts arbitrary: p)
     (simp_all add: join_paths_abs is_abs_clean is_abs_append elems_clean elems_snoc)

lemma abs_path_snoc: "abs_path (es @ [e]) = (if es = [] then [] else abs_path es) @ slash # e"
  unfolding abs_path_def by (induction es rule: induct_list012) auto

lemma dir_of_append: "slash \<notin> set e \<Longrightarrow> dir_of (p @ slash # e) = clean (p @ [slash])"
proof -
  assume "slash \<notin> set e"
  then have "dropWhile (\<lambda>c. c \<noteq> slash) (rev e @ slash # rev p) = slash # rev p"
    by (subst dropWhile_append2) auto
  then show ?thesis by (simp add: dir_of_def)
qed

lemma elems_slash: "elems (p @ [slash]) = elems p"
  by (simp add: elems_append)

lemma dir_of_abs_path:
  assumes "list_all plain es" "plain e"
  shows "dir_of (abs_path (es @ [e])) = abs_path es"
proof (cases "es = []")
  case True
  have "dir_of ([] @ slash # e) = clean [slash]" using assms(2) dir_of_append [of e "[]"] by (simp add: plain_def)
  moreover have "clean [slash] = abs_path []" by code_simp
  moreover have "abs_path [e] = slash # e" by (simp add: abs_path_def)
  ultimately show ?thesis using True by simp
next
  case False
  have "dir_of (abs_path es @ slash # e) = clean (abs_path es @ [slash])"
    using assms(2) by (intro dir_of_append) (simp add: plain_def)
  also have "\<dots> = abs_path es"
    using assms(1) by (simp add: clean_abs is_abs_append elems_slash elems_abs_path)
  finally show ?thesis using False by (simp add: abs_path_snoc)
qed

lemma base_of_abs_path:
  assumes "plain e"
  shows "base_of (abs_path (es @ [e])) = e"
proof -
  have e: "e \<noteq> []" "slash \<notin> set e" using assms by (simp_all add: plain_def)
  obtain c cs where c: "rev e = c # cs" using e by (cases "rev e") simp_all
  then have "c \<noteq> slash" using e by (metis list.set_intros(1) set_rev)
  note c = c this
  have "takeWhile (\<lambda>c. c \<noteq> slash) (rev e @ slash # x) = rev e" for x
    using e by (subst takeWhile_append2) auto
  moreover have "dropWhile (\<lambda>c. c = slash) (rev e @ x) = rev e @ x" for x using c by simp
  ultimately show ?thesis using e by (simp add: base_of_def abs_path_snoc)
qed

lemma length_abs_path: "list_all plain es \<Longrightarrow> length es \<le> length (abs_path es)"
proof (induction es rule: rev_induct)
  case (snoc e es)
  then show ?case by (auto simp: abs_path_snoc)
qed simp

section \<open>The deepest existing ancestor\<close>

lemma walk_up_deepest:
  assumes "list_all plain es" "k < j" "j \<le> length es" "j - k < n"
    and "ev (abs_path (take k es)) = Resolved r" "is_abs r"
    and "\<forall>i. k < i \<and> i \<le> length es \<longrightarrow> ev (abs_path (take i es)) = NotExist"
  shows "walk_up n ev p (abs_path (take j es)) (rev (drop j es)) = Some (Inr (abs_path (elems r @ drop k es)))"
  using assms(2-4)
proof (induction n arbitrary: j)
  case (Suc n)
  obtain i where j: "j = Suc i" using Suc.prems(1) by (cases j) auto
  then have i: "i < length es" using Suc.prems(2) by simp
  have pl: "list_all plain (take m es)" "plain (es ! i)" for m
    using assms(1) i by (auto simp: list_all_iff dest: in_set_takeD)
  have t: "take j es = take i es @ [es ! i]" using i by (simp add: j take_Suc_conv_app_nth)
  have dir: "dir_of (abs_path (take j es)) = abs_path (take i es)"
    and base: "base_of (abs_path (take j es)) = es ! i"
    unfolding t using pl by (simp_all add: dir_of_abs_path base_of_abs_path)
  have ne: "abs_path (take i es) \<noteq> abs_path (take j es)"
    using pl i by (simp add: abs_path_inj t)
  have acc: "rev (drop j es) @ [es ! i] = rev (drop i es)"
    using i by (simp add: j Cons_nth_drop_Suc [symmetric])
  show ?case
  proof (cases "i = k")
    case True
    have "list_all plain (drop k es)" using assms(1) by (auto simp: list_all_iff dest: in_set_dropD)
    then have "clean (rejoin r (drop k es)) = abs_path (elems r @ drop k es)"
      using assms(6) by (simp add: clean_abs rejoin_abs elems_rejoin)
    moreover have "rejoin (join_paths [r, es ! k]) (drop j es) = rejoin r (drop k es)"
      using i True by (simp add: j Cons_nth_drop_Suc [symmetric])
    ultimately show ?thesis using True assms(5) ne by (simp add: dir base Let_def)
  next
    case False
    then have "k < i" using Suc.prems(1) j by simp
    moreover from this have "ev (abs_path (take i es)) = NotExist" using assms(7) i by simp
    moreover have "i \<le> length es" "i - k < n" using i j Suc.prems(3) \<open>k < i\<close> by linarith+
    ultimately show ?thesis
      using Suc.IH [of i] ne by (simp add: dir base acc Let_def)
  qed
qed simp

lemma resolveSymlinks_deepest_ancestor:
  assumes "list_all plain es" "k < length es"
    and "ev (abs_path (take k es)) = Resolved r" "is_abs r"
    and "\<forall>i. k < i \<and> i \<le> length es \<longrightarrow> ev (abs_path (take i es)) = NotExist"
  shows "resolveSymlinks ev (abs_path es) = Inr (abs_path (elems r @ drop k es))"
proof -
  have "length es - k < walk_fuel (abs_path es)"
    using length_abs_path [OF assms(1)] by (simp add: walk_fuel_def)
  then have "walk_up (walk_fuel (abs_path es)) ev (abs_path es) (abs_path (take (length es) es))
      (rev (drop (length es) es)) = Some (Inr (abs_path (elems r @ drop k es)))"
    using assms by (intro walk_up_deepest) simp_all
  moreover have "ev (abs_path es) = NotExist" using assms(2,5) by force
  ultimately show ?thesis by (simp add: resolveSymlinks_def)
qed

text \<open>For a path that does not exist, the resolved path is the resolution of its deepest existing
  ancestor followed by the remaining elements, in order.\<close>
theorem resolveSymlinks_deepest:
  assumes "list_all plain es" "k < length es"
    and "ev (abs_path (take k es)) = Resolved r" "is_abs r"
    and "\<forall>i. k < i \<and> i \<le> length es \<longrightarrow> ev (abs_path (take i es)) = NotExist"
  shows "resolveSymlinks ev (abs_path es) = Inr (abs_path (elems r @ drop k es))"
  using assms by (rule resolveSymlinks_deepest_ancestor)

section \<open>Containment\<close>

text \<open>What the containment check relies on: the file system has a root, and resolving an absolute
  path gives an absolute path.\<close>

definition sane_fs :: "(string \<Rightarrow> eval_result) \<Rightarrow> bool" where
  "sane_fs ev \<longleftrightarrow> ev [slash] = Resolved [slash] \<and> (\<forall>p r. is_abs p \<longrightarrow> ev p = Resolved r \<longrightarrow> is_abs r)"

definition clean_path :: "string \<Rightarrow> bool" where
  "clean_path p \<longleftrightarrow> p = abs_path (elems p)"

lemma clean_path_clean: "is_abs p \<Longrightarrow> clean_path (clean p)"
  by (simp add: clean_path_def clean_abs elems_abs_path elems_plain)

lemma up_to_slash_abs: "is_abs p \<Longrightarrow> is_abs (rev (dropWhile (\<lambda>c. c \<noteq> slash) (rev p)))"
proof -
  assume "is_abs p"
  then obtain q where q: "p = slash # q" by (auto simp: is_abs_def has_prefix_iff)
  have "\<exists>x. rev (dropWhile (\<lambda>c. c \<noteq> slash) (rev (slash # q))) = slash # x"
  proof (induction q rule: rev_induct)
    case (snoc c q)
    then show ?case by (cases "c = slash") simp_all
  qed simp
  then show ?thesis by (auto simp: q is_abs_def has_prefix_iff)
qed

lemma is_abs_dir: "is_abs p \<Longrightarrow> is_abs (dir_of p)"
  by (simp add: dir_of_def is_abs_clean up_to_slash_abs)

lemma dir_fixpoint: "is_abs p \<Longrightarrow> dir_of p = p \<Longrightarrow> p = [slash]"
proof -
  assume p: "is_abs p" "dir_of p = p"
  have "p = abs_path (elems (rev (dropWhile (\<lambda>c. c \<noteq> slash) (rev p))))"
    using p(2) up_to_slash_abs [OF p(1)] by (simp add: dir_of_def clean_abs)
  then obtain es where es: "p = abs_path es" "list_all plain es" using elems_plain by blast
  show ?thesis
  proof (cases es rule: rev_cases)
    case (snoc fs e)
    then have "abs_path fs = abs_path es" using es p(2) dir_of_abs_path [of fs e] by simp
    then show ?thesis using es snoc by (simp add: abs_path_inj)
  qed (use es in \<open>simp add: abs_path_def\<close>)
qed

lemma walk_up_clean:
  "sane_fs ev \<Longrightarrow> is_abs current \<Longrightarrow> ev current = NotExist \<Longrightarrow>
   walk_up n ev p current acc = Some (Inr r) \<Longrightarrow> clean_path r"
proof (induction n arbitrary: current acc)
  case (Suc n)
  have d: "dir_of current \<noteq> current" "is_abs (dir_of current)"
    using dir_fixpoint Suc.prems by (auto simp: sane_fs_def is_abs_dir)
  show ?case
  proof (cases "ev (dir_of current)")
    case (Resolved rp)
    then have "is_abs rp" using Suc.prems(1) d(2) by (simp add: sane_fs_def)
    then have "clean_path (clean (rejoin rp ts))" for ts by (simp add: clean_path_clean rejoin_abs)
    moreover have "r = clean (rejoin rp (rev (acc @ [base_of current])))"
      using Suc.prems(4) Resolved d(1) by (simp add: Let_def del: rejoin.simps)
    ultimately show ?thesis by blast
  next
    case NotExist
    then have "walk_up n ev p (dir_of current) (acc @ [base_of current]) = Some (Inr r)"
      using Suc.prems(4) d(1) by (simp add: Let_def)
    then show ?thesis using Suc.IH [OF Suc.prems(1) d(2) NotExist] by blast
  next
    case EvalError
    then show ?thesis using Suc.prems(4) d(1) by (simp add: Let_def)
  qed
qed simp

lemma is_abs_make_abs: "is_abs cwd \<Longrightarrow> is_abs (make_abs cwd p)"
  by (simp add: make_abs_def is_abs_clean join_paths_abs is_abs_append)

lemma resolveSymlinks_clean:
  assumes "sane_fs ev" "is_abs q" "resolveSymlinks ev q = Inr r"
  shows "clean_path r"
proof (cases "ev q")
  case (Resolved x)
  then have "is_abs x" using assms(1,2) by (simp add: sane_fs_def)
  then show ?thesis using assms(3) Resolved by (auto simp: resolveSymlinks_def clean_path_clean)
next
  case NotExist
  then have "walk_up (walk_fuel q) ev q q [] = Some (Inr r)"
    using assms(3) by (simp add: resolveSymlinks_def split: option.splits)
  then show ?thesis using walk_up_clean [OF assms(1,2) NotExist] by blast
next
  case EvalError
  then show ?thesis using assms(3) by (simp add: resolveSymlinks_def)
qed

lemma canonical_clean:
  assumes "sane_fs ev" "is_abs cwd"
  shows "clean_path (canonical_for_containment ev cwd p)"
proof -
  define q where "q = (if is_abs p then p else make_abs cwd p)"
  have q: "is_abs q" using assms(2) by (simp add: q_def is_abs_make_abs)
  have c: "canonical_for_containment ev cwd p = (case resolveSymlinks ev q of Inr r \<Rightarrow> r | Inl _ \<Rightarrow> clean q)"
    unfolding canonical_for_containment_def q_def Let_def by (rule refl)
  show ?thesis
  proof (cases "resolveSymlinks ev q")
    case (Inl e)
    then show ?thesis by (simp add: c clean_path_clean [OF q])
  next
    case (Inr r)
    then show ?thesis using resolveSymlinks_clean [OF assms(1) q Inr] by (simp add: c)
  qed
qed

lemma join_append: "xs \<noteq> [] \<Longrightarrow> ys \<noteq> [] \<Longrightarrow> join s (xs @ ys) = join s xs @ s @ join s ys"
proof (induction xs)
  case (Cons x xs)
  then show ?case by (cases xs; cases ys) auto
qed simp

lemma prefix_abs_path:
  assumes "list_all plain rs" "list_all plain ps" "rs \<noteq> []"
  shows "abs_path ps = abs_path rs \<or> has_prefix (abs_path ps) (abs_path rs @ [slash]) \<longleftrightarrow> prefix rs ps"
proof
  assume "prefix rs ps"
  then obtain ts where "ps = rs @ ts" by (auto simp: prefix_def)
  then show "abs_path ps = abs_path rs \<or> has_prefix (abs_path ps) (abs_path rs @ [slash])"
    using assms(3) by (cases "ts = []") (auto simp: abs_path_def join_append has_prefix_iff)
next
  assume "abs_path ps = abs_path rs \<or> has_prefix (abs_path ps) (abs_path rs @ [slash])"
  then show "prefix rs ps"
  proof
    assume "has_prefix (abs_path ps) (abs_path rs @ [slash])"
    then obtain t where t: "abs_path ps = abs_path rs @ slash # t" by (auto simp: has_prefix_iff)
    then have "join [slash] ps = join [slash] rs @ slash # t" by (simp add: abs_path_def)
    moreover from this have "ps \<noteq> []" by auto
    moreover have "\<forall>e \<in> set ps. slash \<notin> set e" "\<forall>e \<in> set rs. slash \<notin> set e"
      using assms(1,2) by (auto simp: list_all_iff plain_def)
    ultimately have "ps = rs @ split_on slash t"
      using split_on_join [of ps slash] split_on_join [of rs slash] assms(3)
      by (simp add: split_on_append_gen)
    then show ?thesis by (simp add: prefix_def)
  qed (use assms in \<open>simp add: abs_path_inj\<close>)
qed

lemma pathWithinRoot_prefix:
  assumes "sane_fs ev" "is_abs cwd" "pathWithinRoot ev cwd path rt"
  shows "prefix (elems (canonical_for_containment ev cwd rt)) (elems (canonical_for_containment ev cwd path))"
proof -
  let ?p = "canonical_for_containment ev cwd path" and ?r = "canonical_for_containment ev cwd rt"
  have p: "?p = abs_path (elems ?p)" and r: "?r = abs_path (elems ?r)"
    using canonical_clean [OF assms(1,2)] by (auto simp: clean_path_def)
  have within: "?p = ?r \<or> has_prefix ?p (?r @ [slash])" using assms(3) by (simp add: pathWithinRoot_def Let_def)
  show ?thesis
  proof (cases "elems ?r = []")
    case False
    then show ?thesis using prefix_abs_path [OF elems_plain elems_plain False, of ?p] p r within by simp
  qed simp
qed

text \<open>For every root other than the file system's, the containment check decides whether the
  elements of the canonical root are an initial segment of the elements of the canonical path, so
  a sibling such as \<open>/a/bc\<close> is not within \<open>/a/b\<close>.\<close>
theorem pathWithinRoot_segments:
  assumes "sane_fs ev" "is_abs cwd" "path \<noteq> []" "rt \<noteq> []"
    and "elems (canonical_for_containment ev cwd rt) \<noteq> []"
  shows "pathWithinRoot ev cwd path rt \<longleftrightarrow>
    prefix (elems (canonical_for_containment ev cwd rt)) (elems (canonical_for_containment ev cwd path))"
proof -
  let ?p = "canonical_for_containment ev cwd path" and ?r = "canonical_for_containment ev cwd rt"
  have p: "?p = abs_path (elems ?p)" and r: "?r = abs_path (elems ?r)"
    using canonical_clean [OF assms(1,2)] by (auto simp: clean_path_def)
  show ?thesis
    using prefix_abs_path [OF elems_plain elems_plain assms(5), of ?p] p r assms(3,4)
    by (simp add: pathWithinRoot_def Let_def)
qed

text \<open>The file-system root itself contains no other path: the check looks for the prefix
  \<open>//\<close>.\<close>
theorem root_contains_nothing:
  "pathWithinRoot (\<lambda>p. Resolved p) ''/'' ''/home'' ''/'' = False"
  by code_simp

section \<open>Instances\<close>

theorem clean_absolute_witness: "clean ''/a/./b//../c/'' = ''/a/c'' \<and> plain ''c''"
proof -
  have "is_abs ''/a/./b//../c/''" "elems ''/a/./b//../c/'' = [''a'', ''c'']" by code_simp+
  with clean_absolute [of "''/a/./b//../c/''"] show ?thesis by (simp add: abs_path_def)
qed

definition sample_fs :: "string \<Rightarrow> eval_result" where
  "sample_fs p = (if p = ''/'' then Resolved ''/'' else if p = ''/w'' then Resolved ''/real/w'' else NotExist)"

lemma sample_fs_sane: "sane_fs sample_fs"
  by (auto simp: sane_fs_def sample_fs_def is_abs_def has_prefix_iff)

theorem resolveSymlinks_deepest_witness: "resolveSymlinks sample_fs ''/w/new/f'' = Inr ''/real/w/new/f''"
proof -
  let ?es = "[''w'', ''new'', ''f'']"
  have p: "list_all plain ?es" by (simp add: plain_def)
  have k: "sample_fs (abs_path (take 1 ?es)) = Resolved ''/real/w''" by code_simp
  have n: "\<forall>i. 1 < i \<and> i \<le> length ?es \<longrightarrow> sample_fs (abs_path (take i ?es)) = NotExist"
    by (auto simp: less_Suc_eq_le le_Suc_eq numeral_3_eq_3 abs_path_def sample_fs_def)
  have "elems ''/real/w'' = [''real'', ''w'']" "is_abs ''/real/w''" by code_simp+
  with resolveSymlinks_deepest [OF p _ k _ n] show ?thesis by (simp add: abs_path_def)
qed

theorem pathWithinRoot_segments_witness:
  "pathWithinRoot sample_fs ''/'' ''/w/x'' ''/w'' \<and> \<not> pathWithinRoot sample_fs ''/'' ''/wx'' ''/w''"
proof -
  have e: "elems (canonical_for_containment sample_fs ''/'' ''/w'') = [''real'', ''w'']"
    "elems (canonical_for_containment sample_fs ''/'' ''/w/x'') = [''real'', ''w'', ''x'']"
    "elems (canonical_for_containment sample_fs ''/'' ''/wx'') = [''wx'']" by code_simp+
  have c: "is_abs ''/''" by code_simp
  show ?thesis
    using pathWithinRoot_segments [OF sample_fs_sane c, of "''/w/x''" "''/w''"]
      pathWithinRoot_segments [OF sample_fs_sane c, of "''/wx''" "''/w''"] by (simp add: e)
qed

end
