(* ===== verification/Apply.thy ===== *)
theory Apply
  imports FsPath StateStore
begin

text \<open>
  Applying and undoing a finding on a project file, \<open>internal/web/apply/apply.go\<close>, with the
  eligible categories of \<open>internal/categories\<close>. Files are byte strings at resolved paths;
  \<open>io\<close> holds what the operating system decides: symlink resolution, the working directory,
  and which calls fail. \<open>sha\<close> is the hex-encoded SHA-256; \<open>stored_reversal\<close> is a reversal after its
  way through \<open>state.json\<close>. Windows paths are not modelled.
\<close>

definition MaxApplyTargetBytes :: nat where
  "MaxApplyTargetBytes = 4194304"

datatype apply_error =
    RootUnresolved | Containment | TargetUnresolved | StatError | TargetTooLarge nat | ReadTarget
  | AnchorMissing string | UnknownStrategy string | MkdirParent | WriteTarget
  | ReversalUnresolved | TargetChanged

record apply_request =
  ProjectRoot :: string
  ReqTargetFile :: string
  ReqStrategy :: string
  ReqAnchor :: string
  ReqSnippet :: string

record io =
  io_eval :: "string \<Rightarrow> eval_result"
  io_cwd :: string
  io_stat_err :: "string \<Rightarrow> bool"
  io_read_err :: "string \<Rightarrow> bool"
  io_mkdir_err :: "string \<Rightarrow> bool"
  io_write_err :: "string \<Rightarrow> bool"

type_synonym files = "string \<Rightarrow> string option"

section \<open>Eligible categories\<close>

definition allCategories :: "string list" where
  "allCategories = [''lint-rule'', ''test'', ''ci-check'', ''doc'', ''config'', ''refactor-boundary'']"

definition applyEligible :: "string \<Rightarrow> bool" where
  "applyEligible c \<longleftrightarrow> c \<in> {''doc'', ''lint-rule'', ''ci-check'', ''config''}"

definition allApplyEligible :: "string list" where
  "allApplyEligible = filter applyEligible allCategories"

definition eligibleCategories :: "string \<Rightarrow> bool" where
  "eligibleCategories c \<longleftrightarrow> c \<in> set allApplyEligible"

section \<open>Editing strategies\<close>

definition nl :: char where "nl = CHR 0x0A"

definition header_ends :: "string \<Rightarrow> nat \<Rightarrow> bool" where
  "header_ends pre end' \<longleftrightarrow> end' \<ge> length pre \<or> pre ! end' \<in> {nl, CHR '' '', CHR 0x09}"

function find_header_from :: "string \<Rightarrow> string \<Rightarrow> nat \<Rightarrow> nat option" where
  "find_header_from pre header start =
     (case index_of (drop start pre) (nl # header) of
        None \<Rightarrow> None
      | Some idx \<Rightarrow>
          let pos = start + idx + 1; end' = pos + length header in
          if header_ends pre end' then Some pos else find_header_from pre header end')"
  by pat_completeness auto
termination
proof (relation "measure (\<lambda>(pre, header, start). Suc (length pre) - start)", goal_cases)
  case (2 pre header start idx pos end')
  then obtain u v where "drop start pre = u @ (nl # header) @ v" "length u = idx"
    using index_of_Some by blast
  then have "length (drop start pre) \<ge> idx + Suc (length header)" by simp
  with 2 show ?case by simp
qed simp

declare find_header_from.simps [simp del]

definition findHeader :: "string \<Rightarrow> string \<Rightarrow> nat option" where
  "findHeader pre header =
     (case find_header_from pre header 0 of
        Some i \<Rightarrow> Some i
      | None \<Rightarrow>
          if has_prefix pre header \<and> header_ends pre (length header) then Some 0 else None)"

definition section_header :: "string \<Rightarrow> string" where
  "section_header anchor = ''## '' @ anchor"

definition replaceSection :: "string \<Rightarrow> string \<Rightarrow> string \<Rightarrow> apply_error + string" where
  "replaceSection pre anchor snippet =
     (let header = section_header anchor in
      case findHeader pre header of
        None \<Rightarrow> Inl (AnchorMissing anchor)
      | Some idx \<Rightarrow>
          let rest = drop (idx + length header) pre;
              tail = (case index_of rest (nl # ''## '') of Some e \<Rightarrow> drop e rest | None \<Rightarrow> [])
          in Inr (take idx pre @ header @ [nl, nl] @ snippet @ [nl] @ tail))"

text \<open>\<open>strings.TrimRight(line, "\n")\<close>.\<close>

definition trim_newlines :: "string \<Rightarrow> string" where
  "trim_newlines line = rev (dropWhile (\<lambda>c. c = nl) (rev line))"

fun insert_lines :: "string list \<Rightarrow> string \<Rightarrow> string \<Rightarrow> string list option" where
  "insert_lines [] anchor snippet = None"
| "insert_lines (line # ls) anchor snippet =
     (if trim_newlines line = anchor then Some ((line @ snippet @ [nl]) # ls)
      else map_option ((#) line) (insert_lines ls anchor snippet))"

definition insertAfter :: "string \<Rightarrow> string \<Rightarrow> string \<Rightarrow> apply_error + string" where
  "insertAfter pre anchor snippet =
     (case insert_lines (split_after nl pre) anchor snippet of
        None \<Rightarrow> Inl (AnchorMissing anchor) | Some ls \<Rightarrow> Inr (concat ls))"

definition transform :: "string \<Rightarrow> string \<Rightarrow> string \<Rightarrow> string \<Rightarrow> apply_error + string \<times> string" where
  "transform pre strategy anchor snippet =
     (if strategy = ''append-file'' then
        (if pre = [] then Inr (snippet @ [nl], strategy)
         else Inr (pre @ [nl] @ snippet @ [nl], strategy))
      else if strategy = ''replace-file'' then Inr (snippet, strategy)
      else if strategy = ''append-section'' then
        (let header = section_header anchor in
         if findHeader pre header \<noteq> None
         then (case replaceSection pre anchor snippet of
                 Inl e \<Rightarrow> Inl e | Inr out \<Rightarrow> Inr (out, ''replace-section''))
         else Inr (pre @ [nl, nl] @ header @ [nl, nl] @ snippet @ [nl], strategy))
      else if strategy = ''replace-section'' then
        (case replaceSection pre anchor snippet of Inl e \<Rightarrow> Inl e | Inr out \<Rightarrow> Inr (out, strategy))
      else if strategy = ''insert-after'' then
        (case insertAfter pre anchor snippet of Inl e \<Rightarrow> Inl e | Inr out \<Rightarrow> Inr (out, strategy))
      else Inl (UnknownStrategy strategy))"

section \<open>Apply, preview and undo\<close>

definition resolveTargetUnderRoot :: "io \<Rightarrow> string \<Rightarrow> string \<Rightarrow> apply_error + string" where
  "resolveTargetUnderRoot w absRoot targetFile =
     (let rel = clean targetFile in
      if is_abs rel then Inl Containment
      else
        (case resolveSymlinks (io_eval w) (join_paths [absRoot, rel]) of
           Inl _ \<Rightarrow> Inl TargetUnresolved
         | Inr resolved \<Rightarrow>
             if pathWithinRoot (io_eval w) (io_cwd w) resolved absRoot then Inr resolved
             else Inl Containment))"

definition readPreImage :: "io \<Rightarrow> files \<Rightarrow> string \<Rightarrow> apply_error + string" where
  "readPreImage w fs p =
     (if io_stat_err w p then Inl StatError
      else
        (case fs p of
           None \<Rightarrow> Inr []
         | Some bytes \<Rightarrow>
             if length bytes > MaxApplyTargetBytes then Inl (TargetTooLarge (length bytes))
             else if io_read_err w p then Inl ReadTarget else Inr bytes))"

text \<open>The part \<open>Apply\<close> and \<open>Preview\<close> share: target, pre-image, post-image and the
  strategy used.\<close>

definition plan_apply :: "io \<Rightarrow> files \<Rightarrow> apply_request \<Rightarrow> apply_error + string \<times> string \<times> string \<times> string" where
  "plan_apply w fs req =
     (case io_eval w (ProjectRoot req) of
        Resolved absRoot \<Rightarrow>
          (case resolveTargetUnderRoot w absRoot (ReqTargetFile req) of
             Inl e \<Rightarrow> Inl e
           | Inr p \<Rightarrow>
               (case readPreImage w fs p of
                  Inl e \<Rightarrow> Inl e
                | Inr pre \<Rightarrow>
                    (case transform pre (ReqStrategy req) (ReqAnchor req) (ReqSnippet req) of
                       Inl e \<Rightarrow> Inl e
                     | Inr (post, strategy) \<Rightarrow> Inr (p, pre, post, strategy))))
      | _ \<Rightarrow> Inl RootUnresolved)"

definition preview :: "io \<Rightarrow> files \<Rightarrow> apply_request \<Rightarrow> apply_error + string \<times> string \<times> string" where
  "preview w fs req =
     (case plan_apply w fs req of Inl e \<Rightarrow> Inl e | Inr (p, pre, post, strategy) \<Rightarrow> Inr (pre, post, strategy))"

definition apply_finding ::
    "(string \<Rightarrow> string) \<Rightarrow> io \<Rightarrow> files \<Rightarrow> apply_request \<Rightarrow> apply_error + reversal \<times> files" where
  "apply_finding sha w fs req =
     (case plan_apply w fs req of
        Inl e \<Rightarrow> Inl e
      | Inr (p, pre, post, strategy) \<Rightarrow>
          if length post > MaxApplyTargetBytes then Inl (TargetTooLarge (length post))
          else if io_mkdir_err w (dir_of p) then Inl MkdirParent
          else if io_write_err w p then Inl WriteTarget
          else Inr (\<lparr>RevPath = p, RevStrategy = strategy, PreImageSHA256 = sha pre,
                     PostImageSHA256 = sha post, PreImage = pre\<rparr>, fs(p \<mapsto> post)))"

definition undo_finding ::
    "(string \<Rightarrow> string) \<Rightarrow> io \<Rightarrow> string \<Rightarrow> reversal \<Rightarrow> files \<Rightarrow> apply_error + files" where
  "undo_finding sha w projectRoot rv fs =
     (case io_eval w projectRoot of
        Resolved absRoot \<Rightarrow>
          (case io_eval w (RevPath rv) of
             Resolved p \<Rightarrow>
               if \<not> pathWithinRoot (io_eval w) (io_cwd w) p absRoot then Inl Containment
               else
                 (case fs p of
                    None \<Rightarrow> Inl ReadTarget
                  | Some current \<Rightarrow>
                      if io_read_err w p then Inl ReadTarget
                      else if sha current \<noteq> PostImageSHA256 rv then Inl TargetChanged
                      else if io_write_err w p then Inl WriteTarget
                      else Inr (fs(p \<mapsto> PreImage rv)))
           | _ \<Rightarrow> Inl ReversalUnresolved)
      | _ \<Rightarrow> Inl RootUnresolved)"

section \<open>Editing keeps the rest of the file\<close>

lemma insert_lines_split:
  "insert_lines ls anchor snippet = Some ls' \<Longrightarrow>
   \<exists>as line bs. ls = as @ line # bs \<and> ls' = as @ (line @ snippet @ [nl]) # bs \<and>
     trim_newlines line = anchor \<and> (\<forall>a \<in> set as. trim_newlines a \<noteq> anchor)"
proof (induction ls arbitrary: ls')
  case (Cons l ls)
  show ?case
  proof (cases "trim_newlines l = anchor")
    case True
    with Cons.prems show ?thesis by (intro exI [of _ "[]"] exI [of _ l] exI [of _ ls]) auto
  next
    case False
    with Cons obtain ks where k: "insert_lines ls anchor snippet = Some ks" "ls' = l # ks" by auto
    obtain as line bs where "ls = as @ line # bs" "ks = as @ (line @ snippet @ [nl]) # bs"
      "trim_newlines line = anchor" "\<forall>a \<in> set as. trim_newlines a \<noteq> anchor"
      using Cons.IH [OF k(1)] by blast
    with False k(2) show ?thesis
      by (intro exI [of _ "l # as"] exI [of _ line] exI [of _ bs]) auto
  qed
qed simp

text \<open>A heading of the text at offset \<open>i\<close>: at the start of a line, followed by its end or
  white space.\<close>

definition heading_at :: "string \<Rightarrow> string \<Rightarrow> nat \<Rightarrow> bool" where
  "heading_at pre header i \<longleftrightarrow>
     i + length header \<le> length pre \<and> take (length header) (drop i pre) = header \<and>
     (i = 0 \<or> pre ! (i - 1) = nl) \<and> header_ends pre (i + length header)"

lemma heading_atI:
  "header_ends (a @ nl # h @ v) (Suc (length a) + length h) \<Longrightarrow> heading_at (a @ nl # h @ v) h (Suc (length a))"
  by (simp add: heading_at_def nth_append)

lemma find_header_from_sound:
  "find_header_from pre header start = Some i \<Longrightarrow> heading_at pre header i"
proof (induction pre header start rule: find_header_from.induct)
  case (1 pre header start)
  then obtain idx where idx: "index_of (drop start pre) (nl # header) = Some idx"
    by (subst (asm) (2) find_header_from.simps) (auto split: option.splits)
  let ?pos = "start + idx + 1"
  obtain u v where uv: "drop start pre = u @ (nl # header) @ v" "length u = idx"
    using index_of_Some [OF idx] by blast
  show ?case
  proof (cases "header_ends pre (?pos + length header)")
    case False
    then show ?thesis
      using 1 idx by (subst (asm) (2) find_header_from.simps) (simp add: Let_def)
  next
    case True
    then have "i = ?pos"
      using 1(2) idx by (subst (asm) find_header_from.simps) (simp add: Let_def)
    have "start \<le> length pre" using uv(1) by (cases "start \<le> length pre") simp_all
    then obtain a where a: "pre = a @ nl # header @ v" "length a = start + idx"
      using uv append_take_drop_id [of start pre] that [of "take start pre @ u"] by simp
    have "heading_at (a @ nl # header @ v) header (Suc (length a))"
      using True by (intro heading_atI) (simp add: a [symmetric])
    then show ?thesis using a \<open>i = ?pos\<close> by simp
  qed
qed

lemma findHeader_sound: "findHeader pre header = Some i \<Longrightarrow> heading_at pre header i"
  unfolding findHeader_def
  by (auto split: option.splits if_splits dest: find_header_from_sound
      simp: heading_at_def has_prefix_iff)

text \<open>Replacing a section changes nothing outside it. The text is a prefix ending at a line
  start, the heading, the body and a tail that is empty or begins at the next heading, and exactly
  the body is replaced by the snippet; the body has no heading of the same level.\<close>
theorem replaceSection_frame:
  assumes "replaceSection pre anchor snippet = Inr out"
  shows "\<exists>before body tail. pre = before @ section_header anchor @ body @ tail \<and>
    (before = [] \<or> last before = nl) \<and>
    out = before @ section_header anchor @ [nl, nl] @ snippet @ [nl] @ tail \<and>
    (tail = [] \<or> has_prefix tail (nl # ''## '')) \<and>
    (tail = [] \<longrightarrow> \<not> contains body (nl # ''## ''))"
proof -
  let ?h = "section_header anchor"
  obtain idx where idx: "findHeader pre ?h = Some idx"
    using assms by (auto simp: replaceSection_def Let_def split: option.splits)
  define rest where "rest = drop (idx + length ?h) pre"
  have h: "heading_at pre ?h idx" by (rule findHeader_sound [OF idx])
  then have pre: "pre = take idx pre @ ?h @ rest"
    unfolding heading_at_def rest_def
    by (metis add.commute append_take_drop_id drop_drop)
  have before: "take idx pre = [] \<or> last (take idx pre) = nl"
  proof (cases "idx = 0")
    case False
    have le: "idx \<le> length pre" using h by (simp add: heading_at_def)
    with False have ne: "take idx pre \<noteq> []" by auto
    have "last (take idx pre) = pre ! (idx - 1)"
      using le False by (simp add: last_conv_nth [OF ne] min_absorb2)
    then show ?thesis using h False by (simp add: heading_at_def)
  qed simp
  show ?thesis
  proof (cases "index_of rest (nl # ''## '')")
    case None
    have "out = take idx pre @ ?h @ [nl, nl] @ snippet @ [nl]"
      using assms idx None by (simp add: replaceSection_def Let_def rest_def [symmetric])
    then show ?thesis
      using pre before None
      by (intro exI [of _ "take idx pre"] exI [of _ rest] exI [of _ "[]"]) (simp add: contains_def)
  next
    case (Some e)
    have "out = take idx pre @ ?h @ [nl, nl] @ snippet @ [nl] @ drop e rest"
      using assms idx Some by (simp add: replaceSection_def Let_def rest_def [symmetric])
    moreover obtain u v where "rest = u @ (nl # ''## '') @ v" "length u = e"
      using index_of_Some [OF Some] by blast
    then have "has_prefix (drop e rest) (nl # ''## '')" by (auto simp: has_prefix_iff)
    moreover from this have "drop e rest \<noteq> []" by (auto simp: has_prefix_iff)
    moreover have "pre = take idx pre @ ?h @ take e rest @ drop e rest" using pre by simp
    ultimately show ?thesis
      using before by (intro exI [of _ "take idx pre"] exI [of _ "take e rest"] exI [of _ "drop e rest"]) simp
  qed
qed

text \<open>The heading match accepts a longer heading whose next word starts after a space, against
  the documented \<open>not a prefix of a longer heading\<close>: appending a section \<open>Cache\<close>
  replaces the body of \<open>Cache Backend\<close> and drops the rest of its heading.\<close>
theorem append_section_hits_longer_heading:
  "transform (''## Cache Backend'' @ [nl] @ ''keep'' @ [nl]) ''append-section'' ''Cache'' ''new'' =
   Inr (''## Cache'' @ [nl, nl] @ ''new'' @ [nl], ''replace-section'')"
  by code_simp

text \<open>Inserting after an anchor keeps every line and adds the snippet behind the first line that
  equals the anchor.\<close>
theorem insertAfter_frame:
  assumes "insertAfter pre anchor snippet = Inr out"
  shows "\<exists>before line rest. pre = before @ line @ rest \<and> out = before @ line @ snippet @ [nl] @ rest \<and>
           trim_newlines line = anchor"
proof -
  obtain ls where ls: "insert_lines (split_after nl pre) anchor snippet = Some ls" "out = concat ls"
    using assms by (auto simp: insertAfter_def split: option.splits)
  obtain as line bs where s: "split_after nl pre = as @ line # bs"
    "ls = as @ (line @ snippet @ [nl]) # bs" "trim_newlines line = anchor"
    using insert_lines_split [OF ls(1)] by blast
  have "pre = concat as @ line @ concat bs" using concat_split_after [of nl pre] s(1) by simp
  then show ?thesis using s(2,3) ls(2) by (intro exI [of _ "concat as"] exI [of _ line] exI [of _ "concat bs"]) simp
qed

section \<open>Containment and reversal\<close>

lemma plan_target:
  assumes "plan_apply w fs req = Inr (p, pre, post, strategy)"
  shows "\<exists>absRoot. io_eval w (ProjectRoot req) = Resolved absRoot \<and>
      pathWithinRoot (io_eval w) (io_cwd w) p absRoot \<and>
      pre = (case fs p of Some b \<Rightarrow> b | None \<Rightarrow> []) \<and> length pre \<le> MaxApplyTargetBytes"
  using assms
  by (auto simp: plan_apply_def resolveTargetUnderRoot_def readPreImage_def Let_def
      split: eval_result.splits sum.splits if_splits option.splits)

lemma apply_contained_facts:
  assumes "apply_finding sha w fs req = Inr (rv, fs')"
  shows "\<exists>absRoot post. io_eval w (ProjectRoot req) = Resolved absRoot \<and>
    pathWithinRoot (io_eval w) (io_cwd w) (RevPath rv) absRoot \<and>
    fs' = fs(RevPath rv \<mapsto> post) \<and> length post \<le> MaxApplyTargetBytes \<and>
    PostImageSHA256 rv = sha post \<and> PreImage rv = (case fs (RevPath rv) of Some b \<Rightarrow> b | None \<Rightarrow> []) \<and>
    transform (PreImage rv) (ReqStrategy req) (ReqAnchor req) (ReqSnippet req) = Inr (post, RevStrategy rv) \<and>
    preview w fs req = Inr (PreImage rv, post, RevStrategy rv)"
proof -
  obtain p pre post strategy where plan: "plan_apply w fs req = Inr (p, pre, post, strategy)"
    using assms by (auto simp: apply_finding_def split: sum.splits)
  have rv: "rv = \<lparr>RevPath = p, RevStrategy = strategy, PreImageSHA256 = sha pre,
      PostImageSHA256 = sha post, PreImage = pre\<rparr>" "fs' = fs(p \<mapsto> post)" "length post \<le> MaxApplyTargetBytes"
    using assms plan by (auto simp: apply_finding_def split: if_splits)
  have "transform pre (ReqStrategy req) (ReqAnchor req) (ReqSnippet req) = Inr (post, strategy)"
    using plan by (auto simp: plan_apply_def split: eval_result.splits sum.splits)
  with plan_target [OF plan] rv plan show ?thesis by (auto simp: preview_def)
qed

text \<open>C29: A successful apply writes one file, and that file lies within the resolved project root; the
  new content is the transformed old content within the size cap, and a preview of the same request
  shows the same contents.\<close>
theorem apply_contained:
  assumes "apply_finding sha w fs req = Inr (rv, fs')"
  shows "\<exists>absRoot post. io_eval w (ProjectRoot req) = Resolved absRoot \<and>
    pathWithinRoot (io_eval w) (io_cwd w) (RevPath rv) absRoot \<and>
    fs' = fs(RevPath rv \<mapsto> post) \<and> length post \<le> MaxApplyTargetBytes \<and>
    PostImageSHA256 rv = sha post \<and> PreImage rv = (case fs (RevPath rv) of Some b \<Rightarrow> b | None \<Rightarrow> []) \<and>
    transform (PreImage rv) (ReqStrategy req) (ReqAnchor req) (ReqSnippet req) = Inr (post, RevStrategy rv) \<and>
    preview w fs req = Inr (PreImage rv, post, RevStrategy rv)"
  by (rule apply_contained_facts [OF assms])

text \<open>Between apply and undo the reversal lies in \<open>state.json\<close>. \<open>encoding/json\<close> replaces every byte
  of a string that is not part of valid UTF-8 by U+FFFD; the digests are hexadecimal and keep their
  bytes.\<close>

definition json_text :: "string \<Rightarrow> string" where
  "json_text s = encode_runes (runes s)"

definition stored_reversal :: "reversal \<Rightarrow> reversal" where
  "stored_reversal rv = rv\<lparr>RevPath := json_text (RevPath rv), RevStrategy := json_text (RevStrategy rv),
     PreImage := json_text (PreImage rv)\<rparr>"

lemma json_text_valid [simp]: "utf8_valid s \<Longrightarrow> json_text s = s"
  by (simp add: json_text_def encode_runes_valid)

text \<open>C37: Undo with the stored reversal, on the files an apply left, provided that the path of the target is
  valid UTF-8, still resolves to itself and the file can be read: undo succeeds and writes the old
  content with its undecodable bytes replaced. So a target that held valid UTF-8 is restored exactly, with
  all other files as before; where apply created the file an empty one stays.\<close>
theorem undo_restores:
  assumes "apply_finding sha w fs req = Inr (rv, fs')"
    and "utf8_valid (RevPath rv)" "io_eval w (RevPath rv) = Resolved (RevPath rv)"
    and "\<not> io_read_err w (RevPath rv)"
  shows "undo_finding sha w (ProjectRoot req) (stored_reversal rv) fs' =
      Inr (fs(RevPath rv \<mapsto> (case fs (RevPath rv) of Some b \<Rightarrow> json_text b | None \<Rightarrow> []))) \<and>
    (\<forall>b. fs (RevPath rv) = Some b \<and> utf8_valid b \<longrightarrow>
      undo_finding sha w (ProjectRoot req) (stored_reversal rv) fs' = Inr fs)"
proof -
  have w: "\<not> io_write_err w (RevPath rv)"
    using assms(1) by (auto simp: apply_finding_def split: sum.splits if_splits)
  have "json_text [] = []" by (simp add: json_text_def encode_runes_def runes.simps)
  then have "undo_finding sha w (ProjectRoot req) (stored_reversal rv) fs' =
      Inr (fs(RevPath rv \<mapsto> (case fs (RevPath rv) of Some b \<Rightarrow> json_text b | None \<Rightarrow> [])))"
    using apply_contained_facts [OF assms(1)] assms(2-4) w
    by (auto simp: undo_finding_def stored_reversal_def split: option.split)
  then show ?thesis by (auto simp: fun_upd_idem)
qed

text \<open>Undo refuses a file that was edited after the apply: when the content hashes differently,
  nothing is written.\<close>
theorem undo_refuses_edited:
  assumes "fs p = Some current" "io_eval w (RevPath rv) = Resolved p" "sha current \<noteq> PostImageSHA256 rv"
  shows "\<exists>e. undo_finding sha w projectRoot rv fs = Inl e"
  using assms by (cases "io_eval w projectRoot") (auto simp: undo_finding_def)

section \<open>Instances\<close>

definition sample_io :: io where
  "sample_io = \<lparr>io_eval = (\<lambda>p. Resolved p), io_cwd = ''/'', io_stat_err = (\<lambda>_. False),
     io_read_err = (\<lambda>_. False), io_mkdir_err = (\<lambda>_. False), io_write_err = (\<lambda>_. False)\<rparr>"

lemma sample_io_sel [simp]:
  "io_eval sample_io p = Resolved p" "io_stat_err sample_io p = False" "io_read_err sample_io p = False"
  "io_mkdir_err sample_io p = False" "io_write_err sample_io p = False"
  by (simp_all add: sample_io_def)

definition sample_path :: string where "sample_path = ''/w/AGENTS.md''"
definition sample_post :: string where "sample_post = ''doc'' @ [nl] @ ''rule'' @ [nl]"
definition sample_files :: files where "sample_files = [sample_path \<mapsto> ''doc'']"

definition sample_request :: apply_request where
  "sample_request = \<lparr>ProjectRoot = ''/w'', ReqTargetFile = ''AGENTS.md'', ReqStrategy = ''append-file'',
     ReqAnchor = [], ReqSnippet = ''rule''\<rparr>"

definition sample_reversal :: reversal where
  "sample_reversal = \<lparr>RevPath = sample_path, RevStrategy = ''append-file'', PreImageSHA256 = ''doc'',
     PostImageSHA256 = sample_post, PreImage = ''doc''\<rparr>"

lemma sample_apply:
  "apply_finding (\<lambda>b. b) sample_io sample_files sample_request =
     Inr (sample_reversal, sample_files(sample_path \<mapsto> sample_post))"
proof -
  have t: "resolveTargetUnderRoot sample_io ''/w'' ''AGENTS.md'' = Inr sample_path" by code_simp
  have pre: "readPreImage sample_io sample_files sample_path = Inr ''doc''"
    by (simp add: readPreImage_def sample_files_def MaxApplyTargetBytes_def)
  have tr: "transform ''doc'' ''append-file'' [] ''rule'' = Inr (sample_post, ''append-file'')"
    by (simp add: transform_def sample_post_def)
  have len: "length sample_post \<le> MaxApplyTargetBytes" by (simp add: sample_post_def MaxApplyTargetBytes_def)
  show ?thesis
    using len by (simp add: apply_finding_def plan_apply_def t pre tr sample_request_def sample_reversal_def)
qed

theorem replaceSection_frame_witness:
  "\<exists>before body tail. ''## A'' @ [nl] @ ''x'' = before @ section_header ''A'' @ body @ tail"
proof -
  have "replaceSection (''## A'' @ [nl] @ ''x'') ''A'' ''y'' = Inr (''## A'' @ [nl, nl] @ ''y'' @ [nl])"
    by code_simp
  from replaceSection_frame [OF this] show ?thesis by blast
qed

theorem insertAfter_frame_witness:
  "\<exists>before line rest. ''a'' @ [nl] @ ''b'' = before @ line @ rest \<and> trim_newlines line = ''a''"
proof -
  have "insertAfter (''a'' @ [nl] @ ''b'') ''a'' ''s'' = Inr (''a'' @ [nl] @ ''s'' @ [nl] @ ''b'')"
    by code_simp
  from insertAfter_frame [OF this] show ?thesis by blast
qed

theorem apply_contained_witness:
  "pathWithinRoot (io_eval sample_io) (io_cwd sample_io) sample_path ''/w''"
proof -
  have "io_eval sample_io (ProjectRoot sample_request) = Resolved ''/w''" by (simp add: sample_request_def)
  with apply_contained [OF sample_apply] show ?thesis by (auto simp: sample_reversal_def)
qed

theorem undo_restores_witness:
  "undo_finding (\<lambda>b. b) sample_io ''/w'' (stored_reversal sample_reversal) (sample_files(sample_path \<mapsto> sample_post)) = Inr sample_files"
proof -
  have "ProjectRoot sample_request = ''/w''" "RevPath sample_reversal = sample_path" "sample_files sample_path = Some ''doc''"
    by (simp_all add: sample_request_def sample_reversal_def sample_files_def)
  moreover have "utf8_valid sample_path" "utf8_valid ''doc''" by code_simp+
  ultimately show ?thesis using undo_restores [OF sample_apply] by (simp add: fun_upd_idem)
qed

text \<open>The pre-image is not stored verbatim: a file in Latin-1 comes back damaged.\<close>

definition latin_pre :: string where "latin_pre = [CHR ''n'', CHR 0xE9]"

definition latin_reversal :: reversal where
  "latin_reversal = \<lparr>RevPath = sample_path, RevStrategy = ''replace-file'', PreImageSHA256 = latin_pre,
     PostImageSHA256 = ''rule'', PreImage = latin_pre\<rparr>"

theorem undo_damages_other_encodings:
  "apply_finding (\<lambda>b. b) sample_io [sample_path \<mapsto> latin_pre] (sample_request\<lparr>ReqStrategy := ''replace-file''\<rparr>) =
     Inr (latin_reversal, [sample_path \<mapsto> ''rule''])"
  "undo_finding (\<lambda>b. b) sample_io ''/w'' (stored_reversal latin_reversal) [sample_path \<mapsto> ''rule''] =
     Inr [sample_path \<mapsto> CHR ''n'' # rune_error]"
proof -
  have "resolveTargetUnderRoot sample_io ''/w'' ''AGENTS.md'' = Inr sample_path" by code_simp
  then show applied: "apply_finding (\<lambda>b. b) sample_io [sample_path \<mapsto> latin_pre] (sample_request\<lparr>ReqStrategy := ''replace-file''\<rparr>) =
      Inr (latin_reversal, [sample_path \<mapsto> ''rule''])"
    by (simp add: apply_finding_def plan_apply_def readPreImage_def transform_def sample_request_def latin_reversal_def
        MaxApplyTargetBytes_def latin_pre_def)
  have within: "pathWithinRoot (io_eval sample_io) (io_cwd sample_io) sample_path ''/w''"
    using apply_contained_facts [OF applied] by (auto simp: sample_request_def latin_reversal_def)
  have "decode_rune latin_pre = Some (byte CHR ''n'', 1)" "decode_rune [CHR 0xE9] = None" by code_simp+
  then have "json_text latin_pre = CHR ''n'' # rune_error"
    by (simp add: json_text_def encode_runes_def runes.simps [of latin_pre] runes.simps [of "[CHR 0xE9]"] runes.simps [of "[]"])
       (simp add: latin_pre_def runes.simps [of "[CHR 0xE9]"] runes.simps [of "[]"])
  moreover have "utf8_valid sample_path" "utf8_valid ''replace-file''" by code_simp+
  ultimately show "undo_finding (\<lambda>b. b) sample_io ''/w'' (stored_reversal latin_reversal) [sample_path \<mapsto> ''rule''] =
      Inr [sample_path \<mapsto> CHR ''n'' # rune_error]"
    using within by (simp add: undo_finding_def stored_reversal_def latin_reversal_def)
qed

theorem undo_refuses_edited_witness:
  "\<exists>e. undo_finding (\<lambda>b. b) sample_io ''/w'' sample_reversal (sample_files(sample_path \<mapsto> ''edited'')) = Inl e"
proof -
  have "io_eval sample_io (RevPath sample_reversal) = Resolved sample_path" by (simp add: sample_reversal_def)
  then show ?thesis
    by (intro undo_refuses_edited [where current = "''edited''" and p = sample_path])
       (simp_all add: sample_reversal_def sample_post_def)
qed

end
