(* ===== verification/Lifecycle.thy ===== *)
theory Lifecycle
  imports Apply
begin

text \<open>
  The finding lifecycle endpoints, \<open>internal/web/handlers/lifecycle.go\<close>: apply, undo,
  dismiss, resolve, undismiss and unresolve. A request is answered under the project's lock, so a
  handler is one step of the world: the state directory of each project, the project files, the
  published events and the invalidated cache entries. \<open>deps\<close> holds the configuration, the
  clock, the operating system and the hash; error texts of other packages are \<open>ErrorText\<close>.
  Resolving the state path of a project is not modelled: a project's directory is found by name. The
  strings of a stored document are taken to be valid UTF-8; \<open>stored_reversal\<close> of \<open>Apply\<close> is the
  reversal of any other file.
\<close>

section \<open>Requests and responses\<close>

datatype transition = TApply | TUndo | TDismiss | TResolve | TUndismiss | TUnresolve

definition transition_name :: "transition \<Rightarrow> string" where
  "transition_name t =
     (case t of TApply \<Rightarrow> ''apply'' | TUndo \<Rightarrow> ''undo'' | TDismiss \<Rightarrow> ''dismiss'' | TResolve \<Rightarrow> ''resolve''
      | TUndismiss \<Rightarrow> ''undismiss'' | TUnresolve \<Rightarrow> ''unresolve'')"

datatype message = Msg string | ErrorText

datatype response =
    PlainError nat string
  | JsonError nat message
  | JsonFinding finding_state
  | JsonOk

record request =
  Method :: string
  UrlPath :: string

record project =
  PName :: string
  PPath :: string

record deps =
  d_config :: "project list option"
  d_cache :: bool
  d_bus :: bool
  d_io :: io
  d_sha :: "string \<Rightarrow> string"
  d_lower :: "string \<Rightarrow> string"
  d_now :: int
  d_writes :: "string \<Rightarrow> bool"

record world =
  w_dirs :: "string \<Rightarrow> doc dir"
  w_files :: files
  w_events :: "(string \<times> string) list"
  w_invalidated :: "string list"

definition trim_slashes :: "string \<Rightarrow> string" where
  "trim_slashes s = rev (dropWhile (\<lambda>c. c = slash) (rev (dropWhile (\<lambda>c. c = slash) s)))"

definition parseProjectHashTransition :: "string \<Rightarrow> string \<times> string \<times> string" where
  "parseProjectHashTransition urlPath =
     (case split_on slash (trim_slashes urlPath) of
        [a, b, name, f, hash, t] \<Rightarrow>
          if a = ''api'' \<and> b = ''projects'' \<and> f = ''findings'' then (name, hash, t) else ([], [], [])
      | _ \<Rightarrow> ([], [], []))"

definition is_hex :: "string \<Rightarrow> bool" where
  "is_hex s \<longleftrightarrow> s \<noteq> [] \<and>
     list_all (\<lambda>c. is_digit c \<or> c \<in> {CHR ''a'', CHR ''b'', CHR ''c'', CHR ''d'', CHR ''e'', CHR ''f''}) s"

definition findProject :: "project list \<Rightarrow> string \<Rightarrow> project option" where
  "findProject ps name = find (\<lambda>p. PName p = name) ps"

definition not_found :: response where
  "not_found = PlainError 404 ''404 page not found''"

definition resolveProjectAndState ::
    "deps \<Rightarrow> world \<Rightarrow> request \<Rightarrow> transition \<Rightarrow> response + project \<times> project_state \<times> string \<times> string" where
  "resolveProjectAndState dp w req want =
     (if Method req \<noteq> ''POST'' then Inl (PlainError 405 ''method not allowed'')
      else
        (case parseProjectHashTransition (UrlPath req) of (name, hash0, t) \<Rightarrow>
           if name = [] \<or> hash0 = [] \<or> t \<noteq> transition_name want then Inl not_found
           else
             let hash = to_lower (d_lower dp) hash0 in
             if \<not> is_hex hash then Inl (JsonError 400 (Msg ''hash must be lowercase hex''))
             else
               (case d_config dp of
                  None \<Rightarrow> Inl (JsonError 500 (Msg ''config unavailable''))
                | Some cfg \<Rightarrow>
                    (case findProject cfg name of
                       None \<Rightarrow> Inl not_found
                     | Some proj \<Rightarrow>
                         (case load_project (w_dirs w name) of
                            Inl e \<Rightarrow> Inl (JsonError 500 ErrorText)
                          | Inr st \<Rightarrow> Inr (proj, st, name, hash))))))"

section \<open>Entries\<close>

definition entries :: "project_state \<Rightarrow> finding_state dict" where
  "entries st = or_empty (Findings st)"

definition lookup_entry :: "project_state \<Rightarrow> string \<Rightarrow> finding_state option" where
  "lookup_entry st h = map_of (entries st) h"

definition entry_or_zero :: "project_state \<Rightarrow> string \<Rightarrow> finding_state" where
  "entry_or_zero st h = (case lookup_entry st h of Some e \<Rightarrow> e | None \<Rightarrow> zero_finding)"

definition put_entry :: "string \<Rightarrow> finding_state \<Rightarrow> project_state \<Rightarrow> project_state" where
  "put_entry h e st = st\<lparr>Findings := Some (AList.update h e (entries st))\<rparr>"

definition drop_entry :: "string \<Rightarrow> project_state \<Rightarrow> project_state" where
  "drop_entry h st = st\<lparr>Findings := Some (AList.delete h (entries st))\<rparr>"

definition mark_applied :: "int \<Rightarrow> string \<Rightarrow> reversal \<Rightarrow> finding_state \<Rightarrow> finding_state" where
  "mark_applied now name rv e =
     e\<lparr>Status := FindingStatusApplied, AppliedAt := now, AppliedReversal := Some rv, ProjectName := name\<rparr>"

definition mark_undone :: "finding_state \<Rightarrow> finding_state" where
  "mark_undone e = e\<lparr>Status := [], AppliedAt := zero_time, AppliedReversal := None\<rparr>"

definition mark_dismissed :: "int \<Rightarrow> string \<Rightarrow> finding_state \<Rightarrow> finding_state" where
  "mark_dismissed now name e =
     e\<lparr>Status := FindingStatusDismissed, DismissedAt := now, ProjectName := name\<rparr>"

definition mark_resolved :: "int \<Rightarrow> string \<Rightarrow> finding_state \<Rightarrow> finding_state" where
  "mark_resolved now name e =
     e\<lparr>Status := FindingStatusResolved, ResolvedAt := now, ProjectName := name\<rparr>"

definition was_applied :: "finding_state \<Rightarrow> bool" where
  "was_applied e \<longleftrightarrow> AppliedReversal e \<noteq> None \<and> AppliedAt e \<noteq> zero_time"

definition undismiss_state :: "string \<Rightarrow> project_state \<Rightarrow> project_state" where
  "undismiss_state h st =
     (case lookup_entry st h of
        Some e \<Rightarrow>
          if Status e = FindingStatusDismissed then
            (if was_applied e
             then put_entry h (e\<lparr>Status := FindingStatusApplied, DismissedAt := zero_time\<rparr>) st
             else drop_entry h st)
          else st
      | None \<Rightarrow> st)"

definition unresolve_state :: "string \<Rightarrow> project_state \<Rightarrow> project_state" where
  "unresolve_state h st =
     (case lookup_entry st h of
        Some e \<Rightarrow>
          if Status e = FindingStatusResolved then
            (if was_applied e
             then put_entry h (e\<lparr>Status := FindingStatusApplied, ResolvedAt := zero_time\<rparr>) st
             else drop_entry h st)
          else st
      | None \<Rightarrow> st)"

section \<open>Handlers\<close>

definition publish :: "deps \<Rightarrow> string \<Rightarrow> string \<Rightarrow> world \<Rightarrow> world" where
  "publish dp evt h w = (if d_bus dp then w\<lparr>w_events := w_events w @ [(evt, h)]\<rparr> else w)"

definition invalidate :: "deps \<Rightarrow> string \<Rightarrow> world \<Rightarrow> world" where
  "invalidate dp name w =
     (if d_cache dp then w\<lparr>w_invalidated := w_invalidated w @ [name]\<rparr> else w)"

text \<open>Saving the mutated state; \<open>None\<close> on failure.\<close>

definition save_state :: "deps \<Rightarrow> string \<Rightarrow> project_state \<Rightarrow> world \<Rightarrow> world option" where
  "save_state dp name st w =
     (case save_project (d_writes dp) st (w_dirs w name) of
        Inl e \<Rightarrow> None
      | Inr dir \<Rightarrow> Some (w\<lparr>w_dirs := (w_dirs w)(name := dir)\<rparr>))"

definition apply_error_response :: "apply_error \<Rightarrow> response" where
  "apply_error_response e =
     (case e of
        Containment \<Rightarrow> JsonError 400 (Msg ''target outside project root'')
      | TargetTooLarge _ \<Rightarrow> JsonError 413 (Msg ''target file too large for safe apply (4 MiB cap)'')
      | AnchorMissing _ \<Rightarrow> JsonError 404 (Msg ''anchor not found in target file'')
      | _ \<Rightarrow> JsonError 500 ErrorText)"

definition undo_error_response :: "apply_error \<Rightarrow> response" where
  "undo_error_response e =
     (case e of
        TargetChanged \<Rightarrow> JsonError 409 (Msg ''target file has changed since apply; refusing undo'')
      | Containment \<Rightarrow> JsonError 400 (Msg ''target outside project root'')
      | _ \<Rightarrow> JsonError 500 ErrorText)"

definition request_of :: "project \<Rightarrow> apply_spec \<Rightarrow> apply_request" where
  "request_of proj spec =
     \<lparr>ProjectRoot = PPath proj, ReqTargetFile = TargetFile spec, ReqStrategy = Strategy spec,
      ReqAnchor = Anchor spec, ReqSnippet = Snippet spec\<rparr>"

definition handle_apply :: "deps \<Rightarrow> request \<Rightarrow> world \<Rightarrow> response \<times> world" where
  "handle_apply dp req w =
     (case resolveProjectAndState dp w req TApply of
        Inl r \<Rightarrow> (r, w)
      | Inr (proj, st, name, hash) \<Rightarrow>
          (case lookup_entry st hash of
             None \<Rightarrow> (JsonError 404 (Msg ''no apply spec recorded for this finding; re-run analysis to capture it''), w)
           | Some prior \<Rightarrow>
               (case ApplySpec prior of
                  None \<Rightarrow> (JsonError 404 (Msg ''no apply spec recorded for this finding; re-run analysis to capture it''), w)
                | Some spec \<Rightarrow>
                    if \<not> eligibleCategories (Category spec) then
                      (JsonError 400 (Msg ''category not eligible for apply''), w)
                    else if Status prior = FindingStatusApplied \<and> AppliedReversal prior \<noteq> None then
                      (JsonError 409 (Msg ''finding already applied; undo first before re-applying''), w)
                    else
                      (case apply_finding (d_sha dp) (d_io dp) (w_files w) (request_of proj spec) of
                         Inl e \<Rightarrow> (apply_error_response e, w)
                       | Inr (rv, fs') \<Rightarrow>
                           let w1 = w\<lparr>w_files := fs'\<rparr>;
                               e1 = mark_applied (d_now dp) name rv prior in
                           (case save_state dp name (put_entry hash e1 st) w1 of
                              None \<Rightarrow> (JsonError 500 ErrorText, publish dp ''apply.state_save_failed'' hash w1)
                            | Some w2 \<Rightarrow>
                                (JsonFinding e1, publish dp ''finding.applied'' hash (invalidate dp name w2)))))))"

definition handle_undo :: "deps \<Rightarrow> request \<Rightarrow> world \<Rightarrow> response \<times> world" where
  "handle_undo dp req w =
     (case resolveProjectAndState dp w req TUndo of
        Inl r \<Rightarrow> (r, w)
      | Inr (proj, st, name, hash) \<Rightarrow>
          (case (lookup_entry st hash, AppliedReversal (entry_or_zero st hash)) of
             (Some e, Some rv) \<Rightarrow>
               if Status e \<noteq> FindingStatusApplied then (JsonError 404 (Msg ''no applied reversal for hash''), w)
               else
                 (case undo_finding (d_sha dp) (d_io dp) (PPath proj) rv (w_files w) of
                    Inl err \<Rightarrow> (undo_error_response err, w)
                  | Inr fs' \<Rightarrow>
                      let w1 = w\<lparr>w_files := fs'\<rparr> in
                      (case save_state dp name (put_entry hash (mark_undone e) st) w1 of
                         None \<Rightarrow> (JsonError 500 ErrorText, w1)
                       | Some w2 \<Rightarrow> (JsonOk, publish dp ''finding.undone'' hash (invalidate dp name w2))))
           | _ \<Rightarrow> (JsonError 404 (Msg ''no applied reversal for hash''), w)))"

definition handle_dismiss :: "deps \<Rightarrow> request \<Rightarrow> world \<Rightarrow> response \<times> world" where
  "handle_dismiss dp req w =
     (case resolveProjectAndState dp w req TDismiss of
        Inl r \<Rightarrow> (r, w)
      | Inr (proj, st, name, hash) \<Rightarrow>
          let e1 = mark_dismissed (d_now dp) name (entry_or_zero st hash) in
          (case save_state dp name (put_entry hash e1 st) w of
             None \<Rightarrow> (JsonError 500 ErrorText, w)
           | Some w2 \<Rightarrow> (JsonFinding e1, publish dp ''finding.dismissed'' hash (invalidate dp name w2))))"

definition handle_resolve :: "deps \<Rightarrow> request \<Rightarrow> world \<Rightarrow> response \<times> world" where
  "handle_resolve dp req w =
     (case resolveProjectAndState dp w req TResolve of
        Inl r \<Rightarrow> (r, w)
      | Inr (proj, st, name, hash) \<Rightarrow>
          let e1 = mark_resolved (d_now dp) name (entry_or_zero st hash) in
          (case save_state dp name (put_entry hash e1 st) w of
             None \<Rightarrow> (JsonError 500 ErrorText, w)
           | Some w2 \<Rightarrow> (JsonFinding e1, publish dp ''finding.resolved'' hash (invalidate dp name w2))))"

definition handle_undismiss :: "deps \<Rightarrow> request \<Rightarrow> world \<Rightarrow> response \<times> world" where
  "handle_undismiss dp req w =
     (case resolveProjectAndState dp w req TUndismiss of
        Inl r \<Rightarrow> (r, w)
      | Inr (proj, st, name, hash) \<Rightarrow>
          (case save_state dp name (undismiss_state hash st) w of
             None \<Rightarrow> (JsonError 500 ErrorText, w)
           | Some w2 \<Rightarrow> (JsonOk, invalidate dp name w2)))"

definition handle_unresolve :: "deps \<Rightarrow> request \<Rightarrow> world \<Rightarrow> response \<times> world" where
  "handle_unresolve dp req w =
     (case resolveProjectAndState dp w req TUnresolve of
        Inl r \<Rightarrow> (r, w)
      | Inr (proj, st, name, hash) \<Rightarrow>
          (case save_state dp name (unresolve_state hash st) w of
             None \<Rightarrow> (JsonError 500 ErrorText, w)
           | Some w2 \<Rightarrow> (JsonOk, invalidate dp name w2)))"

definition handle :: "deps \<Rightarrow> transition \<Rightarrow> request \<Rightarrow> world \<Rightarrow> response \<times> world" where
  "handle dp t =
     (case t of
        TApply \<Rightarrow> handle_apply dp | TUndo \<Rightarrow> handle_undo dp | TDismiss \<Rightarrow> handle_dismiss dp
      | TResolve \<Rightarrow> handle_resolve dp | TUndismiss \<Rightarrow> handle_undismiss dp | TUnresolve \<Rightarrow> handle_unresolve dp)"

section \<open>What a handler does to the stored state\<close>

fun succeeded :: "response \<Rightarrow> bool" where
  "succeeded (JsonFinding _) = True"
| "succeeded JsonOk = True"
| "succeeded (PlainError _ _) = False"
| "succeeded (JsonError _ _) = False"

definition mutated ::
    "deps \<Rightarrow> transition \<Rightarrow> string \<Rightarrow> string \<Rightarrow> project_state \<Rightarrow> project_state \<Rightarrow> bool" where
  "mutated dp t name h st st' \<longleftrightarrow>
     (case t of
        TApply \<Rightarrow>
          (\<exists>prior rv. lookup_entry st h = Some prior \<and> ApplySpec prior \<noteq> None \<and>
             \<not> (Status prior = FindingStatusApplied \<and> AppliedReversal prior \<noteq> None) \<and>
             st' = put_entry h (mark_applied (d_now dp) name rv prior) st)
      | TUndo \<Rightarrow>
          (\<exists>e. lookup_entry st h = Some e \<and> Status e = FindingStatusApplied \<and>
             AppliedReversal e \<noteq> None \<and> st' = put_entry h (mark_undone e) st)
      | TDismiss \<Rightarrow> st' = put_entry h (mark_dismissed (d_now dp) name (entry_or_zero st h)) st
      | TResolve \<Rightarrow> st' = put_entry h (mark_resolved (d_now dp) name (entry_or_zero st h)) st
      | TUndismiss \<Rightarrow> st' = undismiss_state h st
      | TUnresolve \<Rightarrow> st' = unresolve_state h st)"

lemma w_dirs_effects [simp]:
  "w_dirs (publish dp evt h w) = w_dirs w" "w_dirs (invalidate dp name w) = w_dirs w"
  "w_files (publish dp evt h w) = w_files w" "w_files (invalidate dp name w) = w_files w"
  by (simp_all add: publish_def invalidate_def)

lemma save_state_Some:
  "save_state dp name st w = Some w' \<longleftrightarrow>
     (\<exists>dir. save_project (d_writes dp) st (w_dirs w name) = Inr dir \<and> w' = w\<lparr>w_dirs := (w_dirs w)(name := dir)\<rparr>)"
  by (auto simp: save_state_def split: sum.splits)

lemmas handler_defs =
  handle_def handle_apply_def handle_undo_def handle_dismiss_def handle_resolve_def
  handle_undismiss_def handle_unresolve_def

lemma handle_success:
  assumes "handle dp t req w = (r, w')" "succeeded r"
  shows "\<exists>proj st name h st' dir. resolveProjectAndState dp w req t = Inr (proj, st, name, h) \<and>
    mutated dp t name h st st' \<and> save_project (d_writes dp) st' (w_dirs w name) = Inr dir \<and>
    w_dirs w' = (w_dirs w)(name := dir)"
proof -
  obtain proj st name h where r: "resolveProjectAndState dp w req t = Inr (proj, st, name, h)"
  proof (cases "resolveProjectAndState dp w req t")
    case (Inl e)
    then have "\<not> succeeded e"
      by (auto simp: resolveProjectAndState_def Let_def not_found_def split: if_splits prod.splits option.splits sum.splits)
    moreover have "r = e" using assms(1) Inl by (cases t) (auto simp: handler_defs)
    ultimately show ?thesis using assms(2) by simp
  qed (use that in auto)
  have "\<exists>st' dir. mutated dp t name h st st' \<and> save_project (d_writes dp) st' (w_dirs w name) = Inr dir \<and>
    w_dirs w' = (w_dirs w)(name := dir)"
  proof (cases t)
    case TApply
    then show ?thesis
      using assms r
      by (fastforce simp: handler_defs mutated_def Let_def save_state_Some apply_error_response_def
          split: option.splits if_splits sum.splits prod.splits apply_error.splits)
  next
    case TUndo
    then show ?thesis
      using assms r
      by (fastforce simp: handler_defs mutated_def Let_def save_state_Some undo_error_response_def entry_or_zero_def
          split: option.splits if_splits sum.splits apply_error.splits)
  next
    case TDismiss
    then show ?thesis
      using assms r by (auto simp: handler_defs mutated_def Let_def save_state_Some split: option.splits)
  next
    case TResolve
    then show ?thesis
      using assms r by (auto simp: handler_defs mutated_def Let_def save_state_Some split: option.splits)
  next
    case TUndismiss
    then show ?thesis
      using assms r by (auto simp: handler_defs mutated_def Let_def save_state_Some split: option.splits)
  next
    case TUnresolve
    then show ?thesis
      using assms r by (auto simp: handler_defs mutated_def Let_def save_state_Some split: option.splits)
  qed
  with r show ?thesis by blast
qed

lemma handle_failure:
  assumes "handle dp t req w = (r, w')" "\<not> succeeded r"
  shows "w_dirs w' = w_dirs w"
proof (cases "resolveProjectAndState dp w req t")
  case (Inl e)
  then show ?thesis using assms(1) by (cases t) (auto simp: handler_defs)
next
  case (Inr a)
  then show ?thesis
    using assms
    by (cases t; cases a) (auto simp: handler_defs Let_def split: option.splits if_splits sum.splits)
qed

lemma resolved_load:
  "resolveProjectAndState dp w req t = Inr (proj, st, name, h) \<Longrightarrow> load_project (w_dirs w name) = Inr st"
  by (auto simp: resolveProjectAndState_def Let_def split: if_splits prod.splits option.splits sum.splits)

lemma lookup_put [simp]: "lookup_entry (put_entry h e st) k = (if k = h then Some e else lookup_entry st k)"
  by (simp add: lookup_entry_def put_entry_def entries_def update_conv)

lemma lookup_drop [simp]: "lookup_entry (drop_entry h st) k = (if k = h then None else lookup_entry st k)"
  by (simp add: lookup_entry_def drop_entry_def entries_def delete_conv)

lemma lookup_normal [simp]: "lookup_entry (normal_state s) = lookup_entry s"
  by (simp add: lookup_entry_def entries_def normal_state_def normalizeState_def fun_eq_iff)

lemma Version_mutated: "mutated dp t name h st st' \<Longrightarrow> Version st' = Version st"
  by (auto simp: mutated_def put_entry_def undismiss_state_def unresolve_state_def drop_entry_def
      split: transition.splits option.splits)

lemma mutated_other: "mutated dp t name h st st' \<Longrightarrow> k \<noteq> h \<Longrightarrow> lookup_entry st' k = lookup_entry st k"
  by (auto simp: mutated_def undismiss_state_def unresolve_state_def split: transition.splits option.splits)

text \<open>The stored state after a successful handler.\<close>

lemma handle_stored:
  assumes "handle dp t req w = (r, w')" "succeeded r"
  obtains proj st name h st' where
    "resolveProjectAndState dp w req t = Inr (proj, st, name, h)"
    "load_project (w_dirs w name) = Inr st" "mutated dp t name h st st'"
    "load_project (w_dirs w' name) = Inr (normal_state st')"
    "\<And>n. n \<noteq> name \<Longrightarrow> w_dirs w' n = w_dirs w n"
proof -
  obtain proj st name h st' dir where s: "resolveProjectAndState dp w req t = Inr (proj, st, name, h)"
    "mutated dp t name h st st'" "save_project (d_writes dp) st' (w_dirs w name) = Inr dir"
    "w_dirs w' = (w_dirs w)(name := dir)"
    using handle_success [OF assms] by blast
  note l = resolved_load [OF s(1)]
  have "savable st'" using load_current [OF l] Version_mutated [OF s(2)] by (simp add: savable_def)
  then have "load_project dir = Inr (normal_state st')" using s(3) by (rule state_doc.save_load)
  then show ?thesis using that [OF s(1) l s(2)] s(4) by simp
qed

section \<open>The abstract lifecycle\<close>

text \<open>
  The phases of a finding: open, applied, or set aside (dismissed, resolved), in which case the
  flag says whether it can fall back to applied. \<open>phase_step\<close> is the intended machine.
\<close>

datatype phase = Open | Applied | Dismissed bool | Resolved bool | Stray

definition phase_of :: "finding_state option \<Rightarrow> phase" where
  "phase_of eo =
     (case eo of
        None \<Rightarrow> Open
      | Some e \<Rightarrow>
          if Status e = [] then Open
          else if Status e = FindingStatusApplied then Applied
          else if Status e = FindingStatusDismissed then Dismissed (was_applied e)
          else if Status e = FindingStatusResolved then Resolved (was_applied e)
          else Stray)"

fun fallback :: "phase \<Rightarrow> bool" where
  "fallback Open = False"
| "fallback Applied = True"
| "fallback (Dismissed b) = b"
| "fallback (Resolved b) = b"
| "fallback Stray = False"

fun phase_step :: "transition \<Rightarrow> phase \<Rightarrow> phase" where
  "phase_step TApply p = Applied"
| "phase_step TUndo p = Open"
| "phase_step TDismiss p = Dismissed (fallback p)"
| "phase_step TResolve p = Resolved (fallback p)"
| "phase_step TUndismiss p = (case p of Dismissed b \<Rightarrow> (if b then Applied else Open) | _ \<Rightarrow> p)"
| "phase_step TUnresolve p = (case p of Resolved b \<Rightarrow> (if b then Applied else Open) | _ \<Rightarrow> p)"

text \<open>A stored entry is sound when its status is known, an applied one can be undone, and an open
  one holds no reversal.\<close>

definition entry_ok :: "finding_state \<Rightarrow> bool" where
  "entry_ok e \<longleftrightarrow>
     Status e \<in> {[], FindingStatusApplied, FindingStatusDismissed, FindingStatusResolved} \<and>
     (Status e = FindingStatusApplied \<longrightarrow> was_applied e) \<and>
     (Status e = [] \<longrightarrow> \<not> was_applied e)"

definition findings_ok :: "project_state \<Rightarrow> bool" where
  "findings_ok st \<longleftrightarrow> (\<forall>h e. lookup_entry st h = Some e \<longrightarrow> entry_ok e)"

lemmas entry_defs =
  mark_applied_def mark_undone_def mark_dismissed_def mark_resolved_def was_applied_def
  finding_status_defs zero_finding_def

lemma mutated_phase:
  assumes "mutated dp t name h st st'" "findings_ok st" "d_now dp \<noteq> zero_time"
  shows "phase_of (lookup_entry st' h) = phase_step t (phase_of (lookup_entry st h))"
proof (cases "lookup_entry st h")
  case None
  then show ?thesis
    using assms(1)
    by (cases t) (auto simp: mutated_def phase_of_def entry_defs undismiss_state_def unresolve_state_def entry_or_zero_def)
next
  case (Some e)
  then have "entry_ok e" using assms(2) by (simp add: findings_ok_def)
  with Some assms(1,3) show ?thesis
    by (cases t)
       (auto simp: mutated_def phase_of_def entry_defs undismiss_state_def unresolve_state_def entry_or_zero_def
         entry_ok_def)
qed

lemma mutated_entry_ok:
  assumes "mutated dp t name h st st'" "findings_ok st" "d_now dp \<noteq> zero_time"
  shows "findings_ok st'"
  unfolding findings_ok_def
proof (intro allI impI)
  fix k e
  assume e: "lookup_entry st' k = Some e"
  show "entry_ok e"
  proof (cases "k = h")
    case False
    then show ?thesis using e mutated_other [OF assms(1)] assms(2) by (simp add: findings_ok_def)
  next
    case True
    have old: "lookup_entry st h = Some x \<Longrightarrow> entry_ok x" for x using assms(2) by (simp add: findings_ok_def)
    show ?thesis
    proof (cases "lookup_entry st h")
      case None
      then show ?thesis
        using assms(1,3) e True
        by (cases t) (auto simp: mutated_def entry_defs undismiss_state_def unresolve_state_def entry_or_zero_def entry_ok_def)
    next
      case (Some x)
      with old [OF Some] assms(1,3) e True show ?thesis
        by (cases t) (auto simp: mutated_def entry_defs undismiss_state_def unresolve_state_def entry_or_zero_def
            entry_ok_def split: if_splits)
    qed
  qed
qed

lemma resolved_request:
  "resolveProjectAndState dp w req t = Inr (proj, st, name, h) \<Longrightarrow>
   Method req = ''POST'' \<and>
   (\<exists>h0. parseProjectHashTransition (UrlPath req) = (name, h0, transition_name t) \<and> h = to_lower (d_lower dp) h0)"
  by (auto simp: resolveProjectAndState_def Let_def split: if_splits prod.splits option.splits sum.splits)

text \<open>C10: The endpoints implement the finding lifecycle. If a request succeeds, its path names a project, a hash
  and the transition, and the finding stored for that project under the lowered hash moves to the
  phase that the abstract machine gives for the transition; the entries stay sound, and every
  other finding of the project and every other project is as it was. The clock is not at the zero time and
  the entries stored before are sound.\<close>
theorem handlers_refine_lifecycle:
  assumes "handle dp t req w = (r, w')" "succeeded r" "d_now dp \<noteq> zero_time"
    and "\<forall>n s. load_project (w_dirs w n) = Inr s \<longrightarrow> findings_ok s"
  shows "\<exists>name h0 h st st'. Method req = ''POST'' \<and>
    parseProjectHashTransition (UrlPath req) = (name, h0, transition_name t) \<and> h = to_lower (d_lower dp) h0 \<and>
    load_project (w_dirs w name) = Inr st \<and> load_project (w_dirs w' name) = Inr st' \<and>
    phase_of (lookup_entry st' h) = phase_step t (phase_of (lookup_entry st h)) \<and> findings_ok st' \<and>
    (\<forall>k. k \<noteq> h \<longrightarrow> lookup_entry st' k = lookup_entry st k) \<and>
    (\<forall>n. n \<noteq> name \<longrightarrow> w_dirs w' n = w_dirs w n)"
proof -
  obtain proj st name h st' where s: "resolveProjectAndState dp w req t = Inr (proj, st, name, h)"
    "load_project (w_dirs w name) = Inr st" "mutated dp t name h st st'"
    "load_project (w_dirs w' name) = Inr (normal_state st')" "\<And>n. n \<noteq> name \<Longrightarrow> w_dirs w' n = w_dirs w n"
    by (rule handle_stored [OF assms(1,2)]) blast
  have ok: "findings_ok st" using s(2) assms(4) by blast
  obtain h0 where h0: "parseProjectHashTransition (UrlPath req) = (name, h0, transition_name t)"
    "h = to_lower (d_lower dp) h0" "Method req = ''POST''" using resolved_request [OF s(1)] by blast
  have "phase_of (lookup_entry (normal_state st') h) = phase_step t (phase_of (lookup_entry st h)) \<and>
      findings_ok (normal_state st') \<and> (\<forall>k. k \<noteq> h \<longrightarrow> lookup_entry (normal_state st') k = lookup_entry st k)"
    using mutated_phase [OF s(3) ok assms(3)] mutated_entry_ok [OF s(3) ok assms(3)] mutated_other [OF s(3)]
    by (simp add: findings_ok_def)
  with h0 s(2,4,5) show ?thesis by blast
qed

section \<open>Runs\<close>

text \<open>
  Requests of any kind and merges of pipeline results interleave on the world; a pipeline's working
  copy holds sound entries (it starts from a loaded state and adds open ones). A request that fails
  may still have written the project file.
\<close>

inductive lifecycle_step :: "world \<Rightarrow> world \<Rightarrow> bool" where
  request: "handle dp t req w = (r, w') \<Longrightarrow> d_now dp \<noteq> zero_time \<Longrightarrow> lifecycle_step w w'"
| merge: "mergePipelineResult wr p (w_dirs w name) = Inr dir \<Longrightarrow> findings_ok p \<Longrightarrow>
    distinct (map fst (entries p)) \<Longrightarrow> lifecycle_step w (w\<lparr>w_dirs := (w_dirs w)(name := dir)\<rparr>)"

definition world_ok :: "world \<Rightarrow> bool" where
  "world_ok w \<longleftrightarrow> (\<forall>n s. load_project (w_dirs w n) = Inr s \<longrightarrow> findings_ok s)"

lemma merged_lookup:
  assumes "mergePipelineResult wr p dir = Inr dir'" "distinct (map fst (entries p))"
  shows "\<exists>disk s. load_project dir = Inr disk \<and> load_project dir' = Inr s \<and>
    (\<forall>h. lookup_entry s h = merged_entry (lookup_entry disk h) (lookup_entry p h))"
proof -
  have cyc: "state_doc.cycle wr (\<lambda>d. merge_states d p) dir = Inr dir'"
    using assms(1) by (simp add: state_doc.cycle_def mergePipelineResult_def)
  have keeps: "savable (merge_states d p)" if "savable d" for d
    using that by (simp add: savable_def merge_states_def)
  obtain disk where "load_project dir = Inr disk" "load_project dir' = Inr (normal_state (merge_states disk p))"
    using state_doc.cycle_load [OF cyc keeps] by blast
  moreover have "lookup_entry (merge_states disk p) h = merged_entry (lookup_entry disk h) (lookup_entry p h)" for h
    using merge_findings_lookup [of "entries p" "entries disk" h] assms(2)
    by (simp add: lookup_entry_def entries_def merge_states_def)
  ultimately show ?thesis by auto
qed

lemma entry_ok_spec: "entry_ok (e\<lparr>ApplySpec := x\<rparr>) = entry_ok e"
  by (simp add: entry_ok_def was_applied_def)

lemma lifecycle_step_ok: "lifecycle_step w w' \<Longrightarrow> world_ok w \<Longrightarrow> world_ok w'"
proof (induction rule: lifecycle_step.induct)
  case (request dp t req w r w')
  show ?case
  proof (cases "succeeded r")
    case False
    then show ?thesis using handle_failure [OF request(1)] request(3) by (simp add: world_ok_def)
  next
    case True
    then obtain proj st name h st' where s: "load_project (w_dirs w name) = Inr st"
      "mutated dp t name h st st'" "load_project (w_dirs w' name) = Inr (normal_state st')"
      "\<And>n. n \<noteq> name \<Longrightarrow> w_dirs w' n = w_dirs w n"
      by (rule handle_stored [OF request(1)]) blast
    have "findings_ok st'"
      using mutated_entry_ok [OF s(2) _ request(2)] request(3) s(1) by (simp add: world_ok_def)
    then have ok: "findings_ok (normal_state st')" by (simp add: findings_ok_def)
    show ?thesis unfolding world_ok_def
    proof (intro allI impI)
      fix n x assume "load_project (w_dirs w' n) = Inr x"
      then show "findings_ok x"
        using ok s(3,4) request(3) by (cases "n = name") (auto simp: world_ok_def)
    qed
  qed
next
  case (merge wr p w name dir)
  then obtain disk s where d: "load_project (w_dirs w name) = Inr disk" "load_project dir = Inr s"
    "\<forall>h. lookup_entry s h = merged_entry (lookup_entry disk h) (lookup_entry p h)"
    using merged_lookup by blast
  have disk: "findings_ok disk" using d(1) merge(4) by (simp add: world_ok_def)
  have "findings_ok s" unfolding findings_ok_def
  proof (intro allI impI)
    fix h e assume "lookup_entry s h = Some e"
    then show "entry_ok e"
      using d(3) disk merge(2) by (auto simp: findings_ok_def merged_entry_def entry_ok_spec split: option.splits if_splits)
  qed
  with d(2) merge(4) show ?case by (auto simp: world_ok_def)
qed

interpretation lifecycle: transition_system "\<lambda>w. \<forall>n f. w_dirs w n f = Absent" lifecycle_step world_ok
proof
  fix w :: world assume "\<forall>n f. w_dirs w n f = Absent"
  then show "world_ok w"
    by (auto simp: world_ok_def load_project_def loadWithResult_def findings_ok_def lookup_entry_def entries_def
        defaultState_def)
qed (rule lifecycle_step_ok)

text \<open>C27: However requests and pipeline merges interleave, starting from no state files, every finding
  that is stored as applied has a recorded reversal, so it can be undone.\<close>
theorem applied_is_undoable:
  assumes "\<forall>n f. w_dirs w n f = Absent" "lifecycle_step\<^sup>*\<^sup>* w w'"
    and "load_project (w_dirs w' name) = Inr st" "lookup_entry st h = Some e" "Status e = FindingStatusApplied"
  shows "AppliedReversal e \<noteq> None \<and> AppliedAt e \<noteq> zero_time"
  using lifecycle.reachable_inv [OF assms(1,2)] assms(3-5)
  by (auto simp: world_ok_def findings_ok_def entry_ok_def was_applied_def)

section \<open>Lost updates and lost plans\<close>

text \<open>An undismissed finding comes back. When the pipeline loaded its working copy while the
  finding was dismissed, and the user undismisses it before the pipeline finishes, the merge takes
  the absent entry for a new finding and writes the stale dismissal back.\<close>
theorem merge_resurrects_dismissal:
  assumes "load_project dir0 = Inr p" "distinct (map fst (entries p))"
    and "lookup_entry p h = Some e" "Status e = FindingStatusDismissed" "\<not> was_applied e"
    and "load_project dir1 = Inr (undismiss_state h p)"
    and "mergePipelineResult wr p dir1 = Inr dir2"
  shows "lookup_entry (undismiss_state h p) h = None \<and>
         (\<exists>s. load_project dir2 = Inr s \<and> lookup_entry s h = Some e)"
proof -
  have open_again: "lookup_entry (undismiss_state h p) h = None"
    using assms(3-5) by (simp add: undismiss_state_def)
  obtain s where "load_project dir2 = Inr s"
    "lookup_entry s h = merged_entry (lookup_entry (undismiss_state h p) h) (lookup_entry p h)"
    using merged_lookup [OF assms(7,2)] assms(6) by auto
  then show ?thesis using open_again assms(3) by (simp add: merged_entry_def)
qed

text \<open>Dismissing a finding and taking the dismissal back loses its apply plan: the entry is
  deleted with the plan, and applying the finding is then answered with 404.\<close>
theorem undismiss_drops_apply_plan:
  assumes "handle dp TUndismiss r1 w = (JsonOk, w1)"
    and "resolveProjectAndState dp w r1 TUndismiss = Inr (proj, st, name, h)"
    and "lookup_entry st h = Some e" "Status e = FindingStatusDismissed" "\<not> was_applied e"
    and "resolveProjectAndState dp w1 r2 TApply = Inr (proj, st1, name, h)"
  shows "fst (handle dp TApply r2 w1) =
    JsonError 404 (Msg ''no apply spec recorded for this finding; re-run analysis to capture it'')"
proof -
  obtain proj' st' name' h' st'' where s: "resolveProjectAndState dp w r1 TUndismiss = Inr (proj', st', name', h')"
    "mutated dp TUndismiss name' h' st' st''" "load_project (w_dirs w1 name') = Inr (normal_state st'')"
    by (rule handle_stored [OF assms(1)]) auto
  then have eq: "name' = name" "h' = h" "st' = st" using assms(2) by simp_all
  have "lookup_entry st'' h = None" using s(2) assms(3-5) by (simp add: eq mutated_def undismiss_state_def)
  moreover have "st1 = normal_state st''" using resolved_load [OF assms(6)] s(3) by (simp add: eq)
  ultimately show ?thesis using assms(6) by (simp add: handler_defs)
qed

text \<open>The guard against re-applying looks at the applied status only: a finding that was applied
  and then dismissed or resolved is applied again, and the reversal with the original file content
  is replaced by one whose pre-image is the already edited file.\<close>
theorem reapply_replaces_reversal:
  assumes "handle dp TApply req w = (JsonFinding e', w')"
    and "resolveProjectAndState dp w req TApply = Inr (proj, st, name, h)"
    and "lookup_entry st h = Some e" "AppliedReversal e = Some rv"
  shows "Status e \<noteq> FindingStatusApplied \<and>
    (\<exists>rv'. AppliedReversal e' = Some rv' \<and>
       PreImage rv' = (case w_files w (RevPath rv') of Some b \<Rightarrow> b | None \<Rightarrow> []) \<and>
       (\<exists>st'. load_project (w_dirs w' name) = Inr st' \<and> lookup_entry st' h = Some e'))"
proof -
  obtain spec where spec: "ApplySpec e = Some spec" "Status e \<noteq> FindingStatusApplied"
    using assms by (auto simp: handler_defs split: option.splits if_splits)
  then obtain rv' fs' where a: "apply_finding (d_sha dp) (d_io dp) (w_files w) (request_of proj spec) = Inr (rv', fs')"
    using assms by (auto simp: handler_defs apply_error_response_def split: if_splits sum.splits apply_error.splits)
  obtain proj1 st1 name1 h1 st2 where s: "resolveProjectAndState dp w req TApply = Inr (proj1, st1, name1, h1)"
    "load_project (w_dirs w' name1) = Inr (normal_state st2)"
    by (rule handle_stored [OF assms(1)]) auto
  have e': "e' = mark_applied (d_now dp) name rv' e"
    and saved: "\<exists>dir. save_project (d_writes dp) (put_entry h e' st) (w_dirs w name) = Inr dir \<and> w_dirs w' name = dir"
    using assms a spec
    by (auto simp: handler_defs Let_def save_state_Some split: if_splits option.splits)
  have "savable (put_entry h e' st)"
    using load_current [OF resolved_load [OF assms(2)]] by (simp add: savable_def put_entry_def)
  then have "load_project (w_dirs w' name) = Inr (normal_state (put_entry h e' st))"
    using saved state_doc.save_load by blast
  moreover obtain p pre post strategy where plan:
    "plan_apply (d_io dp) (w_files w) (request_of proj spec) = Inr (p, pre, post, strategy)"
    and rv: "RevPath rv' = p" "PreImage rv' = pre"
    using a by (auto simp: apply_finding_def split: sum.splits if_splits)
  ultimately show ?thesis
    using spec(2) e' plan_target [OF plan] by (auto simp: mark_applied_def rv)
qed

text \<open>The path of a lifecycle request parses back to the project, the hash and the transition it
  was built from.\<close>
theorem lifecycle_path_roundtrip:
  assumes "slash \<notin> set name" "slash \<notin> set h"
  shows "parseProjectHashTransition
      (''/api/projects/'' @ name @ ''/findings/'' @ h @ ''/'' @ transition_name t) =
    (name, h, transition_name t)"
proof -
  have t: "slash \<notin> set (transition_name t)" "transition_name t \<noteq> []"
    by (cases t; simp add: transition_name_def)+
  let ?s = "''api/projects/'' @ name @ ''/findings/'' @ h @ ''/'' @ transition_name t"
  have "rev (transition_name t) \<noteq> []" "hd (rev (transition_name t)) \<noteq> slash"
    using t by (simp_all add: hd_rev) (metis last_in_set)
  then have "dropWhile (\<lambda>c. c = slash) (rev ?s) = rev ?s"
    by (cases "rev (transition_name t)") auto
  then have trim: "trim_slashes (''/api/projects/'' @ name @ ''/findings/'' @ h @ ''/'' @ transition_name t) = ?s"
    by (simp add: trim_slashes_def)
  have "split_on slash ?s =
      [''api'', ''projects'', name, ''findings'', h, transition_name t]"
    using split_on_append [of slash "''api''"] split_on_append [of slash "''projects''"]
      split_on_append [OF assms(1)] split_on_append [of slash "''findings''"]
      split_on_append [OF assms(2)] split_on_single [OF t(1)] by simp
  then show ?thesis by (simp only: parseProjectHashTransition_def trim list.case) simp
qed

section \<open>Instances\<close>

definition sample_spec :: apply_spec where
  "sample_spec = \<lparr>Category = ''doc'', TargetFile = ''AGENTS.md'', Strategy = ''append-file'', Anchor = [],
     Snippet = ''rule''\<rparr>"

definition sample_deps :: deps where
  "sample_deps = \<lparr>d_config = Some [\<lparr>PName = ''w'', PPath = ''/w''\<rparr>], d_cache = True, d_bus = True,
     d_io = sample_io, d_sha = (\<lambda>b. b), d_lower = (\<lambda>s. s), d_now = 0, d_writes = (\<lambda>_. True)\<rparr>"

definition sample_world :: "doc dir \<Rightarrow> world" where
  "sample_world dir = \<lparr>w_dirs = (\<lambda>_. dir), w_files = sample_files, w_events = [], w_invalidated = []\<rparr>"

definition sample_http :: "transition \<Rightarrow> request" where
  "sample_http t = \<lparr>Method = ''POST'', UrlPath = ''/api/projects/w/findings/ab/'' @ transition_name t\<rparr>"

definition holding :: "finding_state \<Rightarrow> project_state" where
  "holding e = defaultState\<lparr>Findings := Some [(''ab'', e)]\<rparr>"

lemma sample_deps_sel [simp]:
  "d_io sample_deps = sample_io" "d_sha sample_deps = (\<lambda>b. b)" "d_now sample_deps = 0"
  "d_writes sample_deps = (\<lambda>_. True)"
  by (simp_all add: sample_deps_def)

lemma sample_world_sel [simp]: "w_dirs (sample_world dir) n = dir" "w_files (sample_world dir) = sample_files"
  by (simp_all add: sample_world_def)

lemma lookup_holding [simp]: "lookup_entry (holding e) k = (if k = ''ab'' then Some e else None)"
  by (simp add: lookup_entry_def entries_def holding_def)

lemma holding_stored: "\<exists>dir. load_project dir = Inr (holding e)"
proof -
  obtain dir where "save_project (\<lambda>_. True) (holding e) (\<lambda>_. Absent) = Inr dir" using save_succeeds by blast
  then have "load_project dir = Inr (holding e)"
    using load_saved [of "holding e"]
    by (simp add: holding_def savable_def normal_state_def normalizeState_def defaultState_def)
  then show ?thesis by blast
qed

lemma sample_parse: "parseProjectHashTransition (UrlPath (sample_http t)) = (''w'', ''ab'', transition_name t)"
  by (cases t; simp only:; code_simp)

lemma sample_resolve:
  assumes "load_project (w_dirs w ''w'') = Inr st"
  shows "resolveProjectAndState sample_deps w (sample_http t) t =
    Inr (\<lparr>PName = ''w'', PPath = ''/w''\<rparr>, st, ''w'', ''ab'')"
proof -
  have "to_lower (d_lower sample_deps) ''ab'' = ''ab''" "is_hex ''ab''" by code_simp+
  then show ?thesis
    using assms sample_parse [of t]
    by (simp add: resolveProjectAndState_def findProject_def sample_deps_def sample_http_def)
qed

lemma sample_save: "\<exists>w'. save_state sample_deps n st w = Some w'"
  using save_succeeds [of st "w_dirs w n"] by (auto simp: save_state_def)

lemma sample_success:
  assumes "load_project (w_dirs w ''w'') = Inr st"
  shows "\<exists>w'. handle sample_deps TUndismiss (sample_http TUndismiss) w = (JsonOk, w')"
    and "\<exists>w'. handle sample_deps TDismiss (sample_http TDismiss) w =
           (JsonFinding (mark_dismissed 0 ''w'' (entry_or_zero st ''ab'')), w')"
proof -
  show "\<exists>w'. handle sample_deps TUndismiss (sample_http TUndismiss) w = (JsonOk, w')"
    using sample_save [of "''w''" "undismiss_state ''ab'' st" w] sample_resolve [OF assms, of TUndismiss]
    by (auto simp: handler_defs)
  show "\<exists>w'. handle sample_deps TDismiss (sample_http TDismiss) w =
           (JsonFinding (mark_dismissed 0 ''w'' (entry_or_zero st ''ab'')), w')"
    using sample_save [of "''w''" "put_entry ''ab'' (mark_dismissed 0 ''w'' (entry_or_zero st ''ab'')) st" w]
      sample_resolve [OF assms, of TDismiss]
    by (auto simp: handler_defs Let_def)
qed

lemma sample_apply_request: "request_of \<lparr>PName = ''w'', PPath = ''/w''\<rparr> sample_spec = sample_request"
  by (simp add: request_of_def sample_request_def sample_spec_def)

lemma sample_apply_success:
  assumes "load_project (w_dirs w ''w'') = Inr st" "w_files w = sample_files"
    and "lookup_entry st ''ab'' = Some e" "ApplySpec e = Some sample_spec" "Status e \<noteq> FindingStatusApplied"
  shows "\<exists>w'. handle sample_deps TApply (sample_http TApply) w =
           (JsonFinding (mark_applied 0 ''w'' sample_reversal e), w')"
proof -
  have c: "eligibleCategories (Category sample_spec)" by code_simp
  then show ?thesis
    using sample_save [of "''w''" "put_entry ''ab'' (mark_applied 0 ''w'' sample_reversal e) st"
        "w\<lparr>w_files := sample_files(sample_path \<mapsto> sample_post)\<rparr>"]
      sample_resolve [OF assms(1), of TApply] assms sample_apply
    by (auto simp: handler_defs Let_def sample_apply_request)
qed

theorem handlers_refine_lifecycle_witness:
  "\<exists>w w' st'. handle sample_deps TUndismiss (sample_http TUndismiss) w = (JsonOk, w') \<and>
     load_project (w_dirs w ''w'') = Inr (holding (mark_dismissed 0 ''w'' zero_finding)) \<and>
     load_project (w_dirs w' ''w'') = Inr st' \<and> phase_of (lookup_entry st' ''ab'') = Open"
proof -
  let ?e = "mark_dismissed 0 ''w'' zero_finding"
  obtain dir where l: "load_project dir = Inr (holding ?e)" using holding_stored by blast
  have w: "load_project (w_dirs (sample_world dir) n) = Inr (holding ?e)" for n using l by simp
  obtain w' where h: "handle sample_deps TUndismiss (sample_http TUndismiss) (sample_world dir) = (JsonOk, w')"
    using sample_success(1) [OF w] by blast
  have now: "d_now sample_deps \<noteq> zero_time" by (simp add: zero_time_def)
  have ok: "findings_ok (holding ?e)" by (auto simp: findings_ok_def entry_ok_def entry_defs)
  have low: "to_lower (d_lower sample_deps) ''ab'' = ''ab''" by code_simp
  have phase: "phase_of (Some ?e) = Dismissed False" by (simp add: phase_of_def entry_defs)
  have "\<exists>st'. load_project (w_dirs w' ''w'') = Inr st' \<and> phase_of (lookup_entry st' ''ab'') = Open"
    using handlers_refine_lifecycle [OF h _ now] w ok sample_parse [of TUndismiss] low phase by auto
  with h w show ?thesis by blast
qed

definition planned :: finding_state where
  "planned = zero_finding\<lparr>ApplySpec := Some sample_spec\<rparr>"

lemma planned_sel [simp]: "ApplySpec planned = Some sample_spec" "Status planned = []"
  by (simp_all add: planned_def zero_finding_def)

theorem applied_is_undoable_witness:
  "\<exists>w name st e. lifecycle_step\<^sup>*\<^sup>* (sample_world (\<lambda>_. Absent)) w \<and> load_project (w_dirs w name) = Inr st \<and>
     lookup_entry st ''ab'' = Some e \<and> Status e = FindingStatusApplied \<and>
     AppliedReversal e \<noteq> None \<and> AppliedAt e \<noteq> zero_time"
proof -
  let ?w = "sample_world (\<lambda>_. Absent)"
  have l: "load_project (\<lambda>_. Absent) = Inr defaultState"
    by (simp add: load_project_def loadWithResult_def)
  then obtain dir where m: "mergePipelineResult (\<lambda>_. True) (holding planned) (w_dirs ?w ''w'') = Inr dir"
    using save_succeeds by (fastforce simp: mergePipelineResult_def)
  define w1 where "w1 = ?w\<lparr>w_dirs := (w_dirs ?w)(''w'' := dir)\<rparr>"
  have dist: "distinct (map fst (entries (holding planned)))" by (simp add: entries_def holding_def)
  have "findings_ok (holding planned)"
    by (auto simp: findings_ok_def entry_ok_def was_applied_def planned_def zero_finding_def finding_status_defs)
  from lifecycle_step.merge [OF m this dist] have s1: "lifecycle_step ?w w1" by (simp add: w1_def)
  obtain st where st: "load_project dir = Inr st" "lookup_entry st ''ab'' = Some planned"
    using merged_lookup [OF m dist] l
    by (auto simp: merged_entry_def lookup_entry_def entries_def defaultState_def holding_def)
  have "load_project (w_dirs w1 ''w'') = Inr st" "w_files w1 = sample_files" using st(1) by (simp_all add: w1_def)
  then obtain w2 where h: "handle sample_deps TApply (sample_http TApply) w1 =
      (JsonFinding (mark_applied 0 ''w'' sample_reversal planned), w2)"
    using sample_apply_success [OF _ _ st(2)] by (auto simp: finding_status_defs)
  then have s2: "lifecycle_step w1 w2" by (rule lifecycle_step.request) (simp add: zero_time_def)
  obtain proj st0 name h0 st2 where a: "resolveProjectAndState sample_deps w1 (sample_http TApply) TApply = Inr (proj, st0, name, h0)"
    "mutated sample_deps TApply name h0 st0 st2" "load_project (w_dirs w2 name) = Inr (normal_state st2)"
    by (rule handle_stored [OF h]) auto
  then have "h0 = ''ab''"
    using sample_resolve [of w1 st TApply] st(1) by (simp add: w1_def)
  with a(2) obtain e where e: "lookup_entry (normal_state st2) ''ab'' = Some e" "Status e = FindingStatusApplied"
    by (auto simp: mutated_def mark_applied_def)
  have run: "lifecycle_step\<^sup>*\<^sup>* ?w w2" using s1 s2 by (meson rtranclp.rtrancl_into_rtrancl rtranclp.rtrancl_refl)
  have start: "\<forall>n f. w_dirs ?w n f = Absent" by simp
  from applied_is_undoable [OF start run a(3) e] e a(3) run show ?thesis by blast
qed

theorem merge_resurrects_dismissal_witness:
  "\<exists>dir1 dir2 s. load_project dir1 = Inr (undismiss_state ''ab'' (holding dismissed_entry)) \<and>
     mergePipelineResult (\<lambda>_. True) (holding dismissed_entry) dir1 = Inr dir2 \<and>
     load_project dir2 = Inr s \<and> lookup_entry s ''ab'' = Some dismissed_entry"
proof -
  obtain dir0 where l0: "load_project dir0 = Inr (holding dismissed_entry)" using holding_stored by blast
  have e: "Status dismissed_entry = FindingStatusDismissed" "\<not> was_applied dismissed_entry"
    by (simp_all add: dismissed_entry_def was_applied_def zero_finding_def)
  let ?u = "undismiss_state ''ab'' (holding dismissed_entry)"
  obtain dir1 where "save_project (\<lambda>_. True) ?u dir0 = Inr dir1" using save_succeeds by blast
  moreover have u: "?u = defaultState"
    using e by (simp add: undismiss_state_def drop_entry_def) (simp add: entries_def holding_def defaultState_def)
  ultimately have l1: "load_project dir1 = Inr ?u"
    using load_saved [of defaultState] by (simp add: savable_def normal_state_def normalizeState_def defaultState_def)
  then obtain dir2 where m: "mergePipelineResult (\<lambda>_. True) (holding dismissed_entry) dir1 = Inr dir2"
    using save_succeeds by (fastforce simp: mergePipelineResult_def)
  have dist: "distinct (map fst (entries (holding dismissed_entry)))" by (simp add: entries_def holding_def)
  have look: "lookup_entry (holding dismissed_entry) ''ab'' = Some dismissed_entry" by simp
  from merge_resurrects_dismissal [OF l0 dist look e l1 m] l1 m show ?thesis by blast
qed

theorem undismiss_drops_apply_plan_witness:
  "\<exists>w1. fst (handle sample_deps TApply (sample_http TApply) w1) =
     JsonError 404 (Msg ''no apply spec recorded for this finding; re-run analysis to capture it'')"
proof -
  let ?e = "planned\<lparr>Status := FindingStatusDismissed\<rparr>"
  obtain dir where l: "load_project dir = Inr (holding ?e)" using holding_stored by blast
  have w: "load_project (w_dirs (sample_world dir) ''w'') = Inr (holding ?e)" using l by simp
  obtain w1 where h: "handle sample_deps TUndismiss (sample_http TUndismiss) (sample_world dir) = (JsonOk, w1)"
    using sample_success(1) [OF w] by blast
  obtain proj st name h0 st' where s:
    "resolveProjectAndState sample_deps (sample_world dir) (sample_http TUndismiss) TUndismiss = Inr (proj, st, name, h0)"
    "load_project (w_dirs w1 name) = Inr (normal_state st')"
    by (rule handle_stored [OF h]) auto
  then have "name = ''w''" using sample_resolve [OF w, of TUndismiss] by simp
  then have r: "load_project (w_dirs w1 ''w'') = Inr (normal_state st')" using s(2) by simp
  have e: "Status ?e = FindingStatusDismissed" "\<not> was_applied ?e" "lookup_entry (holding ?e) ''ab'' = Some ?e"
    by (simp_all add: was_applied_def planned_def zero_finding_def)
  from undismiss_drops_apply_plan [OF h sample_resolve [OF w] e(3,1,2) sample_resolve [OF r]] show ?thesis by blast
qed

theorem reapply_replaces_reversal_witness:
  "\<exists>dir w' e'. load_project dir =
       Inr (holding (planned\<lparr>Status := FindingStatusDismissed, AppliedReversal := Some sample_reversal\<rparr>)) \<and>
     handle sample_deps TApply (sample_http TApply) (sample_world dir) = (JsonFinding e', w') \<and>
     (\<exists>st'. load_project (w_dirs w' ''w'') = Inr st' \<and> lookup_entry st' ''ab'' = Some e')"
proof -
  let ?e = "planned\<lparr>Status := FindingStatusDismissed, AppliedReversal := Some sample_reversal\<rparr>"
  obtain dir where l: "load_project dir = Inr (holding ?e)" using holding_stored by blast
  have w: "load_project (w_dirs (sample_world dir) ''w'') = Inr (holding ?e)" "w_files (sample_world dir) = sample_files"
    using l by simp_all
  have look: "lookup_entry (holding ?e) ''ab'' = Some ?e" "AppliedReversal ?e = Some sample_reversal" by simp_all
  have "Status ?e \<noteq> FindingStatusApplied" "ApplySpec ?e = Some sample_spec" by (simp_all add: finding_status_defs)
  then obtain w' where h: "handle sample_deps TApply (sample_http TApply) (sample_world dir) =
      (JsonFinding (mark_applied 0 ''w'' sample_reversal ?e), w')"
    using sample_apply_success [OF w look(1)] by blast
  from reapply_replaces_reversal [OF h sample_resolve [OF w(1)] look] l h show ?thesis by blast
qed

theorem lifecycle_path_roundtrip_witness:
  "parseProjectHashTransition ''/api/projects/my.app/findings/0af/undismiss'' = (''my.app'', ''0af'', ''undismiss'')"
  using lifecycle_path_roundtrip [of "''my.app''" "''0af''" TUndismiss] by (simp add: transition_name_def)

end
