(* ===== verification/BgJobs.thy ===== *)
theory BgJobs
  imports StateStore Schedule
begin

text \<open>
  Background jobs: the data model of \<open>internal/backgroundjobs/job.go\<close>, the cross-process
  store \<open>store.go\<close> with the helpers of \<open>helpers.go\<close>, and the job identifiers of
  \<open>id.go\<close>. The jobs file is a versioned document whose member \<open>jobs\<close> holds the decoded
  map; its entries are objects (a JSON null in the map is not modelled). \<open>store_env\<close> says
  which of the store's system calls succeed. A nil and an empty slice or map are the same list.
\<close>

section \<open>Jobs\<close>

record tool_access =
  ta_mode :: string
  ta_shell_commands :: "string list"
  ta_mcp_tools :: "string list"

record permission_profile =
  pp_file_access :: string
  pp_writable_paths :: "string list"
  pp_read_scope :: string
  pp_provider_network_required :: bool
  pp_tool_network_requested :: bool
  pp_tool_network_effective :: bool
  pp_network_reason :: string
  pp_tool_access :: tool_access

definition FileAccessReadOnly :: string where "FileAccessReadOnly = ''read_only''"
definition FileAccessSelectedWrites :: string where "FileAccessSelectedWrites = ''selected_writes''"
definition FileAccessFullWorkspace :: string where "FileAccessFullWorkspace = ''full_workspace''"

lemmas file_access_defs =
  FileAccessReadOnly_def FileAccessSelectedWrites_def FileAccessFullWorkspace_def

record os_schedule =
  os_schedule_id :: string
  os_install_id :: string
  os_config_hash :: string
  os_exec_hash :: string
  os_spec_hash :: string
  os_last_installed :: "int option"

definition no_os_schedule :: os_schedule where
  "no_os_schedule = \<lparr>os_schedule_id = [], os_install_id = [], os_config_hash = [], os_exec_hash = [],
     os_spec_hash = [], os_last_installed = None\<rparr>"

datatype run_status =
    RunRunning | RunCompleted | RunFailed | RunTimedOut | RunCancelled | RunSkipped | RunIdle
  | RunNeverRun | RunOther string

record health_state =
  hs_system_scheduling :: string
  hs_job_schedule :: string
  hs_run_state :: run_status
  hs_permission_state :: string
  hs_last_checked :: "int option"

record bg_job =
  j_id :: string
  j_name :: string
  j_prompt :: string
  j_project_name :: string
  j_project_path :: string
  j_provider :: string
  j_model :: string
  j_schedule :: schedule_spec
  j_enabled :: bool
  j_created :: int
  j_updated :: int
  j_last_run :: "int option"
  j_next_run :: "int option"
  j_permissions :: permission_profile
  j_os :: os_schedule
  j_health :: health_state

record jobs_state =
  st_jobs :: "bg_job dict"
  st_version :: int

section \<open>Identifiers\<close>

definition jobIDHexLen :: nat where "jobIDHexLen = 16"

definition is_lower_hex :: "char \<Rightarrow> bool" where
  "is_lower_hex c \<longleftrightarrow> is_digit c \<or> c \<in> {CHR ''a'', CHR ''b'', CHR ''c'', CHR ''d'', CHR ''e'', CHR ''f''}"

definition reservedIDs :: "string list" where
  "reservedIDs = [''preview'', ''health'', ''reconcile'', ''options'', ''templates'', ''audit'']"

definition validateJobID :: "string \<Rightarrow> bool" where
  "validateJobID i \<longleftrightarrow> i \<notin> set reservedIDs \<and> length i = jobIDHexLen \<and> list_all is_lower_hex i"

section \<open>The store\<close>

type_synonym jdir = "bg_job dict document dir"

definition jobsFile :: string where "jobsFile = ''jobs.json''"
definition jobsVersion :: int where "jobsVersion = 1"

definition jobsMigrations :: "bg_job dict registry" where
  "jobsMigrations = \<lparr>rg_name = ''jobs.json'', rg_current = jobsVersion,
     rg_migrations = [\<lparr>mg_from = 0, mg_to = 1, mg_run = \<lambda>d. setVersion d 1\<rparr>]\<rparr>"

definition decode_jobs :: "bg_job dict document \<Rightarrow> jobs_state option" where
  "decode_jobs d =
     (case d of
        Malformed \<Rightarrow> None
      | NullDoc \<Rightarrow> None
      | Obj kvs \<Rightarrow>
          (case (json_field (\<lambda>r. case r of RVal js \<Rightarrow> Some js | _ \<Rightarrow> None) [] kvs ''jobs'',
                 json_field dec_int_field 0 kvs ''version'')
           of (Some js, Some v) \<Rightarrow> Some \<lparr>st_jobs = js, st_version = v\<rparr>
            | _ \<Rightarrow> None))"

definition encode_jobs :: "jobs_state \<Rightarrow> bg_job dict document" where
  "encode_jobs s = Obj [(''jobs'', RVal (st_jobs s)), (''version'', RInt (st_version s))]"

definition load_jobs :: "jdir \<Rightarrow> store_error + jobs_state" where
  "load_jobs fs =
     (case fs jobsFile of
        Absent \<Rightarrow> Inr \<lparr>st_jobs = [], st_version = jobsVersion\<rparr>
      | Unreadable \<Rightarrow> Inl ReadError
      | File d \<Rightarrow>
          (case run_registry jobsMigrations d of
             Inl e \<Rightarrow> Inl (MigrateError e)
           | Inr (d', _) \<Rightarrow> (case decode_jobs d' of None \<Rightarrow> Inl DecodeError | Some s \<Rightarrow> Inr s)))"

text \<open>Here a failing backup does not stop the save.\<close>

definition backup_best_effort ::
    "(string \<Rightarrow> bool) \<Rightarrow> string \<Rightarrow> int \<Rightarrow> 'v document dir \<Rightarrow> 'v document dir" where
  "backup_best_effort wr base current fs =
     (case fs base of
        File d \<Rightarrow>
          (let prior = (case peekVersion d of Inr (v, True) \<Rightarrow> v | _ \<Rightarrow> 0) in
           if prior < current \<and> fs (backup_name base prior) = Absent \<and> wr (backup_name base prior)
           then fs(backup_name base prior := File d) else fs)
      | _ \<Rightarrow> fs)"

definition save_jobs :: "(string \<Rightarrow> bool) \<Rightarrow> jobs_state \<Rightarrow> jdir \<Rightarrow> store_error + jdir" where
  "save_jobs wr s fs =
     (let fs1 = backup_best_effort wr jobsFile jobsVersion fs in
      if wr jobsFile then Inr (fs1(jobsFile := File (encode_jobs (s\<lparr>st_version := jobsVersion\<rparr>))))
      else Inl WriteFailed)"

datatype job_error = JobNotFound string | JobExists string | JobLimitReached | JobInvalid string

datatype 'e update_error = Cancelled | MkdirFailed | LockFailed | StoreError store_error | Mutation 'e

record store_env =
  se_alive :: bool
  se_mkdir :: bool
  se_lock :: bool
  se_write :: "string \<Rightarrow> bool"

definition store_update ::
    "store_env \<Rightarrow> (jobs_state \<Rightarrow> 'e + jobs_state) \<Rightarrow> jdir \<Rightarrow> 'e update_error + jdir" where
  "store_update env mutate fs =
     (if \<not> se_alive env then Inl Cancelled
      else if \<not> se_mkdir env then Inl MkdirFailed
      else if \<not> se_lock env then Inl LockFailed
      else
        (case load_jobs fs of
           Inl e \<Rightarrow> Inl (StoreError e)
         | Inr s \<Rightarrow>
             (case mutate s of
                Inl e \<Rightarrow> Inl (Mutation e)
              | Inr s' \<Rightarrow> (case save_jobs (se_write env) s' fs of Inl e \<Rightarrow> Inl (StoreError e) | Inr fs' \<Rightarrow> Inr fs'))))"

definition job_of :: "jobs_state \<Rightarrow> string \<Rightarrow> bg_job option" where
  "job_of s i = map_of (st_jobs s) i"

definition put_job :: "string \<Rightarrow> bg_job \<Rightarrow> jobs_state \<Rightarrow> jobs_state" where
  "put_job i j s = s\<lparr>st_jobs := AList.update i j (st_jobs s)\<rparr>"

definition drop_job :: "string \<Rightarrow> jobs_state \<Rightarrow> jobs_state" where
  "drop_job i s = s\<lparr>st_jobs := AList.delete i (st_jobs s)\<rparr>"

text \<open>A mutation of one existing job, the shape of most callers of \<open>Store.Update\<close>.\<close>

definition modify_job :: "string \<Rightarrow> (bg_job \<Rightarrow> bg_job) \<Rightarrow> jobs_state \<Rightarrow> job_error + jobs_state" where
  "modify_job i f s =
     (case job_of s i of None \<Rightarrow> Inl (JobNotFound i) | Some j \<Rightarrow> Inr (put_job i (f j) s))"

definition addJob :: "store_env \<Rightarrow> bg_job \<Rightarrow> jdir \<Rightarrow> job_error update_error + jdir" where
  "addJob env job = store_update env
     (\<lambda>s. if job_of s (j_id job) \<noteq> None then Inl (JobExists (j_id job)) else Inr (put_job (j_id job) job s))"

definition deleteJob :: "store_env \<Rightarrow> string \<Rightarrow> jdir \<Rightarrow> job_error update_error + jdir" where
  "deleteJob env i = store_update env
     (\<lambda>s. if job_of s i = None then Inl (JobNotFound i) else Inr (drop_job i s))"

section \<open>Persistence\<close>

interpretation jobs_chain: migration_chain jobsMigrations
proof
  show "mg_from (rg_migrations jobsMigrations ! i) = int i \<and> mg_to (rg_migrations jobsMigrations ! i) = int i + 1"
    if "i < length (rg_migrations jobsMigrations)" for i
    using that by (simp add: jobsMigrations_def)
  show "\<exists>d'. mg_run m d = Inr d' \<and> is_object d' \<and> peekVersion d' = Inr (mg_to m, True)"
    if "m \<in> set (rg_migrations jobsMigrations)" "is_object d" for m d
    using that setVersion_object [of d 1] peek_setVersion [of d 1]
    by (fastforce simp: jobsMigrations_def in_i64_def)
qed (simp_all add: jobsMigrations_def jobsVersion_def)

lemma load_saved_jobs:
  assumes "save_jobs wr s fs = Inr fs'"
  shows "load_jobs fs' = Inr (s\<lparr>st_version := jobsVersion\<rparr>)"
proof -
  let ?s = "s\<lparr>st_version := jobsVersion\<rparr>"
  have "fs' jobsFile = File (encode_jobs ?s)"
    using assms by (auto simp: save_jobs_def Let_def split: if_splits)
  moreover have "run_registry jobsMigrations (encode_jobs ?s) =
      Inr (encode_jobs ?s, \<lparr>rs_from = 1, rs_to = 1, rs_steps = 0\<rparr>)"
    by (simp add: run_registry_def peekVersion_def encode_jobs_def jobsMigrations_def
        jobsVersion_def in_i64_def Let_def)
  ultimately show ?thesis
    by (cases s) (simp add: load_jobs_def decode_jobs_def encode_jobs_def json_field_def dec_int_field_def
        jobsVersion_def in_i64_def)
qed

interpretation jobs_doc: persisted load_jobs "save_jobs wr" "\<lambda>s. s\<lparr>st_version := jobsVersion\<rparr>" "\<lambda>_. True" for wr
  by unfold_locales (auto simp: load_saved_jobs)

text \<open>What a successful update leaves behind.\<close>

lemma update_Inr:
  assumes "store_update env mutate fs = Inr fs'"
  obtains s s' where "load_jobs fs = Inr s" "mutate s = Inr s'"
    "load_jobs fs' = Inr (s'\<lparr>st_version := jobsVersion\<rparr>)"
proof -
  obtain s s' where "load_jobs fs = Inr s" "mutate s = Inr s'" "save_jobs (se_write env) s' fs = Inr fs'"
    using assms by (auto simp: store_update_def split: if_splits sum.splits)
  with load_saved_jobs that show ?thesis by blast
qed

lemma job_of_version [simp]: "job_of (s\<lparr>st_version := v\<rparr>) = job_of s"
  by (simp add: job_of_def fun_eq_iff)

lemma job_of_put [simp]: "job_of (put_job i j s) k = (if k = i then Some j else job_of s k)"
  by (simp add: job_of_def put_job_def update_conv)

lemma job_of_drop [simp]: "job_of (drop_job i s) k = (if k = i then None else job_of s k)"
  by (simp add: job_of_def drop_job_def delete_conv)

lemma modify_stored:
  assumes "store_update env (modify_job i f) fs = Inr fs'"
  obtains s j s' where "load_jobs fs = Inr s" "job_of s i = Some j" "load_jobs fs' = Inr s'"
    "job_of s' = (job_of s)(i \<mapsto> f j)"
  using assms
proof (rule update_Inr)
  fix s s'
  assume "load_jobs fs = Inr s" "modify_job i f s = Inr s'" "load_jobs fs' = Inr (s'\<lparr>st_version := jobsVersion\<rparr>)"
  then show thesis
    using that by (fastforce simp: modify_job_def fun_eq_iff split: option.splits)
qed

definition all_writes :: store_env where
  "all_writes = \<lparr>se_alive = True, se_mkdir = True, se_lock = True, se_write = \<lambda>_. True\<rparr>"

lemma update_succeeds:
  "load_jobs fs = Inr s \<Longrightarrow> mutate s = Inr s' \<Longrightarrow> \<exists>fs'. store_update all_writes mutate fs = Inr fs'"
  by (simp add: store_update_def all_writes_def save_jobs_def Let_def)

lemma load_absent: "fs jobsFile = Absent \<Longrightarrow> load_jobs fs = Inr \<lparr>st_jobs = [], st_version = jobsVersion\<rparr>"
  by (simp add: load_jobs_def)

section \<open>A sample store\<close>

text \<open>One enabled job, every day at nine in UTC, used where a theorem is applied to a concrete store.\<close>

definition sample_id :: string where "sample_id = ''0123456789abcdef''"

definition sample_job :: bg_job where
  "sample_job = \<lparr>j_id = sample_id, j_name = ''report'', j_prompt = ''Report.'', j_project_name = ''w'',
     j_project_path = ''/w'', j_provider = ''claude-cli'', j_model = [],
     j_schedule = \<lparr>Kind = ScheduleDaily, Every = [], TimeOfDay = ''09:00'', DayOfWeek = [], Cron = [],
       Timezone = ''UTC'', MissedRunPolicy = [], OverlapPolicy = [], MisfireWindow = []\<rparr>,
     j_enabled = True, j_created = 0, j_updated = 0, j_last_run = None, j_next_run = None,
     j_permissions = \<lparr>pp_file_access = FileAccessSelectedWrites, pp_writable_paths = [''src''], pp_read_scope = [],
       pp_provider_network_required = True, pp_tool_network_requested = False, pp_tool_network_effective = False,
       pp_network_reason = [], pp_tool_access = \<lparr>ta_mode = [], ta_shell_commands = [], ta_mcp_tools = []\<rparr>\<rparr>,
     j_os = no_os_schedule,
     j_health = \<lparr>hs_system_scheduling = [], hs_job_schedule = [], hs_run_state = RunNeverRun,
       hs_permission_state = [], hs_last_checked = None\<rparr>\<rparr>"

definition sample_jobs :: jobs_state where
  "sample_jobs = \<lparr>st_jobs = [(sample_id, sample_job)], st_version = jobsVersion\<rparr>"

definition sample_jdir :: jdir where
  "sample_jdir = (\<lambda>n. if n = jobsFile then File (encode_jobs sample_jobs) else Absent)"

definition only_utc :: "string \<Rightarrow> location option" where
  "only_utc n = (if n = ''UTC'' then Some utc_zone else None)"

lemma sample_load: "load_jobs sample_jdir = Inr sample_jobs"
  by code_simp

lemma sample_job_of: "job_of sample_jobs i = (if i = sample_id then Some sample_job else None)"
  by (simp add: job_of_def sample_jobs_def)

lemma sample_valid: "validateSchedule id only_utc (j_schedule sample_job) = None" "validateJobID sample_id"
  by code_simp+

end
