(* ===== verification/Reconcile.thy ===== *)
theory Reconcile
  imports BgJobs
begin

text \<open>
  Keeping the operating system's schedules in step with the job store,
  \<open>internal/backgroundjobs/reconcile.go\<close> and \<open>health.go\<close>, over the
  \<open>Scheduler\<close> interface of \<open>scheduler.go\<close>. A scheduler is a record of operations on a
  state of its own; the locale \<open>scheduler_contract\<close> states what the interface promises, and
  the convergence of reconciliation is proved under it. A range over the job map visits the keys
  in the order \<open>order\<close>; \<open>ctx n\<close> says whether the context is alive at its \<open>n\<close>th
  check; \<open>hs\<close> is \<open>HashScheduleSpec\<close>, which cannot fail on a struct of strings.
\<close>

section \<open>The scheduler interface\<close>

record schedule_params =
  sp_job_id :: string
  sp_schedule :: schedule_spec
  sp_name :: string
  sp_enabled :: bool

record schedule_health =
  sh_installed :: bool
  sh_enabled :: bool
  sh_next_run :: "int option"

record 'os scheduler =
  sch_install :: "schedule_params \<Rightarrow> 'os \<Rightarrow> os_schedule option \<times> 'os"
  sch_remove :: "string \<Rightarrow> 'os \<Rightarrow> bool \<times> 'os"
  sch_inspect :: "string \<Rightarrow> 'os \<Rightarrow> schedule_health option"
  sch_list_own :: "'os \<Rightarrow> string list option"

record 'os system =
  sys_os :: 'os
  sys_jobs :: jdir

section \<open>Planning\<close>

datatype action_kind = ReconcileInstall | ReconcileRemove | ReconcileRemoveDisabled

record reconcile_action =
  ac_job :: string
  ac_reason :: string
  ac_kind :: action_kind

definition checkInstallNeeded :: "(schedule_spec \<Rightarrow> string) \<Rightarrow> string \<Rightarrow> bg_job \<Rightarrow> string option" where
  "checkInstallNeeded hs configHash job =
     (let os = j_os job in
      if os_schedule_id os = [] then Some ''no OS schedule exists''
      else if os_install_id os = [] then Some ''missing install ID''
      else if configHash \<noteq> [] \<and> os_config_hash os \<noteq> [] \<and> os_config_hash os \<noteq> configHash
      then Some ''config path hash changed''
      else if os_spec_hash os \<noteq> [] \<and> hs (j_schedule job) \<noteq> os_spec_hash os
      then Some ''schedule spec changed''
      else None)"

definition job_action ::
    "(schedule_spec \<Rightarrow> string) \<Rightarrow> string \<Rightarrow> string \<Rightarrow> bg_job \<Rightarrow> reconcile_action list" where
  "job_action hs configHash jobID job =
     (if j_enabled job then
        (case checkInstallNeeded hs configHash job of
           None \<Rightarrow> []
         | Some reason \<Rightarrow> [\<lparr>ac_job = jobID, ac_reason = reason, ac_kind = ReconcileInstall\<rparr>])
      else if os_schedule_id (j_os job) \<noteq> [] then
        [\<lparr>ac_job = jobID, ac_reason = ''job disabled'', ac_kind = ReconcileRemoveDisabled\<rparr>]
      else [])"

definition orphan_action :: "string \<Rightarrow> reconcile_action" where
  "orphan_action osID = \<lparr>ac_job = osID, ac_reason = ''orphaned OS schedule'', ac_kind = ReconcileRemove\<rparr>"

definition computeReconcileActions ::
    "(schedule_spec \<Rightarrow> string) \<Rightarrow> string \<Rightarrow> bool \<Rightarrow> string list \<Rightarrow> 'os scheduler \<Rightarrow> 'os \<Rightarrow> jobs_state \<Rightarrow>
     reconcile_action list option" where
  "computeReconcileActions hs configHash alive order sch os st =
     (if \<not> alive then None
      else
        let actions = concat (map (\<lambda>i. case job_of st i of Some j \<Rightarrow> job_action hs configHash i j | None \<Rightarrow> []) order)
        in case sch_list_own sch os of
             None \<Rightarrow> Some actions
           | Some own \<Rightarrow>
               Some (actions @ map orphan_action (filter (\<lambda>i. validateJobID i \<and> job_of st i = None) own)))"

section \<open>Applying a plan\<close>

record reconcile_result =
  rr_installed :: nat
  rr_removed :: nat
  rr_disabled :: nat
  rr_errors :: "string list"

definition no_result :: reconcile_result where
  "no_result = \<lparr>rr_installed = 0, rr_removed = 0, rr_disabled = 0, rr_errors = []\<rparr>"

definition count_action :: "action_kind \<Rightarrow> reconcile_result \<Rightarrow> reconcile_result" where
  "count_action k r =
     (case k of
        ReconcileInstall \<Rightarrow> r\<lparr>rr_installed := Suc (rr_installed r)\<rparr>
      | ReconcileRemove \<Rightarrow> r\<lparr>rr_removed := Suc (rr_removed r)\<rparr>
      | ReconcileRemoveDisabled \<Rightarrow> r\<lparr>rr_disabled := Suc (rr_disabled r)\<rparr>)"

definition dryRunResult :: "reconcile_action list \<Rightarrow> reconcile_result" where
  "dryRunResult actions = foldl (\<lambda>r a. count_action (ac_kind a) r) no_result actions"

text \<open>\<open>strings.Map\<close> over the runes; an invalid byte becomes the replacement rune.\<close>

definition sanitizeScheduleName :: "string \<Rightarrow> string" where
  "sanitizeScheduleName name =
     concat (map (\<lambda>(r, b, ok). if r < 0x20 \<or> r = 0x7F then '' '' else if ok then b else rune_error) (runes name))"

definition params_of :: "bg_job \<Rightarrow> bool \<Rightarrow> schedule_params" where
  "params_of job en = \<lparr>sp_job_id = j_id job, sp_schedule = j_schedule job,
     sp_name = sanitizeScheduleName (j_name job), sp_enabled = en\<rparr>"

definition record_install :: "int \<Rightarrow> os_schedule \<Rightarrow> bg_job \<Rightarrow> bg_job" where
  "record_install now osState j = j\<lparr>j_os := osState, j_updated := now\<rparr>"

definition install_and_record ::
    "'os scheduler \<Rightarrow> store_env \<Rightarrow> int \<Rightarrow> string \<Rightarrow> schedule_params \<Rightarrow> 'os system \<Rightarrow> bool \<times> 'os system" where
  "install_and_record sch env now jobID params w =
     (case sch_install sch params (sys_os w) of
        (None, os') \<Rightarrow> (False, w\<lparr>sys_os := os'\<rparr>)
      | (Some osState, os') \<Rightarrow>
          (case store_update env (modify_job jobID (record_install now osState)) (sys_jobs w) of
             Inl _ \<Rightarrow> (False, w\<lparr>sys_os := os'\<rparr>)
           | Inr dir \<Rightarrow> (True, \<lparr>sys_os = os', sys_jobs = dir\<rparr>)))"

definition applyInstall ::
    "'os scheduler \<Rightarrow> store_env \<Rightarrow> int \<Rightarrow> string \<Rightarrow> jobs_state \<Rightarrow> 'os system \<Rightarrow> bool \<times> 'os system" where
  "applyInstall sch env now jobID st w =
     (case job_of st jobID of
        None \<Rightarrow> (False, w)
      | Some job \<Rightarrow> install_and_record sch env now jobID (params_of job (j_enabled job)) w)"

definition apply_action ::
    "'os scheduler \<Rightarrow> store_env \<Rightarrow> int \<Rightarrow> jobs_state \<Rightarrow> reconcile_action \<Rightarrow> 'os system \<Rightarrow> bool \<times> 'os system" where
  "apply_action sch env now st a w =
     (if ac_kind a = ReconcileInstall then applyInstall sch env now (ac_job a) st w
      else (case sch_remove sch (ac_job a) (sys_os w) of (ok, os') \<Rightarrow> (ok, w\<lparr>sys_os := os'\<rparr>)))"

fun applyReconcileActions ::
    "'os scheduler \<Rightarrow> store_env \<Rightarrow> (nat \<Rightarrow> bool) \<Rightarrow> int \<Rightarrow> jobs_state \<Rightarrow> nat \<Rightarrow> reconcile_action list \<Rightarrow>
     reconcile_result \<Rightarrow> 'os system \<Rightarrow> (bool \<times> reconcile_result) \<times> 'os system" where
  "applyReconcileActions sch env ctx now st n [] res w = ((True, res), w)"
| "applyReconcileActions sch env ctx now st n (a # as) res w =
     (if \<not> ctx n then ((False, res), w)
      else
        (case apply_action sch env now st a w of
           (ok, w') \<Rightarrow>
             applyReconcileActions sch env ctx now st (Suc n) as
               (if ok then count_action (ac_kind a) res
                else res\<lparr>rr_errors := rr_errors res @ [ac_job a]\<rparr>) w'))"

text \<open>The first component is false when the call returns an error.\<close>

definition reconcileSchedules ::
    "(schedule_spec \<Rightarrow> string) \<Rightarrow> string \<Rightarrow> 'os scheduler \<Rightarrow> store_env \<Rightarrow> (nat \<Rightarrow> bool) \<Rightarrow> int \<Rightarrow>
     string list \<Rightarrow> bool \<Rightarrow> 'os system \<Rightarrow> (bool \<times> reconcile_result) \<times> 'os system" where
  "reconcileSchedules hs configHash sch env ctx now order dryRun w =
     (case load_jobs (sys_jobs w) of
        Inl e \<Rightarrow> ((False, no_result), w)
      | Inr st \<Rightarrow>
          (case computeReconcileActions hs configHash (ctx 0) order sch (sys_os w) st of
             None \<Rightarrow> ((False, no_result), w)
           | Some actions \<Rightarrow>
               if dryRun then ((True, dryRunResult actions), w)
               else applyReconcileActions sch env ctx now st 1 actions no_result w))"

definition selfRepair ::
    "(schedule_spec \<Rightarrow> string) \<Rightarrow> string \<Rightarrow> 'os scheduler \<Rightarrow> store_env \<Rightarrow> int \<Rightarrow> string \<Rightarrow> 'os system \<Rightarrow>
     bool \<times> 'os system" where
  "selfRepair hs configHash sch env now jobID w =
     (case load_jobs (sys_jobs w) of
        Inl e \<Rightarrow> (False, w)
      | Inr st \<Rightarrow>
          (case job_of st jobID of
             None \<Rightarrow> (False, w)
           | Some job \<Rightarrow>
               if \<not> j_enabled job then (True, w)
               else if checkInstallNeeded hs configHash job = None then (True, w)
               else install_and_record sch env now jobID (params_of job True) w))"

section \<open>Health\<close>

datatype health_severity = SeverityError | SeverityWarning | SeverityInfo

datatype health_message =
    MissingSchedule | InspectFailed | NeverScheduled | StaleRun int | OverdueRun int | LastRunTimedOut
  | OrphanedSchedule | SandboxUnavailable

record health_issue =
  hi_job :: string
  hi_severity :: health_severity
  hi_message :: health_message

record job_health =
  jh_job :: string
  jh_installed :: bool
  jh_enabled :: bool
  jh_has_schedule :: bool
  jh_healthy :: bool
  jh_issues :: "health_issue list"

record system_health =
  sy_healthy :: bool
  sy_total :: nat
  sy_enabled :: nat
  sy_scheduled :: nat
  sy_issues :: "health_issue list"
  sy_jobs :: "job_health list"

definition issue :: "string \<Rightarrow> health_severity \<Rightarrow> health_message \<Rightarrow> health_issue" where
  "issue i s m = \<lparr>hi_job = i, hi_severity = s, hi_message = m\<rparr>"

definition staleJobWindow :: int where "staleJobWindow = 7 * 24 * hour"
definition nextRunGrace :: int where "nextRunGrace = 10 * minute"

definition schedule_issues :: "'os scheduler \<Rightarrow> 'os \<Rightarrow> string \<Rightarrow> bg_job \<Rightarrow> bool \<times> health_issue list" where
  "schedule_issues sch os jobID job =
     (if os_schedule_id (j_os job) \<noteq> [] then
        (case sch_inspect sch jobID os of
           None \<Rightarrow> (False, [issue jobID SeverityWarning InspectFailed])
         | Some h \<Rightarrow>
             (sh_installed h, if sh_installed h then [] else [issue jobID SeverityError MissingSchedule]))
      else if j_enabled job then (False, [issue jobID SeverityWarning NeverScheduled])
      else (False, []))"

text \<open>\<open>latest\<close> is the status of the job's most recent run, when the run store has one.\<close>

definition checkJob ::
    "'os scheduler \<Rightarrow> 'os \<Rightarrow> int \<Rightarrow> run_status option \<Rightarrow> string \<Rightarrow> bg_job \<Rightarrow> job_health" where
  "checkJob sch os now latest jobID job =
     (let (installed, schedule) = schedule_issues sch os jobID job;
          stale = (case j_last_run job of
              Some t \<Rightarrow> if time_sub now t > staleJobWindow then [issue jobID SeverityInfo (StaleRun (time_sub now t))] else []
            | None \<Rightarrow> []);
          overdue = (case j_next_run job of
              Some t \<Rightarrow> if j_enabled job \<and> t < now - nextRunGrace
                        then [issue jobID SeverityWarning (OverdueRun (time_sub now t))] else []
            | None \<Rightarrow> []);
          timed = (if latest = Some RunTimedOut then [issue jobID SeverityWarning LastRunTimedOut] else []);
          issues = schedule @ stale @ overdue @ timed
      in \<lparr>jh_job = jobID, jh_installed = installed, jh_enabled = j_enabled job,
          jh_has_schedule = (os_schedule_id (j_os job) \<noteq> []), jh_healthy = (issues = []), jh_issues = issues\<rparr>)"

definition checkOrphans :: "'os scheduler \<Rightarrow> 'os \<Rightarrow> jobs_state \<Rightarrow> health_issue list option" where
  "checkOrphans sch os st =
     map_option (\<lambda>own. map (\<lambda>i. issue i SeverityWarning OrphanedSchedule) (filter (\<lambda>i. job_of st i = None) own))
       (sch_list_own sch os)"

definition checkHealth ::
    "'os scheduler \<Rightarrow> bool \<Rightarrow> int \<Rightarrow> (string \<Rightarrow> run_status option) \<Rightarrow> string list \<Rightarrow> 'os system \<Rightarrow>
     store_error + system_health" where
  "checkHealth sch sandboxed now latest order w =
     (case load_jobs (sys_jobs w) of
        Inl e \<Rightarrow> Inl e
      | Inr st \<Rightarrow>
          let reports = concat (map (\<lambda>i. case job_of st i of
                  Some j \<Rightarrow> [checkJob sch (sys_os w) now (latest i) i j] | None \<Rightarrow> []) order);
              orphans = (case checkOrphans sch (sys_os w) st of Some os \<Rightarrow> os | None \<Rightarrow> []);
              issues = (if sandboxed then [] else [issue [] SeverityWarning SandboxUnavailable]) @
                concat (map jh_issues (filter (\<lambda>h. \<not> jh_healthy h) reports)) @ orphans
          in Inr \<lparr>sy_healthy = (issues = []), sy_total = length (st_jobs st),
                  sy_enabled = length (filter jh_enabled reports),
                  sy_scheduled = length (filter jh_has_schedule reports),
                  sy_issues = issues, sy_jobs = reports\<rparr>)"

section \<open>The contract and its consequences\<close>

definition owned :: "'os scheduler \<Rightarrow> 'os \<Rightarrow> string set" where
  "owned sch os = set (case sch_list_own sch os of Some own \<Rightarrow> own | None \<Rightarrow> [])"

text \<open>The metadata an install returns is one the planner accepts.\<close>

definition fresh_metadata :: "(schedule_spec \<Rightarrow> string) \<Rightarrow> string \<Rightarrow> schedule_spec \<Rightarrow> os_schedule \<Rightarrow> bool" where
  "fresh_metadata hs configHash spec os \<longleftrightarrow>
     os_schedule_id os \<noteq> [] \<and> os_install_id os \<noteq> [] \<and>
     (configHash = [] \<or> os_config_hash os \<in> {[], configHash}) \<and> os_spec_hash os \<in> {[], hs spec}"

locale scheduler_contract =
  fixes sch :: "'os scheduler"
    and hs :: "schedule_spec \<Rightarrow> string"
    and configHash :: string
    and good :: "'os \<Rightarrow> bool"
  assumes lists: "good os \<Longrightarrow> \<exists>own. sch_list_own sch os = Some own \<and> distinct own"
    and install: "good os \<Longrightarrow> validateJobID (sp_job_id p) \<Longrightarrow> sch_install sch p os = (Some st, os') \<Longrightarrow>
      good os' \<and> owned sch os' = insert (sp_job_id p) (owned sch os) \<and>
      fresh_metadata hs configHash (sp_schedule p) st"
    and remove: "good os \<Longrightarrow> sch_remove sch i os = (True, os') \<Longrightarrow>
      good os' \<and> owned sch os' = owned sch os - {i}"
begin

abbreviation "plan \<equiv> computeReconcileActions hs configHash"

lemma fresh_needs_nothing:
  "fresh_metadata hs configHash (j_schedule j) os \<Longrightarrow>
     checkInstallNeeded hs configHash (record_install now os j) = None"
  by (auto simp: fresh_metadata_def checkInstallNeeded_def record_install_def Let_def)

definition installs :: "reconcile_action list \<Rightarrow> string set" where
  "installs acts = ac_job ` {a \<in> set acts. ac_kind a = ReconcileInstall}"

definition removes :: "reconcile_action list \<Rightarrow> string set" where
  "removes acts = ac_job ` {a \<in> set acts. ac_kind a \<noteq> ReconcileInstall}"

lemma installs_simps [simp]:
  "installs [] = {}" "removes [] = {}"
  "installs (a # as) = (if ac_kind a = ReconcileInstall then insert (ac_job a) (installs as) else installs as)"
  "removes (a # as) = (if ac_kind a = ReconcileInstall then removes as else insert (ac_job a) (removes as))"
  by (auto simp: installs_def removes_def)

lemma installs_subset: "installs as \<subseteq> ac_job ` set as" "removes as \<subseteq> ac_job ` set as"
  by (auto simp: installs_def removes_def)

lemma errors_grow:
  "applyReconcileActions sch env ctx now st n acts res w = (r, w') \<Longrightarrow>
     \<exists>es. rr_errors (snd r) = rr_errors res @ es"
proof (induction acts arbitrary: n res w)
  case (Cons a as)
  show ?case
  proof (cases "ctx n")
    case True
    obtain ok w1 where "apply_action sch env now st a w = (ok, w1)" by fastforce
    with Cons True show ?thesis
      by (cases ok; cases "ac_kind a") (fastforce simp: count_action_def split: prod.splits)+
  qed (use Cons in auto)
qed auto

definition planned_ok :: "jobs_state \<Rightarrow> reconcile_action list \<Rightarrow> bool" where
  "planned_ok st acts \<longleftrightarrow>
     (\<forall>a \<in> set acts. ac_kind a = ReconcileInstall \<longrightarrow>
        (\<exists>j. job_of st (ac_job a) = Some j \<and> j_id j = ac_job a \<and> validateJobID (ac_job a)))"

lemma install_effect:
  assumes "install_and_record sch env now i (params_of j en) w = (True, w')"
    and "good (sys_os w)" "load_jobs (sys_jobs w) = Inr s" "validateJobID i" "j_id j = i"
  obtains s' os j0 where "load_jobs (sys_jobs w') = Inr s'" "good (sys_os w')"
    "owned sch (sys_os w') = insert i (owned sch (sys_os w))"
    "job_of s i = Some j0" "job_of s' = (job_of s)(i \<mapsto> record_install now os j0)"
    "fresh_metadata hs configHash (j_schedule j) os"
proof -
  obtain os os' dir where inst: "sch_install sch (params_of j en) (sys_os w) = (Some os, os')"
    "store_update env (modify_job i (record_install now os)) (sys_jobs w) = Inr dir"
    "w' = \<lparr>sys_os = os', sys_jobs = dir\<rparr>"
    using assms(1) by (auto simp: install_and_record_def split: prod.splits option.splits sum.splits)
  have p: "sp_job_id (params_of j en) = i" "sp_schedule (params_of j en) = j_schedule j"
    using assms(5) by (simp_all add: params_of_def)
  obtain s0 j0 s' where m: "load_jobs (sys_jobs w) = Inr s0" "job_of s0 i = Some j0" "load_jobs dir = Inr s'"
    "job_of s' = (job_of s0)(i \<mapsto> record_install now os j0)"
    by (rule modify_stored [OF inst(2)])
  then have "s0 = s" using assms(3) by simp
  moreover have "good os' \<and> owned sch os' = insert i (owned sch (sys_os w)) \<and>
      fresh_metadata hs configHash (j_schedule j) os"
    using install [OF assms(2) _ inst(1)] assms(4) by (simp add: p)
  ultimately show ?thesis using that m inst(3) by simp
qed

lemma apply_run:
  assumes "applyReconcileActions sch env ctx now st n acts res w = ((True, res'), w')" "rr_errors res' = []"
    and "good (sys_os w)" "load_jobs (sys_jobs w) = Inr s" "planned_ok st acts" "distinct (map ac_job acts)"
    and "\<forall>a \<in> set acts. job_of s (ac_job a) = job_of st (ac_job a)"
  shows "\<exists>s'. load_jobs (sys_jobs w') = Inr s' \<and> good (sys_os w') \<and>
    owned sch (sys_os w') = (owned sch (sys_os w) \<union> installs acts) - removes acts \<and>
    (\<forall>i. i \<notin> installs acts \<longrightarrow> job_of s' i = job_of s i) \<and>
    (\<forall>i \<in> installs acts. \<exists>j os. job_of s i = Some j \<and> job_of s' i = Some (record_install now os j) \<and>
        fresh_metadata hs configHash (j_schedule j) os)"
  using assms
proof (induction acts arbitrary: n res w s)
  case (Cons a as)
  obtain ok w1 where act: "apply_action sch env now st a w = (ok, w1)" by fastforce
  have alive: "ctx n" using Cons.prems(1) by (simp split: if_splits)
  then have rest: "applyReconcileActions sch env ctx now st (Suc n) as
      (if ok then count_action (ac_kind a) res else res\<lparr>rr_errors := rr_errors res @ [ac_job a]\<rparr>) w1 = ((True, res'), w')"
    using Cons.prems(1) act by simp
  have ok: ok
    using errors_grow [OF rest] Cons.prems(2) by (cases ok) auto
  let ?i = "ac_job a"
  have later: "?i \<notin> ac_job ` set as" "distinct (map ac_job as)" using Cons.prems(6) by auto
  have planned: "planned_ok st as" using Cons.prems(5) by (simp add: planned_ok_def)
  show ?case
  proof (cases "ac_kind a = ReconcileInstall")
    case True
    then obtain j where j: "job_of st ?i = Some j" "j_id j = ?i" "validateJobID ?i"
      using Cons.prems(5) by (auto simp: planned_ok_def)
    have ir: "install_and_record sch env now ?i (params_of j (j_enabled j)) w = (True, w1)"
      using act ok True j by (simp add: apply_action_def applyInstall_def)
    obtain s1 os j0 where s1: "load_jobs (sys_jobs w1) = Inr s1" "good (sys_os w1)"
      "owned sch (sys_os w1) = insert ?i (owned sch (sys_os w))"
      "job_of s ?i = Some j0" "job_of s1 = (job_of s)(?i \<mapsto> record_install now os j0)"
      "fresh_metadata hs configHash (j_schedule j) os"
      by (rule install_effect [OF ir Cons.prems(3,4) j(3,2)]) blast
    have "j0 = j" using s1(4) j(1) Cons.prems(7) by simp
    have same: "\<forall>b \<in> set as. job_of s1 (ac_job b) = job_of st (ac_job b)"
      using s1(5) Cons.prems(7) later(1) by (metis fun_upd_other image_eqI list.set_intros(2))
    obtain s2 where s2: "load_jobs (sys_jobs w') = Inr s2" "good (sys_os w')"
      "owned sch (sys_os w') = (owned sch (sys_os w1) \<union> installs as) - removes as"
      "\<forall>i. i \<notin> installs as \<longrightarrow> job_of s2 i = job_of s1 i"
      "\<forall>i \<in> installs as. \<exists>j os. job_of s1 i = Some j \<and> job_of s2 i = Some (record_install now os j) \<and>
          fresh_metadata hs configHash (j_schedule j) os"
      using Cons.IH [OF rest Cons.prems(2) s1(2,1) planned later(2) same] by blast
    have ni: "?i \<notin> installs as" "?i \<notin> removes as" using later(1) installs_subset by blast+
    show ?thesis
      using s2 s1 True ni \<open>j0 = j\<close>
      by (intro exI [of _ s2]) (auto split: if_splits)
  next
    case False
    then obtain os' where rm: "sch_remove sch ?i (sys_os w) = (True, os')" "w1 = w\<lparr>sys_os := os'\<rparr>"
      using act ok by (auto simp: apply_action_def split: prod.splits)
    have g: "good (sys_os w1)" "owned sch (sys_os w1) = owned sch (sys_os w) - {?i}"
      using remove [OF Cons.prems(3) rm(1)] rm(2) by simp_all
    have l: "load_jobs (sys_jobs w1) = Inr s" using rm(2) Cons.prems(4) by simp
    have same: "\<forall>b \<in> set as. job_of s (ac_job b) = job_of st (ac_job b)" using Cons.prems(7) by simp
    obtain s2 where s2: "load_jobs (sys_jobs w') = Inr s2" "good (sys_os w')"
      "owned sch (sys_os w') = (owned sch (sys_os w1) \<union> installs as) - removes as"
      "\<forall>i. i \<notin> installs as \<longrightarrow> job_of s2 i = job_of s i"
      "\<forall>i \<in> installs as. \<exists>j os. job_of s i = Some j \<and> job_of s2 i = Some (record_install now os j) \<and>
          fresh_metadata hs configHash (j_schedule j) os"
      using Cons.IH [OF rest Cons.prems(2) g(1) l planned later(2) same] by blast
    have ni: "?i \<notin> installs as" using later(1) installs_subset by blast
    show ?thesis
      using s2 g False ni by (intro exI [of _ s2]) auto
  qed
qed auto

text \<open>The plan of a store whose keys are the jobs' valid identifiers.\<close>

definition keyed :: "string list \<Rightarrow> jobs_state \<Rightarrow> bool" where
  "keyed order st \<longleftrightarrow> distinct order \<and> set order = {i. job_of st i \<noteq> None} \<and>
     (\<forall>i j. job_of st i = Some j \<longrightarrow> j_id j = i \<and> validateJobID i)"

definition per_job :: "jobs_state \<Rightarrow> string \<Rightarrow> reconcile_action list" where
  "per_job st i = (case job_of st i of Some j \<Rightarrow> job_action hs configHash i j | None \<Rightarrow> [])"

lemma per_job_kind:
  "a \<in> set (per_job st i) \<Longrightarrow> ac_job a = i \<and>
     (\<exists>j. job_of st i = Some j \<and> (ac_kind a = ReconcileInstall \<longleftrightarrow> j_enabled j))"
  by (cases "job_of st i") (auto simp: per_job_def job_action_def split: option.splits if_splits)

lemma per_job_ids: "map ac_job (per_job st i) \<in> {[], [i]}"
  by (simp add: per_job_def job_action_def split: option.splits)

lemma per_job_distinct: "distinct order \<Longrightarrow> distinct (map ac_job (concat (map (per_job st) order)))"
proof (induction order)
  case (Cons i ids)
  have "set (map ac_job (concat (map (per_job st) ids))) \<subseteq> set ids"
    by (auto dest: per_job_kind)
  moreover have "set (map ac_job (per_job st i)) \<subseteq> {i}" "distinct (map ac_job (per_job st i))"
    using per_job_ids [of st i] by auto
  ultimately have "set (map ac_job (per_job st i)) \<inter> set (map ac_job (concat (map (per_job st) ids))) = {}"
    using Cons.prems by (simp only: distinct.simps) blast
  then show ?case using Cons \<open>distinct (map ac_job (per_job st i))\<close> by (simp del: concat.simps) simp
qed simp

lemma plan_eq:
  assumes "sch_list_own sch os = Some own"
  shows "plan True order sch os st =
    Some (concat (map (per_job st) order) @ map orphan_action (filter (\<lambda>i. validateJobID i \<and> job_of st i = None) own))"
proof -
  have "per_job st = (\<lambda>i. case job_of st i of None \<Rightarrow> [] | Some j \<Rightarrow> job_action hs configHash i j)"
    by (simp add: per_job_def fun_eq_iff)
  with assms show ?thesis by (simp add: computeReconcileActions_def)
qed

lemma plan_ok:
  assumes "good os" "keyed order st" "plan True order sch os st = Some acts"
  shows "planned_ok st acts" "distinct (map ac_job acts)"
proof -
  obtain own where own: "sch_list_own sch os = Some own" "distinct own" using lists [OF assms(1)] by blast
  let ?orphans = "filter (\<lambda>i. validateJobID i \<and> job_of st i = None) own"
  have acts: "acts = concat (map (per_job st) order) @ map orphan_action ?orphans"
    using assms(3) plan_eq [OF own(1)] by simp
  show "planned_ok st acts"
    using assms(2) by (fastforce simp: planned_ok_def acts orphan_action_def keyed_def dest: per_job_kind)
  have known: "job_of st i \<noteq> None" if "i \<in> set (map ac_job (concat (map (per_job st) order)))" for i
    using that by (auto dest!: per_job_kind)
  have orphans: "map ac_job (map orphan_action ?orphans) = ?orphans"
    by (simp add: orphan_action_def comp_def)
  have "distinct (map ac_job (concat (map (per_job st) order)) @ ?orphans)"
    unfolding distinct_append
  proof (intro conjI)
    show "distinct (map ac_job (concat (map (per_job st) order)))"
      using assms(2) by (intro per_job_distinct) (simp add: keyed_def)
    show "distinct ?orphans" using own(2) by simp
    show "set (map ac_job (concat (map (per_job st) order))) \<inter> set ?orphans = {}"
    proof (rule equals0I)
      fix i assume "i \<in> set (map ac_job (concat (map (per_job st) order))) \<inter> set ?orphans"
      then have "job_of st i \<noteq> None" "job_of st i = None" using known [of i] by simp_all
      then show False by simp
    qed
  qed
  then show "distinct (map ac_job acts)" unfolding acts map_append orphans .
qed

lemma install_planned:
  assumes "plan True order sch os st = Some acts" "i \<in> set order" "job_of st i = Some j" "j_enabled j"
    and "checkInstallNeeded hs configHash j \<noteq> None"
  shows "i \<in> installs acts"
proof -
  obtain reason where "checkInstallNeeded hs configHash j = Some reason" using assms(5) by blast
  then have a: "\<lparr>ac_job = i, ac_reason = reason, ac_kind = ReconcileInstall\<rparr> \<in> set (per_job st i)"
    using assms(3,4) by (simp add: per_job_def job_action_def)
  have per: "(\<lambda>i. case job_of st i of None \<Rightarrow> [] | Some x \<Rightarrow> job_action hs configHash i x) = per_job st"
    by (simp add: per_job_def fun_eq_iff)
  have "set (concat (map (per_job st) order)) \<subseteq> set acts"
    using assms(1) by (cases "sch_list_own sch os") (auto simp: computeReconcileActions_def Let_def per)
  with a assms(2) have "\<lparr>ac_job = i, ac_reason = reason, ac_kind = ReconcileInstall\<rparr> \<in> set acts" by auto
  then show ?thesis by (force simp: installs_def)
qed

text \<open>After a reconciliation without errors, nothing is left to install and no owned schedule is
  without a job; the removals for disabled jobs are planned again.\<close>

lemma reconcile_converges:
  assumes "reconcileSchedules hs configHash sch env ctx now order False w = ((True, res), w')"
    and "rr_errors res = []" "good (sys_os w)" "load_jobs (sys_jobs w) = Inr st" "keyed order st"
  shows "\<exists>acts st'. plan True order sch (sys_os w) st = Some acts \<and> load_jobs (sys_jobs w') = Inr st' \<and>
    keyed order st' \<and> good (sys_os w') \<and>
    plan True order sch (sys_os w') st' = Some (filter (\<lambda>a. ac_kind a = ReconcileRemoveDisabled) acts) \<and>
    installs acts \<subseteq> owned sch (sys_os w')"
proof -
  obtain acts where acts: "plan (ctx 0) order sch (sys_os w) st = Some acts"
    "applyReconcileActions sch env ctx now st 1 acts no_result w = ((True, res), w')"
    using assms(1,4) by (auto simp: reconcileSchedules_def split: option.splits)
  have plan: "plan True order sch (sys_os w) st = Some acts"
    using acts(1) by (auto simp: computeReconcileActions_def split: if_splits)
  note ok = plan_ok [OF assms(3,5) plan]
  obtain st' where st': "load_jobs (sys_jobs w') = Inr st'" "good (sys_os w')"
    "owned sch (sys_os w') = (owned sch (sys_os w) \<union> installs acts) - removes acts"
    "\<forall>i. i \<notin> installs acts \<longrightarrow> job_of st' i = job_of st i"
    "\<forall>i \<in> installs acts. \<exists>j os. job_of st i = Some j \<and> job_of st' i = Some (record_install now os j) \<and>
        fresh_metadata hs configHash (j_schedule j) os"
    using apply_run [OF acts(2) assms(2,3,4) ok] by auto
  have same_keys: "job_of st' i = None \<longleftrightarrow> job_of st i = None" for i
    using st'(4,5) by (metis option.distinct(1))
  have kept: "j_id j' = i \<and> validateJobID i" if "job_of st' i = Some j'" for i j'
  proof -
    have "job_of st i \<noteq> None" using that same_keys [of i] by simp
    then obtain j where j: "job_of st i = Some j" by blast
    then have "j_id j = i" "validateJobID i" using assms(5) by (simp_all add: keyed_def)
    moreover have "j_id j' = j_id j"
      using st'(4,5) j that by (cases "i \<in> installs acts") (fastforce simp: record_install_def)+
    ultimately show ?thesis by simp
  qed
  have keyed: "keyed order st'" using assms(5) same_keys kept by (simp add: keyed_def)
  obtain own where own: "sch_list_own sch (sys_os w) = Some own" using lists [OF assms(3)] by blast
  obtain own' where own': "sch_list_own sch (sys_os w') = Some own'" using lists [OF st'(2)] by blast
  let ?orph = "filter (\<lambda>i. validateJobID i \<and> job_of st i = None) own"
  have eq: "acts = concat (map (per_job st) order) @ map orphan_action ?orph"
    using plan plan_eq [OF own] by simp
  have disj: "installs acts \<inter> removes acts = {}"
    using ok(2) by (auto simp: installs_def removes_def distinct_map inj_on_def)
  have no_orphans: "\<not> (validateJobID i \<and> job_of st' i = None)" if "i \<in> set own'" for i
  proof
    assume i: "validateJobID i \<and> job_of st' i = None"
    then have "i \<notin> installs acts" using st'(5) by fastforce
    then have "i \<in> set own" using that st'(3) own own' by (auto simp: owned_def)
    then have "i \<in> set ?orph" using i same_keys [of i] by simp
    then have "orphan_action i \<in> set acts" by (simp add: eq)
    then have "i \<in> removes acts"
      unfolding removes_def by (intro image_eqI [of _ _ "orphan_action i"]) (simp_all add: orphan_action_def)
    then show False using that st'(3) own' by (auto simp: owned_def)
  qed
  have per: "per_job st' i = filter (\<lambda>a. ac_kind a = ReconcileRemoveDisabled) (per_job st i)"
    if i: "i \<in> set order" for i
  proof (cases "i \<in> installs acts")
    case True
    with st'(5) obtain j os where j: "job_of st i = Some j" "job_of st' i = Some (record_install now os j)"
      "fresh_metadata hs configHash (j_schedule j) os" by blast
    have en: "j_enabled j"
      using True j(1) by (auto simp: eq installs_def orphan_action_def dest!: per_job_kind)
    then have "per_job st' i = []"
      using j(2) fresh_needs_nothing [OF j(3), of now] by (simp add: per_job_def job_action_def) (simp add: record_install_def)
    moreover have "filter (\<lambda>a. ac_kind a = ReconcileRemoveDisabled) (per_job st i) = []"
      using j(1) en by (simp add: per_job_def job_action_def split: option.splits)
    ultimately show ?thesis by simp
  next
    case False
    then have "\<forall>a \<in> set (per_job st i). ac_kind a \<noteq> ReconcileInstall"
      using i by (auto simp: eq installs_def dest: per_job_kind)
    moreover have "\<forall>a \<in> set (per_job st i). ac_kind a \<noteq> ReconcileRemove"
      by (auto simp: per_job_def job_action_def split: option.splits if_splits)
    ultimately have "\<forall>a \<in> set (per_job st i). ac_kind a = ReconcileRemoveDisabled"
      using action_kind.exhaust by metis
    then have "filter (\<lambda>a. ac_kind a = ReconcileRemoveDisabled) (per_job st i) = per_job st i" by simp
    moreover have "per_job st' i = per_job st i" using st'(4) False by (simp add: per_job_def)
    ultimately show ?thesis by simp
  qed
  have "filter (\<lambda>a. ac_kind a = ReconcileRemoveDisabled) (concat (map (per_job st) ids)) =
      concat (map (\<lambda>i. filter (\<lambda>a. ac_kind a = ReconcileRemoveDisabled) (per_job st i)) ids)" for ids
    by (induction ids) auto
  then have "concat (map (per_job st') order) = filter (\<lambda>a. ac_kind a = ReconcileRemoveDisabled) acts"
    using per by (simp add: eq orphan_action_def comp_def cong: map_cong)
  then have "plan True order sch (sys_os w') st' = Some (filter (\<lambda>a. ac_kind a = ReconcileRemoveDisabled) acts)"
    using plan_eq [OF own'] no_orphans by (auto simp: filter_empty_conv)
  moreover have "installs acts \<subseteq> owned sch (sys_os w')" using st'(3) disj by auto
  ultimately show ?thesis using plan st'(1,2) keyed by blast
qed

end

section \<open>Progress\<close>

text \<open>A scheduler whose operations succeed on valid identifiers and supported schedules.\<close>

locale live_scheduler = scheduler_contract sch hs configHash good
  for sch :: "'os scheduler" and hs :: "schedule_spec \<Rightarrow> string" and configHash :: string
    and good :: "'os \<Rightarrow> bool" +
  fixes supported :: "schedule_spec \<Rightarrow> bool"
  assumes install_total: "good os \<Longrightarrow> validateJobID (sp_job_id p) \<Longrightarrow> supported (sp_schedule p) \<Longrightarrow>
      \<exists>st os'. sch_install sch p os = (Some st, os')"
    and remove_total: "good os \<Longrightarrow> validateJobID i \<Longrightarrow> \<exists>os'. sch_remove sch i os = (True, os')"
begin

definition doable :: "jobs_state \<Rightarrow> reconcile_action list \<Rightarrow> bool" where
  "doable st acts \<longleftrightarrow> planned_ok st acts \<and>
     (\<forall>a \<in> set acts. validateJobID (ac_job a) \<and>
        (ac_kind a = ReconcileInstall \<longrightarrow> (\<forall>j. job_of st (ac_job a) = Some j \<longrightarrow> supported (j_schedule j))))"

lemma apply_action_succeeds:
  assumes "doable st (a # as)" "good (sys_os w)" "load_jobs (sys_jobs w) = Inr s"
    and "\<forall>b \<in> set (a # as). job_of st (ac_job b) \<noteq> None \<longrightarrow> job_of s (ac_job b) \<noteq> None"
  shows "\<exists>w' s'. apply_action sch all_writes now st a w = (True, w') \<and> good (sys_os w') \<and>
    load_jobs (sys_jobs w') = Inr s' \<and>
    (\<forall>i. job_of s i \<noteq> None \<longrightarrow> job_of s' i \<noteq> None)"
proof (cases "ac_kind a = ReconcileInstall")
  case True
  let ?i = "ac_job a"
  obtain j where j: "job_of st ?i = Some j" "j_id j = ?i" "validateJobID ?i" "supported (j_schedule j)"
    using assms(1) True by (auto simp: doable_def planned_ok_def)
  let ?p = "params_of j (j_enabled j)"
  have p: "sp_job_id ?p = ?i" "sp_schedule ?p = j_schedule j" using j by (simp_all add: params_of_def)
  obtain os os' where inst: "sch_install sch ?p (sys_os w) = (Some os, os')"
    using install_total [OF assms(2), of ?p] j p by auto
  obtain j0 where "job_of s ?i = Some j0" using assms(4) j(1) by auto
  then have "modify_job ?i (record_install now os) s = Inr (put_job ?i (record_install now os j0) s)"
    by (simp add: modify_job_def)
  then obtain dir where dir: "store_update all_writes (modify_job ?i (record_install now os)) (sys_jobs w) = Inr dir"
    using update_succeeds [OF assms(3)] by blast
  have act: "apply_action sch all_writes now st a w = (True, \<lparr>sys_os = os', sys_jobs = dir\<rparr>)"
    using True j(1) inst dir by (simp add: apply_action_def applyInstall_def install_and_record_def)
  have "good os'" using install [OF assms(2) _ inst] p j(3) by simp
  moreover obtain s0 j1 s1 where "load_jobs (sys_jobs w) = Inr s0" "load_jobs dir = Inr s1"
    "job_of s1 = (job_of s0)(?i \<mapsto> record_install now os j1)"
    using modify_stored [OF dir] by metis
  ultimately show ?thesis using act assms(3) by auto
next
  case False
  have "validateJobID (ac_job a)" using assms(1) by (simp add: doable_def)
  then obtain os' where rm: "sch_remove sch (ac_job a) (sys_os w) = (True, os')"
    using remove_total [OF assms(2)] by blast
  then have "apply_action sch all_writes now st a w = (True, w\<lparr>sys_os := os'\<rparr>)"
    using False by (simp add: apply_action_def)
  moreover have "good os'" using remove [OF assms(2) rm] by simp
  ultimately show ?thesis using assms(3) by auto
qed

lemma apply_succeeds:
  assumes "doable st acts" "good (sys_os w)" "load_jobs (sys_jobs w) = Inr s"
    and "\<forall>b \<in> set acts. job_of st (ac_job b) \<noteq> None \<longrightarrow> job_of s (ac_job b) \<noteq> None"
  shows "\<exists>w'. applyReconcileActions sch all_writes (\<lambda>_. True) now st n acts res w =
    ((True, foldl (\<lambda>r a. count_action (ac_kind a) r) res acts), w')"
  using assms
proof (induction acts arbitrary: n res w s)
  case (Cons a as)
  obtain w1 s1 where w1: "apply_action sch all_writes now st a w = (True, w1)" "good (sys_os w1)"
    "load_jobs (sys_jobs w1) = Inr s1" "\<forall>i. job_of s i \<noteq> None \<longrightarrow> job_of s1 i \<noteq> None"
    using apply_action_succeeds [OF Cons.prems] by blast
  have d: "doable st as" using Cons.prems(1) unfolding doable_def planned_ok_def by auto
  have k: "\<forall>b \<in> set as. job_of st (ac_job b) \<noteq> None \<longrightarrow> job_of s1 (ac_job b) \<noteq> None"
    using Cons.prems(4) w1(4) by auto
  from Cons.IH [OF d w1(2,3) k] w1(1) show ?case by simp
qed simp

lemma count_errors [simp]: "rr_errors (count_action k r) = rr_errors r"
  by (cases k) (simp_all add: count_action_def)

lemma foldl_count_errors: "rr_errors (foldl (\<lambda>r a. count_action (ac_kind a) r) r acts) = rr_errors r"
  by (induction acts arbitrary: r) simp_all

text \<open>Reconciliation succeeds, does what its dry run announces, and settles.\<close>

lemma reconcile_settles:
  assumes "good (sys_os w)" "load_jobs (sys_jobs w) = Inr st" "keyed order st"
    and "\<forall>i j. job_of st i = Some j \<longrightarrow> j_enabled j \<longrightarrow> supported (j_schedule j)"
  shows "\<exists>acts res w' st'.
    plan True order sch (sys_os w) st = Some acts \<and>
    reconcileSchedules hs configHash sch all_writes (\<lambda>_. True) now order True w = ((True, res), w) \<and>
    reconcileSchedules hs configHash sch all_writes (\<lambda>_. True) now order False w = ((True, res), w') \<and>
    rr_errors res = [] \<and> load_jobs (sys_jobs w') = Inr st' \<and> keyed order st' \<and> good (sys_os w') \<and>
    plan True order sch (sys_os w') st' = Some (filter (\<lambda>a. ac_kind a = ReconcileRemoveDisabled) acts) \<and>
    installs acts \<subseteq> owned sch (sys_os w')"
proof -
  obtain own where own: "sch_list_own sch (sys_os w) = Some own" using lists [OF assms(1)] by blast
  then obtain acts where acts: "plan True order sch (sys_os w) st = Some acts"
    "acts = concat (map (per_job st) order) @ map orphan_action (filter (\<lambda>i. validateJobID i \<and> job_of st i = None) own)"
    using plan_eq by blast
  have "validateJobID (ac_job a) \<and>
      (ac_kind a = ReconcileInstall \<longrightarrow> (\<forall>j. job_of st (ac_job a) = Some j \<longrightarrow> supported (j_schedule j)))"
    if "a \<in> set acts" for a
    using that assms(3,4) by (auto simp: acts(2) orphan_action_def keyed_def dest!: per_job_kind)
  then have "doable st acts" using plan_ok(1) [OF assms(1,3) acts(1)] by (simp add: doable_def)
  then obtain w' where w': "applyReconcileActions sch all_writes (\<lambda>_. True) now st 1 acts no_result w =
      ((True, dryRunResult acts), w')"
    using apply_succeeds assms(1,2) unfolding dryRunResult_def by blast
  then have run: "reconcileSchedules hs configHash sch all_writes (\<lambda>_. True) now order False w = ((True, dryRunResult acts), w')"
    using assms(2) acts(1) by (simp add: reconcileSchedules_def)
  have "rr_errors (dryRunResult acts) = []" by (simp add: dryRunResult_def foldl_count_errors no_result_def)
  moreover have "reconcileSchedules hs configHash sch all_writes (\<lambda>_. True) now order True w = ((True, dryRunResult acts), w)"
    using assms(2) acts(1) by (simp add: reconcileSchedules_def)
  ultimately show ?thesis using reconcile_converges [OF run _ assms(1-3)] run acts(1) by auto
qed

end

end
