(* ===== verification/Systemd.thy ===== *)
theory Systemd
  imports Reconcile FsPath "HOL-Library.List_Lexorder" "HOL-Library.Char_ord"
begin

text \<open>
  The Linux scheduler, \<open>internal/backgroundjobs/scheduler_linux.go\<close> with
  \<open>scheduler_common.go\<close>: systemd user timers. Its state is the unit directory, an association
  list from file names to contents, and the state of the systemd manager, which only the commands
  change. \<open>systemctl\<close> is the parameter \<open>run\<close>: it sees the arguments, the units and
  the manager, and gives its exit and output. Names are built from job identifiers without slashes,
  so a unit is a direct entry of the directory. \<open>unit_env\<close> holds the environment variables
  and says which system calls succeed. The theory ends by showing that this scheduler keeps the
  \<open>scheduler_contract\<close>, so that reconciliation on it converges.
\<close>

section \<open>Unit files\<close>

record scheduler_config =
  sc_store_dir :: string
  sc_exec_path :: string
  sc_config_path :: string
  sc_install_id :: string
  sc_config_hash :: string
  sc_exec_hash :: string

definition runTokenPath :: "string \<Rightarrow> string" where
  "runTokenPath storeDir = join_paths [storeDir, ''run.token'']"

definition ln :: "string \<Rightarrow> string" where
  "ln s = s @ [CHR 0x0A]"

definition pad2 :: "int \<Rightarrow> string" where
  "pad2 n = (let s = dec_int n in if length s < 2 then CHR ''0'' # s else s)"

definition duration_minutes :: "int \<Rightarrow> rat" where
  "duration_minutes d =
     fl53 (f_of_int (go_div d minute) + f_div (f_of_int (go_mod d minute)) (f_of_int minute))"

definition durationToSystemdSpan :: "int \<Rightarrow> string" where
  "durationToSystemdSpan d =
     (let totalMinutes = f_trunc (duration_minutes d) in
      if totalMinutes \<ge> 60 \<and> go_mod totalMinutes 60 = 0 then dec_int (go_div totalMinutes 60) @ ''h''
      else dec_int totalMinutes @ ''min'')"

definition weekdayToSystemdDay :: "string \<Rightarrow> string" where
  "weekdayToSystemdDay day =
     (case map_of [(''sunday'', ''Sun''), (''monday'', ''Mon''), (''tuesday'', ''Tue''), (''wednesday'', ''Wed''),
        (''thursday'', ''Thu''), (''friday'', ''Fri''), (''saturday'', ''Sat'')] day of
        Some d \<Rightarrow> d | None \<Rightarrow> ''Mon'')"

definition scheduleToOnCalendar :: "(string \<Rightarrow> string) \<Rightarrow> schedule_spec \<Rightarrow> schedule_error + string" where
  "scheduleToOnCalendar ul spec =
     (case Kind spec of
        ScheduleInterval \<Rightarrow> Inr ''*-*-* *:00:00''
      | ScheduleDaily \<Rightarrow>
          (case parseTimeOfDay (TimeOfDay spec) of
             Inl e \<Rightarrow> Inl e
           | Inr (h, m) \<Rightarrow> Inr (''*-*-* '' @ pad2 h @ '':'' @ pad2 m @ '':00''))
      | ScheduleWeekly \<Rightarrow>
          (case parseTimeOfDay (TimeOfDay spec) of
             Inl e \<Rightarrow> Inl e
           | Inr (h, m) \<Rightarrow>
               Inr (weekdayToSystemdDay (to_lower ul (DayOfWeek spec)) @ '' *-*-* '' @ pad2 h @ '':'' @ pad2 m @ '':00''))
      | ScheduleCron \<Rightarrow> Inr ''*-*-* *:00:00''
      | OtherKind _ \<Rightarrow> Inr ''*-*-* *:00:00'')"

definition randomizedDelaySec :: "schedule_spec \<Rightarrow> int" where
  "randomizedDelaySec spec = (if Kind spec = ScheduleInterval then 300 else 0)"

definition timeoutSec :: "schedule_spec \<Rightarrow> int" where
  "timeoutSec spec =
     (case Kind spec of
        ScheduleInterval \<Rightarrow>
          if Every spec \<noteq> [] then
            (case parseEveryDuration (Every spec) of Inr d \<Rightarrow> f_trunc (duration_seconds d) | Inl _ \<Rightarrow> 3300)
          else 3300
      | ScheduleDaily \<Rightarrow> 7200
      | ScheduleWeekly \<Rightarrow> 7200
      | _ \<Rightarrow> 3600)"

definition buildTimerUnit :: "(string \<Rightarrow> string) \<Rightarrow> schedule_params \<Rightarrow> schedule_error + string" where
  "buildTimerUnit ul p =
     (let head = ln ''[Unit]'' @ ln (''Description=Timer for Dreamer background job '' @ sp_job_id p) @ ln [] @ ln ''[Timer]'';
          tail = ln [] @ ln ''[Install]'' @ ln ''WantedBy=timers.target'';
          spec = sp_schedule p
      in if Kind spec = ScheduleInterval \<and> Every spec \<noteq> [] then
           Inr (head @ ln ''OnBootSec=1min'' @
                ln (''OnUnitActiveSec='' @ durationToSystemdSpan (everyDuration spec)) @
                ln ''Persistent=true'' @ tail)
         else
           (case scheduleToOnCalendar ul spec of
              Inl e \<Rightarrow> Inl e
            | Inr cal \<Rightarrow>
                Inr (head @ ln (''OnCalendar='' @ cal) @ ln ''Persistent=true'' @
                     ln (''RandomizedDelaySec='' @ dec_int (randomizedDelaySec spec)) @ tail)))"

definition escape_percent :: "string \<Rightarrow> string" where
  "escape_percent s = concat (map (\<lambda>c. if c = CHR ''%'' then ''%%'' else [c]) s)"

text \<open>\<open>strconv.Quote\<close> is the parameter \<open>quote\<close>.\<close>

definition buildServiceUnit :: "(string \<Rightarrow> string) \<Rightarrow> scheduler_config \<Rightarrow> schedule_params \<Rightarrow> string" where
  "buildServiceUnit quote cfg p =
     (let exe = escape_percent (sc_exec_path cfg);
          conf = escape_percent (sc_config_path cfg);
          tok = escape_percent (runTokenPath (sc_store_dir cfg))
      in ln ''[Unit]'' @ ln (''Description=Run Dreamer background job '' @ sp_job_id p) @
         ln ''After=network-online.target'' @ ln [] @ ln ''[Service]'' @ ln ''Type=oneshot'' @
         ln (''ExecStart='' @ quote exe @ '' jobs run '' @ sp_job_id p @ '' --config '' @ quote conf @
             '' --run-token-file '' @ quote tok) @
         ln (''WorkingDirectory='' @ sc_store_dir cfg) @
         ln (''TimeoutStartSec='' @ dec_int (timeoutSec (sp_schedule p))) @
         ln [] @ ln ''[Install]'' @ ln ''WantedBy=default.target'')"

section \<open>Operations\<close>

record unit_env =
  ue_ctx :: "nat \<Rightarrow> bool"
  ue_xdg :: string
  ue_home :: "string option"
  ue_mkdir :: bool
  ue_write :: "string \<Rightarrow> bool"
  ue_unlink :: "string \<Rightarrow> bool"
  ue_readdir :: bool
  ue_now :: int
  ue_lower :: "string \<Rightarrow> string"
  ue_quote :: "string \<Rightarrow> string"
  ue_parse_time :: "string \<Rightarrow> int option"
  ue_spec_hash :: "schedule_spec \<Rightarrow> string"

record 'm systemd =
  sd_units :: "(string \<times> string) list"
  sd_manager :: 'm

type_synonym 'm systemctl = "string list \<Rightarrow> (string \<times> string) list \<Rightarrow> 'm \<Rightarrow> (bool \<times> string) \<times> 'm"

definition unitDirBase :: "unit_env \<Rightarrow> string option" where
  "unitDirBase env =
     (let xdg = trim_space (ue_xdg env) in
      if xdg \<noteq> [] \<and> is_abs xdg then Some (clean xdg)
      else map_option (\<lambda>h. join_paths [h, ''.config'']) (ue_home env))"

definition unit_base :: "string \<Rightarrow> string" where "unit_base jobID = ''dreamer-job-'' @ jobID"
definition timer_name :: "string \<Rightarrow> string" where "timer_name jobID = unit_base jobID @ ''.timer''"
definition service_name :: "string \<Rightarrow> string" where "service_name jobID = unit_base jobID @ ''.service''"

definition call :: "'m systemctl \<Rightarrow> string list \<Rightarrow> 'm systemd \<Rightarrow> (bool \<times> string) \<times> 'm systemd" where
  "call run args s =
     (case run (''--user'' # args) (sd_units s) (sd_manager s) of (r, m) \<Rightarrow> (r, s\<lparr>sd_manager := m\<rparr>))"

definition write_unit :: "unit_env \<Rightarrow> string \<Rightarrow> string \<Rightarrow> 'm systemd \<Rightarrow> bool \<times> 'm systemd" where
  "write_unit env name content s =
     (if ue_write env name then (True, s\<lparr>sd_units := AList.update name content (sd_units s)\<rparr>) else (False, s))"

text \<open>\<open>os.Remove\<close>, where a missing file is not an error.\<close>

definition remove_unit :: "unit_env \<Rightarrow> string \<Rightarrow> 'm systemd \<Rightarrow> bool \<times> 'm systemd" where
  "remove_unit env name s =
     (if name \<notin> fst ` set (sd_units s) then (True, s)
      else if ue_unlink env name then (True, s\<lparr>sd_units := AList.delete name (sd_units s)\<rparr>)
      else (False, s))"

definition reloadDaemon :: "unit_env \<Rightarrow> 'm systemctl \<Rightarrow> 'm systemd \<Rightarrow> bool \<times> 'm systemd" where
  "reloadDaemon env run s =
     (if \<not> ue_ctx env 1 then (False, s)
      else (case call run [''daemon-reload''] s of ((ok, _), s') \<Rightarrow> (ok, s')))"

definition installed_metadata :: "unit_env \<Rightarrow> scheduler_config \<Rightarrow> schedule_params \<Rightarrow> os_schedule" where
  "installed_metadata env cfg p =
     \<lparr>os_schedule_id = unit_base (sp_job_id p), os_install_id = sc_install_id cfg,
      os_config_hash = sc_config_hash cfg, os_exec_hash = sc_exec_hash cfg,
      os_spec_hash = ue_spec_hash env (sp_schedule p), os_last_installed = Some (ue_now env)\<rparr>"

definition systemd_install ::
    "unit_env \<Rightarrow> scheduler_config \<Rightarrow> 'm systemctl \<Rightarrow> schedule_params \<Rightarrow> 'm systemd \<Rightarrow> os_schedule option \<times> 'm systemd" where
  "systemd_install env cfg run p s =
     (if \<not> ue_ctx env 0 then (None, s)
      else if Kind (sp_schedule p) = ScheduleCron then (None, s)
      else if unitDirBase env = None \<or> \<not> ue_mkdir env then (None, s)
      else
        (case buildTimerUnit (ue_lower env) p of
           Inl _ \<Rightarrow> (None, s)
         | Inr timer \<Rightarrow>
             (case write_unit env (timer_name (sp_job_id p)) timer s of
                (False, s1) \<Rightarrow> (None, s1)
              | (True, s1) \<Rightarrow>
                  (case write_unit env (service_name (sp_job_id p)) (buildServiceUnit (ue_quote env) cfg p) s1 of
                     (False, s2) \<Rightarrow> (None, s2)
                   | (True, s2) \<Rightarrow>
                       (case reloadDaemon env run s2 of
                          (False, s3) \<Rightarrow> (None, s3)
                        | (True, s3) \<Rightarrow>
                            if sp_enabled p then
                              (case call run [''enable'', ''--now'', timer_name (sp_job_id p)] s3 of
                                 ((False, _), s4) \<Rightarrow> (None, s4)
                               | ((True, _), s4) \<Rightarrow> (Some (installed_metadata env cfg p), s4))
                            else (Some (installed_metadata env cfg p), s3))))))"

definition systemd_remove ::
    "unit_env \<Rightarrow> 'm systemctl \<Rightarrow> string \<Rightarrow> 'm systemd \<Rightarrow> bool \<times> 'm systemd" where
  "systemd_remove env run jobID s =
     (if \<not> validateJobID jobID then (False, s)
      else
        let s1 = snd (call run [''disable'', ''--now'', timer_name jobID] s);
            s2 = snd (call run [''stop'', timer_name jobID] s1);
            s3 = snd (call run [''stop'', service_name jobID] s2)
        in if unitDirBase env = None then (False, s3)
           else
             (case remove_unit env (timer_name jobID) s3 of
                (False, s4) \<Rightarrow> (False, s4)
              | (True, s4) \<Rightarrow>
                  (case remove_unit env (service_name jobID) s4 of
                     (False, s5) \<Rightarrow> (False, s5)
                   | (True, s5) \<Rightarrow> reloadDaemon env run s5)))"

text \<open>\<open>Inspect\<close> only queries, so the manager's state after it is dropped.\<close>

definition systemd_inspect ::
    "unit_env \<Rightarrow> 'm systemctl \<Rightarrow> string \<Rightarrow> 'm systemd \<Rightarrow> schedule_health option" where
  "systemd_inspect env run jobID s =
     (case call run [''is-active'', timer_name jobID] s of
        ((ok, out), s1) \<Rightarrow>
          if \<not> (ok \<and> trim_space out = ''active'') then
            (if unitDirBase env \<noteq> None \<and> timer_name jobID \<in> fst ` set (sd_units s)
             then Some \<lparr>sh_installed = True, sh_enabled = False, sh_next_run = None\<rparr>
             else Some \<lparr>sh_installed = False, sh_enabled = False, sh_next_run = None\<rparr>)
          else
            (case call run [''show'', timer_name jobID, ''--property=NextElapseUSecRealtime''] s1 of
               ((ok', status), _) \<Rightarrow>
                 let line = trim_space status;
                     next = (if ok' then
                               (case index_of line ''='' of
                                  Some i \<Rightarrow> ue_parse_time env (trim_space (drop (Suc i) line))
                                | None \<Rightarrow> None)
                             else None)
                 in Some \<lparr>sh_installed = True, sh_enabled = True, sh_next_run = next\<rparr>))"

definition job_of_unit :: "string \<Rightarrow> string option" where
  "job_of_unit name =
     (if has_prefix name ''dreamer-job-'' \<and> has_suffix name ''.timer''
      then let rest = drop 12 name in
           Some (if has_suffix rest ''.timer'' then take (length rest - 6) rest else rest)
      else None)"

definition systemd_list_own :: "unit_env \<Rightarrow> 'm systemd \<Rightarrow> string list option" where
  "systemd_list_own env s =
     (if unitDirBase env = None then None
      else if sd_units s = [] then Some []
      else if \<not> ue_readdir env then None
      else Some (dedup_by (\<lambda>i. i) {} (filter (\<lambda>i. i \<noteq> [] \<and> validateJobID i)
             (List.map_filter job_of_unit (sort (map fst (sd_units s)))))))"

definition systemd_scheduler ::
    "unit_env \<Rightarrow> scheduler_config \<Rightarrow> 'm systemctl \<Rightarrow> 'm systemd scheduler" where
  "systemd_scheduler env cfg run =
     \<lparr>sch_install = systemd_install env cfg run, sch_remove = systemd_remove env run,
      sch_inspect = systemd_inspect env run, sch_list_own = systemd_list_own env\<rparr>"

section \<open>The contract\<close>

definition systemd_good :: "unit_env \<Rightarrow> scheduler_config \<Rightarrow> 'm systemd \<Rightarrow> bool" where
  "systemd_good env cfg s \<longleftrightarrow> unitDirBase env \<noteq> None \<and> ue_readdir env \<and> sc_install_id cfg \<noteq> []"

lemma job_of_unit_Some:
  assumes "job_of_unit n = Some i"
  shows "n = timer_name i"
proof -
  let ?p = "''dreamer-job-''" and ?s = "''.timer''"
  obtain t v where n: "n = ?p @ t" "n = v @ ?s"
    using assms by (auto simp: job_of_unit_def has_prefix_iff has_suffix_iff split: if_splits)
  have "\<exists>u. t = u @ ?s"
  proof (rule ccontr)
    assume no: "\<nexists>u. t = u @ ?s"
    have "?p @ t = v @ ?s" using n by simp
    then obtain us where us: "?p = v @ us \<and> us @ t = ?s \<or> ?p @ us = v \<and> t = us @ ?s"
      unfolding append_eq_append_conv2 by blast
    then have "?p = v @ us" "us @ t = ?s" using no by blast+
    then have "us \<noteq> []" using no by auto
    then have "hd us \<in> set ?p" "hd us = CHR ''.''"
      using \<open>?p = v @ us\<close> \<open>us @ t = ?s\<close> by (metis Un_iff hd_in_set set_append) (metis \<open>us @ t = ?s\<close> \<open>us \<noteq> []\<close> hd_append2 list.sel(1))
    then show False by simp
  qed
  then obtain u where t: "t = u @ ?s" by blast
  then have "job_of_unit n = Some u"
    using n(1) assms by (simp add: job_of_unit_def has_suffix_iff Let_def split: if_splits)
  with assms n(1) t show ?thesis by (simp add: timer_name_def unit_base_def)
qed

lemma job_of_timer [simp]: "job_of_unit (timer_name i) = Some i"
proof -
  have "has_prefix (timer_name i) ''dreamer-job-''" "has_suffix (timer_name i) ''.timer''"
    by (auto simp: has_prefix_iff has_suffix_iff timer_name_def unit_base_def)
  moreover have "drop 12 (timer_name i) = i @ ''.timer''" by (simp add: timer_name_def unit_base_def)
  moreover have "has_suffix (i @ ''.timer'') ''.timer''" by (auto simp: has_suffix_iff)
  ultimately show ?thesis by (simp add: job_of_unit_def Let_def)
qed

lemma service_not_timer [simp]: "service_name i \<noteq> timer_name k"
proof
  assume "service_name i = timer_name k"
  then have "rev (service_name i) = rev (timer_name k)" by simp
  then show False by (simp add: service_name_def timer_name_def)
qed

lemma timer_name_eq [simp]: "timer_name i = timer_name k \<longleftrightarrow> i = k"
  by (simp add: timer_name_def unit_base_def)

definition timers :: "'m systemd \<Rightarrow> string set" where
  "timers s = {i. validateJobID i \<and> timer_name i \<in> fst ` set (sd_units s)}"

lemma validate_nonempty: "validateJobID i \<Longrightarrow> i \<noteq> []"
  by (auto simp: validateJobID_def jobIDHexLen_def)

lemma mem_map_filter: "x \<in> set (List.map_filter f xs) \<longleftrightarrow> (\<exists>y \<in> set xs. f y = Some x)"
  by (induction xs) (auto simp: List.map_filter_def split: option.splits)

lemma list_own_timers:
  assumes "unitDirBase env \<noteq> None" "ue_readdir env"
  shows "\<exists>own. systemd_list_own env s = Some own \<and> distinct own \<and> set own = timers s"
proof (cases "sd_units s = []")
  case True
  then show ?thesis using assms by (simp add: systemd_list_own_def timers_def)
next
  case False
  let ?found = "List.map_filter job_of_unit (sort (map fst (sd_units s)))"
  let ?ids = "filter (\<lambda>i. i \<noteq> [] \<and> validateJobID i) ?found"
  have "i \<in> set ?found \<longleftrightarrow> timer_name i \<in> fst ` set (sd_units s)" for i
    unfolding mem_map_filter set_sort set_map by (metis job_of_unit_Some job_of_timer)
  then have ids: "set ?ids = timers s" using validate_nonempty by (simp add: timers_def set_eq_iff) blast
  define own where "own = dedup_by (\<lambda>i. i) {} ?ids"
  have "systemd_list_own env s = Some own" using assms False by (simp add: systemd_list_own_def own_def)
  moreover have "distinct own"
    using dedup_by_distinct [of "\<lambda>i. i" "{}" ?ids] by (simp only: own_def list.map_ident)
  moreover have "set own = timers s"
    using dedup_by_keys [of "\<lambda>i. i" "{}" ?ids] by (simp only: own_def ids image_ident Diff_empty)
  ultimately show ?thesis by blast
qed

lemma owned_systemd:
  assumes "unitDirBase env \<noteq> None" "ue_readdir env"
  shows "owned (systemd_scheduler env cfg run) s = timers s"
proof -
  obtain own where "systemd_list_own env s = Some own" "set own = timers s"
    using list_own_timers [OF assms, of s] by blast
  then show ?thesis by (simp add: owned_def systemd_scheduler_def)
qed

lemma units_call: "call run args s = (r, s') \<Longrightarrow> sd_units s' = sd_units s"
  by (auto simp: call_def split: prod.splits)

lemma units_snd_call [simp]: "sd_units (snd (call run args s)) = sd_units s"
  by (simp add: call_def split: prod.splits)

lemma reload_units: "reloadDaemon env run s = (ok, s') \<Longrightarrow> sd_units s' = sd_units s"
  by (auto simp: reloadDaemon_def dest: units_call split: if_splits prod.splits)

lemma timers_cong: "sd_units s' = sd_units s \<Longrightarrow> timers s' = timers s"
  by (simp add: timers_def)

lemma fst_update: "fst ` set (AList.update k v xs) = insert k (fst ` set xs)"
  using update_keys [of k v xs] by (simp flip: set_map split: if_splits) (simp add: insert_absorb)

lemma fst_delete: "fst ` set (AList.delete k xs) = fst ` set xs - {k}"
  using delete_keys [of k xs] by (simp flip: set_map)

lemma write_unit_True:
  "write_unit env n c s = (True, s') \<Longrightarrow> fst ` set (sd_units s') = insert n (fst ` set (sd_units s))"
  by (clarsimp simp: write_unit_def fst_update split: if_splits)

lemma remove_unit_True:
  "remove_unit env n s = (True, s') \<Longrightarrow> fst ` set (sd_units s') = fst ` set (sd_units s) - {n}"
  by (clarsimp simp: remove_unit_def fst_delete split: if_splits)

lemma install_units:
  assumes "systemd_install env cfg run p s = (Some st, s')"
  shows "st = installed_metadata env cfg p"
    and "fst ` set (sd_units s') =
      insert (service_name (sp_job_id p)) (insert (timer_name (sp_job_id p)) (fst ` set (sd_units s)))"
proof -
  obtain timer where "buildTimerUnit (ue_lower env) p = Inr timer"
    using assms by (auto simp: systemd_install_def split: if_splits sum.splits)
  moreover obtain ok1 s1 where w1: "write_unit env (timer_name (sp_job_id p)) timer s = (ok1, s1)" by fastforce
  moreover obtain ok2 s2 where w2:
    "write_unit env (service_name (sp_job_id p)) (buildServiceUnit (ue_quote env) cfg p) s1 = (ok2, s2)" by fastforce
  moreover obtain ok3 s3 where w3: "reloadDaemon env run s2 = (ok3, s3)" by fastforce
  moreover obtain ok4 out s4 where w4: "call run [''enable'', ''--now'', timer_name (sp_job_id p)] s3 = ((ok4, out), s4)"
    by (metis surj_pair)
  ultimately have r: "ok1" "ok2" "ok3" "st = installed_metadata env cfg p" "s' \<in> {s3, s4}"
    using assms by (auto simp: systemd_install_def split: if_splits bool.splits)
  show "st = installed_metadata env cfg p" by (fact r)
  have "sd_units s' = sd_units s2" using r(5) units_call [OF w4] reload_units [OF w3] by auto
  then show "fst ` set (sd_units s') =
      insert (service_name (sp_job_id p)) (insert (timer_name (sp_job_id p)) (fst ` set (sd_units s)))"
    using write_unit_True [OF w1 [unfolded eqTrueI [OF r(1)]]] write_unit_True [OF w2 [unfolded eqTrueI [OF r(2)]]] by simp
qed

lemma remove_units:
  assumes "systemd_remove env run i s = (True, s')"
  shows "fst ` set (sd_units s') = fst ` set (sd_units s) - {timer_name i} - {service_name i}"
proof -
  define s3 where "s3 = snd (call run [''stop'', service_name i] (snd (call run [''stop'', timer_name i]
    (snd (call run [''disable'', ''--now'', timer_name i] s)))))"
  obtain ok4 s4 where w4: "remove_unit env (timer_name i) s3 = (ok4, s4)" by fastforce
  obtain ok5 s5 where w5: "remove_unit env (service_name i) s4 = (ok5, s5)" by fastforce
  have r: "ok4" "ok5" "reloadDaemon env run s5 = (True, s')"
    using assms w4 w5 by (auto simp: systemd_remove_def s3_def [symmetric] Let_def split: if_splits bool.splits)
  then show ?thesis
    using remove_unit_True [OF w4 [unfolded eqTrueI [OF r(1)]]] remove_unit_True [OF w5 [unfolded eqTrueI [OF r(2)]]]
      reload_units [OF r(3)] by (simp add: s3_def)
qed

interpretation systemd: scheduler_contract
  "systemd_scheduler env cfg run" "ue_spec_hash env" "sc_config_hash cfg" "systemd_good env cfg"
  for env :: unit_env and cfg :: scheduler_config and run :: "'m systemctl"
proof
  fix os :: "'m systemd" assume "systemd_good env cfg os"
  then show "\<exists>own. sch_list_own (systemd_scheduler env cfg run) os = Some own \<and> distinct own"
    using list_own_timers [of env os] by (auto simp: systemd_good_def systemd_scheduler_def)
next
  fix os os' :: "'m systemd" and p st
  assume g: "systemd_good env cfg os" and v: "validateJobID (sp_job_id p)"
    and i: "sch_install (systemd_scheduler env cfg run) p os = (Some st, os')"
  have e: "st = installed_metadata env cfg p"
    "fst ` set (sd_units os') = insert (service_name (sp_job_id p)) (insert (timer_name (sp_job_id p)) (fst ` set (sd_units os)))"
    using install_units [of env cfg run p os st os'] i by (simp_all add: systemd_scheduler_def)
  have "timers os' = insert (sp_job_id p) (timers os)"
    using e(2) v service_not_timer [symmetric] by (auto simp: timers_def)
  then show "systemd_good env cfg os' \<and>
      owned (systemd_scheduler env cfg run) os' = insert (sp_job_id p) (owned (systemd_scheduler env cfg run) os) \<and>
      fresh_metadata (ue_spec_hash env) (sc_config_hash cfg) (sp_schedule p) st"
    using g e(1)
    by (simp add: systemd_good_def owned_systemd fresh_metadata_def installed_metadata_def unit_base_def)
next
  fix os os' :: "'m systemd" and i
  assume g: "systemd_good env cfg os"
    and r: "sch_remove (systemd_scheduler env cfg run) i os = (True, os')"
  have e: "fst ` set (sd_units os') = fst ` set (sd_units os) - {timer_name i} - {service_name i}"
    using remove_units [of env run i os os'] r by (simp add: systemd_scheduler_def)
  have "timers os' = timers os - {i}"
    using e service_not_timer [symmetric] by (auto simp: timers_def)
  then show "systemd_good env cfg os' \<and>
      owned (systemd_scheduler env cfg run) os' = owned (systemd_scheduler env cfg run) os - {i}"
    using g by (simp add: systemd_good_def owned_systemd)
qed

section \<open>Intervals\<close>

text \<open>How systemd reads the spans that are written.\<close>

definition span_minutes :: "string \<Rightarrow> int option" where
  "span_minutes s =
     (if has_suffix s ''min'' then atoi (take (length s - 3) s)
      else if has_suffix s ''h'' then map_option (\<lambda>h. h * 60) (atoi (take (length s - 1) s))
      else None)"

lemma duration_minutes_whole:
  assumes "0 \<le> k" "k < 2 ^ 53"
  shows "duration_minutes (k * minute) = of_int k"
proof -
  have "go_div (k * minute) minute = k" "go_mod (k * minute) minute = 0"
    using assms(1) by (simp_all add: go_div_nonneg go_mod_nonneg duration_defs)
  then show ?thesis
    using assms by (simp add: duration_minutes_def f_of_int_small f_div_def fl53_def [of 0])
      (simp add: f_of_int_def fl53_def [of 0] fl53_int)
qed

text \<open>A timer repeats exactly at the job's interval when the interval is a whole number of
  minutes: the span in the unit reads back as that number.\<close>
theorem interval_span_roundtrip:
  assumes "1 \<le> k" "k < 2 ^ 53"
  shows "span_minutes (durationToSystemdSpan (k * minute)) = Some k"
proof -
  have t: "f_trunc (duration_minutes (k * minute)) = k"
    using assms by (simp add: duration_minutes_whole)
  have rd: "atoi (dec_int n) = Some n" if "0 \<le> n" "n \<le> k" for n
    using that assms(2) by (intro atoi_dec_int) (simp add: in_i64_def)
  show ?thesis
  proof (cases "k \<ge> 60 \<and> go_mod k 60 = 0")
    case True
    then have m: "k mod 60 = 0" "go_div k 60 = k div 60"
      using assms(1) by (simp_all add: go_mod_nonneg go_div_nonneg)
    then have "k div 60 * 60 = k" by auto
    moreover from this have "0 \<le> k div 60" "k div 60 \<le> k" using assms(1) by linarith+
    ultimately have q: "go_div k 60 * 60 = k" "0 \<le> go_div k 60" "go_div k 60 \<le> k" using m(2) by simp_all
    have "\<not> has_suffix (dec_int (go_div k 60) @ ''h'') ''min''"
    proof
      assume "has_suffix (dec_int (go_div k 60) @ ''h'') ''min''"
      then obtain u where "dec_int (go_div k 60) @ ''h'' = u @ ''min''" by (auto simp: has_suffix_iff)
      then have "last (dec_int (go_div k 60) @ ''h'') = last (u @ ''min'')" by simp
      then show False by simp
    qed
    moreover have "has_suffix (dec_int (go_div k 60) @ ''h'') ''h''" by (auto simp: has_suffix_iff)
    ultimately show ?thesis
      using True q rd [of "go_div k 60"] by (simp add: durationToSystemdSpan_def t Let_def span_minutes_def)
  next
    case False
    have "has_suffix (dec_int k @ ''min'') ''min''" by (auto simp: has_suffix_iff)
    then show ?thesis
      using False rd [of k] assms(1) by (auto simp: durationToSystemdSpan_def t Let_def span_minutes_def)
  qed
qed

section \<open>Reconciliation on systemd\<close>

text \<open>A working user manager: it reloads, and it enables and starts a timer whose unit file is there. Nothing is
  asked of the other commands: \<open>disable\<close> and \<open>stop\<close> fail for unknown units and \<open>is-active\<close> for
  inactive ones. The unit directory is there, readable and writable, and the context stays alive.\<close>

definition manager_works :: "'m systemctl \<Rightarrow> bool" where
  "manager_works run \<longleftrightarrow>
     (\<forall>units m. fst (fst (run [''--user'', ''daemon-reload''] units m))) \<and>
     (\<forall>i units m. timer_name i \<in> fst ` set units \<longrightarrow>
        fst (fst (run [''--user'', ''enable'', ''--now'', timer_name i] units m)))"

definition systemd_live :: "unit_env \<Rightarrow> scheduler_config \<Rightarrow> 'm systemctl \<Rightarrow> 'm systemd \<Rightarrow> bool" where
  "systemd_live env cfg run s \<longleftrightarrow>
     systemd_good env cfg s \<and> (\<forall>n. ue_ctx env n) \<and> ue_mkdir env \<and> (\<forall>n. ue_write env n) \<and>
     (\<forall>n. ue_unlink env n) \<and> manager_works run"

definition systemd_supported :: "schedule_spec \<Rightarrow> bool" where
  "systemd_supported spec \<longleftrightarrow> Kind spec \<noteq> ScheduleCron \<and>
     (Kind spec \<in> {ScheduleDaily, ScheduleWeekly} \<longrightarrow> (\<exists>hm. parseTimeOfDay (TimeOfDay spec) = Inr hm))"

lemma systemd_live_cong: "systemd_live env cfg run s = systemd_live env cfg run s'"
  by (simp add: systemd_live_def systemd_good_def)

lemma supported_builds: "systemd_supported (sp_schedule p) \<Longrightarrow> \<exists>t. buildTimerUnit ul p = Inr t"
  by (cases "Kind (sp_schedule p)")
     (auto simp: systemd_supported_def buildTimerUnit_def scheduleToOnCalendar_def Let_def)

lemma call_result: "fst (fst (run (''--user'' # args) (sd_units t) (sd_manager t))) \<Longrightarrow>
    \<exists>out s'. call run args t = ((True, out), s') \<and> sd_units s' = sd_units t"
  by (cases "run (''--user'' # args) (sd_units t) (sd_manager t)"; cases "fst (run (''--user'' # args) (sd_units t) (sd_manager t))")
     (simp add: call_def)

lemma live_reload:
  assumes "systemd_live env cfg run s"
  shows "\<exists>s'. reloadDaemon env run t = (True, s') \<and> sd_units s' = sd_units t"
proof -
  have "fst (fst (run [''--user'', ''daemon-reload''] (sd_units t) (sd_manager t)))" "ue_ctx env 1"
    using assms by (simp_all add: systemd_live_def manager_works_def)
  with call_result [of run "[''daemon-reload'']" t] show ?thesis by (auto simp: reloadDaemon_def)
qed

lemma live_enable:
  assumes "systemd_live env cfg run s" "timer_name i \<in> fst ` set (sd_units t)"
  shows "\<exists>out s'. call run [''enable'', ''--now'', timer_name i] t = ((True, out), s')"
proof -
  have "fst (fst (run [''--user'', ''enable'', ''--now'', timer_name i] (sd_units t) (sd_manager t)))"
    using assms by (simp add: systemd_live_def manager_works_def)
  with call_result show ?thesis by blast
qed

lemma validated_supported:
  "validateSchedule ul load spec = None \<Longrightarrow> Kind spec \<noteq> ScheduleCron \<Longrightarrow> systemd_supported spec"
  by (cases "Kind spec")
     (auto simp: systemd_supported_def validateSchedule_def validate_kind_def check_time_of_day_def
       split: option.splits if_splits sum.splits)

interpretation systemd_progress: live_scheduler
  "systemd_scheduler env cfg run" "ue_spec_hash env" "sc_config_hash cfg" "systemd_live env cfg run" systemd_supported
  for env :: unit_env and cfg :: scheduler_config and run :: "'m systemctl"
proof
  have good: "systemd_live env cfg run s \<Longrightarrow> systemd_good env cfg s" for s by (simp add: systemd_live_def)
  fix os :: "'m systemd" assume live: "systemd_live env cfg run os"
  show "\<exists>own. sch_list_own (systemd_scheduler env cfg run) os = Some own \<and> distinct own"
    using systemd.lists [OF good [OF live]] .
  show "systemd_live env cfg run os' \<and>
      owned (systemd_scheduler env cfg run) os' = insert (sp_job_id p) (owned (systemd_scheduler env cfg run) os) \<and>
      fresh_metadata (ue_spec_hash env) (sc_config_hash cfg) (sp_schedule p) st"
    if "validateJobID (sp_job_id p)" "sch_install (systemd_scheduler env cfg run) p os = (Some st, os')" for p st os'
    using systemd.install [OF good [OF live] that] live systemd_live_cong by blast
  show "systemd_live env cfg run os' \<and>
      owned (systemd_scheduler env cfg run) os' = owned (systemd_scheduler env cfg run) os - {i}"
    if "sch_remove (systemd_scheduler env cfg run) i os = (True, os')" for i os'
    using systemd.remove [OF good [OF live] that] live systemd_live_cong by blast
  show "\<exists>st os'. sch_install (systemd_scheduler env cfg run) p os = (Some st, os')"
    if sup: "validateJobID (sp_job_id p)" "systemd_supported (sp_schedule p)" for p
  proof -
    obtain t where t: "buildTimerUnit (ue_lower env) p = Inr t" using supported_builds [OF sup(2)] by blast
    have w: "write_unit env n c s = (True, s\<lparr>sd_units := AList.update n c (sd_units s)\<rparr>)" for n c and s :: "'m systemd"
      using live by (simp add: write_unit_def systemd_live_def)
    let ?s2 = "os\<lparr>sd_units := AList.update (service_name (sp_job_id p)) (buildServiceUnit (ue_quote env) cfg p)
      (AList.update (timer_name (sp_job_id p)) t (sd_units os))\<rparr>"
    obtain s3 where s3: "reloadDaemon env run ?s2 = (True, s3)" "sd_units s3 = sd_units ?s2"
      using live_reload [OF live] by blast
    have "timer_name (sp_job_id p) \<in> fst ` set (sd_units s3)"
      unfolding s3(2) using service_not_timer by (simp add: dom_update)
    then obtain out s4 where "call run [''enable'', ''--now'', timer_name (sp_job_id p)] s3 = ((True, out), s4)"
      using live_enable [OF live] by blast
    then show ?thesis
      using live sup(2) t s3
      by (auto simp: systemd_scheduler_def systemd_install_def w systemd_live_def systemd_good_def systemd_supported_def)
  qed
  show "\<exists>os'. sch_remove (systemd_scheduler env cfg run) i os = (True, os')" if "validateJobID i" for i
  proof -
    have rm: "\<exists>s'. remove_unit env n s = (True, s')" for n and s :: "'m systemd"
      using live by (simp add: remove_unit_def systemd_live_def)
    define s3 where "s3 = snd (call run [''stop'', service_name i] (snd (call run [''stop'', timer_name i]
      (snd (call run [''disable'', ''--now'', timer_name i] os)))))"
    obtain s4 where s4: "remove_unit env (timer_name i) s3 = (True, s4)" using rm by blast
    obtain s5 where s5: "remove_unit env (service_name i) s4 = (True, s5)" using rm by blast
    have "\<exists>s'. reloadDaemon env run s5 = (True, s')"
      using live_reload [OF live] by blast
    then show ?thesis
      using that s4 s5 live
      by (auto simp: systemd_scheduler_def systemd_remove_def s3_def [symmetric] Let_def systemd_live_def systemd_good_def)
  qed
qed

text \<open>A reconciliation on systemd whose context stays alive and whose store writes succeed.\<close>

definition systemd_reconcile ::
    "unit_env \<Rightarrow> scheduler_config \<Rightarrow> 'm systemctl \<Rightarrow> int \<Rightarrow> string list \<Rightarrow> bool \<Rightarrow> 'm systemd system \<Rightarrow>
     (bool \<times> reconcile_result) \<times> 'm systemd system" where
  "systemd_reconcile env cfg run now order dryRun w =
     reconcileSchedules (ue_spec_hash env) (sc_config_hash cfg) (systemd_scheduler env cfg run)
       all_writes (\<lambda>_. True) now order dryRun w"

text \<open>C17: Reconciliation settles. Let the user manager work and the unit directory and the job store accept their
  writes, let the jobs be stored under valid identifiers, and let every enabled job be on a validated
  schedule other than cron. Then a reconciliation succeeds and counts what its dry run announced;
  afterwards every schedule that was due has its timer unit, no timer is left without a job, nothing is
  left to install, and the next plan holds at most the removals for disabled jobs.\<close>
theorem systemd_reconciliation_settles:
  assumes "systemd_live env cfg run (sys_os w)" "load_jobs (sys_jobs w) = Inr st"
    and "distinct order" "set order = {i. job_of st i \<noteq> None}"
    and "\<forall>i j. job_of st i = Some j \<longrightarrow> j_id j = i \<and> validateJobID i \<and>
      (j_enabled j \<longrightarrow> Kind (j_schedule j) \<noteq> ScheduleCron \<and> validateSchedule ul zones (j_schedule j) = None)"
  shows "\<exists>res w' st' acts. systemd_reconcile env cfg run now order True w = ((True, res), w) \<and>
    systemd_reconcile env cfg run now order False w = ((True, res), w') \<and>
    rr_errors res = [] \<and> load_jobs (sys_jobs w') = Inr st' \<and>
    (\<forall>i j. job_of st i = Some j \<and> j_enabled j \<and>
       checkInstallNeeded (ue_spec_hash env) (sc_config_hash cfg) j \<noteq> None \<longrightarrow>
       timer_name i \<in> fst ` set (sd_units (sys_os w'))) \<and>
    computeReconcileActions (ue_spec_hash env) (sc_config_hash cfg) True order (systemd_scheduler env cfg run)
      (sys_os w') st' = Some acts \<and> (\<forall>a \<in> set acts. ac_kind a = ReconcileRemoveDisabled)"
proof -
  have sup: "\<forall>i j. job_of st i = Some j \<longrightarrow> j_enabled j \<longrightarrow> systemd_supported (j_schedule j)"
    using assms(5) validated_supported by blast
  have keyed: "systemd_progress.keyed order st"
    using assms(3-5) by (simp add: systemd_progress.keyed_def)
  obtain acts res w' st' where r:
    "computeReconcileActions (ue_spec_hash env) (sc_config_hash cfg) True order (systemd_scheduler env cfg run) (sys_os w) st = Some acts"
    "systemd_reconcile env cfg run now order True w = ((True, res), w)"
    "systemd_reconcile env cfg run now order False w = ((True, res), w')"
    "rr_errors res = []" "load_jobs (sys_jobs w') = Inr st'" "systemd_live env cfg run (sys_os w')"
    "computeReconcileActions (ue_spec_hash env) (sc_config_hash cfg) True order (systemd_scheduler env cfg run) (sys_os w') st' =
       Some (filter (\<lambda>a. ac_kind a = ReconcileRemoveDisabled) acts)"
    "systemd_progress.installs acts \<subseteq> owned (systemd_scheduler env cfg run) (sys_os w')"
    using systemd_progress.reconcile_settles [OF assms(1,2) keyed sup, of now] unfolding systemd_reconcile_def by blast
  have "timer_name i \<in> fst ` set (sd_units (sys_os w'))"
    if "job_of st i = Some j" "j_enabled j" "checkInstallNeeded (ue_spec_hash env) (sc_config_hash cfg) j \<noteq> None" for i j
  proof -
    have "i \<in> systemd_progress.installs acts"
      using r(1) that assms(4) systemd_progress.install_planned by blast
    then have "i \<in> owned (systemd_scheduler env cfg run) (sys_os w')" using r(8) by blast
    then show ?thesis using r(6) by (simp add: systemd_live_def systemd_good_def owned_systemd timers_def)
  qed
  then show ?thesis using r by (intro exI [of _ res] exI [of _ w'] exI [of _ st']) auto
qed

section \<open>Instances\<close>

theorem interval_span_roundtrip_witness:
  "span_minutes (durationToSystemdSpan (90 * minute)) = Some 90 \<and> span_minutes (durationToSystemdSpan (120 * minute)) = Some 120"
  using interval_span_roundtrip [of 90] interval_span_roundtrip [of 120] by simp

definition sample_env :: unit_env where
  "sample_env = \<lparr>ue_ctx = (\<lambda>_. True), ue_xdg = [], ue_home = Some ''/home/u'', ue_mkdir = True,
     ue_write = (\<lambda>_. True), ue_unlink = (\<lambda>_. True), ue_readdir = True, ue_now = 0, ue_lower = id, ue_quote = id,
     ue_parse_time = (\<lambda>_. None), ue_spec_hash = TimeOfDay\<rparr>"

definition sample_config :: scheduler_config where
  "sample_config = \<lparr>sc_store_dir = ''/s'', sc_exec_path = ''/bin/dreamer'', sc_config_path = [],
     sc_install_id = ''i'', sc_config_hash = ''c'', sc_exec_hash = ''x''\<rparr>"

text \<open>It refuses everything but what is needed.\<close>

definition obliging :: "unit systemctl" where
  "obliging args units m =
     ((args = [''--user'', ''daemon-reload''] \<or>
       (take 3 args = [''--user'', ''enable'', ''--now''] \<and> last args \<in> fst ` set units), []), m)"

definition fresh_system :: "unit systemd system" where
  "fresh_system = \<lparr>sys_os = \<lparr>sd_units = [], sd_manager = ()\<rparr>, sys_jobs = sample_jdir\<rparr>"

theorem systemd_reconciliation_settles_witness:
  "\<exists>res w'. systemd_reconcile sample_env sample_config obliging 0 [sample_id] False fresh_system = ((True, res), w') \<and>
     timer_name sample_id \<in> fst ` set (sd_units (sys_os w'))"
proof -
  have live: "systemd_live sample_env sample_config obliging (sys_os fresh_system)"
    by (simp add: systemd_live_def manager_works_def systemd_good_def unitDirBase_def sample_env_def sample_config_def obliging_def)
  have load: "load_jobs (sys_jobs fresh_system) = Inr sample_jobs"
    by (simp add: fresh_system_def sample_load)
  have order: "set [sample_id] = {i. job_of sample_jobs i \<noteq> None}" by (simp add: sample_job_of)
  have jobs: "\<forall>i j. job_of sample_jobs i = Some j \<longrightarrow> j_id j = i \<and> validateJobID i \<and>
      (j_enabled j \<longrightarrow> Kind (j_schedule j) \<noteq> ScheduleCron \<and> validateSchedule id only_utc (j_schedule j) = None)"
    using sample_valid by (simp add: sample_job_of) (simp add: sample_job_def)
  have due: "job_of sample_jobs sample_id = Some sample_job" "j_enabled sample_job"
    "checkInstallNeeded (ue_spec_hash sample_env) (sc_config_hash sample_config) sample_job \<noteq> None"
    by (simp add: sample_job_of, code_simp+)
  from systemd_reconciliation_settles [OF live load _ order jobs, of 0] due show ?thesis by auto
qed

end
