(* ===== verification/JobPerms.thy ===== *)
theory JobPerms
  imports BgJobs FsPath
begin

text \<open>
  The write permissions of background jobs, \<open>internal/backgroundjobs/permissions.go\<close>. The
  file system is seen through \<open>st\<close>, whether \<open>os.Stat\<close> finds a path, and \<open>ev\<close>,
  the result of \<open>filepath.EvalSymlinks\<close>. The Unix case: a volume name is empty.
\<close>

definition MaxPromptSize :: nat where "MaxPromptSize = 16 * 1024"

definition parseFileAccess :: "string \<Rightarrow> string option" where
  "parseFileAccess s =
     (if s \<in> {''read_only'', ''selected_writes'', ''full_workspace''} then Some s else None)"

definition protectedSuffixes :: "string list" where
  "protectedSuffixes = [''.dreamer'', ''.git'', ''.claude'', ''.codex'', ''.copilot'', ''.gemini'']"

section \<open>Resolution through the deepest existing ancestor\<close>

fun ancestor_walk ::
    "nat \<Rightarrow> (string \<Rightarrow> bool) \<Rightarrow> (string \<Rightarrow> eval_result) \<Rightarrow> string \<Rightarrow> string \<Rightarrow> string list \<Rightarrow> (unit + string) option" where
  "ancestor_walk 0 st ev p parent parts = None"
| "ancestor_walk (Suc n) st ev p parent parts =
     (if parent = [slash] \<or> parent = ''.'' \<or> parent = [] then Some (Inr (clean p))
      else if st parent then
        (case ev parent of Resolved r \<Rightarrow> Some (Inr (rejoin r (rev parts))) | _ \<Rightarrow> Some (Inl ()))
      else ancestor_walk n st ev p (dir_of parent) (base_of parent # parts))"

definition resolveAncestorSymlink ::
    "(string \<Rightarrow> bool) \<Rightarrow> (string \<Rightarrow> eval_result) \<Rightarrow> string \<Rightarrow> unit + string" where
  "resolveAncestorSymlink st ev p =
     (if st p then (case ev p of Resolved r \<Rightarrow> Inr r | _ \<Rightarrow> Inl ())
      else (case ancestor_walk (walk_fuel p) st ev p (dir_of p) [base_of p] of Some r \<Rightarrow> r | None \<Rightarrow> Inl ()))"

section \<open>Validation\<close>

text \<open>\<open>filepath.Rel\<close>: the elements that lead from the base to the target.\<close>

fun strip_common :: "string list \<Rightarrow> string list \<Rightarrow> string list \<times> string list" where
  "strip_common (b # bs) (t # ts) = (if b = t then strip_common bs ts else (b # bs, t # ts))"
| "strip_common bs ts = (bs, ts)"

definition path_elems :: "string \<Rightarrow> string list" where
  "path_elems p = clean_elems (is_abs p) [] (split_on slash p)"

definition rel_elems :: "string \<Rightarrow> string \<Rightarrow> string list option" where
  "rel_elems base target =
     (if is_abs base \<noteq> is_abs target then None
      else
        (case strip_common (path_elems base) (path_elems target) of (bs, ts) \<Rightarrow>
           if bs \<noteq> [] \<and> hd bs = ''..'' then None
           else let es = replicate (length bs) ''..'' @ ts in Some (if es = [] then [''.''] else es)))"

datatype writable_error = NotRelative | ProtectedDir string | Unresolvable | OutsideRoot string

definition validateSingleWritablePath ::
    "(string \<Rightarrow> bool) \<Rightarrow> (string \<Rightarrow> eval_result) \<Rightarrow> string \<Rightarrow> string \<Rightarrow> writable_error option" where
  "validateSingleWritablePath st ev projectRoot p0 =
     (let p = clean (if is_abs p0 then p0 else join_paths [projectRoot, p0]) in
      case rel_elems projectRoot p of
        None \<Rightarrow> Some NotRelative
      | Some comps \<Rightarrow>
          (case find (\<lambda>c. c \<in> set protectedSuffixes) comps of
             Some c \<Rightarrow> Some (ProtectedDir c)
           | None \<Rightarrow>
               (case resolveAncestorSymlink st ev p of
                  Inl _ \<Rightarrow> Some Unresolvable
                | Inr resolved \<Rightarrow>
                    if \<not> has_prefix (clean resolved @ [slash]) (projectRoot @ [slash]) \<and> resolved \<noteq> projectRoot
                    then Some (OutsideRoot resolved) else None)))"

definition effective_root :: "(string \<Rightarrow> bool) \<Rightarrow> (string \<Rightarrow> eval_result) \<Rightarrow> string \<Rightarrow> string" where
  "effective_root st ev projectRoot =
     (let c = clean projectRoot in
      case resolveAncestorSymlink st ev c of Inr r \<Rightarrow> r | Inl _ \<Rightarrow> c)"

fun first_error :: "('a \<Rightarrow> 'e option) \<Rightarrow> 'a list \<Rightarrow> 'e option" where
  "first_error f [] = None"
| "first_error f (x # xs) = (case f x of Some e \<Rightarrow> Some e | None \<Rightarrow> first_error f xs)"

definition validateWritablePaths ::
    "(string \<Rightarrow> bool) \<Rightarrow> (string \<Rightarrow> eval_result) \<Rightarrow> string \<Rightarrow> string list \<Rightarrow> writable_error option" where
  "validateWritablePaths st ev projectRoot paths =
     first_error (validateSingleWritablePath st ev (effective_root st ev projectRoot)) paths"

lemma first_error_None: "first_error f xs = None \<longleftrightarrow> (\<forall>x \<in> set xs. f x = None)"
  by (induction xs) (auto split: option.splits)

section \<open>What the walk returns\<close>

text \<open>\<open>EvalSymlinks\<close> of an absolute path is a clean absolute path.\<close>

definition clean_fs :: "(string \<Rightarrow> eval_result) \<Rightarrow> bool" where
  "clean_fs ev \<longleftrightarrow> (\<forall>p r. is_abs p \<longrightarrow> ev p = Resolved r \<longrightarrow> is_abs r \<and> clean r = r)"

lemma abs_path_special: "list_all plain es \<Longrightarrow> abs_path es = [slash] \<longleftrightarrow> es = []"
  "abs_path es \<noteq> ''.''" "abs_path es \<noteq> []"
proof -
  assume pl: "list_all plain es"
  have "elems [slash] = []" by code_simp
  moreover have "abs_path [] = [slash]" by (simp add: abs_path_def)
  ultimately show "abs_path es = [slash] \<longleftrightarrow> es = []" using elems_abs_path [OF pl] by metis
qed (simp_all add: abs_path_def)

lemma walk_result:
  assumes "list_all plain es" "length es < n"
  shows "\<exists>k \<le> length es.
    ancestor_walk n st ev p (abs_path es) parts = Some
      (if k = 0 then Inr (clean p)
       else case ev (abs_path (take k es)) of
              Resolved r \<Rightarrow> Inr (rejoin r (rev (drop k es @ parts))) | _ \<Rightarrow> Inl ()) \<and>
    (k > 0 \<longrightarrow> st (abs_path (take k es))) \<and>
    (\<forall>i. k < i \<and> i \<le> length es \<longrightarrow> \<not> st (abs_path (take i es)))"
  using assms
proof (induction es arbitrary: n parts rule: rev_induct)
  case Nil
  then show ?case by (cases n) (simp_all add: abs_path_special)
next
  case (snoc e es)
  then obtain m where n: "n = Suc m" by (cases n) simp_all
  have pl: "list_all plain es" "plain e" using snoc.prems(1) by simp_all
  have step: "ancestor_walk n st ev p (abs_path (es @ [e])) parts =
      (if st (abs_path (es @ [e])) then
         (case ev (abs_path (es @ [e])) of Resolved r \<Rightarrow> Some (Inr (rejoin r (rev parts))) | _ \<Rightarrow> Some (Inl ()))
       else ancestor_walk m st ev p (abs_path es) (e # parts))"
    using pl snoc.prems(1) abs_path_special(1) [of "es @ [e]"] abs_path_special(2,3) [of "es @ [e]"]
    by (simp add: n dir_of_abs_path base_of_abs_path)
  show ?case
  proof (cases "st (abs_path (es @ [e]))")
    case True
    then show ?thesis
      by (intro exI [of _ "Suc (length es)"]) (auto simp: step split: eval_result.splits)
  next
    case False
    obtain k where k: "k \<le> length es"
      "ancestor_walk m st ev p (abs_path es) (e # parts) = Some
        (if k = 0 then Inr (clean p)
         else case ev (abs_path (take k es)) of
                Resolved r \<Rightarrow> Inr (rejoin r (rev (drop k es @ e # parts))) | _ \<Rightarrow> Inl ())"
      "k > 0 \<longrightarrow> st (abs_path (take k es))"
      "\<forall>i. k < i \<and> i \<le> length es \<longrightarrow> \<not> st (abs_path (take i es))"
      using snoc.IH [OF pl(1), of m "e # parts"] snoc.prems(2) by (auto simp: n)
    have later: "\<not> st (abs_path (take i (es @ [e])))" if "k < i" "i \<le> Suc (length es)" for i
      using that k(4) False by (cases "i = Suc (length es)") auto
    have d: "drop k (es @ [e]) @ parts = drop k es @ e # parts" "take k (es @ [e]) = take k es"
      using k(1) by simp_all
    have "ancestor_walk n st ev p (abs_path (es @ [e])) parts = Some
      (if k = 0 then Inr (clean p)
       else case ev (abs_path (take k (es @ [e]))) of
              Resolved r \<Rightarrow> Inr (rejoin r (rev (drop k (es @ [e]) @ parts))) | _ \<Rightarrow> Inl ())"
      unfolding step d using False k(2) by simp
    then show ?thesis
      using k(1,3) later d(2) by (intro exI [of _ k] conjI) (simp_all only: length_append_singleton le_SucI, auto)
  qed
qed

lemma rejoin_clean: "is_abs x \<Longrightarrow> clean x = x \<Longrightarrow> is_abs (rejoin x ts) \<and> clean (rejoin x ts) = rejoin x ts"
proof (induction ts arbitrary: x)
  case (Cons t ts)
  have a: "is_abs (x @ slash # t)" using Cons.prems(1) by (simp add: is_abs_append)
  then have "clean (clean (x @ slash # t)) = clean (x @ slash # t)"
    by (simp add: clean_abs elems_abs_path elems_plain)
  from Cons.IH [OF is_abs_clean [OF a] this] show ?case
    using Cons.prems(1) by (simp add: join_paths_abs)
qed simp

lemma resolved_abs:
  assumes "clean_fs ev" "is_abs p" "clean p = p" "resolveAncestorSymlink st ev p = Inr r"
  shows "is_abs r \<and> clean r = r"
proof (cases "st p")
  case True
  then show ?thesis using assms by (auto simp: resolveAncestorSymlink_def clean_fs_def split: eval_result.splits)
next
  case False
  note p = clean_abs [OF assms(2)]
  show ?thesis
  proof (cases "elems p = []")
    case True
    then have "p = [slash]" using p assms(3) by (simp add: abs_path_def)
    moreover have "dir_of [slash] = [slash]" "clean [slash] = [slash]" by code_simp+
    ultimately show ?thesis
      using assms(4) False by (auto simp: resolveAncestorSymlink_def walk_fuel_def is_abs_def has_prefix_iff)
  next
    case ne: False
    then obtain es e where es: "elems p = es @ [e]" by (metis rev_exhaust)
    have pl: "list_all plain es" "plain e" using elems_plain [of p] by (simp_all add: es)
    have pe: "p = abs_path (es @ [e])" using p assms(3) es by simp
    have len: "length es < walk_fuel p"
      using length_abs_path [of "es @ [e]"] pl by (simp add: walk_fuel_def pe)
    obtain k where k: "ancestor_walk (walk_fuel p) st ev p (abs_path es) [e] = Some
      (if k = 0 then Inr (clean p)
       else case ev (abs_path (take k es)) of Resolved r \<Rightarrow> Inr (rejoin r (rev (drop k es @ [e]))) | _ \<Rightarrow> Inl ())"
      using walk_result [OF pl(1) len] by blast
    have "resolveAncestorSymlink st ev p =
      (if k = 0 then Inr (clean p)
       else case ev (abs_path (take k es)) of Resolved r \<Rightarrow> Inr (rejoin r (rev (drop k es @ [e]))) | _ \<Rightarrow> Inl ())"
      using False k pl by (simp add: resolveAncestorSymlink_def pe dir_of_abs_path base_of_abs_path)
    moreover have "is_abs x \<and> clean x = x" if "ev (abs_path es') = Resolved x" for es' x
      using assms(1) that is_abs_abs_path unfolding clean_fs_def by blast
    ultimately show ?thesis
      using assms(2-4) rejoin_clean
      by (auto simp del: rejoin.simps split: if_splits eval_result.splits)
  qed
qed

text \<open>A validated list of writable paths stays inside the project: every path resolves, and the
  resolved path lies below the resolved project root, element by element, so neither \<open>..\<close>, nor
  a symlink, nor a sibling with the root's name as a prefix leads out of it.\<close>
lemma contained_paths:
  assumes "validateWritablePaths st ev rt paths = None" "p \<in> set paths"
    and "clean_fs ev" "is_abs rt"
  shows "\<exists>r. resolveAncestorSymlink st ev
      (clean (if is_abs p then p else join_paths [effective_root st ev rt, p])) = Inr r \<and>
    prefix (elems (effective_root st ev rt)) (elems r)"
proof -
  let ?R = "effective_root st ev rt"
  let ?q = "clean (if is_abs p then p else join_paths [?R, p])"
  have cr: "is_abs (clean rt)" "clean (clean rt) = clean rt"
    using assms(4) by (simp_all add: is_abs_clean clean_abs elems_abs_path elems_plain)
  have R: "is_abs ?R" "clean ?R = ?R"
    using resolved_abs [OF assms(3) cr] cr by (auto simp: effective_root_def Let_def split: sum.splits)
  have "is_abs (join_paths [?R, p])" using R(1) by (simp add: join_paths_abs is_abs_clean is_abs_append)
  then have q: "is_abs ?q" "clean ?q = ?q" by (simp_all add: is_abs_clean clean_abs elems_abs_path elems_plain)
  have "validateSingleWritablePath st ev ?R p = None"
    using assms(1,2) by (simp add: validateWritablePaths_def first_error_None)
  then obtain r where r: "resolveAncestorSymlink st ev ?q = Inr r"
    "has_prefix (clean r @ [slash]) (?R @ [slash]) \<or> r = ?R"
    by (auto simp: validateSingleWritablePath_def Let_def split: option.splits sum.splits if_splits)
  have cl: "is_abs r" "clean r = r" using resolved_abs [OF assms(3) q r(1)] by simp_all
  have "prefix (elems ?R) (elems r)"
  proof (cases "elems ?R = []")
    case False
    have "r = ?R \<or> has_prefix r (?R @ [slash])"
      using r(2)
    proof
      assume "has_prefix (clean r @ [slash]) (?R @ [slash])"
      then obtain t where t: "r @ [slash] = ?R @ slash # t" using cl(2) by (auto simp: has_prefix_iff)
      show ?thesis
      proof (cases t rule: rev_cases)
        case Nil
        then show ?thesis using t by simp
      next
        case (snoc u c)
        then have "r = ?R @ slash # u" using t by (metis append_Cons append_assoc butlast_snoc)
        then show ?thesis by (simp add: has_prefix_iff)
      qed
    qed simp
    then show ?thesis
      using prefix_abs_path [OF elems_plain [of ?R] elems_plain [of r] False] R cl clean_abs by metis
  qed simp
  with r(1) show ?thesis by blast
qed

text \<open>Two missing elements come back in the wrong order: they are collected front to back and then
  rejoined from the back.\<close>
theorem missing_elements_reversed:
  "resolveAncestorSymlink (\<lambda>p. p = ''/w'') (\<lambda>p. Resolved p) ''/w/new/file.txt'' = Inr ''/w/file.txt/new''"
  by code_simp

text \<open>The protected directories are looked up in the path as written: a link to one is accepted.\<close>
theorem protected_directory_through_link:
  "validateWritablePaths (\<lambda>p. p \<in> {''/w'', ''/w/link''})
     (\<lambda>p. if p = ''/w/link'' then Resolved ''/w/.git'' else Resolved p) ''/w'' [''link''] = None"
  by code_simp

end
