(* ===== verification/LineScan.thy ===== *)
theory LineScan
  imports GoText
begin

text \<open>
  Files of lines, as \<open>bufio.Scanner\<close> with \<open>ScanLines\<close> reads them: lines without their terminator
  and one carriage return. A line that does not fit the buffer, whose largest size is the first
  argument of \<open>lines_within\<close>, ends the scan with an error.
\<close>

definition newline :: char where "newline = CHR 0x0A"

definition drop_cr :: "string \<Rightarrow> string" where
  "drop_cr l = (if l \<noteq> [] \<and> last l = CHR 0x0D then butlast l else l)"

definition raw_lines :: "string \<Rightarrow> string list" where
  "raw_lines s = (let ls = split_on newline s in if last ls = [] then butlast ls else ls)"

definition lines_within :: "nat \<Rightarrow> string \<Rightarrow> string list option" where
  "lines_within cap s =
     (if \<exists>l \<in> set (raw_lines s). length l \<ge> cap then None
      else Some (map drop_cr (raw_lines s)))"

lemma split_newline_append: "newline \<notin> set l \<Longrightarrow> split_on newline (l @ newline # t) = l # split_on newline t"
  by (induction l) auto

lemma split_no_newline: "newline \<notin> set l \<Longrightarrow> split_on newline l = [l]"
  by (induction l) auto

lemma raw_lines_append: "newline \<notin> set l \<Longrightarrow> raw_lines (l @ newline # t) = l # raw_lines t"
  by (auto simp: raw_lines_def split_newline_append Let_def)

lemma raw_lines_single: "newline \<notin> set l \<Longrightarrow> raw_lines l = (if l = [] then [] else [l])"
  by (simp add: raw_lines_def split_no_newline)

text \<open>The text that appending lines one by one leaves.\<close>

definition lines_text :: "string list \<Rightarrow> string" where
  "lines_text ls = concat (map (\<lambda>l. l @ [newline]) ls)"

lemma lines_text_snoc: "lines_text (ls @ [l]) = lines_text ls @ l @ [newline]"
  by (simp add: lines_text_def)

lemma raw_lines_text: "\<forall>l \<in> set ls. newline \<notin> set l \<Longrightarrow> raw_lines (lines_text ls @ t) = ls @ raw_lines t"
  by (induction ls) (simp_all add: lines_text_def raw_lines_append)

lemma lines_within_text:
  assumes "\<forall>l \<in> set ls. newline \<notin> set l \<and> length l < cap \<and> drop_cr l = l"
  shows "lines_within cap (lines_text ls) = Some ls"
proof -
  have "raw_lines (lines_text ls) = ls"
    using raw_lines_text [of ls "[]"] assms by (simp add: raw_lines_single)
  moreover have "map drop_cr ls = ls" using assms by (simp add: map_idI)
  ultimately show ?thesis using assms by (auto simp: lines_within_def)
qed

lemma long_line_ends_scan:
  assumes "\<forall>l \<in> set ls. newline \<notin> set l" "newline \<notin> set l" "cap \<le> length l"
  shows "lines_within cap (lines_text ls @ l @ newline # later) = None"
  using assms raw_lines_text [of ls "l @ newline # later"] by (simp add: lines_within_def raw_lines_append)

end
