(* ===== verification/RunHistory.thy ===== *)
theory RunHistory
  imports BgJobs LineScan "HOL-Library.Multiset"
begin

text \<open>
  Run records and their history, \<open>internal/backgroundjobs/runs.go\<close> (the \<open>Run\<close> type is in
  \<open>job.go\<close>). A history is a file of lines, one JSON text per run; \<open>enc\<close> and \<open>dec\<close>
  are \<open>json.Marshal\<close> and \<open>json.Unmarshal\<close> of a run. \<open>srt key\<close> stands for
  \<open>sort.Slice\<close> by descending key, which sorts but may reorder equal elements. A write may be
  refused or torn, which is also what a crash leaves. Locking makes each call one step.
\<close>

section \<open>Records\<close>

record sandbox_status =
  sb_available :: bool
  sb_network_open :: bool
  sb_file_access :: string
  sb_warnings :: "string list"

record run =
  r_id :: string
  r_job :: string
  r_scheduled :: int
  r_status :: run_status
  r_started :: int
  r_finished :: "int option"
  r_duration :: int
  r_provider :: string
  r_model :: string
  r_prompt :: string
  r_error :: string
  r_output :: string
  r_skipped :: string
  r_log :: string
  r_warnings :: "string list"
  r_sandbox :: sandbox_status
  r_activity_log :: string
  r_activity :: "(int \<times> int \<times> int) option"

record run_store =
  rs_files :: "string \<Rightarrow> string option"
  rs_logs :: "string \<times> string \<Rightarrow> string option"

section \<open>Lines\<close>

text \<open>The scanner keeps \<open>bufio.MaxScanTokenSize\<close>.\<close>

definition maxScanTokenSize :: nat where "maxScanTokenSize = 64 * 1024"

definition scan_lines :: "string \<Rightarrow> string list option" where
  "scan_lines s = lines_within maxScanTokenSize s"

section \<open>Operations\<close>

datatype write_outcome = Written | Refused | Torn nat | Unsynced

definition file_text :: "run_store \<Rightarrow> string \<Rightarrow> string" where
  "file_text s jobID = (case rs_files s jobID of Some t \<Rightarrow> t | None \<Rightarrow> [])"

definition put_file :: "string \<Rightarrow> string \<Rightarrow> run_store \<Rightarrow> run_store" where
  "put_file jobID t s = s\<lparr>rs_files := (rs_files s)(jobID \<mapsto> t)\<rparr>"

definition append_run :: "(run \<Rightarrow> string) \<Rightarrow> write_outcome \<Rightarrow> run \<Rightarrow> run_store \<Rightarrow> bool \<times> run_store" where
  "append_run enc out run s =
     (let data = enc run @ [newline]; old = file_text s (r_job run) in
      case out of
        Refused \<Rightarrow> (False, s)
      | Torn n \<Rightarrow> (False, put_file (r_job run) (old @ take n data) s)
      | Unsynced \<Rightarrow> (False, put_file (r_job run) (old @ data) s)
      | Written \<Rightarrow> (True, put_file (r_job run) (old @ data) s))"

definition parsed_runs :: "(string \<Rightarrow> run option) \<Rightarrow> string list \<Rightarrow> run list" where
  "parsed_runs dec ls = List.map_filter dec (filter (\<lambda>l. l \<noteq> []) ls)"

definition readAll ::
    "(string \<Rightarrow> run option) \<Rightarrow> ((run \<Rightarrow> int) \<Rightarrow> run list \<Rightarrow> run list) \<Rightarrow> string \<Rightarrow> run_store \<Rightarrow> run list option" where
  "readAll dec srt jobID s =
     (case rs_files s jobID of
        None \<Rightarrow> Some []
      | Some t \<Rightarrow>
          (case scan_lines t of None \<Rightarrow> None | Some ls \<Rightarrow> Some (srt r_started (parsed_runs dec ls))))"

definition list_runs ::
    "(string \<Rightarrow> run option) \<Rightarrow> ((run \<Rightarrow> int) \<Rightarrow> run list \<Rightarrow> run list) \<Rightarrow> string \<Rightarrow> run_store \<Rightarrow> run list option" where
  "list_runs dec srt jobID s = readAll dec srt jobID s"

definition latest_run ::
    "(string \<Rightarrow> run option) \<Rightarrow> ((run \<Rightarrow> int) \<Rightarrow> run list \<Rightarrow> run list) \<Rightarrow> string \<Rightarrow> run_store \<Rightarrow> run option option" where
  "latest_run dec srt jobID s =
     (case readAll dec srt jobID s of
        None \<Rightarrow> None
      | Some [] \<Rightarrow> Some None
      | Some (r # _) \<Rightarrow> Some (Some r))"

definition count_runs :: "string \<Rightarrow> run_store \<Rightarrow> nat option" where
  "count_runs jobID s =
     (case rs_files s jobID of
        None \<Rightarrow> Some 0
      | Some t \<Rightarrow>
          (case scan_lines t of None \<Rightarrow> None | Some ls \<Rightarrow> Some (length (filter (\<lambda>l. l \<noteq> []) ls))))"

definition run_file :: "(run \<Rightarrow> string) \<Rightarrow> run list \<Rightarrow> string" where
  "run_file enc rs = concat (map (\<lambda>r. enc r @ [newline]) rs)"

text \<open>The file is truncated and rewritten in place; the logs of the pruned runs are removed after it.
  \<open>unlink\<close> says which removals succeed.\<close>

definition prune_runs ::
    "(run \<Rightarrow> string) \<Rightarrow> (string \<Rightarrow> run option) \<Rightarrow> ((run \<Rightarrow> int) \<Rightarrow> run list \<Rightarrow> run list) \<Rightarrow> bool \<Rightarrow> write_outcome \<Rightarrow>
     (string \<Rightarrow> bool) \<Rightarrow> string \<Rightarrow> nat \<Rightarrow> run_store \<Rightarrow> nat option \<times> run_store" where
  "prune_runs enc dec srt locked out unlink jobID keep s =
     (if \<not> locked then (None, s)
      else
        (case readAll dec srt jobID s of
           None \<Rightarrow> (None, s)
         | Some runs \<Rightarrow>
             if length runs \<le> keep then (Some 0, s)
             else
               let pruned = drop keep runs; t = run_file enc (take keep runs) in
               case out of
                 Refused \<Rightarrow> (None, s)
               | Torn n \<Rightarrow> (None, put_file jobID (take n t) s)
               | Unsynced \<Rightarrow> (None, put_file jobID t s)
               | Written \<Rightarrow>
                   (Some (length pruned),
                    (put_file jobID t s)\<lparr>rs_logs :=
                       (\<lambda>k. if fst k = jobID \<and> snd k \<in> r_id ` set pruned \<and> unlink (snd k)
                            then None else rs_logs s k)\<rparr>)))"

section \<open>Reading back what was written\<close>

definition json_ok :: "(run \<Rightarrow> string) \<Rightarrow> (string \<Rightarrow> run option) \<Rightarrow> run \<Rightarrow> bool" where
  "json_ok enc dec r \<longleftrightarrow> dec (enc r) = Some r \<and> newline \<notin> set (enc r) \<and> enc r \<noteq> [] \<and> last (enc r) = CHR ''}''"

definition sorts :: "((run \<Rightarrow> int) \<Rightarrow> run list \<Rightarrow> run list) \<Rightarrow> bool" where
  "sorts srt \<longleftrightarrow> (\<forall>key xs. mset (srt key xs) = mset xs \<and> sorted_wrt (\<lambda>a b. key a \<ge> key b) (srt key xs))"

lemma raw_lines_file:
  "\<forall>r \<in> set rs. newline \<notin> set (enc r) \<Longrightarrow> raw_lines (run_file enc rs @ t) = map enc rs @ raw_lines t"
  by (induction rs) (simp_all add: run_file_def raw_lines_append)

lemma drop_cr_json: "json_ok enc dec r \<Longrightarrow> drop_cr (enc r) = enc r"
  by (auto simp: json_ok_def drop_cr_def)

lemma map_drop_cr: "\<forall>r \<in> set rs. json_ok enc dec r \<Longrightarrow> map drop_cr (map enc rs) = map enc rs"
  by (induction rs) (auto simp: drop_cr_json)

lemma parsed_runs_file: "\<forall>r \<in> set rs. json_ok enc dec r \<Longrightarrow> parsed_runs dec (map enc rs) = rs"
  by (induction rs) (auto simp: parsed_runs_def json_ok_def List.map_filter_simps)

lemma read_file:
  assumes "rs_files s jobID = Some (run_file enc rs)" "\<forall>r \<in> set rs. json_ok enc dec r"
    and "\<forall>r \<in> set rs. length (enc r) < maxScanTokenSize"
  shows "readAll dec srt jobID s = Some (srt r_started rs)"
proof -
  have raw: "raw_lines (run_file enc rs) = map enc rs"
    using raw_lines_file [of rs enc "[]"] assms(2) by (simp add: json_ok_def raw_lines_single)
  have "map drop_cr (map enc rs) = map enc rs" by (rule map_drop_cr [OF assms(2)])
  then have "scan_lines (run_file enc rs) = Some (map enc rs)"
    using assms(3) by (fastforce simp: scan_lines_def lines_within_def raw)
  then show ?thesis using assms(1,2) by (simp add: readAll_def parsed_runs_file)
qed

lemma run_file_snoc: "run_file enc (rs @ [r]) = run_file enc rs @ enc r @ [newline]"
  by (simp add: run_file_def)

text \<open>A history holds the runs \<open>rs\<close>: the file is absent or one line per run, each readable.\<close>

definition holds :: "(run \<Rightarrow> string) \<Rightarrow> (string \<Rightarrow> run option) \<Rightarrow> string \<Rightarrow> run list \<Rightarrow> run_store \<Rightarrow> bool" where
  "holds enc dec jobID rs s \<longleftrightarrow>
     file_text s jobID = run_file enc rs \<and> (rs = [] \<or> rs_files s jobID \<noteq> None) \<and>
     (\<forall>r \<in> set rs. json_ok enc dec r \<and> length (enc r) < maxScanTokenSize)"

lemma holds_read: "holds enc dec jobID rs s \<Longrightarrow> sorts srt \<Longrightarrow> readAll dec srt jobID s = Some (srt r_started rs)"
proof (cases "rs_files s jobID")
  case None
  assume "holds enc dec jobID rs s" "sorts srt"
  then have "rs = []" "mset (srt r_started []) = {#}" using None by (auto simp: holds_def sorts_def)
  then show ?thesis using None by (simp add: readAll_def)
next
  case (Some t)
  assume "holds enc dec jobID rs s"
  then show ?thesis using Some by (intro read_file [where enc = enc]) (simp_all add: holds_def file_text_def)
qed

lemma file_text_put [simp]: "file_text (put_file jobID t s) k = (if k = jobID then t else file_text s k)"
  by (simp add: file_text_def put_file_def)

text \<open>Every recorded run is listed. After a successful append to a history, the list holds the
  earlier runs and the new one, newest first, and the histories of other jobs are as before.\<close>
theorem append_then_list:
  assumes "holds enc dec (r_job r) rs s" "json_ok enc dec r" "length (enc r) < maxScanTokenSize" "sorts srt"
    and "append_run enc Written r s = (True, s')"
  shows "\<exists>ys. list_runs dec srt (r_job r) s' = Some ys \<and> mset ys = add_mset r (mset rs) \<and>
    sorted_wrt (\<lambda>a b. r_started a \<ge> r_started b) ys \<and>
    (\<forall>k. k \<noteq> r_job r \<longrightarrow> list_runs dec srt k s' = list_runs dec srt k s)"
proof -
  have s': "s' = put_file (r_job r) (file_text s (r_job r) @ enc r @ [newline]) s"
    using assms(5) by (simp add: append_run_def Let_def)
  have "holds enc dec (r_job r) (rs @ [r]) s'"
    using assms(1-3) by (auto simp: s' holds_def run_file_snoc) (simp_all add: put_file_def)
  then have l: "list_runs dec srt (r_job r) s' = Some (srt r_started (rs @ [r]))"
    using holds_read assms(4) by (simp add: list_runs_def)
  have "rs_files s' k = rs_files s k" if "k \<noteq> r_job r" for k using that by (simp add: s' put_file_def)
  then show ?thesis
    using l assms(4) by (auto simp: sorts_def list_runs_def readAll_def)
qed

text \<open>Pruning keeps the most recent runs: exactly \<open>keep\<close> remain, none of them older than a
  removed one, and only the logs of removed runs are deleted.\<close>
theorem prune_keeps_recent:
  assumes "holds enc dec jobID rs s" "sorts srt" "keep < length rs"
    and "prune_runs enc dec srt True Written unlink jobID keep s = (n, s')"
  shows "\<exists>kept removed. mset rs = mset kept + mset removed \<and> length kept = keep \<and> n = Some (length removed) \<and>
    (\<exists>ys. list_runs dec srt jobID s' = Some ys \<and> mset ys = mset kept) \<and>
    (\<forall>a \<in> set kept. \<forall>b \<in> set removed. r_started b \<le> r_started a) \<and>
    (\<forall>j i. rs_logs s' (j, i) \<noteq> rs_logs s (j, i) \<longrightarrow> j = jobID \<and> i \<in> r_id ` set removed)"
proof -
  let ?runs = "srt r_started rs"
  have m: "mset ?runs = mset rs" "sorted_wrt (\<lambda>a b. r_started a \<ge> r_started b) ?runs"
    using assms(2) by (simp_all add: sorts_def)
  then have len: "length ?runs = length rs" "set ?runs = set rs" by (metis size_mset) (metis m(1) set_mset_mset)
  have res: "n = Some (length (drop keep ?runs))"
    "file_text s' jobID = run_file enc (take keep ?runs)" "rs_files s' jobID \<noteq> None"
    "\<forall>j i. rs_logs s' (j, i) \<noteq> rs_logs s (j, i) \<longrightarrow> j = jobID \<and> i \<in> r_id ` set (drop keep ?runs)"
    using assms(3,4) len(1) holds_read [OF assms(1,2)]
    by (auto simp: prune_runs_def Let_def put_file_def file_text_def split: if_splits)
  have "holds enc dec jobID (take keep ?runs) s'"
    using res(2,3) assms(1) len(2) by (auto simp: holds_def dest!: in_set_takeD)
  then have l: "list_runs dec srt jobID s' = Some (srt r_started (take keep ?runs))"
    using holds_read assms(2) by (simp add: list_runs_def)
  have split: "mset rs = mset (take keep ?runs) + mset (drop keep ?runs)"
    using m(1) by (metis append_take_drop_id mset_append)
  have "sorted_wrt (\<lambda>a b. r_started a \<ge> r_started b) (take keep ?runs @ drop keep ?runs)" using m(2) by simp
  then have "\<forall>a \<in> set (take keep ?runs). \<forall>b \<in> set (drop keep ?runs). r_started b \<le> r_started a"
    by (simp only: sorted_wrt_append) blast
  then show ?thesis
    using split res l len(1) assms(2,3)
    by (intro exI [of _ "take keep ?runs"] exI [of _ "drop keep ?runs"]) (auto simp: sorts_def)
qed

section \<open>Damaged histories\<close>

lemma append_text:
  "append_run enc Written r s = (True, put_file (r_job r) (file_text s (r_job r) @ enc r @ [newline]) s)"
  by (simp add: append_run_def Let_def)

text \<open>A torn append also costs the next record. The part of a line that reached the file has no
  newline, so the following record is written onto the same line, which does not parse: the list
  shows neither.\<close>
theorem torn_append_swallows_next:
  assumes "holds enc dec (r_job r) rs s" "sorts srt" "json_ok enc dec r" "json_ok enc dec r2" "r_job r2 = r_job r"
    and "n \<le> length (enc r)" "n + length (enc r2) < maxScanTokenSize"
    and "dec (take n (enc r) @ enc r2) = None"
  shows "list_runs dec srt (r_job r)
      (snd (append_run enc Written r2 (snd (append_run enc (Torn n) r s)))) = Some (srt r_started rs)"
proof -
  let ?s = "snd (append_run enc Written r2 (snd (append_run enc (Torn n) r s)))"
  let ?l = "take n (enc r) @ enc r2"
  have "rs_files ?s (r_job r) = Some (run_file enc rs @ ?l @ [newline])"
    using assms(1,5,6) by (simp add: append_run_def Let_def put_file_def holds_def file_text_def)
  moreover have nl: "newline \<notin> set ?l" "\<forall>x \<in> set rs. newline \<notin> set (enc x)"
    using assms(1,3,4) by (auto simp: json_ok_def holds_def dest: in_set_takeD)
  then have raw: "raw_lines (run_file enc rs @ ?l @ [newline]) = map enc rs @ [?l]"
    using raw_lines_file [of rs enc "?l @ [newline]"] raw_lines_append [of ?l "[]"] by (simp add: raw_lines_single)
  have "last ?l = CHR ''}''" "?l \<noteq> []" using assms(4) by (auto simp: json_ok_def)
  then have cr: "drop_cr ?l = ?l" by (simp add: drop_cr_def)
  have "\<forall>x \<in> set rs. json_ok enc dec x" using assms(1) by (simp add: holds_def)
  then have "map drop_cr (map enc rs) = map enc rs" by (rule map_drop_cr)
  then have scan: "scan_lines (run_file enc rs @ ?l @ [newline]) = Some (map enc rs @ [?l])"
    using assms(1,6,7) cr unfolding scan_lines_def lines_within_def raw by (fastforce simp: holds_def)
  have "parsed_runs dec (map enc rs @ [?l]) = parsed_runs dec (map enc rs)"
    using assms(8) by (simp add: parsed_runs_def List.map_filter_def)
  then have "parsed_runs dec (map enc rs @ [?l]) = rs"
    using assms(1) by (simp add: holds_def parsed_runs_file)
  ultimately show ?thesis using scan by (simp add: list_runs_def readAll_def)
qed

text \<open>One oversize record blocks a history. From a line of 64 KiB on, listing, counting and
  pruning fail, whatever is appended later, so the retention limit is never enforced again.\<close>
theorem oversize_record_blocks_history:
  assumes "maxScanTokenSize \<le> length (enc r)" "newline \<notin> set (enc r)"
    and "rs_files s jobID = Some (run_file enc rs @ enc r @ newline # later)"
    and "\<forall>x \<in> set rs. newline \<notin> set (enc x)"
  shows "list_runs dec srt jobID s = None \<and> latest_run dec srt jobID s = None \<and> count_runs jobID s = None \<and>
    prune_runs enc dec srt locked out unlink jobID keep s = (None, s)"
proof -
  have "raw_lines (run_file enc rs @ enc r @ newline # later) = map enc rs @ enc r # raw_lines later"
    using raw_lines_file [OF assms(4)] raw_lines_append [OF assms(2)] by simp
  then have "scan_lines (run_file enc rs @ enc r @ newline # later) = None"
    using assms(1) by (simp add: scan_lines_def lines_within_def)
  then have "readAll dec srt jobID s = None" "count_runs jobID s = None"
    using assms(3) by (simp_all add: readAll_def count_runs_def)
  then show ?thesis by (simp add: list_runs_def latest_run_def prune_runs_def)
qed

section \<open>Instances\<close>

definition sample_run :: "string \<Rightarrow> int \<Rightarrow> run" where
  "sample_run i t = \<lparr>r_id = i, r_job = ''j'', r_scheduled = t, r_status = RunCompleted, r_started = t,
     r_finished = Some t, r_duration = 0, r_provider = [], r_model = [], r_prompt = [], r_error = [],
     r_output = [], r_skipped = [], r_log = [], r_warnings = [],
     r_sandbox = \<lparr>sb_available = True, sb_network_open = True, sb_file_access = [], sb_warnings = []\<rparr>,
     r_activity_log = [], r_activity = None\<rparr>"

definition run_a :: run where "run_a = sample_run ''a'' 1"
definition run_b :: run where "run_b = sample_run ''b'' 2"

definition sample_enc :: "run \<Rightarrow> string" where "sample_enc r = ''{'' @ r_id r @ ''}''"

definition sample_dec :: "string \<Rightarrow> run option" where
  "sample_dec s = (if s = ''{a}'' then Some run_a else if s = ''{b}'' then Some run_b else None)"

definition newest_first :: "(run \<Rightarrow> int) \<Rightarrow> run list \<Rightarrow> run list" where
  "newest_first key rs = rev (sort_key key rs)"

lemma newest_first_sorts: "sorts newest_first"
proof -
  have "sorted_wrt (\<lambda>a b. key b \<le> key a) (rev (sort_key key rs))" for key :: "run \<Rightarrow> int" and rs :: "run list"
    using sorted_sort_key [of key rs] by (simp add: sorted_wrt_rev sorted_map)
  then show ?thesis by (simp add: sorts_def newest_first_def)
qed

definition empty_store :: run_store where
  "empty_store = \<lparr>rs_files = (\<lambda>_. None), rs_logs = (\<lambda>_. None)\<rparr>"

definition sample_store :: run_store where
  "sample_store = put_file ''j'' (run_file sample_enc [run_a, run_b]) empty_store"

lemma sample_runs [simp]:
  "r_job run_a = ''j''" "r_job run_b = ''j''" "r_started run_a = 1" "r_started run_b = 2"
  "sample_enc run_a = ''{a}''" "sample_enc run_b = ''{b}''"
  by (simp_all add: run_a_def run_b_def sample_run_def sample_enc_def)

lemma sample_json [simp]: "json_ok sample_enc sample_dec run_a" "json_ok sample_enc sample_dec run_b"
  by (simp_all add: json_ok_def sample_dec_def newline_def)

lemma sample_holds:
  "holds sample_enc sample_dec ''j'' [] empty_store" "holds sample_enc sample_dec ''j'' [run_a, run_b] sample_store"
  by (simp_all add: holds_def sample_store_def maxScanTokenSize_def)
     (simp_all add: file_text_def empty_store_def run_file_def put_file_def)

theorem append_then_list_witness:
  "\<exists>s' ys. append_run sample_enc Written run_a empty_store = (True, s') \<and>
     list_runs sample_dec newest_first ''j'' s' = Some ys \<and> mset ys = {#run_a#}"
proof -
  have h: "holds sample_enc sample_dec (r_job run_a) [] empty_store" using sample_holds by simp
  have len: "length (sample_enc run_a) < maxScanTokenSize" by (simp add: maxScanTokenSize_def)
  from append_then_list [OF h sample_json(1) len newest_first_sorts append_text] show ?thesis
    using append_text [of sample_enc run_a empty_store] by fastforce
qed

theorem prune_keeps_recent_witness:
  "\<exists>s' kept removed. prune_runs sample_enc sample_dec newest_first True Written (\<lambda>_. True) ''j'' 1 sample_store
       = (Some 1, s') \<and> {#run_a, run_b#} = mset kept + mset removed \<and> length kept = 1 \<and> length removed = 1"
proof -
  obtain n s' where p: "prune_runs sample_enc sample_dec newest_first True Written (\<lambda>_. True) ''j'' 1 sample_store = (n, s')"
    by fastforce
  have "1 < length [run_a, run_b]" by simp
  from prune_keeps_recent [OF sample_holds(2) newest_first_sorts this p] obtain kept removed where
    k: "mset [run_a, run_b] = mset kept + mset removed" "length kept = 1" "n = Some (length removed)" by blast
  have "size (mset [run_a, run_b]) = size (mset kept) + size (mset removed)" by (simp only: k(1) size_union)
  then have "length removed = 1" using k(2) by simp
  then show ?thesis using k p by (intro exI [of _ s'] exI [of _ kept] exI [of _ removed]) simp
qed

theorem torn_append_swallows_next_witness:
  "list_runs sample_dec newest_first ''j''
     (snd (append_run sample_enc Written run_b (snd (append_run sample_enc (Torn 1) run_a empty_store)))) = Some []"
proof -
  have h: "holds sample_enc sample_dec (r_job run_a) [] empty_store" using sample_holds by simp
  have "sample_dec (take 1 (sample_enc run_a) @ sample_enc run_b) = None" by (simp add: sample_dec_def)
  with torn_append_swallows_next [OF h newest_first_sorts sample_json, of 1] show ?thesis
    by (simp add: maxScanTokenSize_def newest_first_def)
qed

theorem oversize_record_blocks_history_witness:
  "\<exists>s. rs_files s ''j'' \<noteq> None \<and> list_runs sample_dec newest_first ''j'' s = None"
proof -
  let ?r = "run_a\<lparr>r_id := replicate 65536 CHR ''x''\<rparr>"
  let ?s = "put_file ''j'' (run_file sample_enc [] @ sample_enc ?r @ newline # []) empty_store"
  have len: "maxScanTokenSize \<le> length (sample_enc ?r)" by (simp add: sample_enc_def maxScanTokenSize_def)
  have nl: "newline \<notin> set (sample_enc ?r)" by (simp add: sample_enc_def newline_def)
  have s: "rs_files ?s ''j'' = Some (run_file sample_enc [] @ sample_enc ?r @ newline # [])" by (simp add: put_file_def)
  show ?thesis
    using oversize_record_blocks_history [OF len nl s, of sample_dec newest_first] s by auto
qed

end
