(* ===== verification/JobRunner.thy ===== *)
theory JobRunner
  imports Reconcile JobPerms RunHistory
begin

text \<open>
  Running one background job, \<open>internal/backgroundjobs/runner.go\<close>. \<open>exec_env\<close> holds what
  is outside: the clock, random identifiers, the provider registry and configuration, the file
  system, the sandbox, and the provider session, a function from the request it is started with
  to its outcome. Error texts of other packages are given by \<open>x_text\<close>. \<open>prepare\<close> covers
  the call up to the claim under the job's lock, \<open>conduct\<close> the session and everything after
  it; deferred calls run in the order of the code. Logging is not modelled.
\<close>

section \<open>Environment and world\<close>

datatype exec_error =
    LoadFailure store_error | NoSuchJob string | BadSchedule schedule_error | UnsafeProvider string
  | NoWritablePaths | BadWritablePaths writable_error | BadFileAccess string | ConfigFailure | LockFailure

record audit_event =
  ae_event :: string
  ae_job :: string
  ae_run :: string
  ae_detail :: string

record exec_request =
  q_project_write :: bool
  q_writable_dirs :: "string list"
  q_read_only :: bool
  q_system :: string
  q_model :: string
  q_prompt :: string
  q_work_dir :: string
  q_timeout :: int

datatype session_error = DeadlineExceeded | ContextCanceled | OtherError

text \<open>The flag says whether the provider got as far as the session set-up; the triple is the
  summary of the activity monitor.\<close>

datatype session_outcome =
    SessionOk string "(int \<times> int \<times> int) option"
  | SessionErr bool string session_error string "(int \<times> int \<times> int) option"
  | SessionPanic bool string

record 'os exec_env =
  x_started :: int
  x_finished :: int
  x_run_id :: "string option"
  x_early_id :: string
  x_caps :: "string \<Rightarrow> bool"
  x_stat :: "string \<Rightarrow> bool"
  x_eval :: "string \<Rightarrow> eval_result"
  x_lower :: "string \<Rightarrow> string"
  x_zones :: "string \<Rightarrow> location option"
  x_config :: "string \<Rightarrow> string option"
  x_repair :: "('os scheduler \<times> (schedule_spec \<Rightarrow> string) \<times> string) option"
  x_sandboxed :: bool
  x_windows :: bool
  x_platform :: string
  x_wsl :: bool
  x_interop :: "string \<Rightarrow> bool"
  x_lock :: bool
  x_session :: "exec_request \<Rightarrow> session_outcome"
  x_deadline :: "int option"
  x_alive_after :: bool
  x_store :: store_env
  x_append :: write_outcome
  x_prune :: "bool \<times> write_outcome \<times> (string \<Rightarrow> bool)"
  x_audit :: bool
  x_write_log :: bool
  x_runs_dir :: string
  x_text :: "exec_error \<Rightarrow> string"
  x_enc :: "run \<Rightarrow> string"
  x_dec :: "string \<Rightarrow> run option"
  x_sort :: "(run \<Rightarrow> int) \<Rightarrow> run list \<Rightarrow> run list"

record 'os exec_world =
  ew_sys :: "'os system"
  ew_runs :: run_store
  ew_audit :: "audit_event list"

section \<open>Helpers\<close>

definition MaxPromptSnapshotRunes :: nat where "MaxPromptSnapshotRunes = 500"
definition MaxOutputSummaryRunes :: nat where "MaxOutputSummaryRunes = 500"
definition defaultRunRetention :: nat where "defaultRunRetention = 100"

definition truncateUTF8 :: "string \<Rightarrow> nat \<Rightarrow> string" where
  "truncateUTF8 s n = (if rune_count s \<le> n then s else encode_runes (take n (runes s)))"

definition backgroundSystemMessage :: string where
  "backgroundSystemMessage =
     ''You are running as a scheduled Dreamer background job.'' @ [newline] @
     ''Follow the user's prompt exactly.'' @ [newline] @
     ''Only write files allowed by the configured Dreamer permissions.'' @ [newline] @
     ''Do not ask interactive questions.'' @ [newline] @
     ''If the task cannot be completed, explain why in the final output.''"

definition buildBackgroundSystemMessage :: "bg_job \<Rightarrow> string" where
  "buildBackgroundSystemMessage job =
     (let p = j_permissions job in
      if pp_file_access p = FileAccessSelectedWrites \<and> pp_writable_paths p \<noteq> [] then
        backgroundSystemMessage @ [newline, newline] @ ''You may write to these specific files only:'' @ [newline] @
        concat (map (\<lambda>w. ''  - '' @ w @ [newline]) (pp_writable_paths p)) @ ''Do not write to any other files.''
      else if pp_file_access p = FileAccessFullWorkspace then
        backgroundSystemMessage @ [newline, newline] @ ''You may write to any file within the project directory.''
      else backgroundSystemMessage)"

definition isCLIProvider :: "string \<Rightarrow> bool" where
  "isCLIProvider i \<longleftrightarrow> i \<in> {''claude-cli'', ''openclaude-cli'', ''gemini-cli'', ''codex-cli''}"

definition audit :: "'os exec_env \<Rightarrow> string \<Rightarrow> string \<Rightarrow> string \<Rightarrow> string \<Rightarrow> 'os exec_world \<Rightarrow> 'os exec_world" where
  "audit env event jobID runID detail w =
     (if x_audit env
      then w\<lparr>ew_audit := ew_audit w @ [\<lparr>ae_event = event, ae_job = jobID, ae_run = runID, ae_detail = detail\<rparr>]\<rparr>
      else w)"

definition record_run :: "'os exec_env \<Rightarrow> run \<Rightarrow> 'os exec_world \<Rightarrow> 'os exec_world" where
  "record_run env r w = w\<lparr>ew_runs := snd (append_run (x_enc env) (x_append env) r (ew_runs w))\<rparr>"

definition no_sandbox :: sandbox_status where
  "no_sandbox = \<lparr>sb_available = False, sb_network_open = False, sb_file_access = [], sb_warnings = []\<rparr>"

definition blank_run :: "string \<Rightarrow> string \<Rightarrow> run_status \<Rightarrow> int \<Rightarrow> string \<Rightarrow> run" where
  "blank_run i jobID status t prov =
     \<lparr>r_id = i, r_job = jobID, r_scheduled = t, r_status = status, r_started = t, r_finished = None,
      r_duration = 0, r_provider = prov, r_model = [], r_prompt = [], r_error = [], r_output = [],
      r_skipped = [], r_log = [], r_warnings = [], r_sandbox = no_sandbox, r_activity_log = [], r_activity = None\<rparr>"

definition recordEarlyFailure ::
    "'os exec_env \<Rightarrow> string \<Rightarrow> string \<Rightarrow> exec_error \<Rightarrow> 'os exec_world \<Rightarrow> 'os exec_world" where
  "recordEarlyFailure env jobID prov e w =
     (let t = x_started env;
          r = (blank_run (x_early_id env) jobID RunFailed t prov)\<lparr>r_finished := Some t, r_error := x_text env e\<rparr>
      in audit env ''job.run.early_failure'' jobID (r_id r) (x_text env e) (record_run env r w))"

definition skipped_run :: "'os exec_env \<Rightarrow> string \<Rightarrow> bg_job \<Rightarrow> run" where
  "skipped_run env jobID job =
     (blank_run (x_early_id env) jobID RunSkipped (x_started env) (j_provider job))\<lparr>r_skipped := ''job is disabled''\<rparr>"

section \<open>Validation\<close>

definition validate_access :: "'os exec_env \<Rightarrow> bg_job \<Rightarrow> exec_error option" where
  "validate_access env job =
     (let access = pp_file_access (j_permissions job); paths = pp_writable_paths (j_permissions job) in
      if access = FileAccessReadOnly then None
      else if access = FileAccessSelectedWrites then
        (if paths = [] then Some NoWritablePaths
         else map_option BadWritablePaths
                (validateWritablePaths (x_stat env) (x_eval env) (j_project_path job) paths))
      else if access = FileAccessFullWorkspace then None
      else Some (BadFileAccess access))"

text \<open>Of an enabled job.\<close>

definition validateJob :: "'os exec_env \<Rightarrow> bg_job \<Rightarrow> exec_error option" where
  "validateJob env job =
     (case validateSchedule (x_lower env) (x_zones env) (j_schedule job) of
        Some e \<Rightarrow> Some (BadSchedule e)
      | None \<Rightarrow>
          if \<not> x_caps env (j_provider job) then Some (UnsafeProvider (j_provider job))
          else validate_access env job)"

definition resolve_model :: "'os exec_env \<Rightarrow> bg_job \<Rightarrow> string option" where
  "resolve_model env job =
     map_option (\<lambda>m. if j_model job \<noteq> [] then j_model job else m) (x_config env (j_provider job))"

section \<open>The run record and the request\<close>

definition em_dash :: string where "em_dash = [CHR 0xE2, CHR 0x80, CHR 0x94]"

definition network_warning :: string where
  "network_warning = ''Network is open '' @ em_dash @ '' external connections are not restricted''"

definition workspace_warning :: string where
  "workspace_warning = ''Full workspace access '' @ em_dash @ '' provider can write to project files''"

definition run_warnings :: "'os exec_env \<Rightarrow> bg_job \<Rightarrow> string list" where
  "run_warnings env job =
     (if \<not> x_sandboxed env \<and> isCLIProvider (j_provider job)
      then [''OS sandbox unavailable on this platform ('' @ x_platform env @ ''); '' @
            ''background job runs fully permissive with no file access restrictions''] else []) @
     (if x_wsl env \<and> x_interop env (j_project_path job)
      then [''Workspace is on the Windows filesystem via WSL interop (/mnt/...); '' @
            ''runs will be slow and Windows-side provider CLIs cannot access this path''] else [])"

definition late_warnings :: "'os exec_env \<Rightarrow> bg_job \<Rightarrow> string list" where
  "late_warnings env job =
     (if x_sandboxed env \<and> x_windows env then [network_warning] else []) @
     (if pp_file_access (j_permissions job) = FileAccessFullWorkspace then [workspace_warning] else [])"

definition new_run :: "'os exec_env \<Rightarrow> string \<Rightarrow> string \<Rightarrow> bg_job \<Rightarrow> string \<Rightarrow> run" where
  "new_run env runID jobID job model =
     (let early = run_warnings env job; late = late_warnings env job in
      (blank_run runID jobID RunRunning (x_started env) (j_provider job))
        \<lparr>r_model := model, r_prompt := truncateUTF8 (j_prompt job) MaxPromptSnapshotRunes,
         r_warnings := early @ late,
         r_sandbox := \<lparr>sb_available = x_sandboxed env, sb_network_open = True,
           sb_file_access = pp_file_access (j_permissions job),
           sb_warnings = (if x_sandboxed env then [] else early) @ late\<rparr>\<rparr>)"

definition session_timeout :: "'os exec_env \<Rightarrow> bg_job \<Rightarrow> int" where
  "session_timeout env job =
     (case x_deadline env of
        Some d \<Rightarrow> if d \<le> 0 then defaultTimeoutFor (j_schedule job) else d
      | None \<Rightarrow> defaultTimeoutFor (j_schedule job))"

definition request_for :: "'os exec_env \<Rightarrow> bg_job \<Rightarrow> string \<Rightarrow> exec_request" where
  "request_for env job model =
     (let access = pp_file_access (j_permissions job); paths = pp_writable_paths (j_permissions job) in
      \<lparr>q_project_write = (access = FileAccessFullWorkspace),
       q_writable_dirs = (if access = FileAccessSelectedWrites then paths else []),
       q_read_only = (access = FileAccessReadOnly),
       q_system = buildBackgroundSystemMessage job, q_model = model, q_prompt = j_prompt job,
       q_work_dir = j_project_path job, q_timeout = session_timeout env job\<rparr>)"

section \<open>The call\<close>

text \<open>\<open>ZeroResult\<close> is the zero result with a nil error that a recovered panic leaves.\<close>

datatype run_outcome = Failed exec_error | NoRunID | Recorded run | ZeroResult

definition self_repair :: "'os exec_env \<Rightarrow> string \<Rightarrow> 'os system \<Rightarrow> 'os system" where
  "self_repair env jobID sys =
     (case x_repair env of
        None \<Rightarrow> sys
      | Some (sch, hs, configHash) \<Rightarrow> snd (selfRepair hs configHash sch (x_store env) (x_started env) jobID sys))"

definition prepare ::
    "'os exec_env \<Rightarrow> string \<Rightarrow> 'os exec_world \<Rightarrow>
     (run_outcome \<times> 'os exec_world) + (bg_job \<times> run \<times> 'os exec_world)" where
  "prepare env jobID w =
     (case load_jobs (sys_jobs (ew_sys w)) of
        Inl e \<Rightarrow> Inl (Failed (LoadFailure e), recordEarlyFailure env jobID [] (LoadFailure e) w)
      | Inr st \<Rightarrow>
          (case job_of st jobID of
             None \<Rightarrow> Inl (Failed (NoSuchJob jobID), recordEarlyFailure env jobID [] (NoSuchJob jobID) w)
           | Some job \<Rightarrow>
               if \<not> j_enabled job then
                 (let r = skipped_run env jobID job in
                  Inl (Recorded r, audit env ''job.run.skipped'' jobID (r_id r) ''job is disabled'' (record_run env r w)))
               else
                 (case validateJob env job of
                    Some e \<Rightarrow> Inl (Failed e, recordEarlyFailure env jobID (j_provider job) e w)
                  | None \<Rightarrow>
                      (case resolve_model env job of
                         None \<Rightarrow> Inl (Failed ConfigFailure, recordEarlyFailure env jobID (j_provider job) ConfigFailure w)
                       | Some model \<Rightarrow>
                           (let w1 = w\<lparr>ew_sys := self_repair env jobID (ew_sys w)\<rparr> in
                            case x_run_id env of
                              None \<Rightarrow> Inl (NoRunID, w1)
                            | Some runID \<Rightarrow>
                                let r = new_run env runID jobID job model in
                                if \<not> x_lock env then
                                  (let r' = r\<lparr>r_status := RunFailed, r_error := x_text env LockFailure,
                                       r_finished := Some (x_finished env),
                                       r_duration := go_div (time_sub (x_finished env) (x_started env)) 1000000\<rparr>
                                   in Inl (Recorded r', record_run env r' w1))
                                else Inr (job, r, audit env ''job.run.claim'' jobID runID [] w1))))))"

definition finish_times :: "'os exec_env \<Rightarrow> run \<Rightarrow> run" where
  "finish_times env r =
     r\<lparr>r_finished := Some (x_finished env),
       r_duration := go_div (time_sub (x_finished env) (x_started env)) 1000000\<rparr>"

definition status_of :: "session_error \<Rightarrow> run_status" where
  "status_of e =
     (case e of DeadlineExceeded \<Rightarrow> RunTimedOut | ContextCanceled \<Rightarrow> RunCancelled | OtherError \<Rightarrow> RunFailed)"

definition after_run :: "'os exec_env \<Rightarrow> run \<Rightarrow> bg_job \<Rightarrow> bg_job" where
  "after_run env r j =
     j\<lparr>j_last_run := Some (x_finished env),
       j_next_run := Some (case nextRun (x_lower env) (x_zones env) (j_schedule j) (x_finished env) of
                             Inr t \<Rightarrow> t | Inl _ \<Rightarrow> zero_time),
       j_health := (j_health j)\<lparr>hs_run_state := r_status r\<rparr>,
       j_updated := x_finished env\<rparr>"

text \<open>The update uses the context of the run, which may have expired by then.\<close>

definition updateJobAfterRun :: "'os exec_env \<Rightarrow> string \<Rightarrow> run \<Rightarrow> 'os system \<Rightarrow> 'os system" where
  "updateJobAfterRun env jobID r sys =
     (case store_update ((x_store env)\<lparr>se_alive := x_alive_after env\<rparr>)
             (\<lambda>s. case job_of s jobID of None \<Rightarrow> Inr s
                 | Some j \<Rightarrow> (Inr (put_job jobID (after_run env r j) s) :: job_error + jobs_state))
             (sys_jobs sys) of
        Inl _ \<Rightarrow> sys
      | Inr dir \<Rightarrow> sys\<lparr>sys_jobs := dir\<rparr>)"

definition status_text :: "run_status \<Rightarrow> string" where
  "status_text s =
     (case s of RunRunning \<Rightarrow> ''running'' | RunCompleted \<Rightarrow> ''completed'' | RunFailed \<Rightarrow> ''failed''
      | RunTimedOut \<Rightarrow> ''timed_out'' | RunCancelled \<Rightarrow> ''cancelled'' | RunSkipped \<Rightarrow> ''skipped''
      | RunIdle \<Rightarrow> ''idle'' | RunNeverRun \<Rightarrow> ''never_run'' | RunOther t \<Rightarrow> t)"

text \<open>The deferred call: the record is appended, then the history is pruned.\<close>

definition persist_run :: "'os exec_env \<Rightarrow> string \<Rightarrow> run \<Rightarrow> 'os exec_world \<Rightarrow> 'os exec_world" where
  "persist_run env jobID r w =
     (let w1 = record_run env r w in
      case x_prune env of (locked, out, unlink) \<Rightarrow>
        w1\<lparr>ew_runs := snd (prune_runs (x_enc env) (x_dec env) (x_sort env) locked out unlink jobID
                             defaultRunRetention (ew_runs w1))\<rparr>)"

definition activity_path :: "'os exec_env \<Rightarrow> string \<Rightarrow> string \<Rightarrow> string" where
  "activity_path env jobID runID = join_paths [x_runs_dir env, jobID, runID @ ''.activity.jsonl'']"

definition log_path :: "'os exec_env \<Rightarrow> string \<Rightarrow> string \<Rightarrow> string" where
  "log_path env jobID runID = join_paths [join_paths [x_runs_dir env, jobID], runID @ ''.log'']"

definition write_log :: "'os exec_env \<Rightarrow> string \<Rightarrow> string \<Rightarrow> 'os exec_world \<Rightarrow> 'os exec_world" where
  "write_log env jobID output w =
     (case x_run_id env of
        Some runID \<Rightarrow>
          if x_write_log env
          then w\<lparr>ew_runs := (ew_runs w)\<lparr>rs_logs := (rs_logs (ew_runs w))((jobID, runID) \<mapsto> output)\<rparr>\<rparr>
          else w
      | None \<Rightarrow> w)"

definition finished_run :: "'os exec_env \<Rightarrow> string \<Rightarrow> bool \<Rightarrow> string \<Rightarrow> (session_error \<times> string) option \<Rightarrow>
    (int \<times> int \<times> int) option \<Rightarrow> run \<Rightarrow> run" where
  "finished_run env jobID opened output err activity r =
     (finish_times env r)\<lparr>
        r_activity_log := (if opened then activity_path env jobID (r_id r) else []), r_activity := activity,
        r_output := truncateUTF8 output MaxOutputSummaryRunes,
        r_log := (if x_write_log env then log_path env jobID (r_id r) else []),
        r_status := (case err of None \<Rightarrow> RunCompleted | Some (e, _) \<Rightarrow> status_of e),
        r_error := (case err of None \<Rightarrow> [] | Some (_, msg) \<Rightarrow> msg)\<rparr>"

definition conclude ::
    "'os exec_env \<Rightarrow> string \<Rightarrow> bool \<Rightarrow> string \<Rightarrow> (session_error \<times> string) option \<Rightarrow> (int \<times> int \<times> int) option \<Rightarrow>
     run \<Rightarrow> 'os exec_world \<Rightarrow> run_outcome \<times> 'os exec_world" where
  "conclude env jobID opened output err activity r w =
     (let r' = finished_run env jobID opened output err activity r;
          w1 = write_log env jobID output w;
          w2 = w1\<lparr>ew_sys := updateJobAfterRun env jobID r' (ew_sys w1)\<rparr>;
          w3 = audit env ''job.run.finish'' jobID (r_id r') (status_text (r_status r')) w2
      in (Recorded r', persist_run env jobID r' w3))"

definition conduct ::
    "'os exec_env \<Rightarrow> string \<Rightarrow> bg_job \<Rightarrow> run \<Rightarrow> 'os exec_world \<Rightarrow> run_outcome \<times> 'os exec_world" where
  "conduct env jobID job r w =
     (case x_session env (request_for env job (r_model r)) of
        SessionOk output activity \<Rightarrow> conclude env jobID True output None activity r w
      | SessionErr opened output e msg activity \<Rightarrow> conclude env jobID opened output (Some (e, msg)) activity r w
      | SessionPanic opened msg \<Rightarrow>
          (let r' = (finish_times env r)\<lparr>
                 r_activity_log := (if opened then activity_path env jobID (r_id r) else []),
                 r_status := RunFailed, r_error := ''panic: '' @ msg\<rparr>
           in (ZeroResult, persist_run env jobID r' w)))"

definition exec_run :: "'os exec_env \<Rightarrow> string \<Rightarrow> 'os exec_world \<Rightarrow> run_outcome \<times> 'os exec_world" where
  "exec_run env jobID w =
     (case prepare env jobID w of
        Inl x \<Rightarrow> x
      | Inr (job, r, w1) \<Rightarrow> conduct env jobID job r w1)"

section \<open>Every call leaves a trace\<close>

definition terminal_status :: "run_status \<Rightarrow> bool" where
  "terminal_status s \<longleftrightarrow> s \<in> {RunCompleted, RunFailed, RunTimedOut, RunCancelled, RunSkipped}"

lemma audit_runs [simp]: "ew_runs (audit env e j r d w) = ew_runs w" "ew_sys (audit env e j r d w) = ew_sys w"
  by (simp_all add: audit_def)

lemma record_sys [simp]: "ew_sys (record_run env r w) = ew_sys w" "ew_sys (persist_run env jobID r w) = ew_sys w"
  "ew_sys (write_log env jobID t w) = ew_sys w"
  by (simp_all add: record_run_def persist_run_def write_log_def Let_def split: prod.splits option.splits)

lemma blank_run_sel [simp]:
  "r_job (blank_run i j s t p) = j" "r_status (blank_run i j s t p) = s" "r_id (blank_run i j s t p) = i"
  by (simp_all add: blank_run_def)

text \<open>The record \<open>r\<close> was appended to the job's history \<open>t\<close>, which may have been pruned after.\<close>

definition appended :: "'os exec_env \<Rightarrow> run \<Rightarrow> string \<Rightarrow> run_store \<Rightarrow> bool" where
  "appended env r t s' \<longleftrightarrow>
     (\<exists>s. file_text s (r_job r) = t @ x_enc env r @ [newline] \<and>
        (s' = s \<or> (\<exists>locked out unlink. s' = snd (prune_runs (x_enc env) (x_dec env) (x_sort env) locked out unlink
                     (r_job r) defaultRunRetention s))))"

lemma record_appended:
  "x_append env = Written \<Longrightarrow> t = file_text (ew_runs w) (r_job r) \<Longrightarrow>
     appended env r t (ew_runs (record_run env r w))"
  unfolding appended_def
  by (rule exI [of _ "ew_runs (record_run env r w)"]) (simp add: record_run_def append_text)

lemma early_appended:
  assumes "x_append env = Written"
  shows "\<exists>r. r_job r = jobID \<and> terminal_status (r_status r) \<and>
    appended env r (file_text (ew_runs w) jobID) (ew_runs (recordEarlyFailure env jobID prov e w))"
proof -
  let ?r = "(blank_run (x_early_id env) jobID RunFailed (x_started env) prov)
    \<lparr>r_finished := Some (x_started env), r_error := x_text env e\<rparr>"
  have "appended env ?r (file_text (ew_runs w) jobID) (ew_runs (recordEarlyFailure env jobID prov e w))"
    using record_appended [OF assms, of _ w ?r] by (simp add: recordEarlyFailure_def Let_def)
  then show ?thesis by (intro exI [of _ ?r]) (simp add: terminal_status_def)
qed

lemma persist_appended:
  assumes "x_append env = Written" "r_job r = jobID" "file_text (ew_runs w) jobID = t"
  shows "appended env r t (ew_runs (persist_run env jobID r w))"
proof -
  obtain locked out unlink where p: "x_prune env = (locked, out, unlink)" by (cases "x_prune env") auto
  have "file_text (ew_runs (record_run env r w)) jobID = t @ x_enc env r @ [newline]"
    using assms by (simp add: record_run_def append_text)
  then show ?thesis
    unfolding appended_def using assms(2)
    by (intro exI [of _ "ew_runs (record_run env r w)"] conjI disjI2 exI [of _ locked] exI [of _ out] exI [of _ unlink])
       (simp_all add: persist_run_def p Let_def)
qed

lemma new_run_sel [simp]: "r_job (new_run env i jobID job m) = jobID" "r_id (new_run env i jobID job m) = i"
  "r_model (new_run env i jobID job m) = m"
  by (simp_all add: new_run_def Let_def)

lemma prepare_Inr:
  assumes "prepare env jobID w = Inr (job, r, w1)"
  obtains st model runID where "load_jobs (sys_jobs (ew_sys w)) = Inr st" "job_of st jobID = Some job" "j_enabled job"
    "validateJob env job = None" "x_run_id env = Some runID" "r = new_run env runID jobID job model" "x_lock env"
    "w1 = audit env ''job.run.claim'' jobID runID [] (w\<lparr>ew_sys := self_repair env jobID (ew_sys w)\<rparr>)"
  using assms by (auto simp: prepare_def Let_def split: sum.splits option.splits if_splits)

lemma write_log_text [simp]: "file_text (ew_runs (write_log env jobID t w)) k = file_text (ew_runs w) k"
  by (simp add: write_log_def file_text_def split: option.splits)

lemma finish_times_sel [simp]: "r_job (finish_times env r) = r_job r" "r_id (finish_times env r) = r_id r"
  by (simp_all add: finish_times_def)

lemma finished_run_sel [simp]: "r_job (finished_run env jobID opened out_text err activity r) = r_job r"
  "r_id (finished_run env jobID opened out_text err activity r) = r_id r"
  by (simp_all add: finished_run_def)

lemma conduct_trace:
  assumes "x_append env = Written" "r_job r = jobID" "conduct env jobID job r w = (out, w')"
  shows "\<exists>r'. r_job r' = jobID \<and> terminal_status (r_status r') \<and>
    appended env r' (file_text (ew_runs w) jobID) (ew_runs w') \<and> out \<in> {Recorded r', ZeroResult}"
proof -
  have fin: "\<exists>r'. r_job r' = jobID \<and> terminal_status (r_status r') \<and>
      appended env r' (file_text (ew_runs w) jobID) (ew_runs w') \<and> out = Recorded r'"
    if c: "conclude env jobID opened out_text err activity r w = (out, w')" for opened out_text err activity
  proof -
    let ?r = "finished_run env jobID opened out_text err activity r"
    have "terminal_status (r_status ?r)"
      by (auto simp: finished_run_def terminal_status_def status_of_def split: option.splits session_error.splits)
    moreover have "appended env ?r (file_text (ew_runs w) jobID) (ew_runs w')"
      using c assms(2) by (auto simp: conclude_def Let_def intro!: persist_appended [OF assms(1)])
    ultimately show ?thesis using c assms(2) by (intro exI [of _ ?r]) (auto simp: conclude_def Let_def)
  qed
  show ?thesis
  proof (cases "x_session env (request_for env job (r_model r))")
    case (SessionPanic opened msg)
    let ?r = "(finish_times env r)\<lparr>
        r_activity_log := (if opened then activity_path env jobID (r_id r) else []),
        r_status := RunFailed, r_error := ''panic: '' @ msg\<rparr>"
    have "out = ZeroResult" "w' = persist_run env jobID ?r w"
      using assms(3) SessionPanic by (simp_all add: conduct_def Let_def)
    moreover have "appended env ?r (file_text (ew_runs w) jobID) (ew_runs (persist_run env jobID ?r w))"
      using assms(2) by (intro persist_appended [OF assms(1)]) simp_all
    ultimately show ?thesis
      using assms(2) by (intro exI [of _ ?r]) (simp add: terminal_status_def)
  qed (use assms(3) fin in \<open>fastforce simp: conduct_def\<close>)+
qed

text \<open>C16: As long as identifiers can be generated and the append to the history succeeds, every call of the executor
  for a job appends one record to that job's history, with a terminal status, whether the store
  cannot be read, the job is unknown, disabled or invalid, the lock is held, or the session succeeds,
  fails, times out or panics; a record that is returned is the one appended.\<close>
theorem every_run_leaves_trace:
  assumes "x_append env = Written" "x_run_id env \<noteq> None" "exec_run env jobID w = (out, w')"
  shows "\<exists>r. r_job r = jobID \<and> terminal_status (r_status r) \<and>
    appended env r (file_text (ew_runs w) jobID) (ew_runs w') \<and> (\<forall>r'. out = Recorded r' \<longrightarrow> r' = r)"
proof (cases "prepare env jobID w")
  case (Inr p)
  obtain job r w1 where p: "p = (job, r, w1)" by (cases p)
  with Inr have pr: "prepare env jobID w = Inr (job, r, w1)" by simp
  then have "r_job r = jobID" "file_text (ew_runs w1) jobID = file_text (ew_runs w) jobID"
    by (auto elim!: prepare_Inr)
  then show ?thesis
    using conduct_trace [OF assms(1), of r jobID job w1 out w'] assms(3) pr by (fastforce simp: exec_run_def)
next
  case (Inl x)
  then have x: "x = (out, w')" using assms(3) by (simp add: exec_run_def)
  have rec: "appended env r (file_text (ew_runs w) jobID) (ew_runs (record_run env r v))"
    if "r_job r = jobID" "ew_runs v = ew_runs w" for r v
    using record_appended [OF assms(1), of _ v r] that by simp
  consider (early) prov e where "out = Failed e" "w' = recordEarlyFailure env jobID prov e w"
    | (skip) job where "out = Recorded (skipped_run env jobID job)"
        "ew_runs w' = ew_runs (record_run env (skipped_run env jobID job) w)"
    | (lock) r v where "out = Recorded r" "w' = record_run env r v" "r_job r = jobID" "r_status r = RunFailed"
        "ew_runs v = ew_runs w"
    using Inl x assms(2)
    by (auto simp: prepare_def Let_def split: sum.splits option.splits if_splits)
  then show ?thesis
  proof cases
    case early
    with early_appended [OF assms(1), of jobID w prov e] show ?thesis by auto
  next
    case skip
    have "r_job (skipped_run env jobID job) = jobID" "r_status (skipped_run env jobID job) = RunSkipped"
      by (simp_all add: skipped_run_def)
    with skip rec [of "skipped_run env jobID job" w] show ?thesis
      by (intro exI [of _ "skipped_run env jobID job"]) (simp add: terminal_status_def)
  next
    case lock
    with rec [of r v] show ?thesis by (intro exI [of _ r]) (simp add: terminal_status_def)
  qed
qed

section \<open>What a session may write\<close>

text \<open>C12: A session is only started for an enabled job with a valid schedule on a provider that is safe
  in the background, and its request grants no more than the job's permissions: read-only jobs get
  no write access, and the writable directories are the job's paths, each of which resolves inside
  the project.\<close>
theorem session_confined:
  assumes "prepare env jobID w = Inr (job, r, w1)" "q = request_for env job (r_model r)"
    and "clean_fs (x_eval env)" "is_abs (j_project_path job)"
  shows "j_enabled job \<and> validateSchedule (x_lower env) (x_zones env) (j_schedule job) = None \<and>
    x_caps env (j_provider job) \<and>
    (q_project_write q \<longrightarrow> pp_file_access (j_permissions job) = FileAccessFullWorkspace) \<and>
    (pp_file_access (j_permissions job) = FileAccessReadOnly \<longrightarrow>
       q_read_only q \<and> \<not> q_project_write q \<and> q_writable_dirs q = []) \<and>
    (\<forall>p \<in> set (q_writable_dirs q). p \<in> set (pp_writable_paths (j_permissions job)) \<and>
       (\<exists>d. resolveAncestorSymlink (x_stat env) (x_eval env)
              (clean (if is_abs p then p else join_paths [effective_root (x_stat env) (x_eval env) (j_project_path job), p])) = Inr d \<and>
            prefix (elems (effective_root (x_stat env) (x_eval env) (j_project_path job))) (elems d)))"
proof -
  have en: "j_enabled job" and v: "validateJob env job = None"
    using assms(1) by (auto elim!: prepare_Inr)
  have acc: "validate_access env job = None"
    and sch: "validateSchedule (x_lower env) (x_zones env) (j_schedule job) = None" and caps: "x_caps env (j_provider job)"
    using v by (auto simp: validateJob_def split: option.splits if_splits)
  have ne: "FileAccessSelectedWrites \<noteq> FileAccessReadOnly" "FileAccessReadOnly \<noteq> FileAccessFullWorkspace"
    by (simp_all add: file_access_defs)
  have paths: "validateWritablePaths (x_stat env) (x_eval env) (j_project_path job) (pp_writable_paths (j_permissions job)) = None"
    if "pp_file_access (j_permissions job) = FileAccessSelectedWrites"
    using acc that ne by (auto simp: validate_access_def Let_def split: if_splits)
  show ?thesis
    using en sch caps ne contained_paths [OF paths _ assms(3,4)]
    by (auto simp: assms(2) request_for_def Let_def split: if_splits)
qed

section \<open>The job after the run\<close>

text \<open>After a session that ends, in time for the store, the job shows the run: its last run is the
  finish time, its state the recorded status, and its next run is computed from the schedule as it
  is stored by then. Other jobs are as they were.\<close>
theorem run_updates_job:
  assumes "exec_run env jobID w = (Recorded r, w')" "prepare env jobID w = Inr (job, r0, w1)"
    and "x_alive_after env" "x_store env = all_writes" "load_jobs (sys_jobs (ew_sys w1)) = Inr st"
    and "job_of st jobID = Some j"
  shows "\<exists>st'. load_jobs (sys_jobs (ew_sys w')) = Inr st' \<and>
    job_of st' = (job_of st)(jobID \<mapsto> after_run env r j) \<and>
    j_last_run (after_run env r j) = Some (x_finished env) \<and> hs_run_state (j_health (after_run env r j)) = r_status r"
proof -
  have "conduct env jobID job r0 w1 = (Recorded r, w')" using assms(1,2) by (simp add: exec_run_def)
  then obtain opened out_text err activity where c: "conclude env jobID opened out_text err activity r0 w1 = (Recorded r, w')"
    by (auto simp: conduct_def Let_def split: session_outcome.splits)
  then have sys: "ew_sys w' = updateJobAfterRun env jobID r (ew_sys w1)"
    by (auto simp: conclude_def Let_def)
  let ?m = "\<lambda>s. case job_of s jobID of None \<Rightarrow> Inr s
    | Some j \<Rightarrow> (Inr (put_job jobID (after_run env r j) s) :: job_error + jobs_state)"
  have env: "(x_store env)\<lparr>se_alive := x_alive_after env\<rparr> = all_writes"
    using assms(3,4) by (simp add: all_writes_def)
  have m: "?m st = Inr (put_job jobID (after_run env r j) st)" using assms(6) by simp
  obtain dir where dir: "store_update all_writes ?m (sys_jobs (ew_sys w1)) = Inr dir"
    using update_succeeds [of "sys_jobs (ew_sys w1)" st ?m, OF assms(5) m] by blast
  then have "sys_jobs (ew_sys w') = dir" by (simp add: sys updateJobAfterRun_def env)
  moreover have "load_jobs dir = Inr ((put_job jobID (after_run env r j) st)\<lparr>st_version := jobsVersion\<rparr>)"
    using dir assms(5,6) by (auto elim!: update_Inr)
  ultimately show ?thesis
    by (intro exI [of _ "(put_job jobID (after_run env r j) st)\<lparr>st_version := jobsVersion\<rparr>"])
       (simp_all add: after_run_def fun_upd_def fun_eq_iff [of "job_of s" for s])
qed

text \<open>A session that outlives the caller's deadline is recorded as timed out, but the job is not
  updated: the update runs under the expired context and is refused. A panic is recorded too, and
  the call then returns an empty result without an error.\<close>
theorem expired_or_panicked_run:
  assumes "prepare env jobID w = Inr (job, r0, w1)" "x_session env (request_for env job (r_model r0)) = res"
  shows "(\<not> x_alive_after env \<longrightarrow> res = SessionErr opened out_text DeadlineExceeded msg activity \<longrightarrow>
      (\<exists>r w'. exec_run env jobID w = (Recorded r, w') \<and> r_status r = RunTimedOut \<and> ew_sys w' = ew_sys w1)) \<and>
    (res = SessionPanic opened msg \<longrightarrow>
      (\<exists>w'. exec_run env jobID w = (ZeroResult, w') \<and> ew_sys w' = ew_sys w1))"
proof -
  have run: "exec_run env jobID w = conduct env jobID job r0 w1" using assms(1) by (simp add: exec_run_def)
  have dead: "updateJobAfterRun env jobID r s = s" if "\<not> x_alive_after env" for r s
    using that by (simp add: updateJobAfterRun_def store_update_def)
  show ?thesis
    using assms(2) dead
    by (auto simp: run conduct_def conclude_def Let_def finished_run_def status_of_def)
qed

section \<open>Instances\<close>

text \<open>A session that succeeds, or ends as \<open>res\<close> says.\<close>

definition sample_exec :: "session_outcome \<Rightarrow> bool \<Rightarrow> unit exec_env" where
  "sample_exec res alive = \<lparr>x_started = 1, x_finished = 2, x_run_id = Some ''r1'', x_early_id = ''e1'',
     x_caps = (\<lambda>_. True), x_stat = (\<lambda>_. True), x_eval = (\<lambda>p. Resolved (clean p)), x_lower = id,
     x_zones = only_utc, x_config = (\<lambda>_. Some ''m''), x_repair = None, x_sandboxed = True, x_windows = False,
     x_platform = ''linux'', x_wsl = False, x_interop = (\<lambda>_. False), x_lock = True, x_session = (\<lambda>_. res),
     x_deadline = None, x_alive_after = alive, x_store = all_writes, x_append = Written,
     x_prune = (True, Written, \<lambda>_. True), x_audit = True, x_write_log = True, x_runs_dir = ''/s/runs'',
     x_text = (\<lambda>_. ''error''), x_enc = r_id, x_dec = (\<lambda>_. None), x_sort = newest_first\<rparr>"

definition sample_world :: "unit exec_world" where
  "sample_world = \<lparr>ew_sys = \<lparr>sys_os = (), sys_jobs = sample_jdir\<rparr>, ew_runs = empty_store, ew_audit = []\<rparr>"

lemma sample_clean_fs: "clean_fs (\<lambda>p. Resolved (clean p))"
  by (auto simp: clean_fs_def is_abs_clean clean_abs elems_abs_path elems_plain)

lemma sample_prepare:
  "\<exists>r w1. prepare (sample_exec res alive) sample_id sample_world = Inr (sample_job, r, w1) \<and>
     ew_sys w1 = ew_sys sample_world"
proof -
  have st: "load_jobs (sys_jobs (ew_sys sample_world)) = Inr sample_jobs" by (simp add: sample_world_def sample_load)
  have en: "j_enabled sample_job" "j_provider sample_job = ''claude-cli''" by code_simp+
  have acc: "validateWritablePaths (\<lambda>_. True) (\<lambda>p. Resolved (clean p)) ''/w'' [''src''] = None" by code_simp
  have "validateJob (sample_exec res alive) sample_job = None"
    using sample_valid acc
    by (simp add: validateJob_def validate_access_def sample_exec_def Let_def)
       (simp add: sample_job_def file_access_defs)
  then show ?thesis
    using en by (simp add: prepare_def st sample_job_of Let_def resolve_model_def self_repair_def sample_exec_def)
qed

theorem every_run_leaves_trace_witness:
  "\<exists>r out w'. exec_run (sample_exec (SessionOk ''done'' None) True) sample_id sample_world = (out, w') \<and>
     r_job r = sample_id \<and> terminal_status (r_status r) \<and>
     appended (sample_exec (SessionOk ''done'' None) True) r [] (ew_runs w')"
proof -
  let ?env = "sample_exec (SessionOk ''done'' None) True"
  obtain out_run w' where "exec_run ?env sample_id sample_world = (out_run, w')" by fastforce
  moreover have "x_append ?env = Written" "x_run_id ?env \<noteq> None" by (simp_all add: sample_exec_def)
  moreover have "file_text (ew_runs sample_world) sample_id = []"
    by (simp add: sample_world_def empty_store_def file_text_def)
  ultimately show ?thesis
    using every_run_leaves_trace [of ?env sample_id sample_world out_run w'] by auto
qed

theorem session_confined_witness:
  "\<exists>r w1. prepare (sample_exec (SessionOk ''done'' None) True) sample_id sample_world = Inr (sample_job, r, w1) \<and>
     \<not> q_project_write (request_for (sample_exec (SessionOk ''done'' None) True) sample_job (r_model r))"
proof -
  let ?env = "sample_exec (SessionOk ''done'' None) True"
  obtain r w1 where p: "prepare ?env sample_id sample_world = Inr (sample_job, r, w1)" using sample_prepare by blast
  have fs: "clean_fs (x_eval ?env)" using sample_clean_fs by (simp add: sample_exec_def)
  have "is_abs (j_project_path sample_job)" "pp_file_access (j_permissions sample_job) \<noteq> FileAccessFullWorkspace"
    by code_simp+
  with session_confined [OF p refl fs] p show ?thesis by blast
qed

theorem run_updates_job_witness:
  "\<exists>st' j. load_jobs (sys_jobs (ew_sys (snd (exec_run (sample_exec (SessionOk ''done'' None) True) sample_id sample_world)))) = Inr st' \<and>
     job_of st' sample_id = Some j \<and> j_last_run j = Some 2 \<and> hs_run_state (j_health j) = RunCompleted"
proof -
  let ?env = "sample_exec (SessionOk ''done'' None) True"
  obtain r0 w1 where p: "prepare ?env sample_id sample_world = Inr (sample_job, r0, w1)"
    and sys: "ew_sys w1 = ew_sys sample_world" using sample_prepare by blast
  let ?r = "finished_run ?env sample_id True ''done'' None None r0"
  obtain w' where e: "exec_run ?env sample_id sample_world = (Recorded ?r, w')"
    using p by (simp add: exec_run_def conduct_def sample_exec_def conclude_def Let_def)
  have h: "x_alive_after ?env" "x_store ?env = all_writes" "x_finished ?env = 2" by (simp_all add: sample_exec_def)
  have st: "load_jobs (sys_jobs (ew_sys w1)) = Inr sample_jobs" "job_of sample_jobs sample_id = Some sample_job"
    by (simp_all add: sys sample_world_def sample_load sample_job_of)
  have "r_status ?r = RunCompleted" by (simp add: finished_run_def)
  with run_updates_job [OF e p h(1,2) st] e h(3) show ?thesis by auto
qed

theorem expired_or_panicked_run_witness:
  "(\<exists>r w'. exec_run (sample_exec (SessionErr True [] DeadlineExceeded ''deadline'' None) False) sample_id sample_world =
      (Recorded r, w') \<and> r_status r = RunTimedOut \<and> sys_jobs (ew_sys w') = sample_jdir) \<and>
   (\<exists>w'. exec_run (sample_exec (SessionPanic True ''boom'') True) sample_id sample_world = (ZeroResult, w'))"
proof -
  let ?late = "SessionErr True [] DeadlineExceeded ''deadline'' None" and ?boom = "SessionPanic True ''boom''"
  obtain r1 w1 where p1: "prepare (sample_exec ?late False) sample_id sample_world = Inr (sample_job, r1, w1)"
    "ew_sys w1 = ew_sys sample_world" using sample_prepare by blast
  obtain r2 w2 where p2: "prepare (sample_exec ?boom True) sample_id sample_world = Inr (sample_job, r2, w2)"
    using sample_prepare by blast
  have s: "x_session (sample_exec ?late False) q = ?late" "x_session (sample_exec ?boom True) q = ?boom"
    "\<not> x_alive_after (sample_exec ?late False)" "sys_jobs (ew_sys sample_world) = sample_jdir" for q
    by (simp_all add: sample_exec_def sample_world_def)
  from expired_or_panicked_run [OF p1(1) s(1)] expired_or_panicked_run [OF p2 s(2)] s(3,4) p1(2)
  show ?thesis by (metis (no_types))
qed

end
