(* ===== verification/JobApi.thy ===== *)
theory JobApi
  imports JobRunner "HOL-Library.Word"
begin

text \<open>
  The endpoints of \<open>internal/web/handlers/jobs.go\<close> that change background jobs: create, edit,
  delete, pause and resume, with the preview and the routes. \<open>api_checks\<close> holds what validation
  asks of the world (registered providers, configured projects, zones, file system, platform),
  \<open>api_env\<close> what else one request meets; the readings of the clock within one request are one.
  A request body is decoded already, or does not decode. The store and the run history are those
  of the executor; the pages that only read are left out, and the job store is configured.
\<close>

section \<open>Requests\<close>

record create_payload =
  cp_name :: string
  cp_prompt :: string
  cp_project :: string
  cp_provider :: string
  cp_model :: string
  cp_schedule :: schedule_spec
  cp_access :: string
  cp_paths :: "string list"

record edit_payload =
  ep_name :: "string option"
  ep_prompt :: "string option"
  ep_provider :: "string option"
  ep_model :: "string option"
  ep_schedule :: "schedule_spec option"
  ep_access :: "string option"
  ep_paths :: "string list option"

record provider_meta =
  pm_id :: string
  pm_display :: string
  pm_safe :: bool
  pm_network :: bool

record api_checks =
  ck_lower :: "string \<Rightarrow> string"
  ck_zones :: "string \<Rightarrow> location option"
  ck_stat :: "string \<Rightarrow> bool"
  ck_eval :: "string \<Rightarrow> eval_result"
  ck_lookup :: "string \<Rightarrow> provider_meta option"
  ck_projects :: "(string \<times> string) list"
  ck_windows :: bool

record 'os api_env =
  ai_checks :: api_checks
  ai_now :: int
  ai_random :: "(nat \<Rightarrow> 8 word) option"
  ai_local_zone :: string
  ai_store :: store_env
  ai_scheduler :: "'os scheduler option"
  ai_audit :: bool

record 'os api_world =
  aw_base :: "'os exec_world"
  aw_events :: "(string \<times> string) list"
  aw_guards :: "string \<Rightarrow> bool option"

datatype api_error =
    BadBody | PromptRequired | PromptTooLong | InvalidSchedule schedule_error | CronOnWindows
  | ProviderNotFound string | ProviderNotSafe string | NoProjects | ProjectNotFound string
  | UnknownAccess | PathsWithoutSelected | PathsRejected writable_error | PathsRequired
  | MissingJobID | NothingToUpdate | NotFound | LimitReached | IdFailure | LoadFailed store_error | StoreFailed

datatype api_warning =
    NetworkRequired | ScheduleWarning schedule_warning | InstallFailed | UpdateInstallFailed
  | ResumeInstallFailed | RemovalFailed

datatype api_reply =
    Refused nat api_error
  | Created string int "api_warning list"
  | Updated string "api_warning list" string
  | Toggled string bool "api_warning list"
  | Deleted
  | Previewed "api_warning list" string "int list" provider_meta string "string list"

definition maxJobsPerInstall :: nat where "maxJobsPerInstall = 128"
definition maxPromptSize :: nat where "maxPromptSize = 16 * 1024"

section \<open>Identifiers and names\<close>

definition hex_digit :: "nat \<Rightarrow> char" where
  "hex_digit n = ''0123456789abcdef'' ! n"

definition hex_byte :: "8 word \<Rightarrow> string" where
  "hex_byte b = [hex_digit (unat b div 16), hex_digit (unat b mod 16)]"

definition generateRandomHex :: "(nat \<Rightarrow> 8 word) option \<Rightarrow> nat \<Rightarrow> string option" where
  "generateRandomHex random n = map_option (\<lambda>b. concat (map (\<lambda>i. hex_byte (b i)) [0 ..< n div 2])) random"

definition generateJobID :: "(nat \<Rightarrow> 8 word) option \<Rightarrow> string option" where
  "generateJobID random = generateRandomHex random jobIDHexLen"

definition deriveNameFromPrompt :: "string \<Rightarrow> string" where
  "deriveNameFromPrompt prompt =
     (let line = (case index_of prompt [newline] of Some i \<Rightarrow> take i prompt | None \<Rightarrow> prompt);
          name = truncateUTF8 (trim_space line) 64
      in if name = [] then ''background job'' else name)"

definition sanitizeName :: "string \<Rightarrow> string" where
  "sanitizeName name =
     concat (map (\<lambda>(r, b, ok).
       if r \<in> {0x09, 0x0A, 0x0D} then '' ''
       else if r < 0x20 \<or> 0x7F \<le> r \<and> r \<le> 0x9F then []
       else if ok then b else rune_error) (runes name))"

definition job_name :: "create_payload \<Rightarrow> string" where
  "job_name p =
     (let name = trim_space (cp_name p) in
      truncateUTF8 (if name = [] then deriveNameFromPrompt (cp_prompt p) else name) 64)"

definition buildScheduleSummary :: "schedule_spec \<Rightarrow> string" where
  "buildScheduleSummary s =
     (let tz = (if Timezone s = [] then ''UTC'' else Timezone s) in
      case Kind s of
        ScheduleInterval \<Rightarrow> if Every s \<noteq> [] then ''Every '' @ Every s else ''Every hour''
      | ScheduleDaily \<Rightarrow> ''Daily at '' @ TimeOfDay s @ '' '' @ tz
      | ScheduleWeekly \<Rightarrow> ''Weekly on '' @ DayOfWeek s @ '' at '' @ TimeOfDay s @ '' '' @ tz
      | ScheduleCron \<Rightarrow> ''Cron: '' @ Cron s @ '' ('' @ tz @ '')''
      | OtherKind k \<Rightarrow> k)"

section \<open>Validation\<close>

definition check_provider :: "api_checks \<Rightarrow> string \<Rightarrow> api_error + provider_meta" where
  "check_provider ck i =
     (case ck_lookup ck i of
        None \<Rightarrow> Inl (ProviderNotFound i)
      | Some m \<Rightarrow> if pm_safe m then Inr m else Inl (ProviderNotSafe i))"

definition check_schedule :: "api_checks \<Rightarrow> schedule_spec \<Rightarrow> api_error + unit" where
  "check_schedule ck spec =
     (case validateSchedule (ck_lower ck) (ck_zones ck) spec of
        Some e \<Rightarrow> Inl (InvalidSchedule e)
      | None \<Rightarrow> if Kind spec = ScheduleCron \<and> ck_windows ck then Inl CronOnWindows else Inr ())"

definition schedule_advice :: "'os api_env \<Rightarrow> schedule_spec \<Rightarrow> api_warning list" where
  "schedule_advice env spec =
     map ScheduleWarning (scheduleWarnings (ck_zones (ai_checks env)) (ai_local_zone env) (ai_now env) spec)"

definition network_advice :: "provider_meta \<Rightarrow> api_warning list" where
  "network_advice m = (if pm_network m then [NetworkRequired] else [])"

definition resolveProjectPath :: "(string \<times> string) list \<Rightarrow> string \<Rightarrow> api_error + string" where
  "resolveProjectPath projects name =
     (if name = [] then (case projects of [] \<Rightarrow> Inl NoProjects | p # _ \<Rightarrow> Inr (snd p))
      else (case find (\<lambda>p. fst p = name) projects of
              Some p \<Rightarrow> Inr (snd p) | None \<Rightarrow> Inl (ProjectNotFound name)))"

definition validateCreatePayload :: "'os api_env \<Rightarrow> create_payload \<Rightarrow> api_error + (string \<times> api_warning list)" where
  "validateCreatePayload env p =
     (if trim_space (cp_prompt p) = [] then Inl PromptRequired
      else if length (cp_prompt p) > maxPromptSize then Inl PromptTooLong
      else
        and_then (check_schedule (ai_checks env) (cp_schedule p)) (\<lambda>_.
        and_then (check_provider (ai_checks env) (cp_provider p)) (\<lambda>m.
        and_then (resolveProjectPath (ck_projects (ai_checks env)) (cp_project p)) (\<lambda>path.
        Inr (path, schedule_advice env (cp_schedule p) @ network_advice m)))))"

definition parse_permissions :: "api_checks \<Rightarrow> string \<Rightarrow> create_payload \<Rightarrow> api_error + (string \<times> string list)" where
  "parse_permissions ck path p =
     (if cp_access p \<notin> {[], ''read_only'', ''selected_writes'', ''full_workspace''} then Inl UnknownAccess
      else
        let access = (if cp_access p = [] then FileAccessReadOnly else cp_access p) in
        if cp_paths p \<noteq> [] then
          (if access \<noteq> FileAccessSelectedWrites then Inl PathsWithoutSelected
           else (case validateWritablePaths (ck_stat ck) (ck_eval ck) path (cp_paths p) of
                   Some e \<Rightarrow> Inl (PathsRejected e)
                 | None \<Rightarrow> Inr (access, cp_paths p)))
        else if access = FileAccessSelectedWrites then Inl PathsRequired
        else Inr (access, []))"

section \<open>Side effects\<close>

definition publish :: "string \<Rightarrow> string \<Rightarrow> 'os api_world \<Rightarrow> 'os api_world" where
  "publish event jobID w = w\<lparr>aw_events := aw_events w @ [(event, jobID)]\<rparr>"

definition web_audit :: "'os api_env \<Rightarrow> string \<Rightarrow> string \<Rightarrow> string \<Rightarrow> 'os api_world \<Rightarrow> 'os api_world" where
  "web_audit env event jobID detail w =
     (if ai_audit env
      then w\<lparr>aw_base := (aw_base w)\<lparr>ew_audit := ew_audit (aw_base w) @
             [\<lparr>ae_event = event, ae_job = jobID, ae_run = [], ae_detail = detail\<rparr>]\<rparr>\<rparr>
      else w)"

definition api_sys :: "'os api_world \<Rightarrow> 'os system" where
  "api_sys w = ew_sys (aw_base w)"

definition set_sys :: "'os system \<Rightarrow> 'os api_world \<Rightarrow> 'os api_world" where
  "set_sys sys w = w\<lparr>aw_base := (aw_base w)\<lparr>ew_sys := sys\<rparr>\<rparr>"

text \<open>Best effort: what the scheduler returns is not stored.\<close>

definition api_install :: "'os api_env \<Rightarrow> schedule_params \<Rightarrow> 'os system \<Rightarrow> bool \<times> 'os system" where
  "api_install env params sys =
     (case ai_scheduler env of
        None \<Rightarrow> (True, sys)
      | Some sch \<Rightarrow> (case sch_install sch params (sys_os sys) of (r, os') \<Rightarrow> (r \<noteq> None, sys\<lparr>sys_os := os'\<rparr>)))"

definition api_remove :: "'os api_env \<Rightarrow> string \<Rightarrow> 'os system \<Rightarrow> bool \<times> 'os system" where
  "api_remove env jobID sys =
     (case ai_scheduler env of
        None \<Rightarrow> (True, sys)
      | Some sch \<Rightarrow> (case sch_remove sch jobID (sys_os sys) of (ok, os') \<Rightarrow> (ok, sys\<lparr>sys_os := os'\<rparr>)))"

section \<open>Create and preview\<close>

definition new_job :: "'os api_env \<Rightarrow> string \<Rightarrow> string \<Rightarrow> string \<Rightarrow> string list \<Rightarrow> create_payload \<Rightarrow> bg_job" where
  "new_job env jobID path access paths p =
     \<lparr>j_id = jobID, j_name = job_name p, j_prompt = cp_prompt p, j_project_name = cp_project p,
      j_project_path = path, j_provider = cp_provider p, j_model = cp_model p, j_schedule = cp_schedule p,
      j_enabled = True, j_created = ai_now env, j_updated = ai_now env, j_last_run = None,
      j_next_run = Some (case nextRun (ck_lower (ai_checks env)) (ck_zones (ai_checks env)) (cp_schedule p) (ai_now env) of
                           Inr t \<Rightarrow> t | Inl _ \<Rightarrow> zero_time),
      j_permissions = \<lparr>pp_file_access = access, pp_writable_paths = paths, pp_read_scope = [],
        pp_provider_network_required = True, pp_tool_network_requested = False, pp_tool_network_effective = False,
        pp_network_reason = [], pp_tool_access = \<lparr>ta_mode = [], ta_shell_commands = [], ta_mcp_tools = []\<rparr>\<rparr>,
      j_os = no_os_schedule,
      j_health = \<lparr>hs_system_scheduling = [], hs_job_schedule = [], hs_run_state = RunOther [],
        hs_permission_state = [], hs_last_checked = None\<rparr>\<rparr>"

definition insert_limited :: "string \<Rightarrow> bg_job \<Rightarrow> jobs_state \<Rightarrow> api_error + jobs_state" where
  "insert_limited jobID job s =
     (if length (st_jobs s) \<ge> maxJobsPerInstall then Inl LimitReached else Inr (put_job jobID job s))"

definition JobCreate :: "'os api_env \<Rightarrow> create_payload option \<Rightarrow> 'os api_world \<Rightarrow> api_reply \<times> 'os api_world" where
  "JobCreate env body w =
     (case body of
        None \<Rightarrow> (Refused 400 BadBody, w)
      | Some p \<Rightarrow>
          (case and_then (validateCreatePayload env p) (\<lambda>(path, warnings).
                  and_then (parse_permissions (ai_checks env) path p) (\<lambda>(access, paths).
                  Inr (path, warnings, access, paths))) of
             Inl e \<Rightarrow> (Refused 400 e, w)
           | Inr (path, warnings, access, paths) \<Rightarrow>
               (case generateJobID (ai_random env) of
                  None \<Rightarrow> (Refused 500 IdFailure, w)
                | Some jobID \<Rightarrow>
                    (let job = new_job env jobID path access paths p; sys = api_sys w in
                     case store_update (ai_store env) (insert_limited jobID job) (sys_jobs sys) of
                       Inl (Mutation e) \<Rightarrow> (Refused 400 e, w)
                     | Inl _ \<Rightarrow> (Refused 500 StoreFailed, w)
                     | Inr dir \<Rightarrow>
                         (let (ok, sys') = api_install env \<lparr>sp_job_id = jobID, sp_schedule = cp_schedule p,
                                sp_name = job_name p, sp_enabled = True\<rparr> (sys\<lparr>sys_jobs := dir\<rparr>)
                          in (Created jobID (the (j_next_run job)) (warnings @ (if ok then [] else [InstallFailed])),
                              publish ''job.created'' jobID
                                (web_audit env ''job.create'' jobID (sanitizeName (job_name p)) (set_sys sys' w))))))))"

fun next_runs :: "nat \<Rightarrow> api_checks \<Rightarrow> schedule_spec \<Rightarrow> int \<Rightarrow> int list" where
  "next_runs 0 ck spec cursor = []"
| "next_runs (Suc n) ck spec cursor =
     (case nextRun (ck_lower ck) (ck_zones ck) spec cursor of
        Inl _ \<Rightarrow> []
      | Inr t \<Rightarrow> t # next_runs n ck spec (t + second))"

definition JobPreview :: "'os api_env \<Rightarrow> create_payload option \<Rightarrow> api_reply" where
  "JobPreview env body =
     (case body of
        None \<Rightarrow> Refused 400 BadBody
      | Some p \<Rightarrow>
          (case and_then (validateCreatePayload env p) (\<lambda>(path, warnings).
                  and_then (parse_permissions (ai_checks env) path p) (\<lambda>(access, paths).
                  Inr (path, warnings, access, paths))) of
             Inl e \<Rightarrow> Refused 400 e
           | Inr (path, warnings, access, paths) \<Rightarrow>
               Previewed warnings (buildScheduleSummary (cp_schedule p))
                 (next_runs 3 (ai_checks env) (cp_schedule p) (ai_now env))
                 (the (ck_lookup (ai_checks env) (cp_provider p))) access paths))"

section \<open>Edit\<close>

definition edit_text :: "edit_payload \<Rightarrow> bg_job \<Rightarrow> api_error + bg_job" where
  "edit_text e j =
     (let j1 = (case ep_name e of Some n \<Rightarrow> j\<lparr>j_name := truncateUTF8 (trim_space n) 64\<rparr> | None \<Rightarrow> j) in
      case ep_prompt e of
        None \<Rightarrow> Inr j1
      | Some t \<Rightarrow> if length t > maxPromptSize then Inl PromptTooLong else Inr (j1\<lparr>j_prompt := t\<rparr>))"

definition edit_provider :: "api_checks \<Rightarrow> edit_payload \<Rightarrow> bg_job \<Rightarrow> api_error + (bg_job \<times> api_warning list)" where
  "edit_provider ck e j =
     (case ep_provider e of
        None \<Rightarrow> Inr (j, [])
      | Some i \<Rightarrow> and_then (check_provider ck i) (\<lambda>m. Inr (j\<lparr>j_provider := i\<rparr>, network_advice m)))"

definition edit_model :: "edit_payload \<Rightarrow> bg_job \<Rightarrow> bg_job" where
  "edit_model e j = (case ep_model e of Some m \<Rightarrow> j\<lparr>j_model := m\<rparr> | None \<Rightarrow> j)"

definition edit_schedule :: "'os api_env \<Rightarrow> edit_payload \<Rightarrow> bg_job \<Rightarrow> api_error + (bg_job \<times> api_warning list)" where
  "edit_schedule env e j =
     (case ep_schedule e of
        None \<Rightarrow> Inr (j, [])
      | Some spec \<Rightarrow>
          and_then (check_schedule (ai_checks env) spec) (\<lambda>_. Inr (j\<lparr>j_schedule := spec\<rparr>, schedule_advice env spec)))"

definition set_access :: "string \<Rightarrow> string list \<Rightarrow> bg_job \<Rightarrow> bg_job" where
  "set_access access paths j =
     j\<lparr>j_permissions := (j_permissions j)\<lparr>pp_file_access := access, pp_writable_paths := paths\<rparr>\<rparr>"

definition edit_access :: "edit_payload \<Rightarrow> bg_job \<Rightarrow> api_error + bg_job" where
  "edit_access e j =
     (let paths = pp_writable_paths (j_permissions j) in
      case ep_access e of
        None \<Rightarrow> Inr j
      | Some a \<Rightarrow>
          if a = ''read_only'' then Inr (set_access FileAccessReadOnly [] j)
          else if a = ''selected_writes'' then
            (if ep_paths e = None \<and> paths = [] then Inl PathsRequired
             else Inr (set_access FileAccessSelectedWrites paths j))
          else if a = ''full_workspace'' then Inr (set_access FileAccessFullWorkspace [] j)
          else Inl UnknownAccess)"

definition edit_paths :: "api_checks \<Rightarrow> edit_payload \<Rightarrow> bg_job \<Rightarrow> api_error + bg_job" where
  "edit_paths ck e j =
     (case ep_paths e of
        None \<Rightarrow> Inr j
      | Some paths \<Rightarrow>
          if pp_file_access (j_permissions j) \<noteq> FileAccessSelectedWrites then Inl PathsWithoutSelected
          else (case validateWritablePaths (ck_stat ck) (ck_eval ck) (j_project_path j) paths of
                  Some err \<Rightarrow> Inl (PathsRejected err)
                | None \<Rightarrow> Inr (set_access FileAccessSelectedWrites paths j)))"

definition applyJobEdits :: "'os api_env \<Rightarrow> edit_payload \<Rightarrow> bg_job \<Rightarrow> api_error + (bg_job \<times> bool \<times> api_warning list)" where
  "applyJobEdits env e j =
     and_then (edit_text e j) (\<lambda>j1.
     and_then (edit_provider (ai_checks env) e j1) (\<lambda>(j2, w2).
     and_then (edit_schedule env e (edit_model e j2)) (\<lambda>(j3, w3).
     and_then (edit_access e j3) (\<lambda>j4.
     and_then (edit_paths (ai_checks env) e j4) (\<lambda>j5.
     Inr (j5\<lparr>j_updated := ai_now env\<rparr>, ep_schedule e \<noteq> None, w2 @ w3))))))"

definition nothing_to_update :: "edit_payload \<Rightarrow> bool" where
  "nothing_to_update e \<longleftrightarrow>
     ep_name e = None \<and> ep_prompt e = None \<and> ep_provider e = None \<and> ep_model e = None \<and>
     ep_schedule e = None \<and> ep_access e = None \<and> ep_paths e = None"

text \<open>The job as the update stores it, with the recomputed next run.\<close>

definition edited :: "'os api_env \<Rightarrow> edit_payload \<Rightarrow> bg_job \<Rightarrow> api_error + (bg_job \<times> bool \<times> api_warning list)" where
  "edited env e j =
     and_then (applyJobEdits env e j) (\<lambda>(j', changed, warnings).
       Inr ((case (changed, nextRun (ck_lower (ai_checks env)) (ck_zones (ai_checks env)) (j_schedule j') (ai_now env)) of
               (True, Inr t) \<Rightarrow> j'\<lparr>j_next_run := Some t\<rparr> | _ \<Rightarrow> j'), changed, warnings))"

definition edit_job :: "'os api_env \<Rightarrow> string \<Rightarrow> edit_payload \<Rightarrow> jobs_state \<Rightarrow> api_error + jobs_state" where
  "edit_job env jobID e s =
     (case job_of s jobID of
        None \<Rightarrow> Inl NotFound
      | Some j \<Rightarrow> and_then (edited env e j) (\<lambda>(j', _). Inr (put_job jobID j' s)))"

text \<open>The result of the mutation is read again from the stored job: the update has put it there.\<close>

definition JobEdit :: "'os api_env \<Rightarrow> string \<Rightarrow> edit_payload option \<Rightarrow> 'os api_world \<Rightarrow> api_reply \<times> 'os api_world" where
  "JobEdit env jobID body w =
     (if jobID = [] then (Refused 400 MissingJobID, w)
      else
        (case body of
           None \<Rightarrow> (Refused 400 BadBody, w)
         | Some e \<Rightarrow>
             if nothing_to_update e then (Refused 400 NothingToUpdate, w)
             else
               let sys = api_sys w in
               (case store_update (ai_store env) (edit_job env jobID e) (sys_jobs sys) of
                  Inl (Mutation NotFound) \<Rightarrow> (Refused 404 NotFound, w)
                | Inl (Mutation err) \<Rightarrow> (Refused 400 err, w)
                | Inl _ \<Rightarrow> (Refused 400 StoreFailed, w)
                | Inr dir \<Rightarrow>
                    (case and_then (map_sum (\<lambda>_. NotFound) (\<lambda>s. s) (load_jobs (sys_jobs sys))) (\<lambda>s.
                            (case job_of s jobID of None \<Rightarrow> Inl NotFound | Some j \<Rightarrow> edited env e j)) of
                       Inl err \<Rightarrow> (Refused 404 err, w)
                     | Inr (job, changed, warnings) \<Rightarrow>
                         let (ok, sys') =
                               (if changed
                                then api_install env \<lparr>sp_job_id = jobID, sp_schedule = j_schedule job,
                                       sp_name = sanitizeName (j_name job), sp_enabled = j_enabled job\<rparr>
                                       (sys\<lparr>sys_jobs := dir\<rparr>)
                                else (True, sys\<lparr>sys_jobs := dir\<rparr>))
                         in (Updated jobID (warnings @ (if ok then [] else [UpdateInstallFailed]))
                               (buildScheduleSummary (j_schedule job)),
                             publish ''job.updated'' jobID (web_audit env ''job.edit'' jobID [] (set_sys sys' w)))))))"

section \<open>Delete, pause and resume\<close>

definition remove_job :: "string \<Rightarrow> jobs_state \<Rightarrow> api_error + jobs_state" where
  "remove_job jobID s = Inr (drop_job jobID s)"

definition JobDelete :: "'os api_env \<Rightarrow> string \<Rightarrow> 'os api_world \<Rightarrow> api_reply \<times> 'os api_world" where
  "JobDelete env jobID w =
     (if jobID = [] then (Refused 400 MissingJobID, w)
      else
        (case load_jobs (sys_jobs (api_sys w)) of
           Inl e \<Rightarrow> (Refused 500 (LoadFailed e), w)
         | Inr st \<Rightarrow>
             if job_of st jobID = None then (Refused 404 NotFound, w)
             else
               let sys = snd (api_remove env jobID (api_sys w)) in
               (case store_update (ai_store env) (remove_job jobID) (sys_jobs sys) of
                  Inl _ \<Rightarrow> (Refused 500 StoreFailed, set_sys sys w)
                | Inr dir \<Rightarrow>
                    let w1 = set_sys (sys\<lparr>sys_jobs := dir\<rparr>) w in
                    (Deleted,
                     publish ''job.deleted'' jobID (web_audit env ''job.delete'' jobID []
                       (w1\<lparr>aw_guards := (aw_guards w1)(jobID := None)\<rparr>))))))"

definition enable_job :: "'os api_env \<Rightarrow> bool \<Rightarrow> string \<Rightarrow> jobs_state \<Rightarrow> api_error + jobs_state" where
  "enable_job env enabled jobID s =
     (case job_of s jobID of
        None \<Rightarrow> Inl NotFound
      | Some j \<Rightarrow> Inr (put_job jobID (j\<lparr>j_enabled := enabled, j_updated := ai_now env\<rparr>) s))"

text \<open>The directory after the toggle, with the job's name and schedule.\<close>

definition setJobEnabled ::
    "'os api_env \<Rightarrow> string \<Rightarrow> bool \<Rightarrow> jdir \<Rightarrow> api_error update_error + (jdir \<times> string \<times> schedule_spec)" where
  "setJobEnabled env jobID enabled fs =
     (case store_update (ai_store env) (enable_job env enabled jobID) fs of
        Inl e \<Rightarrow> Inl e
      | Inr fs' \<Rightarrow>
          (case load_jobs fs of
             Inl _ \<Rightarrow> Inl (Mutation NotFound)
           | Inr s \<Rightarrow>
               (case job_of s jobID of
                  None \<Rightarrow> Inl (Mutation NotFound)
                | Some j \<Rightarrow> Inr (fs', j_name j, j_schedule j))))"

definition JobSetEnabled :: "'os api_env \<Rightarrow> bool \<Rightarrow> string \<Rightarrow> 'os api_world \<Rightarrow> api_reply \<times> 'os api_world" where
  "JobSetEnabled env enabled jobID w =
     (if jobID = [] then (Refused 400 MissingJobID, w)
      else
        let sys = api_sys w in
        (case setJobEnabled env jobID enabled (sys_jobs sys) of
           Inl (Mutation NotFound) \<Rightarrow> (Refused 404 NotFound, w)
         | Inl _ \<Rightarrow> (Refused 500 StoreFailed, w)
         | Inr (dir, name, spec) \<Rightarrow>
             let sys1 = sys\<lparr>sys_jobs := dir\<rparr>;
                 (ok, sys') =
                   (if enabled
                    then api_install env \<lparr>sp_job_id = jobID, sp_schedule = spec, sp_name = name, sp_enabled = True\<rparr> sys1
                    else api_remove env jobID sys1);
                 warning = (if ok then [] else [if enabled then ResumeInstallFailed else RemovalFailed])
             in (Toggled jobID enabled warning,
                 publish (if enabled then ''job.resumed'' else ''job.paused'') jobID
                   (web_audit env (if enabled then ''job.resume'' else ''job.pause'') jobID (sanitizeName name)
                     (set_sys sys' w)))))"

section \<open>Routes\<close>

definition trim_prefix :: "string \<Rightarrow> string \<Rightarrow> string" where
  "trim_prefix s p = (if has_prefix s p then drop (length p) s else s)"

definition trim_suffix :: "string \<Rightarrow> string \<Rightarrow> string" where
  "trim_suffix s p = (if has_suffix s p then take (length s - length p) s else s)"

definition jobs_path :: string where "jobs_path = ''/api/jobs/''"

definition extractJobID :: "string \<Rightarrow> string" where
  "extractJobID path = hd (split_on slash (trim_suffix (trim_prefix path jobs_path) [slash]))"

definition extractJobIDAndRunID :: "string \<Rightarrow> string \<times> string" where
  "extractJobIDAndRunID path =
     (case split_on slash (trim_suffix (trim_prefix path jobs_path) [slash]) of
        a # b # c # _ \<Rightarrow> if b = ''runs'' then (a, c) else ([], [])
      | [a, b] \<Rightarrow> if b = ''runs'' then (a, []) else ([], [])
      | _ \<Rightarrow> ([], []))"

datatype endpoint =
    ToList | ToCreate | ToPreview | ToHealth | ToAudit | ToDetail | ToEdit | ToDelete | ToRun | ToPause
  | ToResume | ToRuns | ToRunDetail | ToActivity | BadJobID | MethodNotAllowed | NoRoute

definition only :: "string \<Rightarrow> string \<Rightarrow> endpoint \<Rightarrow> endpoint" where
  "only allowed method e = (if method = allowed then e else MethodNotAllowed)"

definition for_job :: "string \<Rightarrow> endpoint \<Rightarrow> endpoint" where
  "for_job jobID e = (if validateJobID jobID then e else BadJobID)"

definition route_parts :: "string \<Rightarrow> string list \<Rightarrow> endpoint" where
  "route_parts method parts =
     (case parts of
        [a] \<Rightarrow>
          if a = ''preview'' then only ''POST'' method ToPreview
          else if a = ''health'' then only ''GET'' method ToHealth
          else if a = ''audit'' then only ''GET'' method ToAudit
          else for_job a
            (if method = ''GET'' then ToDetail else if method = ''PATCH'' then ToEdit
             else if method = ''DELETE'' then ToDelete else MethodNotAllowed)
      | [a, b] \<Rightarrow>
          if b = ''run'' then for_job a (only ''POST'' method ToRun)
          else if b = ''pause'' then for_job a (only ''POST'' method ToPause)
          else if b = ''resume'' then for_job a (only ''POST'' method ToResume)
          else if b = ''runs'' then for_job a ToRuns
          else NoRoute
      | [a, b, c] \<Rightarrow> if b = ''runs'' then for_job a ToRunDetail else NoRoute
      | [a, b, c, d] \<Rightarrow>
          if b = ''runs'' \<and> d = ''activity'' then for_job a (only ''GET'' method ToActivity) else NoRoute
      | _ \<Rightarrow> NoRoute)"

definition RouteJobs :: "string \<Rightarrow> string \<Rightarrow> endpoint" where
  "RouteJobs method path =
     (let r0 = trim_prefix path jobs_path;
          r1 = (if r0 = path then trim_prefix path ''/api/jobs'' else r0);
          rest = trim_suffix r1 [slash]
      in if rest = [] then
           (if method = ''GET'' then ToList else if method = ''POST'' then ToCreate else MethodNotAllowed)
         else route_parts method (split_on slash rest))"

record api_request =
  rq_method :: string
  rq_path :: string
  rq_create :: "create_payload option"
  rq_edit :: "edit_payload option"

text \<open>The requests that change jobs; \<open>None\<close> for the others.\<close>

definition serve :: "'os api_env \<Rightarrow> api_request \<Rightarrow> 'os api_world \<Rightarrow> api_reply option \<times> 'os api_world" where
  "serve env q w =
     (let jobID = extractJobID (rq_path q) in
      case RouteJobs (rq_method q) (rq_path q) of
        ToCreate \<Rightarrow> apfst Some (JobCreate env (rq_create q) w)
      | ToPreview \<Rightarrow> (Some (JobPreview env (rq_create q)), w)
      | ToEdit \<Rightarrow> apfst Some (JobEdit env jobID (rq_edit q) w)
      | ToDelete \<Rightarrow> apfst Some (JobDelete env jobID w)
      | ToPause \<Rightarrow> apfst Some (JobSetEnabled env False jobID w)
      | ToResume \<Rightarrow> apfst Some (JobSetEnabled env True jobID w)
      | _ \<Rightarrow> (None, w))"

end
