(* ===== verification/JobApiRuns.thy ===== *)
theory JobApiRuns
  imports JobApi
begin

text \<open>
  What the endpoints of \<open>JobApi\<close> keep and promise: the invariant of the job store over requests,
  runs of the executor and reconciliations, the preview against create, the identifiers of the
  routes, and schedules that a failed request leaves behind.
\<close>

section \<open>What the endpoints keep of the store\<close>

definition access_ok :: "api_checks \<Rightarrow> bg_job \<Rightarrow> bool" where
  "access_ok ck j \<longleftrightarrow>
     (let access = pp_file_access (j_permissions j); paths = pp_writable_paths (j_permissions j) in
      access \<in> {FileAccessReadOnly, FileAccessFullWorkspace} \<and> paths = [] \<or>
      access = FileAccessSelectedWrites \<and>
        validateWritablePaths (ck_stat ck) (ck_eval ck) (j_project_path j) paths = None)"

definition job_ok :: "api_checks \<Rightarrow> bg_job \<Rightarrow> bool" where
  "job_ok ck j \<longleftrightarrow>
     check_schedule ck (j_schedule j) = Inr () \<and> (\<exists>m. check_provider ck (j_provider j) = Inr m) \<and>
     length (j_prompt j) \<le> maxPromptSize \<and> access_ok ck j"

definition jobs_ok :: "api_checks \<Rightarrow> jobs_state \<Rightarrow> bool" where
  "jobs_ok ck s \<longleftrightarrow>
     length (st_jobs s) \<le> maxJobsPerInstall \<and>
     (\<forall>i j. job_of s i = Some j \<longrightarrow> j_id j = i \<and> validateJobID i \<and> job_ok ck j)"

definition stored_ok :: "api_checks \<Rightarrow> jdir \<Rightarrow> bool" where
  "stored_ok ck fs \<longleftrightarrow> (\<forall>s. load_jobs fs = Inr s \<longrightarrow> jobs_ok ck s)"

lemma update_keeps:
  assumes "store_update env m fs = Inr fs'" "stored_ok ck fs"
    and "\<And>s s'. jobs_ok ck s \<Longrightarrow> m s = Inr s' \<Longrightarrow> jobs_ok ck s'"
  shows "stored_ok ck fs'"
proof -
  obtain s s' where "load_jobs fs = Inr s" "m s = Inr s'" "load_jobs fs' = Inr (s'\<lparr>st_version := jobsVersion\<rparr>)"
    using assms(1) by (rule update_Inr)
  moreover from this have "jobs_ok ck s'" using assms(2,3) unfolding stored_ok_def by blast
  ultimately show ?thesis by (simp add: stored_ok_def jobs_ok_def)
qed

lemma length_put_known: "job_of s i \<noteq> None \<Longrightarrow> length (st_jobs (put_job i j s)) = length (st_jobs s)"
proof -
  assume "job_of s i \<noteq> None"
  then have "i \<in> set (map fst (st_jobs s))" by (auto simp: job_of_def map_of_eq_None_iff)
  then have "map fst (AList.update i j (st_jobs s)) = map fst (st_jobs s)" by (simp add: update_keys)
  then show ?thesis by (simp add: put_job_def) (metis length_map)
qed

lemma length_put: "length (st_jobs (put_job i j s)) \<le> Suc (length (st_jobs s))"
proof -
  have "length (map fst (AList.update i j (st_jobs s))) \<le> Suc (length (map fst (st_jobs s)))"
    by (simp add: update_keys del: length_map)
  then show ?thesis by (simp add: put_job_def)
qed

lemma jobs_ok_put:
  "jobs_ok ck s \<Longrightarrow> job_of s i = Some j \<Longrightarrow> j_id j' = j_id j \<Longrightarrow> job_ok ck j' \<Longrightarrow> jobs_ok ck (put_job i j' s)"
  by (auto simp: jobs_ok_def length_put_known)

lemma jobs_ok_insert:
  "jobs_ok ck s \<Longrightarrow> insert_limited (j_id j) j s = Inr s' \<Longrightarrow> validateJobID (j_id j) \<Longrightarrow> job_ok ck j \<Longrightarrow> jobs_ok ck s'"
  using length_put [of "j_id j" j s] by (auto simp: jobs_ok_def insert_limited_def split: if_splits)

lemma jobs_ok_drop: "jobs_ok ck s \<Longrightarrow> remove_job i s = Inr s' \<Longrightarrow> jobs_ok ck s'"
proof -
  assume ok: "jobs_ok ck s" and "remove_job i s = Inr s'"
  then have "s' = drop_job i s" by (simp add: remove_job_def)
  moreover have "length (st_jobs (drop_job i s)) \<le> length (st_jobs s)"
    by (simp add: drop_job_def length_delete_le)
  ultimately show ?thesis using ok by (auto simp: jobs_ok_def split: if_splits)
qed

text \<open>A change of a job outside the validated fields.\<close>

definition same_checked :: "bg_job \<Rightarrow> bg_job \<Rightarrow> bool" where
  "same_checked j j' \<longleftrightarrow>
     j_id j' = j_id j \<and> j_schedule j' = j_schedule j \<and> j_provider j' = j_provider j \<and>
     j_prompt j' = j_prompt j \<and> j_permissions j' = j_permissions j \<and> j_project_path j' = j_project_path j"

lemma same_checked_ok: "same_checked j j' \<Longrightarrow> job_ok ck j \<Longrightarrow> job_ok ck j'"
  by (simp add: same_checked_def job_ok_def access_ok_def)

lemma jobs_ok_same: "jobs_ok ck s \<Longrightarrow> job_of s i = Some j \<Longrightarrow> same_checked j j' \<Longrightarrow> jobs_ok ck (put_job i j' s)"
  using same_checked_ok [of j j' ck] by (intro jobs_ok_put) (auto simp: same_checked_def jobs_ok_def)

lemma modify_keeps:
  "store_update env (modify_job i f) fs = Inr fs' \<Longrightarrow> stored_ok ck fs \<Longrightarrow> (\<And>j. same_checked j (f j)) \<Longrightarrow>
     stored_ok ck fs'"
  by (erule update_keeps) (auto simp: modify_job_def intro: jobs_ok_same split: option.splits)

section \<open>Identifiers\<close>

lemma hex_digit_lower: "n < 16 \<Longrightarrow> is_lower_hex (hex_digit n)"
proof -
  have "\<forall>n \<in> set [0 ..< 16]. is_lower_hex (hex_digit n)" by code_simp
  then show "n < 16 \<Longrightarrow> ?thesis" by auto
qed

lemma unat_byte: "unat (b :: 8 word) < 256"
  using unsigned_less [of b] by simp

lemma hex_bytes: "length (concat (map (\<lambda>i. hex_byte (b i)) is)) = 2 * length is"
  "list_all is_lower_hex (concat (map (\<lambda>i. hex_byte (b i)) is))"
proof -
  have "is_lower_hex (hex_digit (unat w div 16)) \<and> is_lower_hex (hex_digit (unat w mod 16))" for w :: "8 word"
    using unat_byte [of w] by (auto intro!: hex_digit_lower)
  then show "length (concat (map (\<lambda>i. hex_byte (b i)) is)) = 2 * length is"
    "list_all is_lower_hex (concat (map (\<lambda>i. hex_byte (b i)) is))"
    by (induction "is") (auto simp: hex_byte_def)
qed

lemma generated_id_valid: "generateJobID random = Some i \<Longrightarrow> validateJobID i"
  using hex_bytes [of "the random" "[0 ..< 8]"]
  by (auto simp: generateJobID_def generateRandomHex_def jobIDHexLen_def validateJobID_def reservedIDs_def)

section \<open>Every writer keeps the store valid\<close>

lemma checked_provider: "check_provider ck i = Inr m \<Longrightarrow> ck_lookup ck i = Some m \<and> pm_safe m"
  by (auto simp: check_provider_def split: option.splits if_splits)

lemma parsed_access:
  assumes "parse_permissions ck path p = Inr (access, paths)" "pp_file_access (j_permissions j) = access"
    "pp_writable_paths (j_permissions j) = paths" "j_project_path j = path"
  shows "access_ok ck j"
  using assms
  by (auto simp: parse_permissions_def access_ok_def file_access_defs Let_def split: if_splits option.splits)

lemma created_ok:
  assumes "validateCreatePayload env p = Inr (path, ws)" "parse_permissions (ai_checks env) path p = Inr (access, paths)"
  shows "job_ok (ai_checks env) (new_job env i path access paths p)"
proof -
  have "access_ok (ai_checks env) (new_job env i path access paths p)"
    by (rule parsed_access [OF assms(2)]) (simp_all add: new_job_def)
  with assms(1) show ?thesis
    by (auto simp: job_ok_def validateCreatePayload_def new_job_def split: if_splits)
qed

lemma edit_text_keeps:
  "edit_text e j = Inr j' \<Longrightarrow> job_ok ck j \<Longrightarrow> job_ok ck j' \<and> j_id j' = j_id j"
  by (auto simp: edit_text_def job_ok_def access_ok_def Let_def split: option.splits if_splits)

lemma edit_provider_keeps:
  "edit_provider ck e j = Inr (j', ws) \<Longrightarrow> job_ok ck j \<Longrightarrow> job_ok ck j' \<and> j_id j' = j_id j"
  by (auto simp: edit_provider_def job_ok_def access_ok_def split: option.splits)

lemma edit_model_keeps: "job_ok ck j \<Longrightarrow> job_ok ck (edit_model e j) \<and> j_id (edit_model e j) = j_id j"
  by (auto simp: edit_model_def job_ok_def access_ok_def split: option.splits)

lemma edit_schedule_keeps:
  "edit_schedule env e j = Inr (j', ws) \<Longrightarrow> job_ok (ai_checks env) j \<Longrightarrow>
     job_ok (ai_checks env) j' \<and> j_id j' = j_id j"
  by (auto simp: edit_schedule_def job_ok_def access_ok_def split: option.splits)

text \<open>Between the two access steps the paths may be missing, but they are valid ones.\<close>

lemma edit_access_keeps:
  assumes "edit_access e j = Inr j'" "job_ok ck j"
  shows "job_ok ck j' \<and> j_id j' = j_id j"
proof -
  have "validateWritablePaths st ev pr [] = None" for st ev pr
    by (simp add: validateWritablePaths_def)
  with assms show ?thesis
    by (auto simp: edit_access_def job_ok_def access_ok_def set_access_def file_access_defs Let_def
        split: option.splits if_splits)
qed

lemma edit_paths_keeps:
  "edit_paths ck e j = Inr j' \<Longrightarrow> job_ok ck j \<Longrightarrow> job_ok ck j' \<and> j_id j' = j_id j"
  by (auto simp: edit_paths_def job_ok_def access_ok_def set_access_def Let_def file_access_defs
      split: option.splits if_splits)

lemma edits_keep:
  assumes "applyJobEdits env e j = Inr (j', changed, ws)" "job_ok (ai_checks env) j"
  shows "job_ok (ai_checks env) j' \<and> j_id j' = j_id j"
proof -
  let ?ck = "ai_checks env"
  obtain j1 j2 w2 j3 w3 j4 j5 where
    "edit_text e j = Inr j1" "edit_provider ?ck e j1 = Inr (j2, w2)"
    "edit_schedule env e (edit_model e j2) = Inr (j3, w3)" "edit_access e j3 = Inr j4"
    "edit_paths ?ck e j4 = Inr j5" and j': "j' = j5\<lparr>j_updated := ai_now env\<rparr>"
    using assms(1) by (auto simp: applyJobEdits_def)
  with assms(2) have "job_ok ?ck j5 \<and> j_id j5 = j_id j"
    by (metis edit_text_keeps edit_provider_keeps edit_model_keeps edit_schedule_keeps edit_access_keeps edit_paths_keeps)
  then show ?thesis using same_checked_ok [of j5 j' ?ck] by (simp add: j' same_checked_def)
qed

lemma edit_job_keeps:
  assumes "edit_job env i e s = Inr s'" "jobs_ok (ai_checks env) s"
  shows "jobs_ok (ai_checks env) s'"
proof -
  obtain j j' changed ws where j: "job_of s i = Some j" "edited env e j = Inr (j', changed, ws)" "s' = put_job i j' s"
    using assms(1) by (auto simp: edit_job_def split: option.splits)
  then obtain j0 where "applyJobEdits env e j = Inr (j0, changed, ws)" "same_checked j0 j'"
    by (auto simp: edited_def same_checked_def split: bool.splits sum.splits)
  moreover have "job_ok (ai_checks env) j" using assms(2) j(1) by (auto simp: jobs_ok_def)
  ultimately have "job_ok (ai_checks env) j' \<and> j_id j' = j_id j"
    using edits_keep same_checked_ok by (metis same_checked_def)
  then show ?thesis using jobs_ok_put assms(2) j by metis
qed

abbreviation api_jobs :: "'os api_world \<Rightarrow> jdir" where
  "api_jobs w \<equiv> sys_jobs (ew_sys (aw_base w))"

lemma effects_jobs [simp]:
  "api_jobs (publish ev i w) = api_jobs w" "api_jobs (web_audit env ev i d w) = api_jobs w"
  "api_jobs (set_sys sys w) = sys_jobs sys" "sys_jobs (api_sys w) = api_jobs w"
  by (simp_all add: publish_def web_audit_def set_sys_def api_sys_def)

lemma best_effort_jobs: "api_install env p sys = (ok, sys') \<Longrightarrow> sys_jobs sys' = sys_jobs sys"
  "api_remove env i sys = (ok, sys') \<Longrightarrow> sys_jobs sys' = sys_jobs sys"
  by (auto simp: api_install_def api_remove_def split: option.splits prod.splits)

lemma create_keeps:
  assumes "JobCreate env body w = (reply, w')" "stored_ok (ai_checks env) (api_jobs w)"
  shows "stored_ok (ai_checks env) (api_jobs w')"
proof (cases reply)
  case (Created i t ws)
  then obtain p path w0 access paths dir ok sys' where
    p: "validateCreatePayload env p = Inr (path, w0)" "parse_permissions (ai_checks env) path p = Inr (access, paths)"
    and i: "generateJobID (ai_random env) = Some i"
    and u: "store_update (ai_store env) (insert_limited i (new_job env i path access paths p)) (api_jobs w) = Inr dir"
    and inst: "api_install env \<lparr>sp_job_id = i, sp_schedule = cp_schedule p, sp_name = job_name p, sp_enabled = True\<rparr>
      ((api_sys w)\<lparr>sys_jobs := dir\<rparr>) = (ok, sys')"
    and w': "api_jobs w' = sys_jobs sys'"
    using assms(1)
    by (auto simp: JobCreate_def Let_def split: option.splits sum.splits update_error.splits prod.splits)
  have "j_id (new_job env i path access paths p) = i" by (simp add: new_job_def)
  then have "stored_ok (ai_checks env) dir"
    using jobs_ok_insert [of _ _ "new_job env i path access paths p"] created_ok [OF p] generated_id_valid [OF i]
    by (intro update_keeps [OF u assms(2)]) auto
  then show ?thesis using best_effort_jobs(1) [OF inst] w' by simp
qed (use assms in \<open>auto simp: JobCreate_def Let_def split: option.splits sum.splits update_error.splits prod.splits\<close>)

lemma edit_keeps:
  assumes "JobEdit env i body w = (reply, w')" "stored_ok (ai_checks env) (api_jobs w)"
  shows "stored_ok (ai_checks env) (api_jobs w')"
proof -
  have "api_jobs w' = api_jobs w \<or>
      (\<exists>e. store_update (ai_store env) (edit_job env i e) (api_jobs w) = Inr (api_jobs w'))"
    using assms(1)
    by (auto simp: JobEdit_def Let_def dest!: best_effort_jobs
        split: option.splits sum.splits update_error.splits prod.splits if_splits api_error.splits)
  then show ?thesis using update_keeps [OF _ assms(2)] edit_job_keeps assms(2) by metis
qed

lemma delete_keeps:
  assumes "JobDelete env i w = (reply, w')" "stored_ok (ai_checks env) (api_jobs w)"
  shows "stored_ok (ai_checks env) (api_jobs w')"
proof -
  obtain ok sys where r: "api_remove env i (api_sys w) = (ok, sys)" by fastforce
  have j: "sys_jobs sys = api_jobs w" using best_effort_jobs(2) [OF r] by simp
  have keep: "stored_ok (ai_checks env) dir" if "store_update (ai_store env) (remove_job i) (sys_jobs sys) = Inr dir" for dir
    using that assms(2) jobs_ok_drop j by (metis update_keeps)
  have "api_jobs w' = api_jobs w \<or> (\<exists>dir. store_update (ai_store env) (remove_job i) (sys_jobs sys) = Inr dir \<and> api_jobs w' = dir)"
    using assms(1) by (auto simp: JobDelete_def r j Let_def split: sum.splits if_splits)
  with keep assms(2) show ?thesis by auto
qed

lemma enable_keeps: "enable_job env en i s = Inr s' \<Longrightarrow> jobs_ok ck s \<Longrightarrow> jobs_ok ck s'"
  by (auto simp: enable_job_def same_checked_def intro!: jobs_ok_same split: option.splits)

lemma toggle_keeps:
  assumes "JobSetEnabled env en i w = (reply, w')" "stored_ok (ai_checks env) (api_jobs w)"
  shows "stored_ok (ai_checks env) (api_jobs w')"
proof -
  have "api_jobs w' = api_jobs w \<or>
      store_update (ai_store env) (enable_job env en i) (api_jobs w) = Inr (api_jobs w')"
    using assms(1)
    by (auto simp: JobSetEnabled_def setJobEnabled_def Let_def dest!: best_effort_jobs
        split: option.splits sum.splits update_error.splits prod.splits if_splits api_error.splits)
  then show ?thesis using update_keeps [OF _ assms(2)] enable_keeps assms(2) by metis
qed

lemma serve_keeps:
  assumes "serve env q w = (reply, w')" "stored_ok (ai_checks env) (api_jobs w)"
  shows "stored_ok (ai_checks env) (api_jobs w')"
  using assms create_keeps [OF _ assms(2)] edit_keeps [OF _ assms(2)] delete_keeps [OF _ assms(2)]
    toggle_keeps [OF _ assms(2)]
  by (cases "RouteJobs (rq_method q) (rq_path q)")
     (auto simp: serve_def Let_def apfst_def map_prod_def split: prod.splits)

lemma record_keeps:
  "install_and_record sch env now i p sys = (ok, sys') \<Longrightarrow> stored_ok ck (sys_jobs sys) \<Longrightarrow> stored_ok ck (sys_jobs sys')"
  by (auto simp: install_and_record_def record_install_def same_checked_def split: prod.splits option.splits sum.splits
      elim!: modify_keeps)

lemma apply_keeps:
  "applyReconcileActions sch env ctx now st n acts res sys = (r, sys') \<Longrightarrow> stored_ok ck (sys_jobs sys) \<Longrightarrow>
     stored_ok ck (sys_jobs sys')"
proof (induction acts arbitrary: n res sys)
  case (Cons a acts)
  obtain ok sys1 where a: "apply_action sch env now st a sys = (ok, sys1)" by fastforce
  then have "stored_ok ck (sys_jobs sys1)"
    using Cons.prems(2)
    by (auto simp: apply_action_def applyInstall_def split: if_splits prod.splits option.splits elim!: record_keeps)
  with Cons a show ?case by (auto split: if_splits)
qed simp

lemma reconcile_keeps:
  "reconcileSchedules hs ch sch env ctx now order dry sys = (r, sys') \<Longrightarrow> stored_ok ck (sys_jobs sys) \<Longrightarrow>
     stored_ok ck (sys_jobs sys')"
  by (auto simp: reconcileSchedules_def split: sum.splits option.splits if_splits elim: apply_keeps)

lemma repair_keeps: "stored_ok ck (sys_jobs sys) \<Longrightarrow> stored_ok ck (sys_jobs (self_repair env i sys))"
proof -
  assume ok: "stored_ok ck (sys_jobs sys)"
  have "stored_ok ck (sys_jobs sys')" if "selfRepair hs ch sch se now i sys = (b, sys')" for hs ch sch se now b sys'
    using that ok by (auto simp: selfRepair_def split: sum.splits option.splits if_splits elim: record_keeps)
  with ok show ?thesis by (auto simp: self_repair_def split: option.splits) (metis prod.collapse)
qed

lemma after_run_keeps: "stored_ok ck (sys_jobs sys) \<Longrightarrow> stored_ok ck (sys_jobs (updateJobAfterRun env i r sys))"
  by (auto simp: updateJobAfterRun_def after_run_def same_checked_def split: sum.splits option.splits
      elim!: update_keeps intro!: jobs_ok_same)

lemma run_keeps:
  assumes "exec_run env i b = (out, b')" "stored_ok ck (sys_jobs (ew_sys b))"
  shows "stored_ok ck (sys_jobs (ew_sys b'))"
proof (cases "prepare env i b")
  case (Inl x)
  then have "ew_sys b' = ew_sys b \<or> ew_sys b' = self_repair env i (ew_sys b)"
    using assms(1)
    by (auto simp: exec_run_def prepare_def recordEarlyFailure_def Let_def split: sum.splits option.splits if_splits)
  then show ?thesis using assms(2) repair_keeps by metis
next
  case (Inr p)
  obtain job r b1 where p: "prepare env i b = Inr (job, r, b1)" using Inr by (cases p) auto
  then have b1: "stored_ok ck (sys_jobs (ew_sys b1))"
    using assms(2) repair_keeps by (auto elim!: prepare_Inr)
  have "conduct env i job r b1 = (out, b')" using assms(1) p by (simp add: exec_run_def)
  then show ?thesis
    using b1 after_run_keeps [of ck "ew_sys b1"]
    by (auto simp: conduct_def conclude_def Let_def split: session_outcome.splits)
qed

section \<open>Jobs stay runnable\<close>

text \<open>One step of the whole: a request, a run of the executor, or a reconciliation.\<close>

inductive api_step :: "api_checks \<Rightarrow> 'os api_world \<Rightarrow> 'os api_world \<Rightarrow> bool" for ck where
  request: "ai_checks env = ck \<Longrightarrow> serve env q w = (reply, w') \<Longrightarrow> api_step ck w w'"
| run: "exec_run env i (aw_base w) = (out, b) \<Longrightarrow> api_step ck w (w\<lparr>aw_base := b\<rparr>)"
| reconcile: "reconcileSchedules hs configHash sch senv ctx now order dry (api_sys w) = (res, sys) \<Longrightarrow>
    api_step ck w (set_sys sys w)"

interpretation api: transition_system
  "\<lambda>w. api_jobs w jobsFile = Absent" "api_step ck" "\<lambda>w. stored_ok ck (api_jobs w)" for ck
proof
  fix w :: "'os api_world"
  assume "api_jobs w jobsFile = Absent"
  then show "stored_ok ck (api_jobs w)"
    by (simp add: stored_ok_def load_absent jobs_ok_def job_of_def)
next
  fix w w' :: "'os api_world"
  assume "api_step ck w w'" "stored_ok ck (api_jobs w)"
  then show "stored_ok ck (api_jobs w')"
    by (cases rule: api_step.cases) (auto dest: serve_keeps run_keeps reconcile_keeps simp: api_sys_def)
qed

text \<open>The executor validates against the same world.\<close>

definition executor_sees :: "'os exec_env \<Rightarrow> api_checks \<Rightarrow> bool" where
  "executor_sees x ck \<longleftrightarrow>
     x_lower x = ck_lower ck \<and> x_zones x = ck_zones ck \<and> x_stat x = ck_stat ck \<and> x_eval x = ck_eval ck \<and>
     x_caps x = (\<lambda>i. \<exists>m. ck_lookup ck i = Some m \<and> pm_safe m)"

lemma job_ok_runs:
  assumes "job_ok ck j" "executor_sees x ck"
  shows "validateJob x j = None \<or>
    validateJob x j = Some NoWritablePaths \<and> pp_file_access (j_permissions j) = FileAccessSelectedWrites \<and>
      pp_writable_paths (j_permissions j) = []"
proof -
  have "validateSchedule (x_lower x) (x_zones x) (j_schedule j) = None" "x_caps x (j_provider j)"
    using assms by (auto simp: job_ok_def executor_sees_def check_schedule_def dest!: checked_provider
        split: option.splits if_splits)
  then show ?thesis
    using assms by (auto simp: validateJob_def validate_access_def job_ok_def access_ok_def executor_sees_def
        file_access_defs Let_def)
qed

text \<open>C5: Whatever requests, runs and reconciliations happen from an empty store on, every stored job is
  stored under its own valid identifier, there are at most 128, and the executor accepts it, except a
  job whose paths an edit has emptied.\<close>
theorem stored_jobs_stay_runnable:
  assumes "api_jobs w jobsFile = Absent" "(api_step ck)\<^sup>*\<^sup>* w w'"
    and "load_jobs (api_jobs w') = Inr s" "job_of s i = Some j" "executor_sees x ck"
  shows "j_id j = i \<and> validateJobID i \<and> length (st_jobs s) \<le> maxJobsPerInstall \<and>
    (validateJob x j = None \<or>
     validateJob x j = Some NoWritablePaths \<and> pp_file_access (j_permissions j) = FileAccessSelectedWrites \<and>
       pp_writable_paths (j_permissions j) = [])"
proof -
  have "jobs_ok ck s" using api.reachable_inv [OF assms(1,2)] assms(3) by (simp add: stored_ok_def)
  then show ?thesis using job_ok_runs [OF _ assms(5)] assms(4) by (auto simp: jobs_ok_def)
qed

text \<open>An edit may leave a job that the executor refuses from then on, although the code means to keep
  the stored state valid.\<close>
theorem edit_empties_paths:
  assumes "pp_file_access (j_permissions j) = FileAccessSelectedWrites"
  shows "\<exists>j' ws. applyJobEdits env \<lparr>ep_name = None, ep_prompt = None, ep_provider = None, ep_model = None,
      ep_schedule = None, ep_access = Some ''selected_writes'', ep_paths = Some []\<rparr> j = Inr (j', False, ws) \<and>
    pp_writable_paths (j_permissions j') = [] \<and> validate_access x j' = Some NoWritablePaths"
  using assms
  by (simp add: applyJobEdits_def edit_text_def edit_provider_def edit_model_def edit_schedule_def edit_access_def
      edit_paths_def set_access_def validateWritablePaths_def validate_access_def file_access_defs)

section \<open>The preview\<close>

text \<open>C28: The preview tells the truth. A payload it refuses is refused by create for the same reason and
  nothing is changed; a payload it accepts is created with the permissions, warnings and next run it
  showed, unless the limit of jobs, the random source or the store stands in the way.\<close>
theorem preview_predicts_create:
  "case JobPreview env body of
     Previewed ws summary runs m access paths \<Rightarrow>
       fst (JobCreate env body w) \<in> {Refused 400 LimitReached, Refused 500 IdFailure, Refused 500 StoreFailed} \<or>
       (\<exists>i t extra w' s job. JobCreate env body w = (Created i t (ws @ extra), w') \<and> set extra \<subseteq> {InstallFailed} \<and>
          (runs \<noteq> [] \<longrightarrow> t = hd runs) \<and> load_jobs (api_jobs w') = Inr s \<and> job_of s i = Some job \<and>
          j_enabled job \<and> pp_file_access (j_permissions job) = access \<and> pp_writable_paths (j_permissions job) = paths)
   | reply \<Rightarrow> JobCreate env body w = (reply, w)"
proof (cases body)
  case (Some p)
  show ?thesis
  proof (cases "and_then (validateCreatePayload env p) (\<lambda>(path, warnings).
      and_then (parse_permissions (ai_checks env) path p) (\<lambda>(access, paths). Inr (path, warnings, access, paths)))")
    case (Inr v)
    obtain path ws access paths where v: "v = (path, ws, access, paths)" by (cases v)
    let ?job = "\<lambda>i. new_job env i path access paths p"
    have runs: "next_runs 3 (ai_checks env) (cp_schedule p) (ai_now env) \<noteq> [] \<longrightarrow>
        the (j_next_run (?job i)) = hd (next_runs 3 (ai_checks env) (cp_schedule p) (ai_now env))" for i
      by (simp add: numeral_3_eq_3 new_job_def split: sum.splits)
    show ?thesis
    proof (cases "generateJobID (ai_random env)")
      case None
      then show ?thesis using Some Inr v by (simp add: JobPreview_def JobCreate_def)
    next
      case (Some i)
      note gen = this
      show ?thesis
      proof (cases "store_update (ai_store env) (insert_limited i (?job i)) (api_jobs w)")
        case (Inl e)
        moreover have "e = Mutation LimitReached" if "e = Mutation err" for err
          using Inl that by (auto simp: store_update_def insert_limited_def split: if_splits sum.splits)
        ultimately show ?thesis
          using \<open>body = Some p\<close> Inr v gen
          by (cases e) (auto simp: JobPreview_def JobCreate_def Let_def)
      next
        case (Inr dir)
        obtain s where s: "load_jobs dir = Inr s" "job_of s i = Some (?job i)"
          using update_Inr [OF Inr] by (metis insert_limited_def job_of_put job_of_version Inl_Inr_False sum.inject(2))
        obtain ok sys' where inst: "api_install env \<lparr>sp_job_id = i, sp_schedule = cp_schedule p,
            sp_name = job_name p, sp_enabled = True\<rparr> ((api_sys w)\<lparr>sys_jobs := dir\<rparr>) = (ok, sys')" by fastforce
        have "sys_jobs sys' = dir" using best_effort_jobs(1) [OF inst] by simp
        moreover have "j_enabled (?job i)" "pp_file_access (j_permissions (?job i)) = access"
          "pp_writable_paths (j_permissions (?job i)) = paths" by (simp_all add: new_job_def)
        ultimately show ?thesis
          using \<open>body = Some p\<close> \<open>and_then _ _ = Inr v\<close> v gen Inr s inst runs
          by (auto simp: JobPreview_def JobCreate_def Let_def split: prod.splits)
      qed
    qed
  qed (use Some in \<open>simp add: JobPreview_def JobCreate_def\<close>)
qed (simp add: JobPreview_def JobCreate_def)

section \<open>Routes reach handlers with their job\<close>

text \<open>On the paths the server registers, a request that is routed to a handler of one job carries a
  valid job identifier, and it is the one the handler extracts from the path again.\<close>
theorem routed_job_valid:
  assumes "path = ''/api/jobs'' \<or> has_prefix path jobs_path"
    and "RouteJobs method path \<in> {ToDetail, ToEdit, ToDelete, ToRun, ToPause, ToResume, ToRuns, ToRunDetail, ToActivity}"
  shows "validateJobID (extractJobID path) \<and>
    (RouteJobs method path = ToRunDetail \<longrightarrow> fst (extractJobIDAndRunID path) = extractJobID path)"
proof -
  let ?rest = "trim_suffix (trim_prefix path jobs_path) [slash]"
  have "trim_prefix ''/api/jobs'' jobs_path = ''/api/jobs''" "trim_prefix ''/api/jobs'' ''/api/jobs'' = []"
    "trim_suffix [] [slash] = []" by code_simp+
  then have "RouteJobs method ''/api/jobs'' \<in> {ToList, ToCreate, MethodNotAllowed}" by (simp add: RouteJobs_def)
  then have "path \<noteq> ''/api/jobs''" using assms(2) by auto
  then have pre: "has_prefix path jobs_path" using assms(1) by simp
  then have "trim_prefix path jobs_path \<noteq> path"
    by (auto simp: trim_prefix_def jobs_path_def has_prefix_iff)
  then have r: "RouteJobs method path = route_parts method (split_on slash ?rest)"
    using assms(2) by (simp add: RouteJobs_def Let_def split: if_splits)
  have valid: "validateJobID (hd (split_on slash ?rest))"
    using assms(2) unfolding r
    by (auto simp: route_parts_def only_def for_job_def split: list.splits if_splits)
  have "fst (extractJobIDAndRunID path) = extractJobID path" if "RouteJobs method path = ToRunDetail"
    using that unfolding r
    by (auto simp: route_parts_def only_def for_job_def extractJobIDAndRunID_def extractJobID_def
        split: list.splits if_splits)
  with valid show ?thesis by (simp add: extractJobID_def)
qed

section \<open>Failed removals\<close>

lemma created_stored:
  assumes "JobCreate env body w = (Created i t ws, w')"
  shows "\<exists>s j. load_jobs (api_jobs w') = Inr s \<and> job_of s i = Some j \<and> j_os j = no_os_schedule"
proof -
  obtain path access paths p dir where
    u: "store_update (ai_store env) (insert_limited i (new_job env i path access paths p)) (api_jobs w) = Inr dir"
    and w': "api_jobs w' = dir"
    using assms by (auto simp: JobCreate_def Let_def dest!: best_effort_jobs
        split: option.splits sum.splits update_error.splits prod.splits)
  from u obtain s where "load_jobs dir = Inr s" "job_of s i = Some (new_job env i path access paths p)"
    by (rule update_Inr) (auto simp: insert_limited_def split: if_splits)
  with w' show ?thesis by (simp add: new_job_def)
qed

lemma toggled_stored:
  assumes "JobSetEnabled env en i w = (Toggled i en ws, w')" "load_jobs (api_jobs w) = Inr s" "job_of s i = Some j"
  shows "\<exists>s' j'. load_jobs (api_jobs w') = Inr s' \<and> job_of s' i = Some j' \<and> j_os j' = j_os j \<and>
    j_schedule j' = j_schedule j \<and> j_enabled j' = en"
proof -
  have "store_update (ai_store env) (enable_job env en i) (api_jobs w) = Inr (api_jobs w')"
    using assms(1) by (auto simp: JobSetEnabled_def setJobEnabled_def Let_def dest!: best_effort_jobs
        split: option.splits sum.splits update_error.splits prod.splits if_splits api_error.splits)
  then show ?thesis
    using assms(2,3) by (rule_tac update_Inr) (auto simp: enable_job_def)
qed

lemma no_action_planned:
  assumes "computeReconcileActions hs configHash alive order sch os s = Some acts" "job_of s i = Some j"
    and "job_action hs configHash i j = []"
  shows "i \<notin> ac_job ` set acts"
proof -
  have "ac_job a = k" if "a \<in> set (job_action hs configHash k j')" for a k j'
    using that by (auto simp: job_action_def split: if_splits option.splits)
  then show ?thesis
    using assms by (auto simp: computeReconcileActions_def orphan_action_def Let_def split: option.splits if_splits)
qed

text \<open>A removal that fails is not retried. When a job was created here and pausing it could not remove
  its schedule, no later reconciliation of that store plans anything for it, whatever the scheduler
  has installed, although the warning tells the user that reconciling retries the removal.\<close>
theorem failed_removal_not_retried:
  assumes "JobCreate env body w = (Created i t ws, w1)"
    and "JobSetEnabled env' False i w1 = (Toggled i False [RemovalFailed], w2)"
    and "load_jobs (api_jobs w2) = Inr s"
    and "computeReconcileActions hs configHash alive order sch os s = Some acts"
  shows "i \<notin> ac_job ` set acts"
proof -
  obtain s1 j1 where "load_jobs (api_jobs w1) = Inr s1" "job_of s1 i = Some j1" "j_os j1 = no_os_schedule"
    using created_stored [OF assms(1)] by blast
  then obtain j where "job_of s i = Some j" "j_os j = no_os_schedule" "\<not> j_enabled j"
    using toggled_stored [OF assms(2)] assms(3) by fastforce
  then show ?thesis
    using no_action_planned [OF assms(4)] by (simp add: job_action_def no_os_schedule_def)
qed

text \<open>The same holds for a resume: pausing removed the schedule and kept its metadata, so when the
  install on resuming fails, the planner takes the job for installed.\<close>
theorem failed_resume_not_retried:
  assumes "load_jobs (api_jobs w) = Inr s0" "job_of s0 i = Some j0" "checkInstallNeeded hs configHash j0 = None"
    and "JobSetEnabled env False i w = (Toggled i False [], w1)"
    and "JobSetEnabled env' True i w1 = (Toggled i True [ResumeInstallFailed], w2)"
    and "load_jobs (api_jobs w2) = Inr s"
    and "computeReconcileActions hs configHash alive order sch os s = Some acts"
  shows "i \<notin> ac_job ` set acts"
proof -
  obtain s1 j1 where s1: "load_jobs (api_jobs w1) = Inr s1" "job_of s1 i = Some j1" "j_os j1 = j_os j0"
    "j_schedule j1 = j_schedule j0"
    using toggled_stored [OF assms(4,1,2)] by blast
  then obtain j where "job_of s i = Some j" "j_os j = j_os j0" "j_schedule j = j_schedule j0" "j_enabled j"
    using toggled_stored [OF assms(5) s1(1,2)] assms(6) by fastforce
  moreover from this have "checkInstallNeeded hs configHash j = checkInstallNeeded hs configHash j0"
    by (simp only: checkInstallNeeded_def Let_def)
  ultimately show ?thesis using no_action_planned [OF assms(7)] assms(3) by (simp add: job_action_def)
qed

section \<open>Instances\<close>

definition sample_checks :: api_checks where
  "sample_checks = \<lparr>ck_lower = id, ck_zones = only_utc, ck_stat = (\<lambda>_. True), ck_eval = (\<lambda>p. Resolved (clean p)),
     ck_lookup = (\<lambda>i. if i = ''claude-cli'' then Some \<lparr>pm_id = i, pm_display = ''Claude'', pm_safe = True, pm_network = True\<rparr>
                      else None),
     ck_projects = [(''w'', ''/w'')], ck_windows = False\<rparr>"

text \<open>A scheduler that installs and never removes.\<close>

definition sticky :: "string list scheduler" where
  "sticky = \<lparr>sch_install = (\<lambda>p os. (Some no_os_schedule, sp_job_id p # os)), sch_remove = (\<lambda>_ os. (False, os)),
     sch_inspect = (\<lambda>_ _. None), sch_list_own = Some\<rparr>"

definition sample_api :: "string list api_env" where
  "sample_api = \<lparr>ai_checks = sample_checks, ai_now = 0, ai_random = Some (\<lambda>i. of_nat i), ai_local_zone = ''UTC'',
     ai_store = all_writes, ai_scheduler = Some sticky, ai_audit = True\<rparr>"

definition sample_payload :: create_payload where
  "sample_payload = \<lparr>cp_name = [], cp_prompt = ''Report.'', cp_project = [], cp_provider = ''claude-cli'', cp_model = [],
     cp_schedule = j_schedule sample_job, cp_access = ''selected_writes'', cp_paths = [''src'']\<rparr>"

definition empty_world :: "string list api_world" where
  "empty_world = \<lparr>aw_base = \<lparr>ew_sys = \<lparr>sys_os = [], sys_jobs = (\<lambda>_. Absent)\<rparr>, ew_runs = empty_store, ew_audit = []\<rparr>,
     aw_events = [], aw_guards = (\<lambda>_. None)\<rparr>"

definition sample_new_id :: string where "sample_new_id = ''0001020304050607''"

lemma sample_parts:
  "validateCreatePayload sample_api sample_payload = Inr (''/w'', [NetworkRequired])"
  "parse_permissions sample_checks ''/w'' sample_payload = Inr (FileAccessSelectedWrites, [''src''])"
  "generateJobID (ai_random sample_api) = Some sample_new_id"
  by code_simp+

lemma sample_created:
  "\<exists>t w'. JobCreate sample_api (Some sample_payload) empty_world = (Created sample_new_id t [NetworkRequired], w')"
proof -
  have "load_jobs (api_jobs empty_world) = Inr \<lparr>st_jobs = [], st_version = jobsVersion\<rparr>"
    by (simp add: empty_world_def load_absent)
  moreover have "ai_checks sample_api = sample_checks" "ai_store sample_api = all_writes" "ai_scheduler sample_api = Some sticky"
    by (simp_all add: sample_api_def)
  ultimately show ?thesis
    using sample_parts
    by (simp add: JobCreate_def store_update_def all_writes_def insert_limited_def save_jobs_def maxJobsPerInstall_def
        Let_def api_install_def sticky_def)
qed

theorem stored_jobs_stay_runnable_witness:
  "\<exists>t w' s j. JobCreate sample_api (Some sample_payload) empty_world = (Created sample_new_id t [NetworkRequired], w') \<and>
     load_jobs (api_jobs w') = Inr s \<and> job_of s sample_new_id = Some j \<and> j_id j = sample_new_id \<and>
     length (st_jobs s) \<le> maxJobsPerInstall"
proof -
  obtain t w' where c: "JobCreate sample_api (Some sample_payload) empty_world = (Created sample_new_id t [NetworkRequired], w')"
    using sample_created by blast
  obtain s j where j: "load_jobs (api_jobs w') = Inr s" "job_of s sample_new_id = Some j"
    using created_stored [OF c] by blast
  have "RouteJobs ''POST'' ''/api/jobs'' = ToCreate" by code_simp
  then have "serve sample_api \<lparr>rq_method = ''POST'', rq_path = ''/api/jobs'', rq_create = Some sample_payload, rq_edit = None\<rparr>
      empty_world = (Some (Created sample_new_id t [NetworkRequired]), w')"
    by (simp add: serve_def c)
  then have "api_step sample_checks empty_world w'"
    by (rule api_step.request [rotated]) (simp add: sample_api_def)
  then have run: "(api_step sample_checks)\<^sup>*\<^sup>* empty_world w'" by blast
  have e: "api_jobs empty_world jobsFile = Absent" by (simp add: empty_world_def)
  have x: "executor_sees ((sample_exec (SessionOk [] None) True)\<lparr>x_caps := \<lambda>i. \<exists>m. ck_lookup sample_checks i = Some m \<and> pm_safe m\<rparr>)
      sample_checks" by (simp add: executor_sees_def sample_exec_def sample_checks_def)
  from stored_jobs_stay_runnable [OF e run j x] c j show ?thesis by blast
qed

theorem preview_predicts_create_witness:
  "\<exists>i w'. JobCreate sample_api (Some sample_payload) empty_world = (Created i (9 * hour) [NetworkRequired], w')"
proof -
  have p: "JobPreview sample_api (Some sample_payload) = Previewed [NetworkRequired] ''Daily at 09:00 UTC''
      [9 * hour, 33 * hour, 57 * hour] (the (ck_lookup sample_checks ''claude-cli'')) FileAccessSelectedWrites [''src'']"
    by code_simp
  show ?thesis
    using preview_predicts_create [of sample_api "Some sample_payload" empty_world] sample_created
    unfolding p by auto
qed

theorem routed_job_valid_witness:
  "validateJobID (extractJobID ''/api/jobs/0123456789abcdef/runs/r1/'') \<and>
   fst (extractJobIDAndRunID ''/api/jobs/0123456789abcdef/runs/r1/'') = ''0123456789abcdef''"
proof -
  have p: "has_prefix ''/api/jobs/0123456789abcdef/runs/r1/'' jobs_path"
    "RouteJobs ''GET'' ''/api/jobs/0123456789abcdef/runs/r1/'' = ToRunDetail"
    "extractJobID ''/api/jobs/0123456789abcdef/runs/r1/'' = ''0123456789abcdef''" by code_simp+
  then show ?thesis
    using routed_job_valid [of "''/api/jobs/0123456789abcdef/runs/r1/''" "''GET''"] by simp
qed

theorem failed_removal_not_retried_witness:
  "\<exists>t w1 w2 s. JobCreate sample_api (Some sample_payload) empty_world = (Created sample_new_id t [NetworkRequired], w1) \<and>
     JobSetEnabled sample_api False sample_new_id w1 = (Toggled sample_new_id False [RemovalFailed], w2) \<and>
     load_jobs (api_jobs w2) = Inr s \<and>
     (\<forall>acts. computeReconcileActions TimeOfDay ''c'' True [sample_new_id] sticky (sys_os (api_sys w2)) s = Some acts \<longrightarrow>
        sample_new_id \<notin> ac_job ` set acts)"
proof -
  obtain t w1 where c: "JobCreate sample_api (Some sample_payload) empty_world = (Created sample_new_id t [NetworkRequired], w1)"
    using sample_created by blast
  obtain s1 j1 where s1: "load_jobs (api_jobs w1) = Inr s1" "job_of s1 sample_new_id = Some j1"
    using created_stored [OF c] by blast
  obtain w2 where p: "JobSetEnabled sample_api False sample_new_id w1 = (Toggled sample_new_id False [RemovalFailed], w2)"
    using s1 by (simp add: JobSetEnabled_def setJobEnabled_def store_update_def enable_job_def save_jobs_def
        sample_api_def all_writes_def api_remove_def sticky_def sample_new_id_def Let_def)
  then obtain s where s: "load_jobs (api_jobs w2) = Inr s" using toggled_stored [OF p s1] by blast
  have "\<forall>acts. computeReconcileActions TimeOfDay ''c'' True [sample_new_id] sticky (sys_os (api_sys w2)) s = Some acts \<longrightarrow>
      sample_new_id \<notin> ac_job ` set acts"
    by (intro allI impI failed_removal_not_retried [OF c p s])
  with c p s show ?thesis by blast
qed

end
