(* ===== verification/RunGuard.thy ===== *)
theory RunGuard
  imports Prelude
begin

text \<open>
  The guard of \<open>internal/web/handlers/jobs.go\<close> against concurrent runs of one job: the map
  \<open>runGuards\<close> from job identifiers to atomic flags, \<open>tryAcquireRun\<close>, \<open>releaseRun\<close>, and the
  handlers \<open>JobRunNow\<close> and \<open>JobDelete\<close> cut at every access to shared memory. A state holds the
  map, the flags by address, the identifiers in the job store, those ever stored (identifiers are
  random and never given twice), and where each goroutine stands. The address a goroutine has
  acquired stays with it. A run request after its answer and the goroutine it starts are one
  thread.
\<close>

section \<open>Goroutines and shared memory\<close>

datatype phase =
    Idle
  | Lookup string          \<comment> \<open>before \<open>LoadOrStore\<close>\<close>
  | Swap string nat        \<comment> \<open>before \<open>CompareAndSwap\<close> on the flag\<close>
  | Check string nat       \<comment> \<open>acquired, before the job is looked up\<close>
  | Running string nat     \<comment> \<open>accepted, the executor runs\<close>
  | Freeing string nat     \<comment> \<open>before the \<open>Load\<close> of \<open>releaseRun\<close>\<close>
  | Clear string nat nat   \<comment> \<open>before the flag loaded last is reset\<close>
  | DelCheck string
  | DelStore string
  | DelGuard string

record guards =
  g_map :: "string \<Rightarrow> nat option"
  g_flag :: "nat \<Rightarrow> bool"
  g_next :: nat
  g_jobs :: "string set"
  g_seen :: "string set"
  g_at :: "nat \<Rightarrow> phase"

abbreviation move :: "nat \<Rightarrow> phase \<Rightarrow> guards \<Rightarrow> guards" where
  "move t p s \<equiv> s\<lparr>g_at := (g_at s)(t := p)\<rparr>"

inductive guard_step :: "guards \<Rightarrow> guards \<Rightarrow> bool" where
  request: "g_at s t = Idle \<Longrightarrow> guard_step s (move t (Lookup i) s)"
| load: "g_at s t = Lookup i \<Longrightarrow> g_map s i = Some a \<Longrightarrow> guard_step s (move t (Swap i a) s)"
| store_new: "g_at s t = Lookup i \<Longrightarrow> g_map s i = None \<Longrightarrow>
    guard_step s (move t (Swap i (g_next s))
      (s\<lparr>g_map := (g_map s)(i \<mapsto> g_next s), g_flag := (g_flag s)(g_next s := False), g_next := Suc (g_next s)\<rparr>))"
| acquire: "g_at s t = Swap i a \<Longrightarrow> \<not> g_flag s a \<Longrightarrow>
    guard_step s (move t (Check i a) (s\<lparr>g_flag := (g_flag s)(a := True)\<rparr>))"
| conflict: "g_at s t = Swap i a \<Longrightarrow> g_flag s a \<Longrightarrow> guard_step s (move t Idle s)"
| accept: "g_at s t = Check i a \<Longrightarrow> i \<in> g_jobs s \<Longrightarrow> guard_step s (move t (Running i a) s)"
| refuse: "g_at s t = Check i a \<Longrightarrow> guard_step s (move t (Freeing i a) s)"
| finish: "g_at s t = Running i a \<Longrightarrow> guard_step s (move t (Freeing i a) s)"
| free_gone: "g_at s t = Freeing i a \<Longrightarrow> g_map s i = None \<Longrightarrow> guard_step s (move t Idle s)"
| free: "g_at s t = Freeing i a \<Longrightarrow> g_map s i = Some b \<Longrightarrow> guard_step s (move t (Clear i a b) s)"
| clear: "g_at s t = Clear i a b \<Longrightarrow>
    guard_step s (move t Idle (s\<lparr>g_flag := (g_flag s)(b := False)\<rparr>))"
| delete: "g_at s t = Idle \<Longrightarrow> guard_step s (move t (DelCheck i) s)"
| delete_known: "g_at s t = DelCheck i \<Longrightarrow> i \<in> g_jobs s \<Longrightarrow> guard_step s (move t (DelStore i) s)"
| delete_refused: "g_at s t \<in> {DelCheck i, DelStore i} \<Longrightarrow> guard_step s (move t Idle s)"
| delete_stored: "g_at s t = DelStore i \<Longrightarrow>
    guard_step s (move t (DelGuard i) (s\<lparr>g_jobs := g_jobs s - {i}\<rparr>))"
| delete_guard: "g_at s t = DelGuard i \<Longrightarrow>
    guard_step s (move t Idle (s\<lparr>g_map := (g_map s)(i := None)\<rparr>))"
| create: "i \<notin> g_seen s \<Longrightarrow> guard_step s (s\<lparr>g_jobs := insert i (g_jobs s), g_seen := insert i (g_seen s)\<rparr>)"

section \<open>The invariant\<close>

text \<open>The flag a goroutine refers to, and whether it holds it.\<close>

fun refers :: "phase \<Rightarrow> (string \<times> nat) set" where
  "refers (Swap i a) = {(i, a)}"
| "refers (Check i a) = {(i, a)}"
| "refers (Running i a) = {(i, a)}"
| "refers (Freeing i a) = {(i, a)}"
| "refers (Clear i a b) = {(i, a), (i, b)}"
| "refers _ = {}"

fun holds :: "string \<Rightarrow> phase \<Rightarrow> bool" where
  "holds i (Check j a) \<longleftrightarrow> i = j"
| "holds i (Running j a) \<longleftrightarrow> i = j"
| "holds i (Freeing j a) \<longleftrightarrow> i = j"
| "holds i (Clear j a b) \<longleftrightarrow> i = j"
| "holds i _ \<longleftrightarrow> False"

fun runs :: "string \<Rightarrow> phase \<Rightarrow> bool" where
  "runs i (Running j a) \<longleftrightarrow> i = j"
| "runs i _ \<longleftrightarrow> False"

text \<open>Not deleted so far.\<close>

definition live :: "guards \<Rightarrow> string \<Rightarrow> bool" where
  "live s i \<longleftrightarrow> i \<in> g_jobs s \<or> i \<notin> g_seen s"

definition flag_refs :: "guards \<Rightarrow> (string \<times> nat) set" where
  "flag_refs s = {(i, a). g_map s i = Some a} \<union> (\<Union>t. refers (g_at s t))"

definition addresses_ok :: "guards \<Rightarrow> bool" where
  "addresses_ok s \<longleftrightarrow>
     snd ` flag_refs s \<subseteq> {..<g_next s} \<and> single_valued ((flag_refs s)\<inverse>)"

definition store_ok :: "guards \<Rightarrow> bool" where
  "store_ok s \<longleftrightarrow> g_jobs s \<subseteq> g_seen s \<and>
     (\<forall>t i. g_at s t = DelGuard i \<longrightarrow> \<not> live s i) \<and> (\<forall>t i. g_at s t = DelStore i \<longrightarrow> i \<in> g_seen s)"

definition live_ok :: "guards \<Rightarrow> bool" where
  "live_ok s \<longleftrightarrow>
     (\<forall>i a t. live s i \<longrightarrow> (i, a) \<in> refers (g_at s t) \<longrightarrow> g_map s i = Some a) \<and>
     (\<forall>i a. live s i \<longrightarrow> g_map s i = Some a \<longrightarrow> (g_flag s a \<longleftrightarrow> (\<exists>t. holds i (g_at s t)))) \<and>
     (\<forall>i t u. live s i \<longrightarrow> holds i (g_at s t) \<longrightarrow> holds i (g_at s u) \<longrightarrow> t = u)"

definition exclusive :: "guards \<Rightarrow> bool" where
  "exclusive s \<longleftrightarrow> (\<forall>i t u. runs i (g_at s t) \<longrightarrow> runs i (g_at s u) \<longrightarrow> t = u)"

definition guard_inv :: "guards \<Rightarrow> bool" where
  "guard_inv s \<longleftrightarrow> addresses_ok s \<and> store_ok s \<and> live_ok s \<and> exclusive s"

definition fresh_guards :: "guards \<Rightarrow> bool" where
  "fresh_guards s \<longleftrightarrow>
     g_map s = (\<lambda>_. None) \<and> g_jobs s \<subseteq> g_seen s \<and> (\<forall>t. g_at s t = Idle)"

lemma runs_holds: "runs i p \<Longrightarrow> holds i p"
  by (cases p) auto

lemma fresh_inv: "fresh_guards s \<Longrightarrow> guard_inv s"
  by (auto simp: fresh_guards_def guard_inv_def addresses_ok_def store_ok_def live_ok_def exclusive_def flag_refs_def)

section \<open>Every step keeps it\<close>

lemma flag_refs_simps [simp]:
  "flag_refs (s\<lparr>g_flag := f\<rparr>) = flag_refs s" "flag_refs (s\<lparr>g_jobs := js\<rparr>) = flag_refs s"
  "flag_refs (s\<lparr>g_seen := js\<rparr>) = flag_refs s" "flag_refs (s\<lparr>g_next := n\<rparr>) = flag_refs s"
  by (simp_all add: flag_refs_def)

lemma refers_flag: "refers (g_at s t) \<subseteq> flag_refs s"
  by (auto simp: flag_refs_def)

lemma mapped_flag: "g_map s i = Some a \<Longrightarrow> (i, a) \<in> flag_refs s"
  by (simp add: flag_refs_def)

lemma flag_refs_move: "flag_refs (move t p s) \<subseteq> flag_refs s \<union> refers p"
  by (auto simp: flag_refs_def split: if_splits)

lemma flag_refs_map: "flag_refs (s\<lparr>g_map := (g_map s)(i := v)\<rparr>) \<subseteq> flag_refs s \<union> {(i, a) |a. v = Some a}"
  by (auto simp: flag_refs_def split: if_splits)

lemma addresses_below: "addresses_ok s \<Longrightarrow> (i, a) \<in> flag_refs s \<Longrightarrow> a < g_next s"
  by (force simp: addresses_ok_def)

lemma addresses_owner: "addresses_ok s \<Longrightarrow> (i, a) \<in> flag_refs s \<Longrightarrow> (j, a) \<in> flag_refs s \<Longrightarrow> i = j"
  by (auto simp: addresses_ok_def dest: single_valuedD)

lemma addresses_mono:
  assumes "addresses_ok s" "flag_refs s' \<subseteq> flag_refs s" "g_next s' = g_next s"
  shows "addresses_ok s'"
proof -
  have "single_valued ((flag_refs s')\<inverse>)"
    using assms(1,2) single_valued_subset [of "(flag_refs s')\<inverse>" "(flag_refs s)\<inverse>"] by (simp add: addresses_ok_def)
  moreover have "snd ` flag_refs s' \<subseteq> {..<g_next s}"
    using assms(1) image_mono [OF assms(2), of snd] unfolding addresses_ok_def by (meson order_trans)
  ultimately show ?thesis by (simp add: addresses_ok_def assms(3))
qed

lemma addresses_move:
  assumes "addresses_ok s" "refers p \<subseteq> flag_refs s"
  shows "addresses_ok (move t p s)"
proof (rule addresses_mono [OF assms(1)])
  show "flag_refs (move t p s) \<subseteq> flag_refs s" using flag_refs_move [of s t p] assms(2) by blast
qed simp

lemma addresses_unchanged [simp]:
  "addresses_ok (s\<lparr>g_flag := f\<rparr>) = addresses_ok s" "addresses_ok (s\<lparr>g_jobs := js\<rparr>) = addresses_ok s"
  "addresses_ok (s\<lparr>g_seen := js\<rparr>) = addresses_ok s"
  by (simp_all add: addresses_ok_def)

lemma addresses_fresh:
  assumes "addresses_ok s" "g_map s i = None" "g_at s t = Lookup i"
  shows "addresses_ok (move t (Swap i (g_next s))
      (s\<lparr>g_map := (g_map s)(i \<mapsto> g_next s), g_flag := f, g_next := Suc (g_next s)\<rparr>))" (is "addresses_ok ?s'")
proof -
  have "flag_refs ?s' \<subseteq> insert (i, g_next s) (flag_refs s)"
    by (auto simp: flag_refs_def split: if_splits)
  then have old: "(j, a) = (i, g_next s) \<or> (j, a) \<in> flag_refs s" if "(j, a) \<in> flag_refs ?s'" for j a
    using that by blast
  have less: "a < g_next s" if "(j, a) \<in> flag_refs s" for j a
    using addresses_below [OF assms(1) that] .
  have "j = k" if "(j, a) \<in> flag_refs ?s'" "(k, a) \<in> flag_refs ?s'" for j k a
    using old [OF that(1)] old [OF that(2)] less [of j a] less [of k a] addresses_owner [OF assms(1), of j a k] by auto
  then have "single_valued ((flag_refs ?s')\<inverse>)" by (auto intro!: single_valuedI)
  moreover have "a < Suc (g_next s)" if "(j, a) \<in> flag_refs ?s'" for j a
    using old [OF that] less by fastforce
  ultimately show ?thesis by (auto simp: addresses_ok_def)
qed

lemma step_addresses:
  assumes "guard_step s s'" "addresses_ok s"
  shows "addresses_ok s'"
  using assms
proof (induction rule: guard_step.induct)
  case (load s t i a)
  then show ?case using mapped_flag [of s i a] by (intro addresses_move) simp_all
next
  case (store_new s t i)
  then show ?case by (intro addresses_fresh) simp_all
next
  case (acquire s t i a)
  then show ?case using refers_flag [of s t] by (intro addresses_move) simp_all
next
  case (accept s t i a)
  then show ?case using refers_flag [of s t] by (intro addresses_move) simp_all
next
  case (refuse s t i a)
  then show ?case using refers_flag [of s t] by (intro addresses_move) simp_all
next
  case (finish s t i a)
  then show ?case using refers_flag [of s t] by (intro addresses_move) simp_all
next
  case (free s t i a b)
  then show ?case using refers_flag [of s t] mapped_flag [of s i b] by (intro addresses_move) simp_all
next
  case (delete_guard s t i)
  have "addresses_ok (s\<lparr>g_map := (g_map s)(i := None)\<rparr>)"
    using flag_refs_map [of s i None] by (intro addresses_mono [OF delete_guard.prems]) simp_all
  then show ?case by (intro addresses_move) simp_all
next
  case (create i s)
  then show ?case by (intro addresses_mono [OF create.prems]) (simp_all add: flag_refs_def)
qed (intro addresses_move; simp)+

lemma live_mem: "(j, a) \<in> refers (g_at s t) \<Longrightarrow> live_ok s \<Longrightarrow> live s j \<Longrightarrow> g_map s j = Some a"
  by (auto simp: live_ok_def)

lemma live_flag: "live_ok s \<Longrightarrow> live s i \<Longrightarrow> g_map s i = Some a \<Longrightarrow> g_flag s a \<longleftrightarrow> (\<exists>t. holds i (g_at s t))"
  by (simp add: live_ok_def)

lemma live_unique: "live_ok s \<Longrightarrow> live s i \<Longrightarrow> holds i (g_at s t) \<Longrightarrow> holds i (g_at s u) \<Longrightarrow> t = u"
  unfolding live_ok_def by meson

lemma live_okI:
  assumes "\<And>i a t. live s i \<Longrightarrow> (i, a) \<in> refers (g_at s t) \<Longrightarrow> g_map s i = Some a"
    and "\<And>i a. live s i \<Longrightarrow> g_map s i = Some a \<Longrightarrow> g_flag s a \<longleftrightarrow> (\<exists>t. holds i (g_at s t))"
    and "\<And>i t u. live s i \<Longrightarrow> holds i (g_at s t) \<Longrightarrow> holds i (g_at s u) \<Longrightarrow> t = u"
  shows "live_ok s"
  unfolding live_ok_def using assms by meson

lemma ex_other: "\<not> P t \<Longrightarrow> (\<exists>u. u \<noteq> t \<and> P u) \<longleftrightarrow> (\<exists>u. P u)"
  by metis

text \<open>A step that changes no flag, and nothing a live identifier can see of the map.\<close>

lemma live_quiet:
  assumes "live_ok s"
    and "\<And>j. live s' j \<Longrightarrow> live s j \<and> g_map s' j = g_map s j" "g_flag s' = g_flag s" "g_at s' = (g_at s)(t := p)"
    and "\<And>j a. live s j \<Longrightarrow> (j, a) \<in> refers p \<Longrightarrow> g_map s j = Some a"
    and "\<And>j. live s j \<Longrightarrow> holds j p = holds j (g_at s t)"
  shows "live_ok s'"
proof (rule live_okI)
  have holds: "holds j (g_at s' u) = holds j (g_at s u)" if "live s j" for j u
    using assms(6) that by (simp add: assms(4))
  fix j a u v
  assume j': "live s' j"
  note j = assms(2) [OF j']
  show "g_map s' j = Some a" if "(j, a) \<in> refers (g_at s' u)"
    using that j assms(4,5) live_mem [OF _ assms(1), of j a u] by (cases "u = t") auto
  show "g_flag s' a \<longleftrightarrow> (\<exists>u. holds j (g_at s' u))" if "g_map s' j = Some a"
    using live_flag [OF assms(1), of j a] that j holds assms(3) by simp
  show "u = v" if "holds j (g_at s' u)" "holds j (g_at s' v)"
    using live_unique [OF assms(1), of j u v] that j holds by simp
qed

lemma holds_refers: "holds i p \<Longrightarrow> \<exists>a. (i, a) \<in> refers p"
  by (cases p) auto

lemma other_flag:
  "addresses_ok s \<Longrightarrow> (i, a) \<in> flag_refs s \<Longrightarrow> g_map s j = Some b \<Longrightarrow> j \<noteq> i \<Longrightarrow> b \<noteq> a"
  using mapped_flag [of s j b] addresses_owner [of s i a j] by auto

lemma live_acquire:
  assumes "addresses_ok s" "live_ok s" "g_at s t = Swap i a" "\<not> g_flag s a"
  shows "live_ok (move t (Check i a) (s\<lparr>g_flag := (g_flag s)(a := True)\<rparr>))" (is "live_ok ?s'")
proof (rule live_okI)
  have ref: "(i, a) \<in> flag_refs s" using refers_flag [of s t] assms(3) by auto
  have mapped: "g_map s i = Some a" if "live s i" using live_mem [of i a s t] assms(2,3) that by simp
  have none: "\<not> holds i (g_at s u)" if "live s i" for u
    using live_flag [OF assms(2) that mapped [OF that]] assms(4) by blast
  have t: "\<not> holds j (g_at s t)" for j using assms(3) by simp
  have h: "holds j (g_at ?s' u) \<longleftrightarrow> (if u = t then j = i else holds j (g_at s u))" for j u by simp
  fix j b u v
  assume "live ?s' j"
  then have j: "live s j" by (simp add: live_def)
  show "g_map ?s' j = Some b" if "(j, b) \<in> refers (g_at ?s' u)"
    using that j mapped live_mem [OF _ assms(2) j, of b u] by (cases "u = t") auto
  show "g_flag ?s' b \<longleftrightarrow> (\<exists>u. holds j (g_at ?s' u))" if "g_map ?s' j = Some b"
  proof (cases "j = i")
    case True
    then show ?thesis using mapped j that by (auto intro!: exI [of _ t])
  next
    case False
    have m: "g_map s j = Some b" using that by simp
    have "(\<exists>u. holds j (g_at ?s' u)) \<longleftrightarrow> (\<exists>u. u \<noteq> t \<and> holds j (g_at s u))"
      unfolding h using False by (auto cong: conj_cong)
    then show ?thesis
      using other_flag [OF assms(1) ref m False] live_flag [OF assms(2) j m] ex_other [of "\<lambda>u. holds j (g_at s u)" t] t by simp
  qed
  show "u = v" if "holds j (g_at ?s' u)" "holds j (g_at ?s' v)"
    using that none j live_unique [OF assms(2) j, of u v] unfolding h by (simp split: if_splits)
qed

lemma live_clear:
  assumes "addresses_ok s" "live_ok s" "g_at s t = Clear i a b"
  shows "live_ok (move t Idle (s\<lparr>g_flag := (g_flag s)(b := False)\<rparr>))" (is "live_ok ?s'")
proof (rule live_okI)
  have ref: "(i, b) \<in> flag_refs s" using refers_flag [of s t] assms(3) by auto
  have mapped: "g_map s i = Some b" if "live s i" using live_mem [of i b s t] assms(2,3) that by simp
  have h: "holds j (g_at ?s' u) \<longleftrightarrow> u \<noteq> t \<and> holds j (g_at s u)" for j u by simp
  have t: "holds j (g_at s t) \<longleftrightarrow> j = i" for j using assms(3) by simp
  fix j c u v
  assume "live ?s' j"
  then have j: "live s j" by (simp add: live_def)
  show "g_map ?s' j = Some c" if "(j, c) \<in> refers (g_at ?s' u)"
    using that live_mem [OF _ assms(2) j, of c u] by (cases "u = t") auto
  show "g_flag ?s' c \<longleftrightarrow> (\<exists>u. holds j (g_at ?s' u))" if "g_map ?s' j = Some c"
  proof (cases "j = i")
    case True
    have "\<not> (u \<noteq> t \<and> holds i (g_at s u))" for u
      using live_unique [OF assms(2), of i t u] t [of i] j True by blast
    then show ?thesis using mapped that j True unfolding h by simp
  next
    case False
    have m: "g_map s j = Some c" using that by simp
    show ?thesis
      unfolding h
      using other_flag [OF assms(1) ref m False] live_flag [OF assms(2) j m] t [of j] False
        ex_other [of "\<lambda>u. holds j (g_at s u)" t] by simp
  qed
  show "u = v" if "holds j (g_at ?s' u)" "holds j (g_at ?s' v)"
    using that live_unique [OF assms(2) j, of u v] unfolding h by simp
qed

lemma live_store_new:
  assumes "addresses_ok s" "live_ok s" "g_at s t = Lookup i" "g_map s i = None"
  shows "live_ok (move t (Swap i (g_next s))
      (s\<lparr>g_map := (g_map s)(i \<mapsto> g_next s), g_flag := (g_flag s)(g_next s := False), g_next := Suc (g_next s)\<rparr>))"
    (is "live_ok ?s'")
proof (rule live_okI)
  have h: "holds j (g_at ?s' u) \<longleftrightarrow> u \<noteq> t \<and> holds j (g_at s u)" for j u by simp
  have t: "\<not> holds j (g_at s t)" for j using assms(3) by simp
  have none: "\<not> holds i (g_at s u)" if "live s i" for u
    using holds_refers [of i "g_at s u"] live_mem [of i _ s u] assms(2,4) that by auto
  fix j c u v
  assume "live ?s' j"
  then have j: "live s j" by (simp add: live_def)
  show "g_map ?s' j = Some c" if "(j, c) \<in> refers (g_at ?s' u)"
    using that assms(4) live_mem [OF _ assms(2) j, of c u] by (cases "u = t") auto
  show "g_flag ?s' c \<longleftrightarrow> (\<exists>u. holds j (g_at ?s' u))" if "g_map ?s' j = Some c"
  proof (cases "j = i")
    case True
    then show ?thesis using that none j unfolding h by simp
  next
    case False
    then have m: "g_map s j = Some c" using that by simp
    show ?thesis
      unfolding h
      using addresses_below [OF assms(1) mapped_flag [OF m]] live_flag [OF assms(2) j m] t [of j]
        ex_other [of "\<lambda>u. holds j (g_at s u)" t] by simp
  qed
  show "u = v" if "holds j (g_at ?s' u)" "holds j (g_at ?s' v)"
    using that live_unique [OF assms(2) j, of u v] unfolding h by simp
qed

lemma step_store:
  assumes "guard_step s s'" "store_ok s"
  shows "store_ok s'"
  using assms by (induction rule: guard_step.induct) (auto simp: store_ok_def live_def split: if_splits)

lemma live_move:
  assumes "live_ok s" "\<And>j a. (j, a) \<in> refers p \<Longrightarrow> (j, a) \<in> refers (g_at s t) \<or> g_map s j = Some a"
    and "\<And>j. live s j \<Longrightarrow> holds j p = holds j (g_at s t)"
  shows "live_ok (move t p s)"
proof (rule live_quiet [OF assms(1), where t = t and p = p])
  show "g_map s j = Some a" if "live s j" "(j, a) \<in> refers p" for j a
    using assms(2) [OF that(2)] live_mem [OF _ assms(1) that(1)] by blast
qed (use assms(3) in \<open>simp_all add: live_def\<close>)

lemma step_live:
  assumes "guard_step s s'" "addresses_ok s" "store_ok s" "live_ok s"
  shows "live_ok s'"
  using assms
proof (induction rule: guard_step.induct)
  case (store_new s t i)
  then show ?case by (intro live_store_new)
next
  case (acquire s t i a)
  then show ?case by (intro live_acquire)
next
  case (clear s t i a b)
  then show ?case by (intro live_clear)
next
  case (create i s)
  show ?case
  proof (rule live_quiet [OF create.prems(3), where t = 0 and p = "g_at s 0"])
    show "live s j \<and> g_map (s\<lparr>g_jobs := insert i (g_jobs s), g_seen := insert i (g_seen s)\<rparr>) j = g_map s j"
      if "live (s\<lparr>g_jobs := insert i (g_jobs s), g_seen := insert i (g_seen s)\<rparr>) j" for j
      using that create by (auto simp: live_def)
  qed (use live_mem [OF _ create.prems(3)] in auto)
next
  case (delete_stored s t i)
  then have "i \<in> g_seen s" by (simp add: store_ok_def)
  then show ?case
    using delete_stored(1)
    by (intro live_quiet [OF delete_stored.prems(3), where t = t and p = "DelGuard i"]) (auto simp: live_def)
next
  case (delete_guard s t i)
  then have "\<not> live s i" by (simp add: store_ok_def)
  then show ?case
    using delete_guard(1)
    by (intro live_quiet [OF delete_guard.prems(3), where t = t and p = Idle]) (auto simp: live_def)
next
  case (free_gone s t i a)
  then show ?case using live_mem [of i a s t] by (intro live_move) auto
qed (intro live_move; auto)+

lemma step_exclusive:
  assumes "guard_step s s'" "live_ok s" "exclusive s"
  shows "exclusive s'"
proof -
  have alone: "u = v" if "live s i" "holds i (g_at s u)" "holds i (g_at s v)" for i u v
    using live_unique [OF assms(2) that] .
  show ?thesis
    using assms(1,3) alone
  proof (induction rule: guard_step.induct)
    case (accept s t i a)
    have "\<not> runs i (g_at s u)" if "u \<noteq> t" for u
      using accept(4) [of i t u] runs_holds [of i "g_at s u"] accept(1,2) that by (auto simp: live_def)
    with accept show ?case by (auto simp: exclusive_def)
  qed (auto simp: exclusive_def split: if_splits)
qed

interpretation guard: transition_system fresh_guards guard_step guard_inv
  by unfold_locales
    (auto simp: guard_inv_def fresh_inv [unfolded guard_inv_def] intro: step_addresses step_store step_live step_exclusive)

section \<open>Mutual exclusion\<close>

text \<open>C15: However requests, deletions and job creations interleave, at most one run of a job that was asked
  for here is in progress at any time; and a job that is not deleted is answered with a conflict
  only while some request or run for it is under way, so no flag stays set behind a finished run.\<close>
theorem one_run_per_job:
  assumes "fresh_guards s" "guard_step\<^sup>*\<^sup>* s s'"
  shows "(runs i (g_at s' t) \<longrightarrow> runs i (g_at s' u) \<longrightarrow> t = u) \<and>
    (i \<in> g_jobs s' \<longrightarrow> g_at s' t = Swap i a \<longrightarrow> g_flag s' a \<longrightarrow> (\<exists>v. v \<noteq> t \<and> holds i (g_at s' v)))"
proof -
  have inv: "guard_inv s'" using guard.reachable_inv [OF assms] .
  have "\<exists>v. v \<noteq> t \<and> holds i (g_at s' v)" if h: "i \<in> g_jobs s'" "g_at s' t = Swap i a" "g_flag s' a"
  proof -
    have l: "live s' i" "live_ok s'" using inv h(1) by (simp_all add: live_def guard_inv_def)
    have "g_map s' i = Some a" using live_mem [of i a s' t] l h(2) by simp
    then obtain v where "holds i (g_at s' v)" using live_flag [OF l(2,1)] h(3) by blast
    then show ?thesis using h(2) by (intro exI [of _ v]) auto
  qed
  then show ?thesis using inv by (auto simp: guard_inv_def exclusive_def)
qed

section \<open>Instances\<close>

definition sample_guards :: guards where
  "sample_guards = \<lparr>g_map = (\<lambda>_. None), g_flag = (\<lambda>_. False), g_next = 0, g_jobs = {''j''}, g_seen = {''j''},
     g_at = (\<lambda>_. Idle)\<rparr>"

lemma four_steps: "r a b \<Longrightarrow> r b c \<Longrightarrow> r c d \<Longrightarrow> r d e \<Longrightarrow> r\<^sup>*\<^sup>* a e"
  by (meson converse_rtranclp_into_rtranclp rtranclp.rtrancl_refl)

theorem one_run_per_job_witness:
  "\<exists>s'. guard_step\<^sup>*\<^sup>* sample_guards s' \<and> runs ''j'' (g_at s' 0) \<and> (\<forall>u. runs ''j'' (g_at s' u) \<longrightarrow> u = 0)"
proof -
  let ?s1 = "move 0 (Lookup ''j'') sample_guards"
  let ?s2 = "move 0 (Swap ''j'' 0) (?s1\<lparr>g_map := (g_map ?s1)(''j'' \<mapsto> 0), g_flag := (g_flag ?s1)(0 := False), g_next := Suc 0\<rparr>)"
  let ?s3 = "move 0 (Check ''j'' 0) (?s2\<lparr>g_flag := (g_flag ?s2)(0 := True)\<rparr>)"
  let ?s4 = "move 0 (Running ''j'' 0) ?s3"
  have f: "fresh_guards sample_guards" by (simp add: fresh_guards_def sample_guards_def)
  have s1: "guard_step sample_guards ?s1" by (rule guard_step.request) (simp add: sample_guards_def)
  have s2: "guard_step ?s1 ?s2"
    using guard_step.store_new [of ?s1 0 "''j''"] by (simp add: sample_guards_def)
  have s3: "guard_step ?s2 ?s3" by (rule guard_step.acquire) simp_all
  have s4: "guard_step ?s3 ?s4" by (rule guard_step.accept) (simp_all add: sample_guards_def)
  have run: "guard_step\<^sup>*\<^sup>* sample_guards ?s4"
    by (rule four_steps [where r = guard_step, OF s1 s2 s3 s4])
  have "runs ''j'' (g_at ?s4 0)" by simp
  with one_run_per_job [OF f run, of "''j''" 0] run show ?thesis by blast
qed

end
