(* ===== verification/Plist.thy ===== *)
theory Plist
  imports Systemd
begin

text \<open>
  The property lists of launchd, the XML part of
  \<open>internal/backgroundjobs/scheduler_darwin.go\<close>. A document is the list of tokens that
  \<open>encoding/xml\<close> reads from it; a truncated or malformed file is a list that stops early, since
  every failure of \<open>Token\<close> is handled alike. \<open>MarshalXML\<close> is written as the code writes
  it, and \<open>layout\<close> adds the indentation of \<open>MarshalIndent\<close>. The readers are the loops
  of the code, on whatever document they are given, with their panic. The theory ends with the round
  trip.
\<close>

section \<open>Tokens\<close>

datatype token =
    StartElement string "(string \<times> string) list"
  | EndElement string
  | CharData string
  | Directive string
  | ProcInst string string
  | Comment string

text \<open>Character data as it is read back: what XML cannot carry became U+FFFD.\<close>

definition xml_char :: "nat \<Rightarrow> bool" where
  "xml_char r \<longleftrightarrow> r = 0x09 \<or> r = 0x0A \<or> r = 0x0D \<or> (0x20 \<le> r \<and> r \<le> 0xD7FF) \<or>
     (0xE000 \<le> r \<and> r \<le> 0xFFFD) \<or> (0x10000 \<le> r \<and> r \<le> 0x10FFFF)"

definition xml_text :: "string \<Rightarrow> string" where
  "xml_text s = concat (map (\<lambda>(r, b, ok). if ok \<and> xml_char r then b else rune_error) (runes s))"

definition chars :: "string \<Rightarrow> token list" where
  "chars s = (let t = xml_text s in if t = [] then [] else [CharData t])"

abbreviation start :: "string \<Rightarrow> token" where "start n \<equiv> StartElement n []"

text \<open>The indentation of the encoder: two spaces a level, no break before the end of an element
  that holds no other.\<close>

definition break :: "bool \<Rightarrow> nat \<Rightarrow> token list" where
  "break put depth =
     (let s = (if put then [CHR 0x0A] else []) @ replicate (2 * depth) (CHR '' '')
      in if s = [] then [] else [CharData s])"

fun layout :: "bool \<Rightarrow> nat \<Rightarrow> bool \<Rightarrow> token list \<Rightarrow> token list" where
  "layout put depth inside [] = []"
| "layout put depth inside (StartElement n a # ts) =
     break put depth @ StartElement n a # layout True (Suc depth) True ts"
| "layout put depth inside (EndElement n # ts) =
     (if inside then EndElement n # layout put (depth - 1) False ts
      else break put (depth - 1) @ EndElement n # layout True (depth - 1) False ts)"
| "layout put depth inside (t # ts) = t # layout put depth inside ts"

section \<open>Writing\<close>

record calendar_interval =
  ci_hour :: int
  ci_minute :: int
  ci_weekday :: int

text \<open>The fields of \<open>launchAgentPlist\<close> that are used.\<close>

record launch_agent =
  la_label :: string
  la_args :: "string list"
  la_workdir :: string
  la_calendar :: "calendar_interval list"
  la_interval :: int
  la_stdout :: string
  la_stderr :: string
  la_disabled :: bool

definition writePlistKey :: "string \<Rightarrow> token list" where
  "writePlistKey key = [start ''key'', CharData key, EndElement ''key'']"

definition encode_text :: "string \<Rightarrow> string \<Rightarrow> token list" where
  "encode_text n s = start n # chars s @ [EndElement n]"

definition writePlistString :: "string \<Rightarrow> string \<Rightarrow> token list" where
  "writePlistString key v = writePlistKey key @ encode_text ''string'' v"

definition writePlistBool :: "string \<Rightarrow> bool \<Rightarrow> token list" where
  "writePlistBool key v =
     (let n = (if v then ''true'' else ''false'') in writePlistKey key @ [start n, EndElement n])"

definition writePlistInt :: "string \<Rightarrow> int \<Rightarrow> token list" where
  "writePlistInt key v = writePlistKey key @ [start ''integer'', CharData (dec_int v), EndElement ''integer'']"

definition writePlistStringArray :: "string \<Rightarrow> string list \<Rightarrow> token list" where
  "writePlistStringArray key vs =
     writePlistKey key @ start ''array'' # concat (map (encode_text ''string'') vs) @ [EndElement ''array'']"

definition writePlistCalendarDict :: "calendar_interval \<Rightarrow> token list" where
  "writePlistCalendarDict cal =
     start ''dict'' # writePlistInt ''Hour'' (ci_hour cal) @ writePlistInt ''Minute'' (ci_minute cal) @
     (if ci_weekday cal \<ge> 0 then writePlistInt ''Weekday'' (ci_weekday cal) else []) @ [EndElement ''dict'']"

definition writePlistCalendarArray :: "string \<Rightarrow> calendar_interval list \<Rightarrow> token list" where
  "writePlistCalendarArray key cals =
     writePlistKey key @
     (case cals of
        [cal] \<Rightarrow> writePlistCalendarDict cal
      | _ \<Rightarrow> start ''array'' # concat (map writePlistCalendarDict cals) @ [EndElement ''array''])"

definition doctype :: string where
  "doctype = ''DOCTYPE plist PUBLIC \"-//Apple//DTD PLIST 1.0//EN\" \"http://www.apple.com/DTDs/PropertyList-1.0.dtd\"''"

definition MarshalXML :: "launch_agent \<Rightarrow> token list" where
  "MarshalXML p =
     [StartElement ''plist'' [(''version'', ''1.0'')], Directive doctype, start ''dict''] @
     writePlistString ''Label'' (la_label p) @
     writePlistStringArray ''ProgramArguments'' (la_args p) @
     writePlistString ''WorkingDirectory'' (la_workdir p) @
     (if la_interval p > 0 then writePlistInt ''StartInterval'' (la_interval p)
      else if la_calendar p \<noteq> [] then writePlistCalendarArray ''StartCalendarInterval'' (la_calendar p)
      else []) @
     writePlistString ''StandardOutPath'' (la_stdout p) @
     writePlistString ''StandardErrorPath'' (la_stderr p) @
     writePlistBool ''Disabled'' (la_disabled p) @
     [EndElement ''dict'', EndElement ''plist'']"

text \<open>The file: the XML header, the document, a line feed.\<close>

definition plist_document :: "launch_agent \<Rightarrow> token list" where
  "plist_document p =
     [ProcInst ''xml'' ''version=\"1.0\" encoding=\"UTF-8\"'', CharData [CHR 0x0A]] @
     layout False 0 False (MarshalXML p) @ [CharData [CHR 0x0A]]"

section \<open>Reading\<close>

datatype plist_error = Ended | Unconsumed | Panicked

type_synonym 'a reading = "plist_error + ('a \<times> token list)"

definition blank :: "string \<Rightarrow> bool" where
  "blank s \<longleftrightarrow> trim_space s = []"

fun nextContentToken :: "token list \<Rightarrow> (token \<times> token list) option" where
  "nextContentToken [] = None"
| "nextContentToken (CharData s # ts) = (if blank s then nextContentToken ts else Some (CharData s, ts))"
| "nextContentToken (t # ts) = Some (t, ts)"

text \<open>\<open>Decoder.Skip\<close>.\<close>

fun skip :: "nat \<Rightarrow> token list \<Rightarrow> token list option" where
  "skip depth [] = None"
| "skip depth (StartElement n a # ts) = skip (Suc depth) ts"
| "skip depth (EndElement n # ts) = (if depth = 0 then Some ts else skip (depth - 1) ts)"
| "skip depth (t # ts) = skip depth ts"

text \<open>\<open>fmt.Sscanf(s, "%d", &n)\<close> with \<open>n\<close> zero before: spaces that are not line
  feeds, a sign, digits; what cannot be read leaves zero.\<close>

function scan_space :: "string \<Rightarrow> string option" where
  "scan_space s =
     (case leading space_encodings s of
        None \<Rightarrow> Some s
      | Some w \<Rightarrow>
          if w = [] then Some s
          else if w = [CHR 0x0A] \<or> has_prefix s [CHR 0x0D, CHR 0x0A] then None
          else scan_space (drop (length w) s))"
  by pat_completeness auto
termination by (relation "measure length") (auto simp: leading_drop_less)

declare scan_space.simps [simp del]

definition sscan_d :: "string \<Rightarrow> int" where
  "sscan_d s =
     (case scan_space s of
        None \<Rightarrow> 0
      | Some t \<Rightarrow>
          let neg = has_prefix t ''-'';
              u = (if neg \<or> has_prefix t ''+'' then drop 1 t else t);
              ds = takeWhile is_digit u;
              v = (if neg then - digits_val ds else digits_val ds)
          in if ds \<noteq> [] \<and> in_i64 v then v else 0)"

definition readPlistInt :: "token list \<Rightarrow> int reading" where
  "readPlistInt ts =
     (case nextContentToken ts of
        None \<Rightarrow> Inl Ended
      | Some (CharData s, ts1) \<Rightarrow> (case ts1 of [] \<Rightarrow> Inl Ended | _ # ts2 \<Rightarrow> Inr (sscan_d s, ts2))
      | Some (_, ts1) \<Rightarrow> Inr (0, ts1))"

definition readPlistString :: "token list \<Rightarrow> string reading" where
  "readPlistString ts =
     (case nextContentToken ts of
        None \<Rightarrow> Inl Ended
      | Some (CharData s, ts1) \<Rightarrow> (case ts1 of [] \<Rightarrow> Inl Ended | _ # ts2 \<Rightarrow> Inr (s, ts2))
      | Some (_, ts1) \<Rightarrow> Inr ([], ts1))"

definition readPlistBool :: "string \<Rightarrow> token list \<Rightarrow> bool reading" where
  "readPlistBool n ts =
     (case skip 0 ts of None \<Rightarrow> Inl Ended | Some ts1 \<Rightarrow> Inr (n = ''true'', ts1))"

text \<open>Every reader moves forward.\<close>

lemma nextContentToken_shorter: "nextContentToken ts = Some (t, ts') \<Longrightarrow> length ts' < length ts"
  by (induction ts rule: nextContentToken.induct) (auto split: if_splits)

lemma skip_shorter: "skip d ts = Some ts' \<Longrightarrow> length ts' < length ts"
  by (induction d ts rule: skip.induct) (auto split: if_splits)

lemma readPlistString_shorter: "readPlistString ts = Inr (s, ts') \<Longrightarrow> length ts' < length ts"
  by (auto simp: readPlistString_def dest!: nextContentToken_shorter
      split: option.splits token.splits list.splits)

lemma readPlistInt_shorter: "readPlistInt ts = Inr (n, ts') \<Longrightarrow> length ts' < length ts"
  by (auto simp: readPlistInt_def dest!: nextContentToken_shorter
      split: option.splits token.splits list.splits)

lemma readPlistBool_shorter: "readPlistBool n ts = Inr (b, ts') \<Longrightarrow> length ts' < length ts"
  by (auto simp: readPlistBool_def dest!: skip_shorter split: option.splits)

function (sequential) readPlistStringArray :: "string list \<Rightarrow> token list \<Rightarrow> string list reading" where
  "readPlistStringArray result [] = Inl Ended"
| "readPlistStringArray result (EndElement n # ts) = Inr (result, ts)"
| "readPlistStringArray result (StartElement n a # ts) =
     (if n = ''string'' then
        (case readPlistString ts of
           Inl e \<Rightarrow> Inl e
         | Inr (s, ts1) \<Rightarrow> readPlistStringArray (result @ [s]) ts1)
      else
        (case skip 0 ts of None \<Rightarrow> Inl Ended | Some ts1 \<Rightarrow> readPlistStringArray result ts1))"
| "readPlistStringArray result (t # ts) = readPlistStringArray result ts"
  by pat_completeness auto
termination
  by (relation "measure (\<lambda>(r, ts). length ts)") (auto dest: readPlistString_shorter skip_shorter)

definition set_field :: "string \<Rightarrow> int \<Rightarrow> calendar_interval \<Rightarrow> calendar_interval" where
  "set_field key n cal =
     (if key = ''Hour'' then cal\<lparr>ci_hour := n\<rparr>
      else if key = ''Minute'' then cal\<lparr>ci_minute := n\<rparr>
      else if key = ''Weekday'' then cal\<lparr>ci_weekday := n\<rparr> else cal)"

text \<open>The token after the end of a key, and the token of a number whose end is skipped.\<close>

definition value_token :: "token list \<Rightarrow> (token \<times> token list) option" where
  "value_token ts = (case ts of [] \<Rightarrow> None | _ # ts1 \<Rightarrow> nextContentToken ts1)"

definition number_token :: "token list \<Rightarrow> (token \<times> token list) option" where
  "number_token ts =
     (case nextContentToken ts of
        None \<Rightarrow> None
      | Some (num, ts1) \<Rightarrow> (case ts1 of [] \<Rightarrow> None | _ # ts2 \<Rightarrow> Some (num, ts2)))"

lemma value_token_shorter: "value_token ts = Some (t, ts') \<Longrightarrow> length ts' < length ts"
  by (auto simp: value_token_def dest!: nextContentToken_shorter split: list.splits)

lemma number_token_shorter: "number_token ts = Some (t, ts') \<Longrightarrow> length ts' < length ts"
  by (auto simp: number_token_def dest!: nextContentToken_shorter split: list.splits option.splits)

text \<open>A key that is not text stops the program: its type is asserted without a check.\<close>

function (sequential) calendar_dict :: "calendar_interval \<Rightarrow> token list \<Rightarrow> calendar_interval reading" where
  "calendar_dict cal [] = Inl Ended"
| "calendar_dict cal (EndElement n # ts) = Inr (cal, ts)"
| "calendar_dict cal (StartElement n a # ts) =
     (case ts of
        [] \<Rightarrow> Inl Ended
      | CharData key # ts1 \<Rightarrow>
          (case value_token ts1 of
             None \<Rightarrow> Inl Ended
           | Some (StartElement _ _, ts2) \<Rightarrow>
               (case number_token ts2 of
                  None \<Rightarrow> Inl Ended
                | Some (num, ts3) \<Rightarrow>
                    calendar_dict (case num of CharData s \<Rightarrow> set_field key (sscan_d s) cal | _ \<Rightarrow> cal) ts3)
           | Some (_, ts2) \<Rightarrow> calendar_dict cal ts2)
      | _ # _ \<Rightarrow> Inl Panicked)"
| "calendar_dict cal (t # ts) = calendar_dict cal ts"
  by pat_completeness auto
termination
  by (relation "measure (\<lambda>(c, ts). length ts)") (auto dest!: value_token_shorter number_token_shorter)

definition readPlistCalendarDict :: "token list \<Rightarrow> calendar_interval reading" where
  "readPlistCalendarDict ts = calendar_dict \<lparr>ci_hour = 0, ci_minute = 0, ci_weekday = -1\<rparr> ts"

lemma calendar_dict_shorter: "calendar_dict cal ts = Inr (c, ts') \<Longrightarrow> length ts' < length ts"
proof (induction cal ts rule: calendar_dict.induct)
  case (3 cal n a ts)
  obtain key ts1 v ts2 where ts: "ts = CharData key # ts1" "value_token ts1 = Some (v, ts2)"
    using "3.prems" by (auto split: list.splits token.splits option.splits)
  have l: "length ts2 < length ts1" using value_token_shorter [OF ts(2)] .
  show ?case
  proof (cases v)
    case (StartElement m b)
    obtain num ts3 where num: "number_token ts2 = Some (num, ts3)"
      using "3.prems" by (auto simp: ts StartElement split: option.splits)
    show ?thesis
      using "3.IH"(1) [OF ts(1) refl ts(2) refl StartElement num refl] "3.prems" l number_token_shorter [OF num]
      by (simp add: ts StartElement num)
  qed (use "3.IH"(2-) [OF ts(1) refl ts(2) refl] "3.prems" l in \<open>simp_all add: ts\<close>)
qed auto

lemma readPlistCalendarDict_shorter: "readPlistCalendarDict ts = Inr (c, ts') \<Longrightarrow> length ts' < length ts"
  by (simp add: readPlistCalendarDict_def calendar_dict_shorter)

function (sequential) calendar_array :: "calendar_interval list \<Rightarrow> token list \<Rightarrow> calendar_interval list reading" where
  "calendar_array result [] = Inl Ended"
| "calendar_array result (EndElement n # ts) = Inr (result, ts)"
| "calendar_array result (StartElement n a # ts) =
     (if n = ''dict'' then
        (case readPlistCalendarDict ts of
           Inl e \<Rightarrow> Inl e
         | Inr (cal, ts1) \<Rightarrow> calendar_array (result @ [cal]) ts1)
      else
        (case skip 0 ts of None \<Rightarrow> Inl Ended | Some ts1 \<Rightarrow> calendar_array result ts1))"
| "calendar_array result (t # ts) = calendar_array result ts"
  by pat_completeness auto
termination
  by (relation "measure (\<lambda>(r, ts). length ts)") (auto dest: readPlistCalendarDict_shorter skip_shorter)

definition readPlistCalendarArray :: "string \<Rightarrow> token list \<Rightarrow> calendar_interval list reading" where
  "readPlistCalendarArray n ts =
     (if n = ''array'' then calendar_array [] ts
      else (case readPlistCalendarDict ts of Inl e \<Rightarrow> Inl e | Inr (cal, ts1) \<Rightarrow> Inr ([cal], ts1)))"

lemma readPlistStringArray_shorter:
  "readPlistStringArray r ts = Inr (s, ts') \<Longrightarrow> length ts' < length ts"
  by (induction r ts rule: readPlistStringArray.induct)
     (fastforce split: if_splits sum.splits option.splits dest!: readPlistString_shorter skip_shorter)+

lemma calendar_array_shorter: "calendar_array r ts = Inr (s, ts') \<Longrightarrow> length ts' < length ts"
  by (induction r ts rule: calendar_array.induct)
     (fastforce split: if_splits sum.splits option.splits dest!: readPlistCalendarDict_shorter skip_shorter)+

lemma readPlistCalendarArray_shorter:
  "readPlistCalendarArray n ts = Inr (s, ts') \<Longrightarrow> length ts' < length ts"
  by (auto simp: readPlistCalendarArray_def split: if_splits sum.splits
      dest: calendar_array_shorter readPlistCalendarDict_shorter)

definition stored :: "('a \<Rightarrow> launch_agent) \<Rightarrow> 'a reading \<Rightarrow> launch_agent reading" where
  "stored upd r = (case r of Inl e \<Rightarrow> Inl e | Inr (v, ts) \<Rightarrow> Inr (upd v, ts))"

definition read_value :: "string \<Rightarrow> string \<Rightarrow> token list \<Rightarrow> launch_agent \<Rightarrow> launch_agent reading" where
  "read_value key n ts p =
     (if key = ''Label'' then stored (\<lambda>v. p\<lparr>la_label := v\<rparr>) (readPlistString ts)
      else if key = ''ProgramArguments'' then stored (\<lambda>v. p\<lparr>la_args := v\<rparr>) (readPlistStringArray [] ts)
      else if key = ''WorkingDirectory'' then stored (\<lambda>v. p\<lparr>la_workdir := v\<rparr>) (readPlistString ts)
      else if key = ''StartCalendarInterval'' then
        stored (\<lambda>v. p\<lparr>la_calendar := v\<rparr>) (readPlistCalendarArray n ts)
      else if key = ''StartInterval'' then stored (\<lambda>v. p\<lparr>la_interval := v\<rparr>) (readPlistInt ts)
      else if key = ''StandardOutPath'' then stored (\<lambda>v. p\<lparr>la_stdout := v\<rparr>) (readPlistString ts)
      else if key = ''StandardErrorPath'' then stored (\<lambda>v. p\<lparr>la_stderr := v\<rparr>) (readPlistString ts)
      else if key = ''Disabled'' then stored (\<lambda>v. p\<lparr>la_disabled := v\<rparr>) (readPlistBool n ts)
      else (case skip 0 ts of None \<Rightarrow> Inl Ended | Some ts1 \<Rightarrow> Inr (p, ts1)))"

lemma stored_shorter:
  "stored upd r = Inr (p, ts') \<Longrightarrow> (\<And>v. r = Inr (v, ts') \<Longrightarrow> length ts' < n) \<Longrightarrow> length ts' < n"
  by (auto simp: stored_def split: sum.splits)

lemma read_value_shorter: "read_value key n ts p = Inr (p', ts') \<Longrightarrow> length ts' < length ts"
  by (auto simp: read_value_def split: if_splits option.splits elim!: stored_shorter
      dest: readPlistString_shorter readPlistStringArray_shorter readPlistCalendarArray_shorter
        readPlistInt_shorter readPlistBool_shorter skip_shorter)

function (sequential) unmarshalDict :: "launch_agent \<Rightarrow> token list \<Rightarrow> launch_agent reading" where
  "unmarshalDict p [] = Inl Ended"
| "unmarshalDict p (EndElement n # ts) = Inr (p, ts)"
| "unmarshalDict p (StartElement n a # ts) =
     (case ts of
        [] \<Rightarrow> Inl Ended
      | CharData key # ts1 \<Rightarrow>
          (case value_token ts1 of
             None \<Rightarrow> Inl Ended
           | Some (StartElement m _, ts2) \<Rightarrow>
               (case read_value key m ts2 p of
                  Inl e \<Rightarrow> Inl e
                | Inr (p', ts3) \<Rightarrow> unmarshalDict p' ts3)
           | Some (_, ts2) \<Rightarrow> unmarshalDict p ts2)
      | _ # ts1 \<Rightarrow> unmarshalDict p ts1)"
| "unmarshalDict p (t # ts) = unmarshalDict p ts"
  by pat_completeness auto
termination
  by (relation "measure (\<lambda>(p, ts). length ts)") (auto dest!: value_token_shorter read_value_shorter)

fun to_plist_end :: "token list \<Rightarrow> token list option" where
  "to_plist_end [] = None"
| "to_plist_end (EndElement n # ts) = (if n = ''plist'' then Some ts else to_plist_end ts)"
| "to_plist_end (t # ts) = to_plist_end ts"

fun UnmarshalXML :: "launch_agent \<Rightarrow> token list \<Rightarrow> launch_agent reading" where
  "UnmarshalXML p [] = Inl Ended"
| "UnmarshalXML p (StartElement n a # ts) =
     (if n = ''dict'' then
        (case unmarshalDict p ts of
           Inl e \<Rightarrow> Inl e
         | Inr (p', ts1) \<Rightarrow> (case to_plist_end ts1 of None \<Rightarrow> Inl Ended | Some ts2 \<Rightarrow> Inr (p', ts2)))
      else UnmarshalXML p ts)"
| "UnmarshalXML p (t # ts) = UnmarshalXML p ts"

text \<open>\<open>xml.Unmarshal\<close>: the decoder gives the unmarshaler the tokens of the first element only,
  up to its end, and insists that all of them are read.\<close>

fun element_tokens :: "nat \<Rightarrow> token list \<Rightarrow> token list \<times> bool" where
  "element_tokens depth [] = ([], False)"
| "element_tokens depth (StartElement n a # ts) =
     (case element_tokens (Suc depth) ts of (us, ended) \<Rightarrow> (StartElement n a # us, ended))"
| "element_tokens depth (EndElement n # ts) =
     (if depth = 0 then ([EndElement n], True)
      else (case element_tokens (depth - 1) ts of (us, ended) \<Rightarrow> (EndElement n # us, ended)))"
| "element_tokens depth (t # ts) =
     (case element_tokens depth ts of (us, ended) \<Rightarrow> (t # us, ended))"

definition no_agent :: launch_agent where
  "no_agent = \<lparr>la_label = [], la_args = [], la_workdir = [], la_calendar = [], la_interval = 0,
     la_stdout = [], la_stderr = [], la_disabled = False\<rparr>"

fun xml_unmarshal :: "token list \<Rightarrow> plist_error + launch_agent" where
  "xml_unmarshal [] = Inl Ended"
| "xml_unmarshal (StartElement n a # ts) =
     (case element_tokens 0 ts of
        (us, ended) \<Rightarrow>
          (case UnmarshalXML no_agent us of
             Inl e \<Rightarrow> Inl e
           | Inr (p, rest) \<Rightarrow> if ended \<and> rest = [] then Inr p else Inl Unconsumed))"
| "xml_unmarshal (t # ts) = xml_unmarshal ts"

section \<open>Layout\<close>

text \<open>The pieces of a document as they are laid out at a given depth.\<close>

definition gap :: "nat \<Rightarrow> token" where
  "gap d = CharData (CHR 0x0A # replicate (2 * d) (CHR '' ''))"

definition laid_key :: "nat \<Rightarrow> string \<Rightarrow> token list" where
  "laid_key d k = [gap d, start ''key'', CharData k, EndElement ''key'']"

definition laid_text :: "nat \<Rightarrow> string \<Rightarrow> token list" where
  "laid_text d s = gap d # start ''string'' # chars s @ [EndElement ''string'']"

definition laid_strings :: "nat \<Rightarrow> string list \<Rightarrow> token list" where
  "laid_strings d vs = gap d # start ''array'' # concat (map (laid_text (Suc d)) vs) @
     (if vs = [] then [] else [gap d]) @ [EndElement ''array'']"

definition laid_int :: "nat \<Rightarrow> string \<Rightarrow> int \<Rightarrow> token list" where
  "laid_int d k v = laid_key d k @ [gap d, start ''integer'', CharData (dec_int v), EndElement ''integer'']"

definition laid_cal :: "nat \<Rightarrow> calendar_interval \<Rightarrow> token list" where
  "laid_cal d c = gap d # start ''dict'' # laid_int (Suc d) ''Hour'' (ci_hour c) @ laid_int (Suc d) ''Minute'' (ci_minute c) @
     (if ci_weekday c \<ge> 0 then laid_int (Suc d) ''Weekday'' (ci_weekday c) else []) @ [gap d, EndElement ''dict'']"

definition laid_cals :: "nat \<Rightarrow> calendar_interval list \<Rightarrow> token list" where
  "laid_cals d cs =
     (case cs of
        [c] \<Rightarrow> laid_cal d c
      | _ \<Rightarrow> gap d # start ''array'' # concat (map (laid_cal (Suc d)) cs) @
            (if cs = [] then [] else [gap d]) @ [EndElement ''array''])"

definition laid_schedule :: "nat \<Rightarrow> launch_agent \<Rightarrow> token list" where
  "laid_schedule d p =
     (if la_interval p > 0 then laid_int d ''StartInterval'' (la_interval p)
      else if la_calendar p \<noteq> [] then laid_key d ''StartCalendarInterval'' @ laid_cals d (la_calendar p)
      else [])"

definition laid_items :: "nat \<Rightarrow> launch_agent \<Rightarrow> token list" where
  "laid_items d p =
     laid_key d ''Label'' @ laid_text d (la_label p) @
     laid_key d ''ProgramArguments'' @ laid_strings d (la_args p) @
     laid_key d ''WorkingDirectory'' @ laid_text d (la_workdir p) @
     laid_schedule d p @
     laid_key d ''StandardOutPath'' @ laid_text d (la_stdout p) @
     laid_key d ''StandardErrorPath'' @ laid_text d (la_stderr p) @
     laid_key d ''Disabled'' @ [gap d, start (if la_disabled p then ''true'' else ''false''),
       EndElement (if la_disabled p then ''true'' else ''false'')]"

lemma break_gap [simp]: "break True d = [gap d]" "break False 0 = []"
  by (simp_all add: break_def gap_def)

lemma layout_chars [simp]: "layout put d i (chars s @ ts) = chars s @ layout put d i ts"
  by (simp add: chars_def Let_def)

lemma layout_key [simp]: "layout True d i (writePlistKey k @ ts) = laid_key d k @ layout True d False ts"
  by (simp add: writePlistKey_def laid_key_def)

lemma layout_text [simp]:
  "layout True d i (encode_text ''string'' s @ ts) = laid_text d s @ layout True d False ts"
  by (simp add: encode_text_def laid_text_def)

lemma layout_texts:
  "layout True d i (concat (map (encode_text ''string'') vs) @ ts) =
     concat (map (laid_text d) vs) @ layout True d (i \<and> vs = []) ts"
  by (induction vs arbitrary: i) auto

lemma layout_int [simp]: "layout True d i (writePlistInt k v @ ts) = laid_int d k v @ layout True d False ts"
  by (simp add: writePlistInt_def laid_int_def)

lemma layout_cal [simp]: "layout True d i (writePlistCalendarDict c @ ts) = laid_cal d c @ layout True d False ts"
  by (simp add: writePlistCalendarDict_def laid_cal_def)

lemma layout_cals:
  "layout True d i (concat (map writePlistCalendarDict cs) @ ts) =
     concat (map (laid_cal d) cs) @ layout True d (i \<and> cs = []) ts"
  by (induction cs arbitrary: i) auto

lemma layout_strings [simp]:
  "layout True d i (writePlistStringArray k vs @ ts) = laid_key d k @ laid_strings d vs @ layout True d False ts"
  by (simp add: writePlistStringArray_def laid_strings_def layout_texts)

lemma layout_calendar [simp]:
  "layout True d i (writePlistCalendarArray k cs @ ts) = laid_key d k @ laid_cals d cs @ layout True d False ts"
  by (auto simp: writePlistCalendarArray_def laid_cals_def layout_cals split: list.splits)

lemma layout_bool [simp]:
  "layout True d i (writePlistBool k v @ ts) =
     laid_key d k @ [gap d, start (if v then ''true'' else ''false''), EndElement (if v then ''true'' else ''false'')] @
     layout True d False ts"
  by (simp add: writePlistBool_def Let_def)

lemma layout_document:
  "layout False 0 False (MarshalXML p) =
     StartElement ''plist'' [(''version'', ''1.0'')] # Directive doctype # gap 1 # start ''dict'' #
     laid_items 2 p @ [gap 1, EndElement ''dict'', gap 0, EndElement ''plist'']"
  by (simp add: MarshalXML_def writePlistString_def laid_items_def laid_schedule_def numeral_2_eq_2)

section \<open>Reading what was written\<close>

lemma leading_blank [simp]:
  "leading space_encodings (CHR '' '' # t) = Some '' ''"
  "leading space_encodings (CHR 0x0A # t) = Some [CHR 0x0A]"
  by (simp_all add: leading_def space_encodings_literal has_prefix_def)

lemma trim_spaces: "trim_by space_encodings (replicate k (CHR '' '')) = []"
proof (induction k)
  case 0
  then show ?case by (simp add: trim_by.simps leading_def space_encodings_literal has_prefix_def)
next
  case (Suc k)
  then show ?case by (subst trim_by.simps) simp
qed

lemma blank_gap: "blank (CHR 0x0A # replicate k (CHR '' ''))"
proof -
  have "trim_left (CHR 0x0A # replicate k (CHR '' '')) = []"
    unfolding trim_left_def by (subst trim_by.simps) (simp add: trim_spaces)
  then show ?thesis by (simp add: blank_def trim_space_def trim_right_def trim_by.simps leading_def space_encodings_literal has_prefix_def)
qed

text \<open>No reader stops at a gap.\<close>

lemma gap_skipped [simp]:
  "nextContentToken (gap d # ts) = nextContentToken ts"
  "readPlistStringArray r (gap d # ts) = readPlistStringArray r ts"
  "calendar_dict c (gap d # ts) = calendar_dict c ts"
  "calendar_array cs (gap d # ts) = calendar_array cs ts"
  "unmarshalDict p (gap d # ts) = unmarshalDict p ts"
  "UnmarshalXML p (gap d # ts) = UnmarshalXML p ts"
  "to_plist_end (gap d # ts) = to_plist_end ts"
  by (simp_all add: gap_def blank_gap)

definition kept :: "string \<Rightarrow> string" where
  "kept s = (let t = xml_text s in if blank t then [] else t)"

lemma blank_Nil [simp]: "blank []"
  by (simp add: blank_def)

lemma read_text [simp]: "readPlistString (chars s @ EndElement n # ts) = Inr (kept s, ts)"
  by (simp add: readPlistString_def chars_def kept_def Let_def)

lemma read_texts:
  "readPlistStringArray r (concat (map (laid_text d) vs) @ ts) = readPlistStringArray (r @ map kept vs) ts"
  by (induction vs arbitrary: r) (simp_all add: laid_text_def)

lemma digits_solid: "is_digit c \<Longrightarrow> solid c"
  by (simp add: is_digit_def solid_def)

lemma scan_solid: "solid c \<Longrightarrow> scan_space (c # t) = Some (c # t)"
  by (subst scan_space.simps) (simp add: leading_solid)

lemma takeWhile_digits: "takeWhile is_digit (dec_nat n) = dec_nat n"
  using dec_nat_digits [of n] by (simp add: list_all_iff takeWhile_eq_all_conv)

lemma blank_solid: "s \<noteq> [] \<Longrightarrow> solid (hd s) \<Longrightarrow> solid (last s) \<Longrightarrow> \<not> blank s"
  by (simp add: blank_def trim_space_solid)

lemma dec_int_ends: "dec_int n \<noteq> []" "solid (hd (dec_int n))" "solid (last (dec_int n))"
proof -
  have d: "solid (hd (dec_nat k))" "solid (last (dec_nat k))" for k
    using dec_nat_digits [of k] by (simp_all add: list_all_iff digits_solid)
  show "dec_int n \<noteq> []" by (simp add: dec_int_def)
  show "solid (hd (dec_int n))" using d(1) by (simp add: dec_int_def) (simp add: solid_def)
  show "solid (last (dec_int n))" using d(2) by (simp add: dec_int_def)
qed

lemma sscan_dec_int: "in_i64 n \<Longrightarrow> sscan_d (dec_int n) = n"
proof -
  assume n: "in_i64 n"
  obtain c t where ct: "dec_int n = c # t" using dec_int_ends(1) [of n] by (cases "dec_int n") auto
  have "scan_space (dec_int n) = Some (dec_int n)"
    using dec_int_ends(2) [of n] by (simp add: ct scan_solid)
  moreover have "\<not> has_prefix (dec_nat k) ''-''" "\<not> has_prefix (dec_nat k) ''+''" for k
    using dec_nat_no_sign [of k] by (auto simp: has_prefix_iff)
  ultimately show ?thesis using n
    by (simp add: sscan_d_def Let_def dec_int_def takeWhile_digits) (auto simp: has_prefix_iff takeWhile_digits)
qed

lemma number_not_blank [simp]: "\<not> blank (dec_int n)"
  by (rule blank_solid [OF dec_int_ends])

lemma read_laid_int:
  "in_i64 v \<Longrightarrow> calendar_dict c (laid_int d k v @ ts) = calendar_dict (set_field k v c) ts"
  by (simp add: laid_int_def laid_key_def value_token_def number_token_def sscan_dec_int)

definition in_range :: "calendar_interval \<Rightarrow> bool" where
  "in_range c \<longleftrightarrow> in_i64 (ci_hour c) \<and> in_i64 (ci_minute c) \<and> in_i64 (ci_weekday c)"

definition cal_read :: "calendar_interval \<Rightarrow> calendar_interval" where
  "cal_read c = (if ci_weekday c < 0 then c\<lparr>ci_weekday := -1\<rparr> else c)"

lemma read_cal:
  assumes "in_range c"
  shows "\<exists>us. laid_cal d c = gap d # start ''dict'' # us \<and>
    (\<forall>ts. readPlistCalendarDict (us @ ts) = Inr (cal_read c, ts))"
proof -
  define us where "us = laid_int (Suc d) ''Hour'' (ci_hour c) @ laid_int (Suc d) ''Minute'' (ci_minute c) @
     (if ci_weekday c \<ge> 0 then laid_int (Suc d) ''Weekday'' (ci_weekday c) else []) @ [gap d, EndElement ''dict'']"
  have "readPlistCalendarDict (us @ ts) = Inr (cal_read c, ts)" for ts
    using assms by (cases c) (auto simp: us_def readPlistCalendarDict_def in_range_def read_laid_int set_field_def cal_read_def)
  then show ?thesis by (auto simp: laid_cal_def us_def)
qed

lemma read_cals:
  "list_all in_range cs \<Longrightarrow>
     calendar_array r (concat (map (laid_cal d) cs) @ ts) = calendar_array (r @ map cal_read cs) ts"
proof (induction cs arbitrary: r)
  case (Cons c cs)
  obtain us where us: "laid_cal d c = gap d # start ''dict'' # us"
    "\<forall>ts. readPlistCalendarDict (us @ ts) = Inr (cal_read c, ts)"
    using read_cal [of c d] Cons.prems by auto
  show ?case using Cons us(2) [rule_format, of "concat (map (laid_cal d) cs) @ ts"] by (simp add: us(1))
qed simp

text \<open>One key and its value at a time.\<close>

lemma read_entry:
  "unmarshalDict p (laid_key d k @ gap d' # StartElement n a # ts) =
     (case read_value k n ts p of Inl e \<Rightarrow> Inl e | Inr (p', ts') \<Rightarrow> unmarshalDict p' ts')"
  by (simp add: laid_key_def value_token_def)

lemma read_schedule:
  assumes "in_i64 (la_interval p)" "list_all in_range (la_calendar p)" "la_interval q = 0" "la_calendar q = []"
  shows "unmarshalDict q (laid_schedule d p @ ts) =
    unmarshalDict (q\<lparr>la_interval := if la_interval p > 0 then la_interval p else 0,
      la_calendar := if la_interval p > 0 then [] else map cal_read (la_calendar p)\<rparr>) ts"
proof (cases "la_interval p > 0")
  case True
  then show ?thesis using assms
    by (cases q) (simp add: laid_schedule_def laid_int_def read_entry read_value_def stored_def readPlistInt_def sscan_dec_int)
next
  case i: False
  show ?thesis
  proof (cases "\<exists>c. la_calendar p = [c]")
    case True
    then obtain c where c: "la_calendar p = [c]" by blast
    obtain us where us: "laid_cal d c = gap d # start ''dict'' # us"
      "\<forall>ts. readPlistCalendarDict (us @ ts) = Inr (cal_read c, ts)"
      using read_cal [of c d] assms(2) c by auto
    then show ?thesis using i assms
      by (cases q) (simp add: laid_schedule_def c laid_cals_def read_entry read_value_def readPlistCalendarArray_def stored_def)
  next
    case no: False
    show ?thesis
    proof (cases "la_calendar p = []")
      case True
      then show ?thesis using i assms by (cases q) (simp add: laid_schedule_def)
    next
      case False
      then have "laid_cals d (la_calendar p) = gap d # start ''array'' #
          concat (map (laid_cal (Suc d)) (la_calendar p)) @ [gap d, EndElement ''array'']"
        using no by (auto simp: laid_cals_def split: list.splits)
      then show ?thesis using i False assms
        by (cases q) (simp add: laid_schedule_def read_entry read_value_def readPlistCalendarArray_def stored_def read_cals)
    qed
  qed
qed

text \<open>What a file gives back of the agent it was written from.\<close>

definition as_read :: "launch_agent \<Rightarrow> launch_agent" where
  "as_read p =
     \<lparr>la_label = kept (la_label p), la_args = map kept (la_args p), la_workdir = kept (la_workdir p),
      la_calendar = (if la_interval p > 0 then [] else map cal_read (la_calendar p)),
      la_interval = (if la_interval p > 0 then la_interval p else 0),
      la_stdout = kept (la_stdout p), la_stderr = kept (la_stderr p), la_disabled = la_disabled p\<rparr>"

lemma read_items:
  assumes "in_i64 (la_interval p)" "list_all in_range (la_calendar p)"
  shows "unmarshalDict no_agent (laid_items d p @ ts) = unmarshalDict (as_read p) ts"
proof -
  have strs: "readPlistStringArray [] (concat (map (laid_text (Suc d)) vs) @ (if vs = [] then [] else [gap d]) @
      EndElement ''array'' # us) = Inr (map kept vs, us)" for vs us
    by (simp add: read_texts)
  show ?thesis
    using assms
    by (simp add: laid_items_def laid_text_def laid_strings_def read_entry read_value_def stored_def strs
        read_schedule no_agent_def as_read_def readPlistBool_def)
qed

text \<open>Token lists that open and close their elements.\<close>

definition balanced :: "token list \<Rightarrow> bool" where
  "balanced us \<longleftrightarrow> (\<forall>d ts. element_tokens d (us @ ts) = (us @ fst (element_tokens d ts), snd (element_tokens d ts)))"

lemma balanced_intros:
  "balanced []" "balanced us \<Longrightarrow> balanced vs \<Longrightarrow> balanced (us @ vs)"
  "balanced us \<Longrightarrow> balanced (CharData s # us)" "balanced us \<Longrightarrow> balanced (gap d # us)"
  "balanced us \<Longrightarrow> balanced vs \<Longrightarrow> balanced (StartElement n a # us @ EndElement m # vs)"
  by (simp_all add: balanced_def gap_def split: prod.splits)

lemma balanced_chars: "balanced us \<Longrightarrow> balanced (chars s @ us)"
  by (simp add: chars_def Let_def balanced_intros)

lemma balanced_concat: "(\<And>x. balanced (f x)) \<Longrightarrow> balanced (concat (map f xs))"
  by (induction xs) (simp_all add: balanced_intros)

lemma balanced_text: "balanced (laid_text d s)"
  using balanced_intros(5) [OF balanced_chars [OF balanced_intros(1)] balanced_intros(1)]
  by (simp add: laid_text_def balanced_intros(4))

lemma balanced_leaf: "balanced us \<Longrightarrow> balanced (StartElement n a # CharData s # EndElement m # us)"
  using balanced_intros(5) [OF balanced_intros(3) [OF balanced_intros(1)]] by simp

lemma balanced_empty: "balanced us \<Longrightarrow> balanced (StartElement n a # EndElement m # us)"
  using balanced_intros(5) [OF balanced_intros(1)] by simp

lemma balanced_int: "balanced (laid_int d k v)"
  by (simp add: laid_int_def laid_key_def balanced_intros(1,4) balanced_leaf)

lemma balanced_key: "balanced (laid_key d k)"
  by (simp add: laid_key_def balanced_intros(1,4) balanced_leaf)

lemma balanced_wrap: "balanced us \<Longrightarrow> balanced (gap d # start n # us @ [gap d, EndElement n])"
  using balanced_intros(4) [OF balanced_intros(5) [OF balanced_intros(2) [OF _ balanced_intros(4) [OF balanced_intros(1)]] balanced_intros(1)]]
  by simp

lemma balanced_wrap0: "balanced us \<Longrightarrow> balanced (gap d # start n # us @ (if xs = [] then [] else [gap d]) @ [EndElement n])"
  using balanced_wrap [of us d n] balanced_intros(4) [OF balanced_intros(5) [OF _ balanced_intros(1)]] by simp

lemma balanced_cal: "balanced (laid_cal d c)"
proof -
  have "balanced (laid_int (Suc d) ''Hour'' (ci_hour c) @ laid_int (Suc d) ''Minute'' (ci_minute c) @
     (if ci_weekday c \<ge> 0 then laid_int (Suc d) ''Weekday'' (ci_weekday c) else []))"
    by (simp add: balanced_intros balanced_int)
  from balanced_wrap [OF this, of d "''dict''"] show ?thesis by (simp add: laid_cal_def)
qed

lemma balanced_cals: "balanced (laid_cals d cs)"
  using balanced_wrap0 [OF balanced_concat [of "laid_cal (Suc d)" cs, OF balanced_cal], of d "''array''" cs]
  by (auto simp: laid_cals_def balanced_cal split: list.splits)

lemma balanced_strings: "balanced (laid_strings d vs)"
  using balanced_wrap0 [OF balanced_concat [of "laid_text (Suc d)" vs, OF balanced_text], of d "''array''" vs]
  by (simp add: laid_strings_def)

lemma balanced_items: "balanced (laid_items d p)"
proof -
  have "balanced (laid_schedule d p)"
    by (simp add: laid_schedule_def balanced_intros balanced_int balanced_key balanced_cals)
  then show ?thesis
    by (simp add: laid_items_def balanced_intros balanced_key balanced_text balanced_strings balanced_empty)
qed

lemma unmarshal_document:
  assumes "in_i64 (la_interval p)" "list_all in_range (la_calendar p)"
  shows "xml_unmarshal (plist_document p) = Inr (as_read p)"
proof -
  let ?rest = "[gap 1, EndElement ''dict'', gap 0, EndElement ''plist'']"
  let ?body = "Directive doctype # gap 1 # start ''dict'' # laid_items 2 p @ ?rest"
  have "balanced (start ''dict'' # (laid_items 2 p @ [gap 1]) @ EndElement ''dict'' # [gap 0])"
    by (intro balanced_intros balanced_items)
  then have "element_tokens 0 (?body @ [CharData [CHR 0x0A]]) = (?body, True)"
    by (simp add: balanced_def gap_def)
  moreover have "UnmarshalXML no_agent ?body = Inr (as_read p, [])"
    using assms by (simp add: read_items)
  ultimately show ?thesis by (simp add: plist_document_def layout_document)
qed

text \<open>An agent survives its property list. Whatever launch agent \<open>writePlist\<close> marshals,
  with its indentation, \<open>Unmarshal\<close> reads the document to the end and returns the agent: the
  numbers unchanged, an unspecified weekday as the sentinel, a calendar only where no interval is
  set, and every text that is not blank exactly as XML can carry it.\<close>
theorem plist_roundtrip:
  assumes "in_i64 (la_interval p)" "list_all in_range (la_calendar p)"
  shows "xml_unmarshal (plist_document p) = Inr (as_read p)"
  using assms by (rule unmarshal_document)

text \<open>
  An empty key in a calendar dictionary stops the daemon: its type is asserted.
\<close>

theorem empty_calendar_key_panics:
  "xml_unmarshal
     [start ''plist'', start ''dict'', start ''key'', CharData ''StartCalendarInterval'', EndElement ''key'',
      start ''dict'', start ''key'', EndElement ''key'', EndElement ''dict'', EndElement ''dict'',
      EndElement ''plist''] = Inl Panicked"
  by (simp add: no_agent_def value_token_def read_value_def stored_def readPlistCalendarArray_def
      readPlistCalendarDict_def)

text \<open>In the outer dictionary the reader loses its place: the value is taken for the next key.\<close>

theorem empty_key_misread:
  "xml_unmarshal
     [start ''plist'', start ''dict'', start ''key'', EndElement ''key'', start ''integer'', CharData ''3'',
      EndElement ''integer'', EndElement ''dict'', EndElement ''plist''] = Inl Ended"
  by (simp add: no_agent_def value_token_def read_value_def)

definition sample_agent :: launch_agent where
  "sample_agent = \<lparr>la_label = ''a'', la_args = [''b'', []], la_workdir = ''/s'',
     la_calendar = [\<lparr>ci_hour = 9, ci_minute = 30, ci_weekday = -4\<rparr>], la_interval = 0,
     la_stdout = [], la_stderr = [], la_disabled = True\<rparr>"

theorem plist_roundtrip_witness:
  "xml_unmarshal (plist_document sample_agent) = Inr (as_read sample_agent)"
  by (rule plist_roundtrip) (simp_all add: sample_agent_def in_range_def in_i64_def)

end
