(* ===== verification/Launchd.thy ===== *)
theory Launchd
  imports Plist ScheduleRuns
begin

text \<open>
  The macOS scheduler, \<open>internal/backgroundjobs/scheduler_darwin.go\<close>: LaunchAgents. Its
  state is the property lists by path, as token lists, and the state of launchd, which only
  \<open>launchctl\<close> changes; that command is the parameter \<open>run\<close>. \<open>launchd_env\<close>
  holds the home directory, the clock and the local zone, and says which system calls succeed; a
  directory without files that cannot be read counts as missing. The theory shows that the scheduler
  keeps the \<open>scheduler_contract\<close>, what \<open>Inspect\<close> reports after \<open>Install\<close>, and
  when \<open>Inspect\<close> does not return.
\<close>

section \<open>State\<close>

datatype write_outcome = Written | NotOpened | CutShort nat

record launchd_env =
  le_ctx :: "nat \<Rightarrow> bool"
  le_home :: "string option"
  le_mkdir :: bool
  le_write :: "string \<Rightarrow> write_outcome"
  le_unlink :: "string \<Rightarrow> bool"
  le_read :: "string \<Rightarrow> bool"
  le_readdir :: bool
  le_now :: int
  le_zone :: location
  le_lower :: "string \<Rightarrow> string"
  le_uid :: nat
  le_spec_hash :: "schedule_spec \<Rightarrow> string"

record 'm launchd =
  ld_files :: "(string \<times> token list) list"
  ld_manager :: 'm

type_synonym 'm launchctl = "string list \<Rightarrow> (string \<times> token list) list \<Rightarrow> 'm \<Rightarrow> (bool \<times> string) \<times> 'm"

definition launchAgentDir :: string where "launchAgentDir = ''Library/LaunchAgents''"

definition label :: "string \<Rightarrow> string" where
  "label jobID = ''com.dreamer.background.'' @ jobID"

definition plistPath :: "launchd_env \<Rightarrow> string \<Rightarrow> string" where
  "plistPath env jobID =
     join_paths [case le_home env of Some h \<Rightarrow> h | None \<Rightarrow> [], launchAgentDir, label jobID @ ''.plist'']"

definition agentDir :: "launchd_env \<Rightarrow> string option" where
  "agentDir env = map_option (\<lambda>h. join_paths [h, launchAgentDir]) (le_home env)"

section \<open>Schedules\<close>

definition weekdayToLaunchd :: "string \<Rightarrow> int" where
  "weekdayToLaunchd day =
     (case map_of [(''sunday'', 0), (''monday'', 1), (''tuesday'', 2), (''wednesday'', 3), (''thursday'', 4),
        (''friday'', 5), (''saturday'', 6)] day of Some n \<Rightarrow> n | None \<Rightarrow> -1)"

definition at_time :: "int \<Rightarrow> int \<Rightarrow> int \<Rightarrow> calendar_interval" where
  "at_time h m wd = \<lparr>ci_hour = h, ci_minute = m, ci_weekday = wd\<rparr>"

definition buildCalendarIntervals ::
    "(string \<Rightarrow> string) \<Rightarrow> schedule_spec \<Rightarrow> schedule_error + calendar_interval list" where
  "buildCalendarIntervals ul spec =
     (case Kind spec of
        ScheduleInterval \<Rightarrow> if Every spec \<noteq> [] then Inr [] else Inr [at_time (-1) 0 (-1)]
      | ScheduleDaily \<Rightarrow>
          (case parseTimeOfDay (TimeOfDay spec) of
             Inl e \<Rightarrow> Inl e
           | Inr (h, m) \<Rightarrow> Inr [at_time h m (-1)])
      | ScheduleWeekly \<Rightarrow>
          (case parseTimeOfDay (TimeOfDay spec) of
             Inl e \<Rightarrow> Inl e
           | Inr (h, m) \<Rightarrow>
               let wd = weekdayToLaunchd (to_lower ul (DayOfWeek spec))
               in if wd < 0 then Inl (InvalidDayOfWeek (DayOfWeek spec)) else Inr [at_time h m wd])
      | _ \<Rightarrow> Inr [at_time 0 0 (-1)])"

text \<open>The loop of a weekly entry; it need not end.\<close>

partial_function (option) next_weekday :: "location \<Rightarrow> int \<Rightarrow> int \<Rightarrow> int \<Rightarrow> int option" where
  "next_weekday loc now wd candidate =
     (if weekday_of loc candidate \<noteq> wd \<or> \<not> candidate > now
      then next_weekday loc now wd (add_days loc candidate 1)
      else Some candidate)"

definition computeNextCalendarRun :: "location \<Rightarrow> int \<Rightarrow> int \<Rightarrow> int \<Rightarrow> int \<Rightarrow> int option" where
  "computeNextCalendarRun loc now h m wd =
     (if h < 0 then Some (now div hour * hour + hour)
      else
        (case date_of loc now of Civil y mo d \<Rightarrow>
           let candidate = time_date loc y mo d h m 0 0
           in if wd \<ge> 0 then next_weekday loc now wd candidate
              else if \<not> candidate > now then Some (add_days loc candidate 1) else Some candidate))"

section \<open>Operations\<close>

definition runArgsFor :: "string \<Rightarrow> string \<Rightarrow> string \<Rightarrow> string list" where
  "runArgsFor jobID configPath storeDir =
     [''jobs'', ''run'', jobID, ''--config'', configPath, ''--run-token-file'', runTokenPath storeDir]"

definition start_interval :: "schedule_spec \<Rightarrow> int" where
  "start_interval spec =
     (if Kind spec = ScheduleInterval \<and> Every spec \<noteq> [] then f_trunc (duration_seconds (everyDuration spec)) else 0)"

definition agent_of :: "scheduler_config \<Rightarrow> schedule_params \<Rightarrow> calendar_interval list \<Rightarrow> launch_agent" where
  "agent_of cfg p cals =
     \<lparr>la_label = label (sp_job_id p),
      la_args = sc_exec_path cfg # runArgsFor (sp_job_id p) (sc_config_path cfg) (sc_store_dir cfg),
      la_workdir = sc_store_dir cfg, la_calendar = cals, la_interval = start_interval (sp_schedule p),
      la_stdout = join_paths [sc_store_dir cfg, sp_job_id p @ ''.stdout.log''],
      la_stderr = join_paths [sc_store_dir cfg, sp_job_id p @ ''.stderr.log''],
      la_disabled = (\<not> sp_enabled p)\<rparr>"

text \<open>\<open>os.WriteFile\<close>: a write that fails half way leaves what it wrote.\<close>

definition write_plist :: "launchd_env \<Rightarrow> string \<Rightarrow> token list \<Rightarrow> 'm launchd \<Rightarrow> bool \<times> 'm launchd" where
  "write_plist env path doc s =
     (case le_write env path of
        Written \<Rightarrow> (True, s\<lparr>ld_files := AList.update path doc (ld_files s)\<rparr>)
      | NotOpened \<Rightarrow> (False, s)
      | CutShort n \<Rightarrow> (False, s\<lparr>ld_files := AList.update path (take n doc) (ld_files s)\<rparr>))"

definition writePlist ::
    "launchd_env \<Rightarrow> scheduler_config \<Rightarrow> schedule_params \<Rightarrow> 'm launchd \<Rightarrow> string option \<times> 'm launchd" where
  "writePlist env cfg p s =
     (case agentDir env of
        None \<Rightarrow> (None, s)
      | Some dir \<Rightarrow>
          if \<not> le_mkdir env then (None, s)
          else
            let path = join_paths [dir, label (sp_job_id p) @ ''.plist'']
            in (case buildCalendarIntervals (le_lower env) (sp_schedule p) of
                  Inl _ \<Rightarrow> (None, s)
                | Inr cals \<Rightarrow>
                    (case write_plist env path (plist_document (agent_of cfg p cals)) s of
                       (ok, s') \<Rightarrow> (if ok then Some path else None, s'))))"

definition launchctl :: "'m launchctl \<Rightarrow> string list \<Rightarrow> 'm launchd \<Rightarrow> (bool \<times> string) \<times> 'm launchd" where
  "launchctl run args s =
     (case run args (ld_files s) (ld_manager s) of (r, m) \<Rightarrow> (r, s\<lparr>ld_manager := m\<rparr>))"

definition gui :: "launchd_env \<Rightarrow> string" where
  "gui env = ''gui/'' @ dec_nat (le_uid env)"

definition bootstrap :: "launchd_env \<Rightarrow> 'm launchctl \<Rightarrow> string \<Rightarrow> 'm launchd \<Rightarrow> bool \<times> 'm launchd" where
  "bootstrap env run path s =
     (if \<not> le_ctx env 1 then (False, s)
      else
        (case launchctl run [''bootstrap'', gui env, path] s of
           ((ok, out), s') \<Rightarrow> (ok \<or> contains (to_lower (le_lower env) out) ''already bootstrapped'', s')))"

definition enable :: "launchd_env \<Rightarrow> 'm launchctl \<Rightarrow> string \<Rightarrow> 'm launchd \<Rightarrow> bool \<times> 'm launchd" where
  "enable env run jobID s =
     (if \<not> le_ctx env 2 then (False, s)
      else (True, snd (launchctl run [''enable'', gui env @ ''/'' @ label jobID] s)))"

definition agent_metadata :: "launchd_env \<Rightarrow> scheduler_config \<Rightarrow> schedule_params \<Rightarrow> os_schedule" where
  "agent_metadata env cfg p =
     \<lparr>os_schedule_id = label (sp_job_id p), os_install_id = sc_install_id cfg,
      os_config_hash = sc_config_hash cfg, os_exec_hash = sc_exec_hash cfg,
      os_spec_hash = le_spec_hash env (sp_schedule p), os_last_installed = Some (le_now env)\<rparr>"

definition launchd_install ::
    "launchd_env \<Rightarrow> scheduler_config \<Rightarrow> 'm launchctl \<Rightarrow> schedule_params \<Rightarrow> 'm launchd \<Rightarrow> os_schedule option \<times> 'm launchd" where
  "launchd_install env cfg run p s =
     (if \<not> le_ctx env 0 then (None, s)
      else
        (case writePlist env cfg p s of
           (None, s1) \<Rightarrow> (None, s1)
         | (Some path, s1) \<Rightarrow>
             (case bootstrap env run path s1 of
                (False, s2) \<Rightarrow> (None, s2)
              | (True, s2) \<Rightarrow>
                  if sp_enabled p then
                    (case enable env run (sp_job_id p) s2 of
                       (False, s3) \<Rightarrow> (None, s3)
                     | (True, s3) \<Rightarrow> (Some (agent_metadata env cfg p), s3))
                  else (Some (agent_metadata env cfg p), s2))))"

definition launchd_remove ::
    "launchd_env \<Rightarrow> 'm launchctl \<Rightarrow> string \<Rightarrow> 'm launchd \<Rightarrow> bool \<times> 'm launchd" where
  "launchd_remove env run jobID s =
     (if \<not> validateJobID jobID then (False, s)
      else
        let path = plistPath env jobID;
            s1 = snd (launchctl run [''bootout'', gui env, path] s)
        in if path \<notin> fst ` set (ld_files s1) then (True, s1)
           else if le_unlink env path then (True, s1\<lparr>ld_files := AList.delete path (ld_files s1)\<rparr>)
           else (False, s1))"

datatype inspection = Health schedule_health | InspectFailed | InspectPanicked | InspectHangs

definition health :: "bool \<Rightarrow> int option \<Rightarrow> inspection" where
  "health en next = Health \<lparr>sh_installed = True, sh_enabled = en, sh_next_run = next\<rparr>"

definition launchd_inspect :: "launchd_env \<Rightarrow> string \<Rightarrow> 'm launchd \<Rightarrow> inspection" where
  "launchd_inspect env jobID s =
     (case map_of (ld_files s) (plistPath env jobID) of
        None \<Rightarrow> Health \<lparr>sh_installed = False, sh_enabled = False, sh_next_run = None\<rparr>
      | Some doc \<Rightarrow>
          if \<not> le_read env (plistPath env jobID) then InspectFailed
          else
            (case xml_unmarshal doc of
               Inl e \<Rightarrow> if e = Panicked then InspectPanicked else InspectFailed
             | Inr p \<Rightarrow>
                 if la_interval p > 0 then
                   health (\<not> la_disabled p) (Some (le_now env + i64 (la_interval p * second)))
                 else
                   (case la_calendar p of
                      [] \<Rightarrow> health (\<not> la_disabled p) None
                    | c # _ \<Rightarrow>
                        (case computeNextCalendarRun (le_zone env) (le_now env) (ci_hour c) (ci_minute c) (ci_weekday c) of
                           None \<Rightarrow> InspectHangs
                         | Some t \<Rightarrow> health (\<not> la_disabled p) (Some t)))))"

definition entry_of :: "string \<Rightarrow> string \<Rightarrow> string option" where
  "entry_of dir path =
     (if has_prefix path (dir @ [slash]) then
        let name = drop (length dir + 1) path in if name = [] \<or> slash \<in> set name then None else Some name
      else None)"

definition job_of_plist :: "string \<Rightarrow> string option" where
  "job_of_plist name =
     (if has_prefix name ''com.dreamer.background.'' \<and> has_suffix name ''.plist''
      then let rest = drop 23 name in
           Some (if has_suffix rest ''.plist'' then take (length rest - 6) rest else rest)
      else None)"

definition launchd_list_own :: "launchd_env \<Rightarrow> 'm launchd \<Rightarrow> string list option" where
  "launchd_list_own env s =
     (case agentDir env of
        None \<Rightarrow> None
      | Some dir \<Rightarrow>
          let names = sort (List.map_filter (entry_of dir) (map fst (ld_files s)))
          in if names = [] then Some []
             else if \<not> le_readdir env then None
             else Some (filter (\<lambda>i. i \<noteq> [] \<and> validateJobID i) (List.map_filter job_of_plist names)))"

text \<open>As the scheduler of the interface; an inspection that gives no value has none there.\<close>

definition launchd_scheduler ::
    "launchd_env \<Rightarrow> scheduler_config \<Rightarrow> 'm launchctl \<Rightarrow> 'm launchd scheduler" where
  "launchd_scheduler env cfg run =
     \<lparr>sch_install = launchd_install env cfg run, sch_remove = launchd_remove env run,
      sch_inspect = (\<lambda>i s. case launchd_inspect env i s of Health h \<Rightarrow> Some h | _ \<Rightarrow> None),
      sch_list_own = launchd_list_own env\<rparr>"

section \<open>Next runs\<close>

lemma weekday_of_range: "0 \<le> weekday_of loc t" "weekday_of loc t < 7"
  by (simp_all add: weekday_of_def weekday_of_day_def)

lemma next_weekday_Some:
  "next_weekday loc now wd c = Some t \<Longrightarrow> weekday_of loc t = wd \<and> now < t"
proof (rule next_weekday.raw_induct [where P = "\<lambda>loc now wd c t. weekday_of loc t = wd \<and> now < t"])
  fix f :: "location \<Rightarrow> int \<Rightarrow> int \<Rightarrow> int \<Rightarrow> int option" and loc now wd c t
  assume "\<And>loc now wd c t. f loc now wd c = Some t \<Longrightarrow> weekday_of loc t = wd \<and> now < t"
    and "(if weekday_of loc c \<noteq> wd \<or> \<not> now < c then f loc now wd (add_days loc c 1) else Some c) = Some t"
  then show "weekday_of loc t = wd \<and> now < t" by (auto split: if_splits)
qed

lemma next_weekday_never: "wd < 0 \<or> 6 < wd \<Longrightarrow> next_weekday loc now wd c = None"
proof (rule ccontr)
  assume wd: "wd < 0 \<or> 6 < wd" and "next_weekday loc now wd c \<noteq> None"
  then obtain t where "weekday_of loc t = wd" using next_weekday_Some by blast
  then show False using weekday_of_range [of loc t] wd by simp
qed

abbreviation days_later :: "int \<Rightarrow> nat \<Rightarrow> int" where
  "days_later c k \<equiv> c + int k * (86400 * second)"

lemma next_weekday_steps:
  assumes "fixed_zone loc off"
    and "weekday_of loc (days_later c k) = wd" "now < days_later c k"
    and "\<forall>j < k. weekday_of loc (days_later c j) \<noteq> wd \<or> \<not> now < days_later c j"
  shows "next_weekday loc now wd c = Some (days_later c k)"
  using assms(2-)
proof (induction k arbitrary: c)
  case 0
  then show ?case by (subst next_weekday.simps) simp
next
  case (Suc k)
  let ?c = "add_days loc c 1"
  have c: "days_later ?c j = days_later c (Suc j)" for j
    by (simp add: add_days_fixed [OF assms(1)] algebra_simps)
  have "weekday_of loc c \<noteq> wd \<or> \<not> c > now" using Suc.prems(3) [rule_format, of 0] by simp
  moreover have "next_weekday loc now wd ?c = Some (days_later c (Suc k))"
    using Suc.IH [of ?c] Suc.prems by (simp only: c) (metis Suc_mono)
  ultimately show ?case by (subst next_weekday.simps) simp
qed

lemma weekday_of_later:
  assumes "fixed_zone loc off"
  shows "weekday_of loc (days_later c k) = (weekday_of loc c + int k) mod 7"
proof -
  have "local_day loc (days_later c k) = local_day loc c + int k" by (rule local_day_add(1) [OF assms])
  then have "weekday_of loc (days_later c k) = (local_day loc c + 1 + int k) mod 7"
    by (simp only: weekday_of_def weekday_of_day_def) (simp add: algebra_simps)
  then show ?thesis by (simp only: weekday_of_def weekday_of_day_def mod_add_left_eq)
qed

lemma next_weekday_total:
  assumes "fixed_zone loc off" "0 \<le> wd" "wd \<le> 6"
  shows "\<exists>t. next_weekday loc now wd c = Some t"
proof -
  let ?w = "weekday_of loc c"
  let ?P = "\<lambda>k. weekday_of loc (days_later c k) = wd \<and> now < days_later c k"
  define D where "D = \<bar>now - c\<bar>"
  have D: "0 \<le> D" "now - c \<le> D" by (simp_all add: D_def)
  define k where "k = nat (wd - ?w + 7 * (1 + D))"
  have w: "0 \<le> ?w" "?w < 7" by (rule weekday_of_range)+
  have "0 \<le> wd - ?w + 7 * (1 + D)" using w assms(2) D(1) by presburger
  then have k: "int k = wd - ?w + 7 * (1 + D)" by (simp add: k_def)
  have "(?w + int k) mod 7 = wd"
    using mod_mult_self2 [of wd 7 "1 + D"] assms(2,3) by (simp add: k)
  moreover have "now < days_later c k"
  proof -
    have "D < int k" unfolding k using w assms(2) D(1) by presburger
    then show ?thesis using D by (simp add: second_def)
  qed
  ultimately have "?P k" by (simp only: weekday_of_later [OF assms(1)] simp_thms)
  then have "?P (LEAST k. ?P k)" by (rule LeastI [of ?P])
  moreover have "\<forall>j < (LEAST k. ?P k). \<not> ?P j" using not_less_Least [of _ ?P] by blast
  ultimately show ?thesis using next_weekday_steps [OF assms(1), of c "LEAST k. ?P k" wd now] by blast
qed

text \<open>The loop finds the run that the job store computes for a weekly schedule.\<close>

lemma computeNextCalendarRun_weekly:
  assumes "fixed_zone loc off" "0 \<le> wd" "wd \<le> 6" "parseTimeOfDay tod = Inr (h, m)"
  shows "nextWeekly wd tod now loc = Inr t \<Longrightarrow> computeNextCalendarRun loc now h m wd = Some t"
proof -
  assume nxt: "nextWeekly wd tod now loc = Inr t"
  let ?n = "local_day loc now" and ?s = "h * 3600 + m * 60"
  note range = parseTimeOfDay_range [OF assms(4)]
  have s: "0 \<le> ?s" "?s < 86400" using range by linarith+
  define c where "c = local_instant off ?n ?s"
  define k where "k = nat (weekday_shift wd (weekday_of loc now) (now < c))"
  have spec: "weekday_of_day (?n + int k) = wd" "int k \<le> 7" "int k = 0 \<Longrightarrow> now < c" "int k = 7 \<Longrightarrow> \<not> now < c"
    "int k = weekday_shift wd (weekday_of loc now) (now < c)"
    using weekday_shift_spec [of wd ?n "now < c"] assms(2,3) by (simp_all add: k_def weekday_of_def)
  have later: "local_instant off (?n + int j) ?s = days_later c j" for j
    by (simp add: c_def local_instant_def algebra_simps)
  have t: "t = days_later c k"
    using nxt nextWeekly_instant [OF assms(1,4), of wd now] by (simp only: spec(5) [symmetric] c_def [symmetric] later) simp
  have wd: "weekday_of loc (days_later c j) = weekday_of_day (?n + int j)" for j
    unfolding weekday_of_def later [symmetric] by (simp add: local_instant_day [OF assms(1) s])
  have day: "now < c + 24 * hour" unfolding c_def by (rule day_window [OF assms(1) s])
  have "now < days_later c k"
  proof (cases k)
    case 0
    then show ?thesis using spec(3) by simp
  next
    case (Suc l)
    then show ?thesis using day by (simp add: duration_defs)
  qed
  moreover have "weekday_of loc (days_later c j) \<noteq> wd \<or> \<not> now < days_later c j" if "j < k" for j
  proof (cases "weekday_of loc (days_later c j) = wd")
    case True
    then have "(?n + int j + 1) mod 7 = (?n + int k + 1) mod 7"
      using spec(1) by (simp add: wd weekday_of_day_def)
    then have "7 dvd int k - int j"
      using mod_eq_dvd_iff [of "?n + int k + 1" 7 "?n + int j + 1"] by (simp add: algebra_simps)
    then have "7 \<le> int k - int j" using that by (intro zdvd_imp_le) simp_all
    then have "k = 7" "j = 0" using spec(2) by simp_all
    then show ?thesis using spec(4) by simp
  qed simp
  moreover have "weekday_of loc (days_later c k) = wd" using spec(1) by (simp add: wd)
  ultimately have "next_weekday loc now wd c = Some t"
    using next_weekday_steps [OF assms(1)] t by blast
  moreover obtain y mo d where "civil_of_day ?n = Civil y mo d" by (cases "civil_of_day ?n")
  ultimately show ?thesis
    using range assms(2) time_date_same_day [OF assms(1), of ?n y mo d h m]
    by (simp add: computeNextCalendarRun_def date_of_def c_def)
qed

lemma computeNextCalendarRun_daily:
  "parseTimeOfDay tod = Inr (h, m) \<Longrightarrow> nextDaily tod now loc = Inr t \<Longrightarrow>
     computeNextCalendarRun loc now h m (-1) = Some t"
  using parseTimeOfDay_range [of tod h m]
  by (auto simp: computeNextCalendarRun_def nextDaily_def Let_def split: civil.splits if_splits)

lemma computeNextCalendarRun_ends:
  assumes "fixed_zone loc off"
  shows "computeNextCalendarRun loc now h m wd = None \<longleftrightarrow> 0 \<le> h \<and> 6 < wd"
  using next_weekday_never [of wd loc now] next_weekday_total [OF assms, of wd now]
  by (auto simp: computeNextCalendarRun_def Let_def split: civil.splits) (metis not_less option.distinct(1))+

section \<open>Intervals\<close>

lemma fl53_ge_int:
  assumes "0 \<le> m" "of_int m \<le> q" "q < 2 ^ 53"
  shows "of_int m \<le> fl53 q"
proof (cases "q = 0")
  case False
  then have q: "0 < q" using assms by (metis of_int_0_le_iff order_le_less order_le_less_trans)
  let ?e = "ilog2 q - 52"
  let ?k = "2 ^ nat (- ?e) :: int"
  have p: "pow2 ?e = 1 / of_int ?k" using ilog2_upper [OF q assms(3)] by (intro pow2_minus) simp
  have "of_int (m * ?k) \<le> q * of_int ?k" using assms(2) by (simp add: mult_right_mono)
  then have "m * ?k \<le> round_even (q / pow2 ?e)" by (intro round_even_ge_int) (simp add: p)
  then have "of_int (m * ?k) \<le> (of_int (round_even (q / pow2 ?e)) :: rat)" by (simp only: of_int_le_iff)
  then have "of_int (m * ?k) * pow2 ?e \<le> of_int (round_even (q / pow2 ?e)) * pow2 ?e"
    by (rule mult_right_mono) (simp add: less_imp_le)
  moreover have "of_int (m * ?k) * pow2 ?e = of_int m" by (simp add: p)
  ultimately have "of_int m \<le> fl53_pos q" by (simp only: fl53_pos_def Let_def)
  then show ?thesis using q by (simp add: fl53_def)
qed (use assms in \<open>simp add: fl53_def\<close>)

lemma whole_seconds:
  assumes "0 \<le> d" "d < 2 ^ 53"
  shows "d div second \<le> f_trunc (duration_seconds d)" "f_trunc (duration_seconds d) \<le> d div second + 1"
proof -
  let ?s = "d div second" and ?r = "d mod second"
  have s: "0 \<le> ?s" "?s < 2 ^ 52" and r: "0 \<le> ?r" "?r < second"
    using assms by (simp_all add: second_def)
  have f: "0 \<le> f_div (of_int ?r) (of_int 1000000000)" "f_div (of_int ?r) (of_int 1000000000) \<le> of_int 1"
    using r unfolding f_div_def by (intro fl53_nonneg fl53_le_int; simp add: second_def)+
  have "duration_seconds d = fl53 (of_int ?s + f_div (of_int ?r) (of_int 1000000000))"
    using assms s r
    by (simp add: duration_seconds_def go_div_nonneg go_mod_nonneg second_def f_of_int_small)
  moreover have "of_int ?s \<le> fl53 (of_int ?s + f_div (of_int ?r) (of_int 1000000000))"
    using f s of_int_less_iff [of ?s "2 ^ 52", where 'a = rat] by (intro fl53_ge_int) simp_all
  moreover have "fl53 (of_int ?s + f_div (of_int ?r) (of_int 1000000000)) \<le> of_int (?s + 1)"
    using f s by (intro fl53_le_int) simp_all
  ultimately have b: "of_int ?s \<le> duration_seconds d" "duration_seconds d \<le> of_int (?s + 1)" by simp_all
  have "0 \<le> duration_seconds d" using b(1) s(1) by (meson of_int_0_le_iff order_trans)
  then show "?s \<le> f_trunc (duration_seconds d)" "f_trunc (duration_seconds d) \<le> ?s + 1"
    using b f_trunc_mono_int [of "duration_seconds d" "?s + 1"] by (simp_all add: f_trunc_def le_floor_iff)
qed

section \<open>Paths\<close>

lemma job_id_chars:
  assumes "validateJobID i"
  shows "length i = 16" "slash \<notin> set i" "CHR ''.'' \<notin> set i"
proof -
  have "\<not> is_lower_hex slash" "\<not> is_lower_hex (CHR ''.'')" by (simp_all add: is_lower_hex_def is_digit_def)
  then show "length i = 16" "slash \<notin> set i" "CHR ''.'' \<notin> set i"
    using assms by (auto simp: validateJobID_def jobIDHexLen_def list_all_iff)
qed

lemma plist_name_plain: "validateJobID i \<Longrightarrow> plain (label i @ ''.plist'')"
  using job_id_chars(2) by (simp add: plain_def label_def)

lemma agent_dir:
  assumes "is_abs h"
  shows "is_abs (join_paths [h, launchAgentDir])"
    "elems (join_paths [h, launchAgentDir]) = elems h @ [''Library'', ''LaunchAgents'']"
    "join_paths [h, launchAgentDir] = abs_path (elems h @ [''Library'', ''LaunchAgents''])"
proof -
  have j: "join_paths [h, launchAgentDir] = clean (h @ slash # launchAgentDir)"
    by (rule join_paths_abs [OF assms])
  have a: "is_abs (h @ slash # launchAgentDir)" by (rule is_abs_append [OF assms])
  show "is_abs (join_paths [h, launchAgentDir])" unfolding j by (rule is_abs_clean [OF a])
  have e: "elems (h @ slash # launchAgentDir) = elems h @ [''Library'', ''LaunchAgents'']"
    by (simp add: elems_append launchAgentDir_def)
  show "elems (join_paths [h, launchAgentDir]) = elems h @ [''Library'', ''LaunchAgents'']"
    unfolding j elems_clean [OF a] e ..
  show "join_paths [h, launchAgentDir] = abs_path (elems h @ [''Library'', ''LaunchAgents''])"
    unfolding j clean_abs [OF a] e ..
qed

lemma plist_path:
  assumes "le_home env = Some h" "is_abs h" "validateJobID i"
  shows "plistPath env i = join_paths [h, launchAgentDir] @ slash # label i @ ''.plist''"
    "join_paths [join_paths [h, launchAgentDir], label i @ ''.plist''] = plistPath env i"
proof -
  let ?n = "label i @ ''.plist''" and ?d = "join_paths [h, launchAgentDir]"
  have n: "plain ?n" by (rule plist_name_plain [OF assms(3)])
  have snoc: "abs_path (elems ?d @ [?n]) = ?d @ slash # ?n"
    unfolding abs_path_snoc agent_dir(2) [OF assms(2)] using agent_dir(3) [OF assms(2)] by simp
  have c: "clean (?d @ slash # ?n) = abs_path (elems ?d @ [?n])"
    using clean_abs [OF is_abs_append [OF agent_dir(1) [OF assms(2)]], of "slash # ?n"] elems_snoc [OF n, of ?d] by simp
  have a: "is_abs (h @ slash # launchAgentDir)" by (rule is_abs_append [OF assms(2)])
  have "elems ((h @ slash # launchAgentDir) @ slash # ?n) = elems ?d @ [?n]"
    using elems_snoc [OF n] elems_clean [OF a] join_paths_abs [OF assms(2)] by metis
  then have "clean ((h @ slash # launchAgentDir) @ slash # ?n) = ?d @ slash # ?n"
    using clean_abs [OF is_abs_append [OF a], of "slash # ?n"] snoc by simp
  then show "plistPath env i = ?d @ slash # ?n"
    using assms(1) is_abs_nonempty [OF assms(2)] by (simp add: plistPath_def join_paths_def)
  then show "join_paths [?d, ?n] = plistPath env i"
    using join_paths_abs [OF agent_dir(1) [OF assms(2)]] c snoc by simp
qed

lemma plist_path_eq:
  assumes "le_home env = Some h" "is_abs h" "validateJobID i" "validateJobID k"
  shows "plistPath env i = plistPath env k \<longleftrightarrow> i = k"
  using plist_path(1) [OF assms(1,2)] assms(3,4) by (simp add: label_def)

section \<open>The contract\<close>

definition launchd_good :: "launchd_env \<Rightarrow> scheduler_config \<Rightarrow> 'm launchd \<Rightarrow> bool" where
  "launchd_good env cfg s \<longleftrightarrow>
     (case le_home env of Some h \<Rightarrow> is_abs h | None \<Rightarrow> False) \<and> le_readdir env \<and> sc_install_id cfg \<noteq> [] \<and>
     distinct (map fst (ld_files s))"

definition agents :: "launchd_env \<Rightarrow> 'm launchd \<Rightarrow> string set" where
  "agents env s = {i. validateJobID i \<and> plistPath env i \<in> fst ` set (ld_files s)}"

lemma job_of_plist_name [simp]: "validateJobID i \<Longrightarrow> job_of_plist (label i @ ''.plist'') = Some i"
proof -
  have "has_prefix (label i @ ''.plist'') ''com.dreamer.background.''" "has_suffix (label i @ ''.plist'') ''.plist''"
    by (auto simp: has_prefix_iff has_suffix_iff label_def)
  moreover have "drop 23 (label i @ ''.plist'') = i @ ''.plist''" by (simp add: label_def)
  moreover have "has_suffix (i @ ''.plist'') ''.plist''" by (auto simp: has_suffix_iff)
  ultimately show ?thesis by (simp add: job_of_plist_def Let_def)
qed

lemma job_of_plist_Some:
  assumes "job_of_plist n = Some i" "validateJobID i"
  shows "n = label i @ ''.plist''"
proof -
  let ?p = "''com.dreamer.background.''" and ?s = "''.plist''"
  obtain t v where n: "n = ?p @ t" "n = v @ ?s"
    using assms by (auto simp: job_of_plist_def has_prefix_iff has_suffix_iff split: if_splits)
  have i: "i = (if has_suffix t ?s then take (length t - 6) t else t)"
    using assms(1) by (auto simp: job_of_plist_def n(1) Let_def split: if_splits)
  have "has_suffix t ?s"
  proof (rule ccontr)
    assume no: "\<not> has_suffix t ?s"
    then have "i = t" using i by simp
    then have "length t = 16" "CHR ''.'' \<notin> set t" using assms(2) job_id_chars by simp_all
    moreover have "?p @ t = v @ ?s" using n by simp
    ultimately have "has_suffix t ?s"
      unfolding has_suffix_iff append_eq_append_conv2 by (auto dest: arg_cong [of _ _ length])
    then show False using no by simp
  qed
  then obtain u where u: "t = u @ ?s" by (auto simp: has_suffix_iff)
  then have "i = u" using i by (auto simp: has_suffix_iff)
  then show ?thesis using n(1) u by (simp add: label_def)
qed

lemma entry_of_plist:
  assumes "le_home env = Some h" "is_abs h" "validateJobID i"
  shows "entry_of (join_paths [h, launchAgentDir]) path = Some (label i @ ''.plist'') \<longleftrightarrow> path = plistPath env i"
  using plist_path(1) [OF assms] plist_name_plain [OF assms(3)]
  by (auto simp: entry_of_def has_prefix_iff plain_def Let_def)

lemma entry_of_inj: "entry_of dir a = Some n \<Longrightarrow> entry_of dir b = Some n \<Longrightarrow> a = b"
  by (auto simp: entry_of_def has_prefix_iff Let_def split: if_splits)

lemma distinct_map_filter:
  "distinct xs \<Longrightarrow> (\<And>a b y. a \<in> set xs \<Longrightarrow> b \<in> set xs \<Longrightarrow> f a = Some y \<Longrightarrow> f b = Some y \<Longrightarrow> a = b) \<Longrightarrow>
     distinct (List.map_filter f xs)"
proof (induction xs)
  case (Cons x xs)
  then have "distinct (List.map_filter f xs)" by (metis distinct.simps(2) list.set_intros(2))
  moreover have "y \<notin> set (List.map_filter f xs)" if "f x = Some y" for y
    using that Cons.prems by (auto simp: mem_map_filter)
  ultimately show ?case by (simp add: map_filter_simps split: option.splits)
qed (simp add: map_filter_simps)

lemma filter_map_filter:
  "filter P (List.map_filter f xs) = List.map_filter (\<lambda>x. case f x of Some y \<Rightarrow> if P y then Some y else None | None \<Rightarrow> None) xs"
  by (induction xs) (auto simp: map_filter_simps split: option.splits)

lemma list_own_agents:
  assumes "launchd_good env cfg s"
  shows "\<exists>own. launchd_list_own env s = Some own \<and> distinct own \<and> set own = agents env s"
proof -
  obtain h where h: "le_home env = Some h" "is_abs h"
    using assms by (auto simp: launchd_good_def split: option.splits)
  have dist: "distinct (map fst (ld_files s))" and rd: "le_readdir env"
    using assms by (simp_all add: launchd_good_def)
  let ?d = "join_paths [h, launchAgentDir]"
  let ?names = "sort (List.map_filter (entry_of ?d) (map fst (ld_files s)))"
  let ?own = "filter (\<lambda>i. i \<noteq> [] \<and> validateJobID i) (List.map_filter job_of_plist ?names)"
  have own: "launchd_list_own env s = Some ?own"
    using rd by (auto simp: launchd_list_own_def agentDir_def h map_filter_simps Let_def)
  have "distinct (List.map_filter (entry_of ?d) (map fst (ld_files s)))"
    by (rule distinct_map_filter [OF dist]) (rule entry_of_inj)
  then have "distinct ?names" by simp
  then have d: "distinct ?own"
    unfolding filter_map_filter
    by (rule distinct_map_filter) (auto split: option.splits if_splits dest!: job_of_plist_Some)
  have "i \<in> set ?own \<longleftrightarrow> i \<in> agents env s" for i
  proof (cases "validateJobID i")
    case True
    have "i \<in> set (List.map_filter job_of_plist ?names) \<longleftrightarrow> label i @ ''.plist'' \<in> set ?names"
      unfolding mem_map_filter using True job_of_plist_Some job_of_plist_name by metis
    also have "\<dots> \<longleftrightarrow> plistPath env i \<in> fst ` set (ld_files s)"
      unfolding set_sort mem_map_filter set_map entry_of_plist [OF h True] by metis
    finally show ?thesis using True validate_nonempty [OF True] by (simp add: agents_def)
  qed (simp add: agents_def)
  with own d show ?thesis by blast
qed

lemma owned_launchd: "launchd_good env cfg s \<Longrightarrow> owned (launchd_scheduler env cfg run) s = agents env s"
proof -
  assume "launchd_good env cfg s"
  then obtain own where "launchd_list_own env s = Some own" "set own = agents env s"
    using list_own_agents by blast
  then show ?thesis by (simp add: owned_def launchd_scheduler_def)
qed

lemma launchctl_files: "launchctl run args s = (r, s') \<Longrightarrow> ld_files s' = ld_files s"
  by (auto simp: launchctl_def split: prod.splits)

lemma launchctl_files_snd [simp]: "ld_files (snd (launchctl run args s)) = ld_files s"
  by (simp add: launchctl_def split: prod.splits)

text \<open>What a successful installation leaves.\<close>

lemma install_files:
  assumes "launchd_install env cfg run p s = (Some st, s')"
    and "le_home env = Some h" "is_abs h" "validateJobID (sp_job_id p)"
  shows "st = agent_metadata env cfg p"
    and "\<exists>cals. buildCalendarIntervals (le_lower env) (sp_schedule p) = Inr cals \<and>
      ld_files s' = AList.update (plistPath env (sp_job_id p)) (plist_document (agent_of cfg p cals)) (ld_files s)"
proof -
  obtain path s1 where w: "writePlist env cfg p s = (Some path, s1)"
    using assms(1) by (auto simp: launchd_install_def split: if_splits prod.splits option.splits)
  obtain ok s2 where b: "bootstrap env run path s1 = (ok, s2)" by fastforce
  obtain ok' s3 where e: "enable env run (sp_job_id p) s2 = (ok', s3)" by fastforce
  have r: "ok" "st = agent_metadata env cfg p" "s' \<in> {s2, s3}"
    using assms(1) w b e by (auto simp: launchd_install_def split: if_splits bool.splits)
  show "st = agent_metadata env cfg p" by (fact r)
  have "ld_files s2 = ld_files s1" "ld_files s3 = ld_files s2"
    using b e by (auto simp: bootstrap_def enable_def dest: launchctl_files split: if_splits prod.splits)
  then have "ld_files s' = ld_files s1" using r(3) by auto
  then show "\<exists>cals. buildCalendarIntervals (le_lower env) (sp_schedule p) = Inr cals \<and>
      ld_files s' = AList.update (plistPath env (sp_job_id p)) (plist_document (agent_of cfg p cals)) (ld_files s)"
    using w plist_path(2) [OF assms(2-4)]
    by (auto simp: writePlist_def agentDir_def assms(2) write_plist_def Let_def
        split: if_splits sum.splits write_outcome.splits)
qed

lemma remove_files:
  assumes "launchd_remove env run i s = (True, s')"
  shows "validateJobID i" "ld_files s' = AList.delete (plistPath env i) (ld_files s)"
  using assms by (auto simp: launchd_remove_def Let_def split: if_splits)

interpretation launchd: scheduler_contract
  "launchd_scheduler env cfg run" "le_spec_hash env" "sc_config_hash cfg" "launchd_good env cfg"
  for env :: launchd_env and cfg :: scheduler_config and run :: "'m launchctl"
proof
  fix os :: "'m launchd" assume "launchd_good env cfg os"
  then show "\<exists>own. sch_list_own (launchd_scheduler env cfg run) os = Some own \<and> distinct own"
    using list_own_agents [of env cfg os] by (auto simp: launchd_scheduler_def)
next
  fix os os' :: "'m launchd" and p st
  assume g: "launchd_good env cfg os" and v: "validateJobID (sp_job_id p)"
    and i: "sch_install (launchd_scheduler env cfg run) p os = (Some st, os')"
  obtain h where h: "le_home env = Some h" "is_abs h"
    using g by (auto simp: launchd_good_def split: option.splits)
  have i': "launchd_install env cfg run p os = (Some st, os')" using i by (simp add: launchd_scheduler_def)
  obtain doc where f: "st = agent_metadata env cfg p"
    "ld_files os' = AList.update (plistPath env (sp_job_id p)) doc (ld_files os)"
    using install_files [OF i' h v] by blast
  have g': "launchd_good env cfg os'"
    using g by (simp add: launchd_good_def f(2) distinct_update)
  have "agents env os' = insert (sp_job_id p) (agents env os)"
    using v plist_path_eq [OF h _ v] by (auto simp: agents_def f(2) fst_update)
  then show "launchd_good env cfg os' \<and>
      owned (launchd_scheduler env cfg run) os' = insert (sp_job_id p) (owned (launchd_scheduler env cfg run) os) \<and>
      fresh_metadata (le_spec_hash env) (sc_config_hash cfg) (sp_schedule p) st"
    using g g' owned_launchd [OF g] owned_launchd [OF g']
    by (simp add: fresh_metadata_def f(1) agent_metadata_def label_def launchd_good_def)
next
  fix os os' :: "'m launchd" and i
  assume g: "launchd_good env cfg os" and r: "sch_remove (launchd_scheduler env cfg run) i os = (True, os')"
  obtain h where h: "le_home env = Some h" "is_abs h"
    using g by (auto simp: launchd_good_def split: option.splits)
  have f: "validateJobID i" "ld_files os' = AList.delete (plistPath env i) (ld_files os)"
    using remove_files [of env run i os os'] r by (simp_all add: launchd_scheduler_def)
  have g': "launchd_good env cfg os'"
    using g by (simp add: launchd_good_def f(2) distinct_delete)
  have "agents env os' = agents env os - {i}"
    using f(1) plist_path_eq [OF h _ f(1)] by (auto simp: agents_def f(2) fst_delete)
  then show "launchd_good env cfg os' \<and>
      owned (launchd_scheduler env cfg run) os' = owned (launchd_scheduler env cfg run) os - {i}"
    using g g' owned_launchd [OF g] owned_launchd [OF g'] by simp
qed

section \<open>Inspecting what was installed\<close>

lemma map_of_updated [simp]: "map_of (AList.update k v xs) k = Some v"
  by (simp add: update_conv)

lemma start_interval_range:
  "in_i64 (start_interval spec)" "0 \<le> start_interval spec"
  "Kind spec = ScheduleInterval \<Longrightarrow> Every spec \<noteq> [] \<Longrightarrow>
     0 < start_interval spec \<and> i64 (start_interval spec * second) = start_interval spec * second \<and>
     \<bar>start_interval spec * second - everyDuration spec\<bar> \<le> second"
proof -
  let ?d = "everyDuration spec"
  have d: "minute \<le> ?d" "?d \<le> 23 * hour" using everyDuration_bounds [of spec] by simp_all
  let ?s = "f_trunc (duration_seconds ?d)"
  have w: "?d div second \<le> ?s" "?s \<le> ?d div second + 1"
    using whole_seconds [of ?d] d by (simp_all add: duration_defs)
  have q: "60 \<le> ?d div second" "?d div second \<le> 82800" using d by (simp_all add: duration_defs)
  have r: "?d = ?d div second * second + ?d mod second" "0 \<le> ?d mod second" "?d mod second < second"
    by (simp_all add: second_def)
  have "\<bar>?s * second - ?d\<bar> \<le> second"
    using w r by (simp add: second_def)
  moreover have "i64 (?s * second) = ?s * second"
    using w q by (intro i64_small) (simp add: second_def)
  ultimately show "Kind spec = ScheduleInterval \<Longrightarrow> Every spec \<noteq> [] \<Longrightarrow>
     0 < start_interval spec \<and> i64 (start_interval spec * second) = start_interval spec * second \<and>
     \<bar>start_interval spec * second - everyDuration spec\<bar> \<le> second"
    using w q by (simp add: start_interval_def)
  show "in_i64 (start_interval spec)" "0 \<le> start_interval spec"
    using w q by (auto simp: start_interval_def in_i64_def)
qed

lemma weekday_number:
  "weekdayToLaunchd d = (case validDayOfWeek d of Some n \<Rightarrow> n | None \<Rightarrow> -1)"
  by (simp add: weekdayToLaunchd_def validDayOfWeek_def)

lemma weekday_number_range: "validDayOfWeek d = Some n \<Longrightarrow> 0 \<le> n \<and> n \<le> 6"
  by (auto simp: validDayOfWeek_def split: if_splits)

lemma weekday_number_bounds: "-1 \<le> weekdayToLaunchd d" "weekdayToLaunchd d \<le> 6"
  using weekday_number_range [of d] by (auto simp: weekday_number split: option.splits)

lemma at_time_ok:
  "-1 \<le> h \<Longrightarrow> h < 24 \<Longrightarrow> 0 \<le> m \<Longrightarrow> m < 60 \<Longrightarrow> -1 \<le> wd \<Longrightarrow> wd \<le> 6 \<Longrightarrow>
     in_range (at_time h m wd) \<and> cal_read (at_time h m wd) = at_time h m wd"
  by (auto simp: in_range_def in_i64_def cal_read_def at_time_def)

lemma calendars_in_range:
  assumes "buildCalendarIntervals ul spec = Inr cals"
  shows "list_all in_range cals" "map cal_read cals = cals"
proof -
  have "list_all (\<lambda>c. in_range c \<and> cal_read c = c) cals"
  proof (cases "Kind spec")
    case ScheduleDaily
    then obtain h m where "parseTimeOfDay (TimeOfDay spec) = Inr (h, m)" "cals = [at_time h m (-1)]"
      using assms by (auto simp: buildCalendarIntervals_def split: sum.splits)
    then show ?thesis using at_time_ok [of h m "-1"] parseTimeOfDay_range [of "TimeOfDay spec" h m] by simp
  next
    case ScheduleWeekly
    then obtain h m d where "parseTimeOfDay (TimeOfDay spec) = Inr (h, m)" "cals = [at_time h m (weekdayToLaunchd d)]"
      using assms by (auto simp: buildCalendarIntervals_def Let_def split: sum.splits if_splits)
    then show ?thesis using at_time_ok [of h m "weekdayToLaunchd d"] parseTimeOfDay_range [of "TimeOfDay spec" h m]
        weekday_number_bounds by simp
  qed (use assms at_time_ok [of "-1" 0 "-1"] at_time_ok [of 0 0 "-1"] in
      \<open>auto simp: buildCalendarIntervals_def split: if_splits\<close>)
  then show "list_all in_range cals" "map cal_read cals = cals"
    by (simp_all add: list_all_iff map_idI)
qed

lemma agent_of_fields [simp]:
  "la_interval (agent_of cfg p cals) = start_interval (sp_schedule p)"
  "la_calendar (agent_of cfg p cals) = cals" "la_disabled (agent_of cfg p cals) \<longleftrightarrow> \<not> sp_enabled p"
  by (simp_all add: agent_of_def)

lemma inspect_installed:
  assumes "launchd_install env cfg run p s = (Some st, s')"
    and "le_home env = Some h" "is_abs h" "validateJobID (sp_job_id p)"
    and "le_read env (plistPath env (sp_job_id p))"
  obtains cals where "buildCalendarIntervals (le_lower env) (sp_schedule p) = Inr cals"
    "launchd_inspect env (sp_job_id p) s' =
       (if start_interval (sp_schedule p) > 0 then
          health (sp_enabled p) (Some (le_now env + i64 (start_interval (sp_schedule p) * second)))
        else
          (case cals of
             [] \<Rightarrow> health (sp_enabled p) None
           | c # _ \<Rightarrow>
               (case computeNextCalendarRun (le_zone env) (le_now env) (ci_hour c) (ci_minute c) (ci_weekday c) of
                  None \<Rightarrow> InspectHangs
                | Some t \<Rightarrow> health (sp_enabled p) (Some t))))"
proof -
  obtain cals where c: "buildCalendarIntervals (le_lower env) (sp_schedule p) = Inr cals"
    "ld_files s' = AList.update (plistPath env (sp_job_id p)) (plist_document (agent_of cfg p cals)) (ld_files s)"
    using install_files(2) [OF assms(1-4)] by blast
  have "xml_unmarshal (plist_document (agent_of cfg p cals)) = Inr (as_read (agent_of cfg p cals))"
    by (rule unmarshal_document)
       (simp_all add: start_interval_range calendars_in_range(1) [OF c(1)])
  then have "launchd_inspect env (sp_job_id p) s' =
      (if start_interval (sp_schedule p) > 0 then
          health (sp_enabled p) (Some (le_now env + i64 (start_interval (sp_schedule p) * second)))
        else
          (case cals of
             [] \<Rightarrow> health (sp_enabled p) None
           | c # _ \<Rightarrow>
               (case computeNextCalendarRun (le_zone env) (le_now env) (ci_hour c) (ci_minute c) (ci_weekday c) of
                  None \<Rightarrow> InspectHangs
                | Some t \<Rightarrow> health (sp_enabled p) (Some t))))"
    by (cases cals; cases "start_interval (sp_schedule p) > 0")
       (use calendars_in_range(2) [OF c(1)] in \<open>simp_all add: launchd_inspect_def c(2) assms(5) as_read_def split: option.split\<close>)
  with c(1) show ?thesis by (rule that)
qed

text \<open>C30: What \<open>Install\<close> writes, \<open>Inspect\<close> reports. Take a validated schedule that is not cron, names its
  interval if it is one, and whose time zone is that of the machine, without transitions. After its
  successful installation \<open>Inspect\<close> reads the property list back, says that the agent is installed and
  enabled exactly as asked, and gives the next run that the job store computes for the schedule: the same
  instant for daily and weekly schedules, within a second for intervals.\<close>
theorem install_then_inspect:
  assumes "launchd_install env cfg run p s = (Some st, s')"
    and "le_home env = Some h" "is_abs h" "validateJobID (sp_job_id p)"
    and "le_read env (plistPath env (sp_job_id p))" "fixed_zone (le_zone env) off"
    and "validateSchedule (le_lower env) zones (sp_schedule p) = None" "Kind (sp_schedule p) \<noteq> ScheduleCron"
    and "Kind (sp_schedule p) = ScheduleInterval \<Longrightarrow> Every (sp_schedule p) \<noteq> []"
    and "zones (Timezone (sp_schedule p)) = Some (le_zone env)"
  shows "\<exists>t t0. nextRun (le_lower env) zones (sp_schedule p) (le_now env) = Inr t0 \<and>
    launchd_inspect env (sp_job_id p) s' = health (sp_enabled p) (Some t) \<and>
    \<bar>t - t0\<bar> \<le> second \<and> (Kind (sp_schedule p) = ScheduleInterval \<or> t = t0)"
proof -
  let ?spec = "sp_schedule p" and ?loc = "le_zone env" and ?now = "le_now env"
  obtain cals where c: "buildCalendarIntervals (le_lower env) ?spec = Inr cals"
    and i: "launchd_inspect env (sp_job_id p) s' =
       (if start_interval ?spec > 0 then health (sp_enabled p) (Some (?now + i64 (start_interval ?spec * second)))
        else (case cals of [] \<Rightarrow> health (sp_enabled p) None
           | c # _ \<Rightarrow> (case computeNextCalendarRun ?loc ?now (ci_hour c) (ci_minute c) (ci_weekday c) of
                  None \<Rightarrow> InspectHangs | Some t \<Rightarrow> health (sp_enabled p) (Some t))))"
    by (rule inspect_installed [OF assms(1-5)])
  have valid: "validate_kind (le_lower env) ?spec = None"
    using assms(7) by (auto simp: validateSchedule_def split: option.splits)
  have clock: "\<exists>h m. parseTimeOfDay (TimeOfDay ?spec) = Inr (h, m)"
    if "Kind ?spec = ScheduleDaily \<or> Kind ?spec = ScheduleWeekly"
    using that valid check_time_of_day_parses by (auto simp: validate_kind_def split: if_splits)
  have s: "0 < second" by (simp add: second_def)
  show ?thesis
  proof (cases "Kind ?spec")
    case ScheduleInterval
    then show ?thesis
      using start_interval_range(3) [OF ScheduleInterval assms(9) [OF ScheduleInterval]] i
      by (rule_tac exI [of _ "?now + start_interval ?spec * second"], rule_tac exI [of _ "?now + everyDuration ?spec"])
        (simp add: nextRun_def assms(10))
  next
    case ScheduleDaily
    obtain hh m where t: "parseTimeOfDay (TimeOfDay ?spec) = Inr (hh, m)" using clock ScheduleDaily by blast
    obtain r where r: "nextDaily (TimeOfDay ?spec) ?now ?loc = Inr r" using nextDaily_total [OF t] by blast
    have "cals = [at_time hh m (-1)]" using c by (simp add: buildCalendarIntervals_def ScheduleDaily t)
    then show ?thesis
      using i s computeNextCalendarRun_daily [OF t r]
      by (simp add: ScheduleDaily nextRun_def assms(10) r start_interval_def at_time_def)
  next
    case ScheduleWeekly
    obtain hh m where t: "parseTimeOfDay (TimeOfDay ?spec) = Inr (hh, m)" using clock ScheduleWeekly by blast
    obtain wd where w: "validDayOfWeek (to_lower (le_lower env) (DayOfWeek ?spec)) = Some wd"
      using valid by (auto simp: validate_kind_def ScheduleWeekly split: if_splits)
    obtain r where r: "nextWeekly wd (TimeOfDay ?spec) ?now ?loc = Inr r" using nextWeekly_total [OF t] by blast
    have wd: "0 \<le> wd" "wd \<le> 6" using weekday_number_range [OF w] by simp_all
    have "cals = [at_time hh m wd]"
      using c wd by (simp add: buildCalendarIntervals_def ScheduleWeekly t weekday_number w Let_def)
    then show ?thesis
      using i s computeNextCalendarRun_weekly [OF assms(6) wd t r]
      by (simp add: ScheduleWeekly nextRun_def assms(10) r w start_interval_def at_time_def)
  next
    case (OtherKind k)
    then show ?thesis using valid by (simp add: validate_kind_def)
  qed (use assms(8) in simp)
qed

text \<open>C36: When an inspection does not return. In a zone without transitions, \<open>Inspect\<close> runs for
  ever exactly on a readable property list whose first calendar entry gives an hour and a weekday
  above six, with no interval set: launchd accepts seven for Sunday, and no candidate ever falls on
  that weekday. On every other file it returns.\<close>
theorem inspect_hangs_exactly:
  assumes "fixed_zone (le_zone env) off"
  shows "launchd_inspect env jobID s = InspectHangs \<longleftrightarrow>
    (\<exists>doc p c cs. map_of (ld_files s) (plistPath env jobID) = Some doc \<and> le_read env (plistPath env jobID) \<and>
       xml_unmarshal doc = Inr p \<and> la_interval p \<le> 0 \<and> la_calendar p = c # cs \<and>
       0 \<le> ci_hour c \<and> 6 < ci_weekday c)"
proof -
  have ends: "(case computeNextCalendarRun (le_zone env) now h m wd of None \<Rightarrow> InspectHangs
      | Some t \<Rightarrow> health en (Some t)) = InspectHangs \<longleftrightarrow> 0 \<le> h \<and> 6 < wd" for now h m wd en
    using computeNextCalendarRun_ends [OF assms, of now h m wd] by (auto simp: health_def split: option.splits)
  show ?thesis
    by (auto simp: launchd_inspect_def ends health_def not_less split: option.splits sum.splits list.splits if_splits)
qed

section \<open>Schedules launchd does not keep\<close>

text \<open>A cron schedule is installed without an error as a run at every local midnight, whatever its
  expression says, and inspection reports that run.\<close>
theorem cron_installed_at_midnight:
  assumes "launchd_install env cfg run p s = (Some st, s')"
    and "le_home env = Some h" "is_abs h" "validateJobID (sp_job_id p)"
    and "le_read env (plistPath env (sp_job_id p))" "Kind (sp_schedule p) = ScheduleCron"
    and "nextDaily ''00:00'' (le_now env) (le_zone env) = Inr t"
  shows "launchd_inspect env (sp_job_id p) s' = health (sp_enabled p) (Some t)"
proof -
  obtain cals where c: "buildCalendarIntervals (le_lower env) (sp_schedule p) = Inr cals"
    and i: "launchd_inspect env (sp_job_id p) s' =
       (if start_interval (sp_schedule p) > 0
        then health (sp_enabled p) (Some (le_now env + i64 (start_interval (sp_schedule p) * second)))
        else (case cals of [] \<Rightarrow> health (sp_enabled p) None
           | c # _ \<Rightarrow> (case computeNextCalendarRun (le_zone env) (le_now env) (ci_hour c) (ci_minute c) (ci_weekday c) of
                  None \<Rightarrow> InspectHangs | Some t \<Rightarrow> health (sp_enabled p) (Some t))))"
    by (rule inspect_installed [OF assms(1-5)])
  have "parseTimeOfDay ''00:00'' = Inr (0, 0)" by code_simp
  note run = computeNextCalendarRun_daily [OF this assms(7)]
  have "cals = [at_time 0 0 (-1)]" using c by (simp add: buildCalendarIntervals_def assms(6))
  then show ?thesis using i run by (simp add: assms(6) start_interval_def at_time_def)
qed

text \<open>An interval that names no duration becomes an entry with the hour -1, which is written out.\<close>
theorem hourly_writes_minus_one:
  assumes "Kind (sp_schedule p) = ScheduleInterval" "Every (sp_schedule p) = []"
  shows "buildCalendarIntervals ul (sp_schedule p) = Inr [at_time (-1) 0 (-1)] \<and>
    set [start ''key'', CharData ''Hour'', CharData ''-1''] \<subseteq>
      set (plist_document (agent_of cfg p [at_time (-1) 0 (-1)]))"
proof -
  have n: "dec_int (-1) = ''-1''" by code_simp
  let ?q = "agent_of cfg p [at_time (-1) 0 (-1)]" and ?S = "{start ''key'', CharData ''Hour'', CharData ''-1''}"
  have "?S \<subseteq> set (laid_cal 2 (at_time (-1) 0 (-1)))"
    by (simp add: laid_cal_def laid_int_def laid_key_def at_time_def n)
  moreover have "laid_schedule 2 ?q = laid_key 2 ''StartCalendarInterval'' @ laid_cal 2 (at_time (-1) 0 (-1))"
    using assms by (simp add: laid_schedule_def start_interval_def laid_cals_def)
  ultimately have "?S \<subseteq> set (laid_schedule 2 ?q)" by (simp only: set_append) blast
  moreover have "set (laid_schedule 2 q) \<subseteq> set (plist_document q)" for q
  proof -
    have "\<exists>B. laid_items 2 q = (laid_key 2 ''Label'' @ laid_text 2 (la_label q) @ laid_key 2 ''ProgramArguments'' @
        laid_strings 2 (la_args q) @ laid_key 2 ''WorkingDirectory'' @ laid_text 2 (la_workdir q)) @ laid_schedule 2 q @ B"
      by (simp add: laid_items_def)
    then have "set (laid_schedule 2 q) \<subseteq> set (laid_items 2 q)"
      by (elim exE) (simp only: set_append, blast)
    then show ?thesis by (auto simp: plist_document_def layout_document)
  qed
  ultimately have "?S \<subseteq> set (plist_document ?q)" by (rule order_trans)
  then show ?thesis using assms by (simp add: buildCalendarIntervals_def)
qed

section \<open>Instances\<close>

definition mac_env :: launchd_env where
  "mac_env = \<lparr>le_ctx = (\<lambda>_. True), le_home = Some ''/Users/u'', le_mkdir = True, le_write = (\<lambda>_. Written),
     le_unlink = (\<lambda>_. True), le_read = (\<lambda>_. True), le_readdir = True, le_now = 0, le_zone = utc_zone,
     le_lower = id, le_uid = 501, le_spec_hash = TimeOfDay\<rparr>"

definition compliant :: "unit launchctl" where
  "compliant args docs m = ((True, []), m)"

definition no_agents :: "unit launchd" where
  "no_agents = \<lparr>ld_files = [], ld_manager = ()\<rparr>"

definition daily_report :: schedule_params where
  "daily_report = \<lparr>sp_job_id = sample_id, sp_schedule = j_schedule sample_job, sp_name = [], sp_enabled = True\<rparr>"

lemma sample_installs:
  "\<exists>st s'. launchd_install mac_env sample_config compliant daily_report no_agents = (Some st, s')"
proof -
  have "parseTimeOfDay ''09:00'' = Inr (9, 0)" by code_simp
  then have "buildCalendarIntervals id (j_schedule sample_job) = Inr [at_time 9 0 (-1)]"
    by (simp add: buildCalendarIntervals_def sample_job_def)
  then show ?thesis
    by (auto simp: launchd_install_def writePlist_def agentDir_def write_plist_def
        bootstrap_def enable_def launchctl_def compliant_def mac_env_def daily_report_def Let_def)
qed

theorem install_then_inspect_witness:
  "\<exists>st s' t. launchd_install mac_env sample_config compliant daily_report no_agents = (Some st, s') \<and>
     nextRun id only_utc (j_schedule sample_job) 0 = Inr t \<and>
     launchd_inspect mac_env sample_id s' = health True (Some t)"
proof -
  obtain st s' where i: "launchd_install mac_env sample_config compliant daily_report no_agents = (Some st, s')"
    using sample_installs by blast
  have h: "le_home mac_env = Some ''/Users/u''" "is_abs ''/Users/u''" "validateJobID (sp_job_id daily_report)"
    "le_read mac_env (plistPath mac_env (sp_job_id daily_report))" "fixed_zone (le_zone mac_env) 0"
    "validateSchedule (le_lower mac_env) only_utc (sp_schedule daily_report) = None"
    "Kind (sp_schedule daily_report) = ScheduleDaily" "only_utc (Timezone (sp_schedule daily_report)) = Some (le_zone mac_env)"
    using sample_valid fixed_zone_utc
    by (simp_all add: mac_env_def daily_report_def is_abs_def has_prefix_def sample_job_def only_utc_def)
  from install_then_inspect [OF i h(1-6) _ _ h(8)] h(7) show ?thesis
    using i by (auto simp: mac_env_def daily_report_def)
qed

definition sunday_as_seven :: launch_agent where
  "sunday_as_seven = sample_agent\<lparr>la_calendar := [at_time 9 0 7]\<rparr>"

definition edited :: "unit launchd" where
  "edited = \<lparr>ld_files = [(plistPath mac_env sample_id, plist_document sunday_as_seven)], ld_manager = ()\<rparr>"

theorem inspect_hangs_exactly_witness: "launchd_inspect mac_env sample_id edited = InspectHangs"
proof -
  have f: "la_interval sunday_as_seven = 0" "la_calendar sunday_as_seven = [at_time 9 0 7]"
    by (simp_all add: sunday_as_seven_def sample_agent_def)
  have "xml_unmarshal (plist_document sunday_as_seven) = Inr (as_read sunday_as_seven)"
    by (rule unmarshal_document) (simp_all add: f in_range_def in_i64_def at_time_def)
  moreover have "la_interval (as_read sunday_as_seven) = 0" "la_calendar (as_read sunday_as_seven) = [at_time 9 0 7]"
    by (simp_all add: as_read_def f cal_read_def at_time_def)
  moreover have "fixed_zone (le_zone mac_env) 0" "le_read mac_env path" for path
    by (simp_all add: mac_env_def fixed_zone_utc)
  ultimately show ?thesis
    using inspect_hangs_exactly [of mac_env 0 sample_id edited] by (simp add: edited_def at_time_def)
qed

theorem hourly_writes_minus_one_witness:
  "buildCalendarIntervals id ((j_schedule sample_job)\<lparr>Kind := ScheduleInterval\<rparr>) = Inr [at_time (-1) 0 (-1)]"
  using hourly_writes_minus_one [of "daily_report\<lparr>sp_schedule := (j_schedule sample_job)\<lparr>Kind := ScheduleInterval\<rparr>\<rparr>" id]
  by (simp add: sample_job_def)

end
