(* ===== verification/PathScope.thy ===== *)
theory PathScope
  imports FsPath
begin

text \<open>
  Resolved locations. The containment check of \<open>internal/fsutil/path.go\<close> resolves its arguments
  again; for callers that pass an already resolved location this theory shows that resolving is
  idempotent, so that the check speaks about the location itself.
\<close>

text \<open>
  What \<open>filepath.EvalSymlinks\<close> guarantees while nobody changes the file system: a resolved path is
  clean and resolves to itself, a path is resolved by resolving its directory first, and nothing
  exists below a path that does not exist.
\<close>

definition coherent_fs :: "(string \<Rightarrow> eval_result) \<Rightarrow> bool" where
  "coherent_fs ev \<longleftrightarrow>
     sane_fs ev \<and>
     (\<forall>p r. is_abs p \<longrightarrow> ev p = Resolved r \<longrightarrow> clean_path r \<and> ev r = Resolved r) \<and>
     (\<forall>es e r. list_all plain (es @ [e]) \<longrightarrow> ev (abs_path es) = Resolved r \<longrightarrow>
        ev (abs_path (es @ [e])) = ev (abs_path (elems r @ [e]))) \<and>
     (\<forall>es e. list_all plain (es @ [e]) \<longrightarrow> ev (abs_path es) = NotExist \<longrightarrow> ev (abs_path (es @ [e])) = NotExist)"

lemma coherent_fsD:
  assumes "coherent_fs ev"
  shows "sane_fs ev"
    and "is_abs p \<Longrightarrow> ev p = Resolved r \<Longrightarrow> clean_path r \<and> ev r = Resolved r"
    and "list_all plain (es @ [e]) \<Longrightarrow> ev (abs_path es) = Resolved r \<Longrightarrow>
      ev (abs_path (es @ [e])) = ev (abs_path (elems r @ [e]))"
    and "list_all plain (es @ [e]) \<Longrightarrow> ev (abs_path es) = NotExist \<Longrightarrow> ev (abs_path (es @ [e])) = NotExist"
  using assms by (auto simp: coherent_fs_def)

lemma clean_path_facts: "clean_path r \<Longrightarrow> is_abs r \<and> clean r = r \<and> abs_path (elems r) = r"
  by (metis clean_path_def clean_abs is_abs_abs_path)

section \<open>Where a resolved path lies\<close>

lemma walk_up_step:
  assumes "list_all plain es" "i < length es"
  shows "walk_up (Suc n) ev p (abs_path (take (Suc i) es)) (rev (drop (Suc i) es)) =
    (case ev (abs_path (take i es)) of
       Resolved r \<Rightarrow> Some (Inr (clean (rejoin r (drop i es))))
     | NotExist \<Rightarrow> walk_up n ev p (abs_path (take i es)) (rev (drop i es))
     | EvalError \<Rightarrow> Some (Inl ()))"
proof -
  have pl: "list_all plain (take i es)" "plain (es ! i)"
    using assms by (auto simp: list_all_iff dest: in_set_takeD)
  have t: "take (Suc i) es = take i es @ [es ! i]" using assms(2) by (simp add: take_Suc_conv_app_nth)
  have dir: "dir_of (abs_path (take (Suc i) es)) = abs_path (take i es)"
    and base: "base_of (abs_path (take (Suc i) es)) = es ! i"
    and ne: "abs_path (take i es) \<noteq> abs_path (take (Suc i) es)"
    unfolding t using pl by (simp_all add: dir_of_abs_path base_of_abs_path abs_path_inj)
  have acc: "rev (drop (Suc i) es) @ [es ! i] = rev (drop i es)"
    using assms(2) by (simp add: Cons_nth_drop_Suc [symmetric])
  show ?thesis
    using ne dir base acc assms(2)
    by (simp add: Let_def rev_swap Cons_nth_drop_Suc del: rejoin.simps split: eval_result.split)
qed

lemma walk_up_located:
  assumes "sane_fs ev" "list_all plain es"
  shows "j \<le> length es \<Longrightarrow> \<forall>i. j \<le> i \<and> i \<le> length es \<longrightarrow> ev (abs_path (take i es)) = NotExist \<Longrightarrow>
    walk_up n ev p (abs_path (take j es)) (rev (drop j es)) = Some (Inr r) \<Longrightarrow>
    \<exists>k x. k < j \<and> ev (abs_path (take k es)) = Resolved x \<and> r = abs_path (elems x @ drop k es) \<and>
      (\<forall>i. k < i \<and> i \<le> length es \<longrightarrow> ev (abs_path (take i es)) = NotExist)"
proof (induction n arbitrary: j)
  case (Suc n)
  show ?case
  proof (cases j)
    case 0
    then have "ev [slash] = NotExist" using Suc.prems(2) by (auto simp: abs_path_def)
    then show ?thesis using assms(1) by (simp add: sane_fs_def)
  next
    case (Suc i)
    then have i: "i < length es" using Suc.prems(1) by simp
    have w: "(case ev (abs_path (take i es)) of
       Resolved r \<Rightarrow> Some (Inr (clean (rejoin r (drop i es))))
     | NotExist \<Rightarrow> walk_up n ev p (abs_path (take i es)) (rev (drop i es))
     | EvalError \<Rightarrow> Some (Inl ())) = Some (Inr r)"
      using Suc.prems(3) walk_up_step [OF assms(2) i, of n ev p] by (simp only: Suc)
    show ?thesis
    proof (cases "ev (abs_path (take i es))")
      case (Resolved x)
      then have "is_abs x" using assms(1) is_abs_abs_path unfolding sane_fs_def by blast
      moreover have "list_all plain (drop i es)" using assms(2) by (auto simp: list_all_iff dest: in_set_dropD)
      ultimately have "r = abs_path (elems x @ drop i es)"
        using w Resolved by (simp add: clean_abs rejoin_abs elems_rejoin)
      with Resolved Suc Suc.prems(2) show ?thesis by (intro exI [of _ i] exI [of _ x]) auto
    next
      case NotExist
      then have "\<forall>m. i \<le> m \<and> m \<le> length es \<longrightarrow> ev (abs_path (take m es)) = NotExist"
        using Suc.prems(2) Suc by (metis Suc_leI le_neq_implies_less)
      then obtain k x where "k < i" "ev (abs_path (take k es)) = Resolved x" "r = abs_path (elems x @ drop k es)"
          "\<forall>m. k < m \<and> m \<le> length es \<longrightarrow> ev (abs_path (take m es)) = NotExist"
        using Suc.IH [of i] i w NotExist by auto
      then show ?thesis using Suc by (intro exI [of _ k] exI [of _ x]) auto
    qed (use w in simp)
  qed
qed simp

lemma missing_below:
  assumes "coherent_fs ev" "list_all plain (es @ ts)" "ev (abs_path es) = NotExist"
  shows "ev (abs_path (es @ ts)) = NotExist"
  using assms(2,3)
proof (induction ts arbitrary: es)
  case (Cons t ts)
  have "ev (abs_path (es @ [t])) = NotExist" using Cons.prems coherent_fsD(4) [OF assms(1), of es t] by simp
  then show ?case using Cons.IH [of "es @ [t]"] Cons.prems by simp
qed simp

theorem resolveSymlinks_idem:
  assumes "coherent_fs ev" "list_all plain es" "resolveSymlinks ev (abs_path es) = Inr r"
  shows "clean_path r \<and> resolveSymlinks ev r = Inr r"
proof (cases "ev (abs_path es)")
  case (Resolved x)
  then have "clean_path x" "ev x = Resolved x" using coherent_fsD(2) [OF assms(1) _ Resolved] by simp_all
  moreover from this have "r = x" using assms(3) Resolved clean_path_facts by (simp add: resolveSymlinks_def)
  ultimately show ?thesis using clean_path_facts by (simp add: resolveSymlinks_def)
next
  case NotExist
  have w: "walk_up (walk_fuel (abs_path es)) ev (abs_path es) (abs_path (take (length es) es)) (rev (drop (length es) es)) = Some (Inr r)"
    using assms(3) NotExist by (simp add: resolveSymlinks_def split: option.splits)
  then obtain k x where k: "k < length es" "ev (abs_path (take k es)) = Resolved x" "r = abs_path (elems x @ drop k es)"
      "\<forall>i. k < i \<and> i \<le> length es \<longrightarrow> ev (abs_path (take i es)) = NotExist"
    using walk_up_located [OF coherent_fsD(1) [OF assms(1)] assms(2) _ _ w] NotExist
    by (metis le_antisym order_refl take_all_iff)
  have x: "clean_path x" "ev x = Resolved x" using coherent_fsD(2) [OF assms(1) _ k(2)] by simp_all
  obtain t ts where t: "drop k es = t # ts" using k(1) by (cases "drop k es") simp_all
  have take: "take (Suc k) es = take k es @ [t]"
    using t k(1) by (metis Cons_nth_drop_Suc list.inject take_Suc_conv_app_nth)
  have plain: "list_all plain (take k es @ [t])" "list_all plain (elems x @ drop k es)"
    using assms(2) elems_plain [of x] by (auto simp: list_all_iff take [symmetric] dest: in_set_takeD in_set_dropD)
  have "ev (abs_path (elems x @ [t])) = NotExist"
    using coherent_fsD(3) [OF assms(1) plain(1) k(2)] k(1,4) take by (metis Suc_leI lessI)
  then have gone: "ev (abs_path (elems x @ t # take m ts)) = NotExist" for m
    using missing_below [OF assms(1), of "elems x @ [t]" "take m ts"] plain(2) t
    by (auto simp: list_all_iff dest: in_set_takeD)
  let ?es = "elems x @ drop k es" and ?k = "length (elems x)"
  have "ev (abs_path (take i ?es)) = NotExist" if "?k < i" "i \<le> length ?es" for i
    using gone [of "i - Suc ?k"] that t by (simp add: take_Cons' Suc_diff_Suc)
  moreover have "ev (abs_path (take ?k ?es)) = Resolved x" "is_abs x" using x clean_path_facts by simp_all
  ultimately have "resolveSymlinks ev (abs_path ?es) = Inr (abs_path (elems x @ drop ?k ?es))"
    using t by (intro resolveSymlinks_deepest_ancestor [OF plain(2), of ?k]) auto
  then show ?thesis using k(3) plain(2) by (simp add: clean_path_def elems_abs_path)
qed (use assms(3) in \<open>simp add: resolveSymlinks_def\<close>)

section \<open>Containment of resolved locations\<close>

lemma canonical_located:
  assumes "clean_path r" "resolveSymlinks ev r = Inr r"
  shows "canonical_for_containment ev cwd r = r"
  using assms clean_path_facts by (simp add: canonical_for_containment_def)

lemma within_located:
  assumes "coherent_fs ev" "is_abs cwd" "pathWithinRoot ev cwd r rt"
    and "clean_path r" "resolveSymlinks ev r = Inr r" "clean_path rt" "resolveSymlinks ev rt = Inr rt"
  shows "prefix (elems rt) (elems r)"
  using pathWithinRoot_prefix [OF coherent_fsD(1) [OF assms(1)] assms(2,3)] assms(4-7)
  by (simp add: canonical_located)

lemma resolved_is_located:
  assumes "coherent_fs ev" "is_abs p" "ev p = Resolved r"
  shows "clean_path r \<and> resolveSymlinks ev r = Inr r"
  using coherent_fsD(2) [OF assms] clean_path_facts [of r] by (auto simp: resolveSymlinks_def)

lemma normalizeRootPath_located:
  assumes "coherent_fs ev" "is_abs cwd" "normalizeRootPath ev cwd dir = Inr rt" "rt \<noteq> []"
  shows "clean_path rt \<and> resolveSymlinks ev rt = Inr rt"
proof -
  define q where "q = clean (make_abs cwd (trim_space dir))"
  have "is_abs q" using assms(2) by (simp add: q_def is_abs_clean is_abs_make_abs)
  moreover obtain x where x: "ev q = Resolved x" "rt = clean x"
    using assms(3,4) by (auto simp: normalizeRootPath_def Let_def q_def split: if_splits eval_result.splits)
  ultimately have "clean_path x \<and> resolveSymlinks ev x = Inr x" using resolved_is_located [OF assms(1)] by blast
  then show ?thesis using x(2) clean_path_facts [of x] by simp
qed

end
