(* ===== verification/IpFilter.thy ===== *)
theory IpFilter
  imports Prelude "HOL-Library.Word"
begin

text \<open>
  The addresses a URL request may reach: \<open>isRestrictedIP\<close> of
  \<open>internal/analyzer/permission.go\<close> over the predicates of the standard library's \<open>net.IP\<close>. An
  address is its bytes, four or sixteen of them, as in Go. The reference is the table of CIDR
  blocks in \<open>restricted_blocks\<close>, matched bit by bit.
\<close>

unbundle bit_operations_syntax

type_synonym ip = "8 word list"

section \<open>The predicates of \<open>net.IP\<close>\<close>

definition v4InV6Prefix :: ip where
  "v4InV6Prefix = [0, 0, 0, 0, 0, 0, 0, 0, 0, 0, 0xFF, 0xFF]"

definition to4 :: "ip \<Rightarrow> ip option" where
  "to4 ip =
     (if length ip = 4 then Some ip
      else if length ip = 16 \<and> take 12 ip = v4InV6Prefix then Some (drop 12 ip)
      else None)"

definition ip_equal :: "ip \<Rightarrow> ip \<Rightarrow> bool" where
  "ip_equal ip x \<longleftrightarrow>
     (if length ip = length x then ip = x
      else if length ip = 4 \<and> length x = 16 then x = v4InV6Prefix @ ip
      else if length ip = 16 \<and> length x = 4 then ip = v4InV6Prefix @ x
      else False)"

definition IPv4zero :: ip where "IPv4zero = v4InV6Prefix @ [0, 0, 0, 0]"
definition IPv6unspecified :: ip where "IPv6unspecified = replicate 16 0"
definition IPv6loopback :: ip where "IPv6loopback = replicate 15 0 @ [1]"

definition isUnspecified :: "ip \<Rightarrow> bool" where
  "isUnspecified ip \<longleftrightarrow> ip_equal ip IPv4zero \<or> ip_equal ip IPv6unspecified"

definition isLoopback :: "ip \<Rightarrow> bool" where
  "isLoopback ip =
     (case to4 ip of Some v \<Rightarrow> v ! 0 = 127 | None \<Rightarrow> ip_equal ip IPv6loopback)"

definition isPrivate :: "ip \<Rightarrow> bool" where
  "isPrivate ip =
     (case to4 ip of
        Some v \<Rightarrow> v ! 0 = 10 \<or> (v ! 0 = 172 \<and> v ! 1 AND 0xF0 = 16) \<or> (v ! 0 = 192 \<and> v ! 1 = 168)
      | None \<Rightarrow> length ip = 16 \<and> ip ! 0 AND 0xFE = 0xFC)"

definition isMulticast :: "ip \<Rightarrow> bool" where
  "isMulticast ip =
     (case to4 ip of
        Some v \<Rightarrow> v ! 0 AND 0xF0 = 0xE0
      | None \<Rightarrow> length ip = 16 \<and> ip ! 0 = 0xFF)"

definition isLinkLocalMulticast :: "ip \<Rightarrow> bool" where
  "isLinkLocalMulticast ip =
     (case to4 ip of
        Some v \<Rightarrow> v ! 0 = 224 \<and> v ! 1 = 0 \<and> v ! 2 = 0
      | None \<Rightarrow> length ip = 16 \<and> ip ! 0 = 0xFF \<and> ip ! 1 AND 0x0F = 0x02)"

definition isLinkLocalUnicast :: "ip \<Rightarrow> bool" where
  "isLinkLocalUnicast ip =
     (case to4 ip of
        Some v \<Rightarrow> v ! 0 = 169 \<and> v ! 1 = 254
      | None \<Rightarrow> length ip = 16 \<and> ip ! 0 = 0xFE \<and> ip ! 1 AND 0xC0 = 0x80)"

text \<open>\<open>net.IPNet\<close> with an address and a mask of the same length, and its \<open>Contains\<close>.\<close>

record ip_net =
  net_ip :: ip
  net_mask :: ip

definition net_contains :: "ip_net \<Rightarrow> ip \<Rightarrow> bool" where
  "net_contains n ip =
     (let ip' = (case to4 ip of Some v \<Rightarrow> v | None \<Rightarrow> ip) in
      length ip' = length (net_ip n) \<and> map2 (AND) (net_ip n) (net_mask n) = map2 (AND) ip' (net_mask n))"

text \<open>\<open>net.CIDRMask(ones, bits)\<close>, the mask byte by byte.\<close>

fun mask_bytes :: "nat \<Rightarrow> nat \<Rightarrow> ip" where
  "mask_bytes 0 n = []"
| "mask_bytes (Suc l) n =
     (if 8 \<le> n then 0xFF # mask_bytes l (n - 8) else NOT (drop_bit n 0xFF) # mask_bytes l 0)"

definition CIDRMask :: "nat \<Rightarrow> nat \<Rightarrow> ip" where
  "CIDRMask ones bits = mask_bytes (bits div 8) ones"

section \<open>The filter\<close>

definition cgnatRange :: ip_net where
  "cgnatRange = \<lparr>net_ip = [100, 64, 0, 0], net_mask = CIDRMask 10 32\<rparr>"

definition nat64Prefix :: ip_net where
  "nat64Prefix = \<lparr>net_ip = [0x00, 0x64, 0xFF, 0x9B] @ replicate 12 0, net_mask = CIDRMask 96 128\<rparr>"

definition sixToFourPrefix :: ip_net where
  "sixToFourPrefix = \<lparr>net_ip = [0x20, 0x02] @ replicate 14 0, net_mask = CIDRMask 16 128\<rparr>"

function isRestrictedIP :: "ip \<Rightarrow> bool" where
  "isRestrictedIP ip0 =
     (let ip = (case to4 ip0 of Some v \<Rightarrow> v | None \<Rightarrow> ip0) in
      if net_contains nat64Prefix ip \<and> length ip = 16 then isRestrictedIP (take 4 (drop 12 ip))
      else if net_contains sixToFourPrefix ip \<and> length ip = 16 then isRestrictedIP (take 4 (drop 2 ip))
      else isLoopback ip \<or> isLinkLocalUnicast ip \<or> isLinkLocalMulticast ip \<or> isPrivate ip \<or>
           isUnspecified ip \<or> isMulticast ip \<or> net_contains cgnatRange ip)"
  by pat_completeness auto
termination
  by (relation "measure length") (auto simp: to4_def split: option.splits if_splits)

declare isRestrictedIP.simps [simp del]

section \<open>The reference: a table of blocks\<close>

definition bits8 :: "8 word \<Rightarrow> bool list" where
  "bits8 b = map (bit b) [7, 6, 5, 4, 3, 2, 1, 0]"

definition bits_of :: "ip \<Rightarrow> bool list" where
  "bits_of ip = concat (map bits8 ip)"

definition in_block :: "ip \<times> nat \<Rightarrow> ip \<Rightarrow> bool" where
  "in_block blk ip \<longleftrightarrow>
     length ip = length (fst blk) \<and> take (snd blk) (bits_of ip) = take (snd blk) (bits_of (fst blk))"

definition restricted_blocks :: "(ip \<times> nat) list" where
  "restricted_blocks =
     [([127, 0, 0, 0], 8), ([169, 254, 0, 0], 16), ([224, 0, 0, 0], 4), ([10, 0, 0, 0], 8),
      ([172, 16, 0, 0], 12), ([192, 168, 0, 0], 16), ([0, 0, 0, 0], 32), ([100, 64, 0, 0], 10),
      (replicate 15 0 @ [1], 128), ([0xFE, 0x80] @ replicate 14 0, 10), (0xFF # replicate 15 0, 8),
      (0xFC # replicate 15 0, 7), (replicate 16 0, 128)]"

text \<open>The IPv4 address that an IPv4-mapped, NAT64 or 6to4 address carries.\<close>

definition mapped_base :: ip where "mapped_base = replicate 10 0 @ [0xFF, 0xFF, 0, 0, 0, 0]"
definition nat64_base :: ip where "nat64_base = [0x00, 0x64, 0xFF, 0x9B] @ replicate 12 0"
definition sixToFour_base :: ip where "sixToFour_base = [0x20, 0x02] @ replicate 14 0"

definition carried :: "ip \<Rightarrow> ip" where
  "carried ip =
     (if in_block (mapped_base, 96) ip then drop 12 ip
      else if in_block (nat64_base, 96) ip then drop 12 ip
      else if in_block (sixToFour_base, 16) ip then take 4 (drop 2 ip)
      else ip)"

section \<open>Bytes and bits\<close>

lemma length_bits8 [simp]: "length (bits8 b) = 8"
  by (simp add: bits8_def)

lemma byte_eq_bits:
  fixes a b :: "8 word"
  shows "a = b \<longleftrightarrow> (bit a 7 \<longleftrightarrow> bit b 7) \<and> (bit a 6 \<longleftrightarrow> bit b 6) \<and> (bit a 5 \<longleftrightarrow> bit b 5) \<and> (bit a 4 \<longleftrightarrow> bit b 4) \<and>
    (bit a 3 \<longleftrightarrow> bit b 3) \<and> (bit a 2 \<longleftrightarrow> bit b 2) \<and> (bit a 1 \<longleftrightarrow> bit b 1) \<and> (bit a 0 \<longleftrightarrow> bit b 0)"
    (is "_ = ?bits")
proof
  assume ?bits
  then have "bit a n = bit b n" if "n < 8" for n
    using that by (auto simp: numeral_eq_Suc less_Suc_eq)
  then show "a = b" by (intro bit_word_eqI) simp
qed simp

lemma bits8_inj [simp]: "bits8 a = bits8 b \<longleftrightarrow> a = b"
  by (simp add: bits8_def byte_eq_bits [of a b])

text \<open>The masks of the code select leading bits.\<close>

lemma mask_leading:
  fixes a :: "8 word"
  shows "a AND 0xF0 = 16 \<longleftrightarrow> take 4 (bits8 a) = take 4 (bits8 16)"
    and "a AND 0xF0 = 0xE0 \<longleftrightarrow> take 4 (bits8 a) = take 4 (bits8 0xE0)"
    and "a AND 0xFE = 0xFC \<longleftrightarrow> take 7 (bits8 a) = take 7 (bits8 0xFC)"
    and "a AND 0xC0 = 0x80 \<longleftrightarrow> take 2 (bits8 a) = take 2 (bits8 0x80)"
    and "a AND 0xC0 = 0x40 \<longleftrightarrow> take 2 (bits8 a) = take 2 (bits8 0x40)"
  by (simp_all add: bits8_def byte_eq_bits [of "a AND _"] bit_and_iff)

text \<open>A prefix of bits is a prefix of bytes and the leading bits of the next one.\<close>

lemma take_bits_of:
  "take (8 * k) (bits_of ip) = concat (map bits8 (take k ip))"
proof (induction k arbitrary: ip)
  case (Suc k)
  then show ?case by (cases ip) (simp_all add: bits_of_def)
qed simp

lemma in_block_bytes:
  assumes "length (b :: ip) = length ip" "k < length ip" "r \<le> 8"
  shows "in_block (b, 8 * k + r) ip \<longleftrightarrow> take k ip = take k b \<and> take r (bits8 (ip ! k)) = take r (bits8 (b ! k))"
  using assms
proof (induction k arbitrary: ip b)
  case 0
  then show ?case by (cases ip; cases b) (simp_all add: in_block_def bits_of_def)
next
  case (Suc k)
  then obtain x xs y ys where "ip = x # xs" "b = y # ys" by (cases ip; cases b) auto
  then show ?case using Suc.IH [of ys xs] Suc.prems by (auto simp: in_block_def bits_of_def)
qed

text \<open>Instances of the rule for the lengths that occur.\<close>

lemma in_block_aligned:
  assumes "length (b :: ip) = length ip" "k < length ip"
  shows "in_block (b, 8 * k) ip \<longleftrightarrow> take k ip = take k b"
  using in_block_bytes [OF assms, of 0] by simp

lemma in_block_all:
  assumes "length (b :: ip) = length ip"
  shows "in_block (b, 8 * length ip) ip \<longleftrightarrow> ip = b"
proof -
  have "concat (map bits8 x) = concat (map bits8 y) \<longleftrightarrow> x = y" if "length x = length y" for x y
    using that by (induction x y rule: list_induct2) simp_all
  then show ?thesis
    using assms take_bits_of [of "length ip" ip] take_bits_of [of "length ip" b] by (simp add: in_block_def)
qed

section \<open>The filter decides membership in the table\<close>

lemma length_4:
  assumes "length ip = 4"
  obtains a b c d where "ip = [a, b, c, d]"
  using assms by (auto simp: length_Suc_conv numeral_eq_Suc)

definition restricted :: "ip \<Rightarrow> bool" where
  "restricted ip \<longleftrightarrow> list_ex (\<lambda>blk. in_block blk (carried ip)) restricted_blocks"

lemma nets:
  "cgnatRange = \<lparr>net_ip = [100, 64, 0, 0], net_mask = [0xFF, 0xC0, 0, 0]\<rparr>"
  "nat64Prefix = \<lparr>net_ip = [0, 0x64, 0xFF, 0x9B, 0, 0, 0, 0, 0, 0, 0, 0, 0, 0, 0, 0],
    net_mask = [0xFF, 0xFF, 0xFF, 0xFF, 0xFF, 0xFF, 0xFF, 0xFF, 0xFF, 0xFF, 0xFF, 0xFF, 0, 0, 0, 0]\<rparr>"
  "sixToFourPrefix = \<lparr>net_ip = [0x20, 0x02, 0, 0, 0, 0, 0, 0, 0, 0, 0, 0, 0, 0, 0, 0],
    net_mask = [0xFF, 0xFF, 0, 0, 0, 0, 0, 0, 0, 0, 0, 0, 0, 0, 0, 0]\<rparr>"
  by code_simp+

lemma and_ones [simp]: "x AND 0xFF = (x :: 8 word)" "0xFF AND x = (x :: 8 word)"
  by (simp_all add: byte_eq_bits [of "x AND 0xFF"] byte_eq_bits [of "0xFF AND x"] bit_and_iff)

lemma zeros: "replicate 16 (0 :: 8 word) = [0, 0, 0, 0, 0, 0, 0, 0, 0, 0, 0, 0, 0, 0, 0, 0]"
  by (simp add: numeral_eq_Suc)

lemma isRestrictedIP_v4:
  assumes "length ip = 4"
  shows "isRestrictedIP ip \<longleftrightarrow> list_ex (\<lambda>blk. in_block blk ip) restricted_blocks"
proof -
  obtain a b c d where ip: "ip = [a, b, c, d]" using assms by (rule length_4)
  have block: "in_block ([x, y, z, w], n) ip \<longleftrightarrow> take n (bits_of ip) = take n (bits_of [x, y, z, w])" for x y z w n
    by (simp add: in_block_def ip)
  have long: "\<not> in_block (blk, n) ip" if "length blk = 16" for blk n
    using that assms by (simp add: in_block_def)
  have aligned: "in_block ([x, y, z, w], 8) ip \<longleftrightarrow> a = x" "in_block ([x, y, z, w], 16) ip \<longleftrightarrow> a = x \<and> b = y"
    "in_block ([x, y, z, w], 32) ip \<longleftrightarrow> ip = [x, y, z, w]" for x y z w
    using in_block_aligned [of "[x, y, z, w]" ip 1] in_block_aligned [of "[x, y, z, w]" ip 2]
      in_block_all [of "[x, y, z, w]" ip] by (auto simp: ip numeral_2_eq_2)
  have part: "in_block ([x, y, z, w], 4) ip \<longleftrightarrow> take 4 (bits8 a) = take 4 (bits8 x)"
    "in_block ([x, y, z, w], 12) ip \<longleftrightarrow> a = x \<and> take 4 (bits8 b) = take 4 (bits8 y)"
    "in_block ([x, y, z, w], 10) ip \<longleftrightarrow> a = x \<and> take 2 (bits8 b) = take 2 (bits8 y)" for x y z w
    using in_block_bytes [of "[x, y, z, w]" ip 0 4] in_block_bytes [of "[x, y, z, w]" ip 1 4]
      in_block_bytes [of "[x, y, z, w]" ip 1 2] by (auto simp: ip)
  have filter: "isRestrictedIP ip \<longleftrightarrow> isLoopback ip \<or> isLinkLocalUnicast ip \<or> isLinkLocalMulticast ip \<or> isPrivate ip \<or>
      isUnspecified ip \<or> isMulticast ip \<or> net_contains cgnatRange ip"
    by (simp add: isRestrictedIP.simps [of ip] to4_def assms)
  have preds: "isLoopback ip \<longleftrightarrow> a = 127" "isLinkLocalUnicast ip \<longleftrightarrow> a = 169 \<and> b = 254"
    "isPrivate ip \<longleftrightarrow> a = 10 \<or> a = 172 \<and> b AND 0xF0 = 16 \<or> a = 192 \<and> b = 168"
    "isMulticast ip \<longleftrightarrow> a AND 0xF0 = 0xE0" "isLinkLocalMulticast ip \<longleftrightarrow> a = 224 \<and> b = 0 \<and> c = 0"
    "isUnspecified ip \<longleftrightarrow> ip = [0, 0, 0, 0]"
    by (auto simp: ip isLoopback_def isLinkLocalUnicast_def isPrivate_def isMulticast_def isLinkLocalMulticast_def
        isUnspecified_def ip_equal_def IPv4zero_def IPv6unspecified_def v4InV6Prefix_def to4_def zeros)
  have cgnat: "net_contains cgnatRange ip \<longleftrightarrow> a = 100 \<and> b AND 0xC0 = 0x40"
    by (auto simp: net_contains_def to4_def ip nets)
  have local: "224 AND 0xF0 = (0xE0 :: 8 word)" by simp
  show ?thesis
    unfolding filter preds cgnat
    by (auto simp: restricted_blocks_def long aligned part mask_leading [symmetric] local)
qed

lemma length_16:
  assumes "length ip = 16"
  obtains a b c d e f g h i j k l m n p q where "ip = [a, b, c, d, e, f, g, h, i, j, k, l, m, n, p, q]"
  using assms by (auto simp: length_Suc_conv numeral_eq_Suc)

lemma length_bases: "length mapped_base = 16" "length nat64_base = 16" "length sixToFour_base = 16"
  by (simp_all add: mapped_base_def nat64_base_def sixToFour_base_def)

lemma take_mapped_base: "take 12 mapped_base = v4InV6Prefix"
  by (simp add: mapped_base_def v4InV6Prefix_def numeral_eq_Suc)

lemma carried_16:
  assumes "length ip = 16"
  shows "carried ip =
     (if take 12 ip = v4InV6Prefix \<or> take 12 ip = take 12 nat64_base then drop 12 ip
      else if take 2 ip = take 2 sixToFour_base then take 4 (drop 2 ip) else ip)"
  using in_block_aligned [of mapped_base ip 12] in_block_aligned [of nat64_base ip 12]
    in_block_aligned [of sixToFour_base ip 2] assms
  by (simp add: carried_def length_bases take_mapped_base)

lemma nets_16:
  assumes "length ip = 16" "to4 ip = None"
  shows "net_contains nat64Prefix ip \<longleftrightarrow> take 12 ip = take 12 nat64_base"
    and "net_contains sixToFourPrefix ip \<longleftrightarrow> take 2 ip = take 2 sixToFour_base"
    and "\<not> net_contains cgnatRange ip"
proof -
  obtain a b c d e f g h i j k l m n p q where "ip = [a, b, c, d, e, f, g, h, i, j, k, l, m, n, p, q]"
    using assms(1) by (rule length_16)
  with assms(2)
  show "net_contains nat64Prefix ip \<longleftrightarrow> take 12 ip = take 12 nat64_base"
    and "net_contains sixToFourPrefix ip \<longleftrightarrow> take 2 ip = take 2 sixToFour_base"
    and "\<not> net_contains cgnatRange ip"
    by (auto simp: net_contains_def nets numeral_eq_Suc nat64_base_def sixToFour_base_def)
qed

text \<open>An address that carries an IPv4 address is judged by it.\<close>

lemma isRestrictedIP_carrier:
  assumes "length ip = 16" "carried ip \<noteq> ip"
  shows "isRestrictedIP ip = isRestrictedIP (carried ip) \<and> length (carried ip) = 4"
proof -
  have v4: "to4 x = Some x" if "length x = 4" for x using that by (simp add: to4_def)
  show ?thesis
  proof (cases "take 12 ip = v4InV6Prefix")
    case True
    then have "to4 ip = Some (drop 12 ip)" "length (drop 12 ip) = 4" using assms(1) by (simp_all add: to4_def)
    then have "isRestrictedIP ip = isRestrictedIP (drop 12 ip)"
      using v4 by (simp add: isRestrictedIP.simps [of ip] isRestrictedIP.simps [of "drop 12 ip"])
    then show ?thesis using True assms(1) by (simp add: carried_16)
  next
    case False
    then have none: "to4 ip = None" using assms(1) by (simp add: to4_def)
    show ?thesis
      using False assms nets_16 [OF assms(1) none] none
      by (subst isRestrictedIP.simps) (auto simp: carried_16 split: if_splits)
  qed
qed

lemma isRestrictedIP_v6:
  assumes "length ip = 16" "carried ip = ip"
  shows "isRestrictedIP ip \<longleftrightarrow> list_ex (\<lambda>blk. in_block blk ip) restricted_blocks"
proof -
  have "length (carried ip) = 16" using assms by simp
  then have plain: "take 12 ip \<noteq> v4InV6Prefix" "take 12 ip \<noteq> take 12 nat64_base"
    "take 2 ip \<noteq> take 2 sixToFour_base"
    using assms(1) by (auto simp: carried_16 split: if_splits)
  have none: "to4 ip = None" using plain(1) assms(1) by (simp add: to4_def)
  have filter: "isRestrictedIP ip \<longleftrightarrow> isLoopback ip \<or> isLinkLocalUnicast ip \<or> isLinkLocalMulticast ip \<or> isPrivate ip \<or>
      isUnspecified ip \<or> isMulticast ip"
    by (subst isRestrictedIP.simps) (simp add: none nets_16 [OF assms(1) none] plain)
  have preds: "isLoopback ip \<longleftrightarrow> ip = replicate 15 0 @ [1]" "isLinkLocalUnicast ip \<longleftrightarrow> ip ! 0 = 0xFE \<and> ip ! 1 AND 0xC0 = 0x80"
    "isPrivate ip \<longleftrightarrow> ip ! 0 AND 0xFE = 0xFC" "isMulticast ip \<longleftrightarrow> ip ! 0 = 0xFF"
    "isLinkLocalMulticast ip \<longleftrightarrow> ip ! 0 = 0xFF \<and> ip ! 1 AND 0x0F = 0x02" "isUnspecified ip \<longleftrightarrow> ip = replicate 16 0"
    using plain(1) assms(1)
    by (auto simp: isLoopback_def isLinkLocalUnicast_def isPrivate_def isMulticast_def isLinkLocalMulticast_def none
        isUnspecified_def ip_equal_def IPv4zero_def IPv6unspecified_def IPv6loopback_def v4InV6Prefix_def)
  have short: "\<not> in_block (blk, n) ip" if "length blk = 4" for blk n
    using that assms(1) by (simp add: in_block_def)
  have aligned: "in_block (x # replicate 15 0, 8) ip \<longleftrightarrow> ip ! 0 = x" "length b = 16 \<Longrightarrow> in_block (b, 128) ip \<longleftrightarrow> ip = b" for x b
    using in_block_bytes [of "x # replicate 15 0" ip 0 8] in_block_all [of b ip] assms(1) by simp_all
  have part: "in_block (x # replicate 15 0, 7) ip \<longleftrightarrow> take 7 (bits8 (ip ! 0)) = take 7 (bits8 x)"
    "in_block ([x, y] @ replicate 14 0, 10) ip \<longleftrightarrow> ip ! 0 = x \<and> take 2 (bits8 (ip ! 1)) = take 2 (bits8 y)" for x y
    using in_block_bytes [of "x # replicate 15 0" ip 0 7] in_block_bytes [of "[x, y] @ replicate 14 0" ip 1 2] assms(1)
    by (auto simp: take_Suc_conv_app_nth)
  show ?thesis
    unfolding filter preds restricted_blocks_def
    by (simp add: short aligned part mask_leading [symmetric] del: append.simps) blast
qed

lemma isRestrictedIP_table:
  assumes "length ip = 4 \<or> length ip = 16"
  shows "isRestrictedIP ip \<longleftrightarrow> restricted ip"
proof -
  have "carried ip = ip" if "length ip = 4" using that by (simp add: carried_def in_block_def length_bases)
  then show ?thesis
    using assms isRestrictedIP_v4 [of ip] isRestrictedIP_v6 [of ip] isRestrictedIP_carrier [of ip]
      isRestrictedIP_v4 [of "carried ip"] by (cases "carried ip = ip") (auto simp: restricted_def)
qed

text \<open>C25: The address filter refuses exactly the addresses of the table: an IPv4-mapped, NAT64 or 6to4 address
  is judged by the IPv4 address it carries, every other one by the block list, compared bit by bit.\<close>
theorem isRestrictedIP_iff_table:
  assumes "length ip = 4 \<or> length ip = 16"
  shows "isRestrictedIP ip \<longleftrightarrow> list_ex (\<lambda>blk. in_block blk (carried ip)) restricted_blocks"
  using isRestrictedIP_table [OF assms] by (simp add: restricted_def)

text \<open>The cloud metadata address behind NAT64 is refused, a public address is not.\<close>
theorem isRestrictedIP_iff_table_witness:
  "isRestrictedIP ([0x00, 0x64, 0xFF, 0x9B] @ replicate 8 0 @ [169, 254, 169, 254]) \<and> \<not> isRestrictedIP [8, 8, 8, 8]"
proof -
  have "restricted ([0x00, 0x64, 0xFF, 0x9B] @ replicate 8 0 @ [169, 254, 169, 254])" "\<not> restricted [8, 8, 8, 8]"
    by code_simp+
  then show ?thesis
    using isRestrictedIP_iff_table [of "[0x00, 0x64, 0xFF, 0x9B] @ replicate 8 0 @ [169, 254, 169, 254]"]
    isRestrictedIP_iff_table [of "[8, 8, 8, 8]"] by (simp add: restricted_def)
qed

end
