(* ===== verification/ShellIdioms.thy ===== *)
theory ShellIdioms
  imports GoText
begin

text \<open>
  \<open>shellWriteIdiomRE\<close> of \<open>internal/analyzer/permission.go\<close>, the pattern that refuses shell commands
  which write, with the part of Go's regular expressions it is made of. The lemmas show that a
  writer in command position is found wherever it stands in the text.
\<close>

section \<open>Shell commands that write\<close>

text \<open>
  The pattern is matched over code points. A position is the character before it and the text after
  it; \<open>run\<close> lists the positions at which a match of the expression that starts at the given one can end.
\<close>

type_synonym position = "nat option \<times> nat list"

datatype re = Empty | Class "nat \<Rightarrow> bool" | Seq re re | Alt re re | Many "nat \<Rightarrow> bool" | TextStart | WordBoundary

definition word_char :: "nat \<Rightarrow> bool" where
  "word_char c \<longleftrightarrow> (48 \<le> c \<and> c \<le> 57) \<or> (65 \<le> c \<and> c \<le> 90) \<or> (97 \<le> c \<and> c \<le> 122) \<or> c = 95"

definition at_boundary :: "position \<Rightarrow> bool" where
  "at_boundary p \<longleftrightarrow>
     (case fst p of None \<Rightarrow> False | Some c \<Rightarrow> word_char c) \<noteq> (case snd p of [] \<Rightarrow> False | c # _ \<Rightarrow> word_char c)"

fun repeats :: "(nat \<Rightarrow> bool) \<Rightarrow> nat option \<Rightarrow> nat list \<Rightarrow> position list" where
  "repeats P b [] = [(b, [])]"
| "repeats P b (c # cs) = (b, c # cs) # (if P c then repeats P (Some c) cs else [])"

fun run :: "re \<Rightarrow> position \<Rightarrow> position list" where
  "run Empty p = [p]"
| "run (Class P) p = (case snd p of [] \<Rightarrow> [] | c # cs \<Rightarrow> if P c then [(Some c, cs)] else [])"
| "run (Seq a b) p = concat (map (run b) (run a p))"
| "run (Alt a b) p = run a p @ run b p"
| "run (Many P) p = repeats P (fst p) (snd p)"
| "run TextStart p = (if fst p = None then [p] else [])"
| "run WordBoundary p = (if at_boundary p then [p] else [])"

fun match_from :: "re \<Rightarrow> nat option \<Rightarrow> nat list \<Rightarrow> bool" where
  "match_from e b [] \<longleftrightarrow> run e (b, []) \<noteq> []"
| "match_from e b (c # cs) \<longleftrightarrow> run e (b, c # cs) \<noteq> [] \<or> match_from e (Some c) cs"

definition match_string :: "re \<Rightarrow> string \<Rightarrow> bool" where
  "match_string e s = match_from e None (map fst (runes s))"

text \<open>A literal under the flag \<open>i\<close>: the simple case folding of \<open>k\<close> and \<open>s\<close> has a third member.\<close>

definition folds :: "char \<Rightarrow> nat \<Rightarrow> bool" where
  "folds c r \<longleftrightarrow> r = byte c \<or> (97 \<le> byte c \<and> byte c \<le> (122 :: nat) \<and> r + 32 = byte c) \<or>
     (c = CHR ''k'' \<and> r = 0x212A) \<or> (c = CHR ''s'' \<and> r = 0x17F)"

fun literal :: "string \<Rightarrow> re" where
  "literal [] = Empty"
| "literal (c # cs) = Seq (Class (folds c)) (literal cs)"

fun one_of :: "re list \<Rightarrow> re" where
  "one_of [] = Class (\<lambda>_. False)"
| "one_of [e] = e"
| "one_of (e # es) = Alt e (one_of es)"

definition white :: "nat \<Rightarrow> bool" where
  "white c \<longleftrightarrow> c \<in> {9, 10, 12, 13, 32}"

definition shellCmdAnchor :: re where
  "shellCmdAnchor =
     Seq (one_of [TextStart, Class (\<lambda>c. c \<in> {59, 38, 124, 40}), literal ''$('']) (Many white)"

definition writer_names :: "string list" where
  "writer_names = [''tee'', ''dd'', ''rsync'', ''mkfifo'', ''mknod'', ''truncate'']"

definition white_plus :: re where
  "white_plus = Seq (Class white) (Many white)"

definition shellWriteIdiomRE :: re where
  "shellWriteIdiomRE = one_of
     [Seq shellCmdAnchor (Seq (one_of (map literal writer_names)) WordBoundary),
      Seq shellCmdAnchor (Seq (one_of (map literal [''bash'', ''sh'', ''zsh'', ''ksh'', ''dash'', ''ash'', ''fish'', ''csh'', ''tcsh'']))
        (Seq white_plus (Seq (literal ''-c'') WordBoundary))),
      Seq shellCmdAnchor (Seq (literal ''sed'') (Seq white_plus
        (one_of [Seq (literal ''-i'') WordBoundary, Seq (literal ''--in-place'') WordBoundary]))),
      Seq shellCmdAnchor (Seq (one_of [literal ''perl'', Seq (literal ''python'') (Many (\<lambda>c. 48 \<le> c \<and> c \<le> 57)), literal ''ruby'', literal ''node'', literal ''tcl''])
        (Seq white_plus
          (one_of [Seq (literal ''-i'') WordBoundary, Seq (literal ''-pi'') WordBoundary, Seq (literal ''-e'') WordBoundary]))),
      literal ''>('']"

section \<open>Matching\<close>

lemma run_Seq_iff: "run (Seq a b) p \<noteq> [] \<longleftrightarrow> (\<exists>q \<in> set (run a p). run b q \<noteq> [])"
  by auto

lemma run_Seq_mem: "q \<in> set (run a p) \<Longrightarrow> r \<in> set (run b q) \<Longrightarrow> r \<in> set (run (Seq a b) p)"
  by auto

lemma run_one_of: "set (run (one_of es) p) = (\<Union>e \<in> set es. set (run e p))"
  by (induction es rule: one_of.induct) (auto split: list.splits)

lemma run_one_of_member: "e \<in> set es \<Longrightarrow> run e p \<noteq> [] \<Longrightarrow> run (one_of es) p \<noteq> []"
  using run_one_of [of es p] by (metis UN_I empty_iff last_in_set list.set(1))

fun last_of :: "'a option \<Rightarrow> 'a list \<Rightarrow> 'a option" where
  "last_of b [] = b"
| "last_of b (x # xs) = last_of (Some x) xs"

lemma last_of_append: "last_of b (xs @ ys) = last_of (last_of b xs) ys"
  by (induction b xs rule: last_of.induct) auto

lemma last_of_snoc [simp]: "last_of b (xs @ [x]) = Some x"
  by (simp add: last_of_append)

lemma match_from_iff:
  "match_from e b cs \<longleftrightarrow> (\<exists>us vs. cs = us @ vs \<and> run e (last_of b us, vs) \<noteq> [])"
proof (induction cs arbitrary: b)
  case (Cons c cs)
  show ?case
  proof
    assume "match_from e b (c # cs)"
    then consider "run e (b, c # cs) \<noteq> []" | "match_from e (Some c) cs" by auto
    then show "\<exists>us vs. c # cs = us @ vs \<and> run e (last_of b us, vs) \<noteq> []"
    proof cases
      case 1
      then show ?thesis by (intro exI [of _ "[]"] exI [of _ "c # cs"]) simp
    next
      case 2
      then obtain us vs where "cs = us @ vs" "run e (last_of (Some c) us, vs) \<noteq> []" using Cons.IH by auto
      then show ?thesis by (intro exI [of _ "c # us"] exI [of _ vs]) simp
    qed
  next
    assume "\<exists>us vs. c # cs = us @ vs \<and> run e (last_of b us, vs) \<noteq> []"
    then obtain us vs where u: "c # cs = us @ vs" "run e (last_of b us, vs) \<noteq> []" by blast
    then show "match_from e b (c # cs)"
      using Cons.IH [of "Some c"] by (cases us) auto
  qed
qed simp

lemma repeats_reaches: "list_all P ws \<Longrightarrow> (last_of b ws, rest) \<in> set (repeats P b (ws @ rest))"
proof (induction ws arbitrary: b)
  case Nil
  then show ?case by (cases rest) simp_all
qed simp

lemma literal_reaches:
  "list_all2 folds lit cs \<Longrightarrow> (last_of b cs, rest) \<in> set (run (literal lit) (b, cs @ rest))"
  by (induction lit cs arbitrary: b rule: list_all2_induct) auto

section \<open>Code points of ASCII text\<close>

lemma decode_rune_ascii: "byte c < (128 :: nat) \<Longrightarrow> decode_rune (c # s) = Some (byte c, 1)"
  by (simp add: decode_rune.simps)

lemma decode_rune_append_ascii:
  assumes "s \<noteq> []" "byte c < (128 :: nat)"
  shows "decode_rune (s @ c # t) = decode_rune s"
proof -
  obtain a s' where "s = a # s'" using assms(1) by (cases s) simp_all
  then show ?thesis
    using assms(2)
    by (auto simp: decode_rune.simps Let_def cont_byte_def second_ok_def Cons_eq_append_conv split: list.splits)
qed

lemma runes_append_ascii:
  assumes "byte c < (128 :: nat)"
  shows "runes (s @ c # t) = runes s @ runes (c # t)"
proof (induction s rule: runes.induct)
  case (1 s)
  show ?case
  proof (cases s)
    case (Cons a s')
    then have d: "decode_rune (s @ c # t) = decode_rune s"
      using assms by (intro decode_rune_append_ascii) simp_all
    show ?thesis
    proof (cases "decode_rune s")
      case None
      then show ?thesis
        using 1(1) [OF Cons None] d Cons by (simp add: runes.simps [of "a # s'"] runes.simps [of "a # s' @ c # t"])
    next
      case (Some p)
      obtain r w where p: "p = (r, w)" by (cases p)
      have w: "0 < w" "w \<le> length s" using decode_rune_width Some p by simp_all
      show ?thesis
        using 1(2) [OF Cons Some p [symmetric]] d Some p w
        by (simp add: runes_step [of s r w] runes_step [of "s @ c # t" r w])
    qed
  qed (simp add: runes.simps [of "[]"])
qed

lemma runes_ascii: "is_ascii s \<Longrightarrow> map fst (runes s) = map (\<lambda>c. byte c) s"
proof (induction s)
  case (Cons c s)
  then have "runes (c # s) = (byte c, [c], True) # runes s"
    using decode_rune_ascii [of c s] by (simp add: is_ascii_def runes_step)
  with Cons show ?case by (simp add: is_ascii_def)
qed (simp add: runes.simps)

section \<open>Writers in command position\<close>

text \<open>The text before a command ends at its start or after a separator.\<close>

definition command_position :: "string \<Rightarrow> bool" where
  "command_position pre \<longleftrightarrow> pre = [] \<or> last pre \<in> {CHR '';'', CHR ''&'', CHR ''|'', CHR ''(''}"

definition ends_word :: "string \<Rightarrow> bool" where
  "ends_word rest \<longleftrightarrow> (case rest of [] \<Rightarrow> True | c # _ \<Rightarrow> byte c < (128 :: nat) \<and> \<not> word_char (byte c))"

definition white_text :: "string \<Rightarrow> bool" where
  "white_text ws \<longleftrightarrow> list_all (\<lambda>c. white (byte c)) ws"

lemma folds_lower: "map lower_byte cmd = name \<Longrightarrow> list_all2 folds name (map (\<lambda>c. byte c) cmd)"
  by (induction cmd arbitrary: name) (auto simp: folds_def lower_byte_def)

lemma codes_append_ascii:
  assumes "is_ascii a" "rest = [] \<or> byte (hd rest) < (128 :: nat)"
  shows "map fst (runes (s @ a @ rest)) = map fst (runes s) @ map (\<lambda>c. byte c) a @ map fst (runes rest)"
proof (cases "a @ rest")
  case Nil
  then show ?thesis by (simp add: runes.simps [of "[]"])
next
  case (Cons c t)
  then have "byte c < (128 :: nat)" using assms by (cases a) (auto simp: is_ascii_def)
  then have head: "runes (s @ a @ rest) = runes s @ runes (a @ rest)"
    using Cons runes_append_ascii [of c s t] by simp
  have "runes (a @ rest) = runes a @ runes rest"
    using assms(2) runes_append_ascii [of "hd rest" a "tl rest"]
    by (cases rest) (auto simp: runes.simps [of "[]"])
  with head show ?thesis using runes_ascii [OF assms(1)] by simp
qed

lemma writer_reaches:
  assumes "list_all2 folds name cs" "name \<in> set writer_names" "cs \<noteq> []"
    and "word_char (last cs)" "case rest of [] \<Rightarrow> True | c # _ \<Rightarrow> \<not> word_char c"
  shows "run (Seq (one_of (map literal writer_names)) WordBoundary) (b, cs @ rest) \<noteq> []"
proof -
  have last: "last_of b cs = Some (last cs)"
    using last_of_snoc [of b "butlast cs" "last cs"] append_butlast_last_id [OF assms(3)] by simp
  have "(last_of b cs, rest) \<in> set (run (one_of (map literal writer_names)) (b, cs @ rest))"
    unfolding run_one_of using literal_reaches [OF assms(1)] assms(2) by auto
  moreover have "run WordBoundary (last_of b cs, rest) \<noteq> []"
    using assms(4,5) by (auto simp: last at_boundary_def split: list.splits)
  ultimately show ?thesis using run_Seq_iff by blast
qed

lemma anchor_reaches:
  assumes "list_all white ws"
    and "b = None \<and> us = [] \<or> (\<exists>c \<in> {59, 38, 124, 40}. us = [c])"
  shows "(last_of b (us @ ws), rest) \<in> set (run shellCmdAnchor (b, us @ ws @ rest))"
proof -
  have "(last_of b us, ws @ rest) \<in> set (run (one_of [TextStart, Class (\<lambda>c. c \<in> {59, 38, 124, 40}), literal ''$('']) (b, us @ ws @ rest))"
    unfolding run_one_of using assms(2) by auto
  moreover have "(last_of (last_of b us) ws, rest) \<in> set (run (Many white) (last_of b us, ws @ rest))"
    using repeats_reaches [OF assms(1)] by simp
  ultimately show ?thesis unfolding shellCmdAnchor_def last_of_append by (rule run_Seq_mem)
qed

lemma writer_text:
  assumes "map lower_byte cmd \<in> set writer_names"
  shows "cmd \<noteq> []" "is_ascii cmd" "word_char (last (map (\<lambda>c. byte c) cmd))"
proof -
  have letter: "byte c < (128 :: nat) \<and> word_char (byte c)"
    if "97 \<le> byte (lower_byte c) \<and> byte (lower_byte c) \<le> (122 :: nat)" for c
    using that by (auto simp: lower_byte_def word_char_def split: if_splits)
  have "\<forall>n \<in> set writer_names. list_all (\<lambda>c. 97 \<le> byte c \<and> byte c \<le> (122 :: nat)) n \<and> n \<noteq> []"
    by code_simp
  then have "\<forall>c \<in> set cmd. byte c < (128 :: nat) \<and> word_char (byte c)" and ne: "cmd \<noteq> []"
    using assms letter by (fastforce simp: list_all_iff)+
  then show "cmd \<noteq> []" "is_ascii cmd" "word_char (last (map (\<lambda>c. byte c) cmd))"
    by (auto simp: is_ascii_def last_map)
qed

text \<open>A writer is found after any text that puts it in command position, in any letter case.\<close>
theorem writer_found:
  assumes "command_position pre" "white_text ws" "map lower_byte cmd \<in> set writer_names" "ends_word rest"
  shows "match_string shellWriteIdiomRE (pre @ ws @ cmd @ rest)"
proof -
  define us where "us = (if pre = [] then [] else [last pre])"
  define front where "front = butlast pre"
  have pre: "pre = front @ us" by (simp add: us_def front_def)
  let ?n = "\<lambda>s. map (\<lambda>c. byte c :: nat) s"
  have cmd: "list_all2 folds (map lower_byte cmd) (?n cmd)" by (rule folds_lower) simp
  have ne: "cmd \<noteq> []" and ascii_cmd: "is_ascii cmd" and word: "word_char (last (?n cmd))"
    using writer_text [OF assms(3)] by simp_all
  have ascii: "is_ascii (us @ ws @ cmd)"
    using ascii_cmd assms(1,2)
    by (auto simp: is_ascii_def us_def command_position_def white_text_def list_all_iff white_def)
  have tail: "case map fst (runes rest) of [] \<Rightarrow> True | c # _ \<Rightarrow> \<not> word_char c"
    using assms(4) decode_rune_ascii
    by (cases rest) (auto simp: ends_word_def runes_step runes.simps [of "[]"])
  have codes: "map fst (runes (pre @ ws @ cmd @ rest)) =
      map fst (runes front) @ (?n us @ ?n ws @ ?n cmd @ map fst (runes rest))"
    using codes_append_ascii [OF ascii, of rest front] assms(4) pre by (cases rest) (auto simp: ends_word_def)
  let ?b = "last_of None (map fst (runes front))"
  have "(last_of ?b (?n us @ ?n ws), ?n cmd @ map fst (runes rest)) \<in>
      set (run shellCmdAnchor (?b, ?n us @ ?n ws @ ?n cmd @ map fst (runes rest)))"
    using assms(1,2)
    by (intro anchor_reaches)
       (auto simp: us_def front_def command_position_def white_text_def list_all_iff runes.simps [of "[]"])
  moreover have "run (Seq (one_of (map literal writer_names)) WordBoundary)
      (last_of ?b (?n us @ ?n ws), ?n cmd @ map fst (runes rest)) \<noteq> []"
    using writer_reaches [OF cmd assms(3)] ne word tail by simp
  ultimately have "run (Seq shellCmdAnchor (Seq (one_of (map literal writer_names)) WordBoundary))
      (?b, ?n us @ ?n ws @ ?n cmd @ map fst (runes rest)) \<noteq> []"
    unfolding run_Seq_iff [of shellCmdAnchor] by blast
  then have "run shellWriteIdiomRE (?b, ?n us @ ?n ws @ ?n cmd @ map fst (runes rest)) \<noteq> []"
    unfolding shellWriteIdiomRE_def by (rule run_one_of_member [OF list.set_intros(1)])
  then show ?thesis unfolding match_string_def match_from_iff codes by blast
qed

end
