(* ===== verification/Permission.thy ===== *)
theory Permission
  imports PathScope IpFilter ShellIdioms
begin

text \<open>
  What the analyzer's agent may do: \<open>internal/analyzer/permission.go\<close> and the request types of
  \<open>provider.go\<close>, on a Unix system. URL parsing, textual addresses and name resolution are
  parameters; the pattern for shell commands that write is in \<open>ShellIdioms\<close>.
\<close>

section \<open>Requests and decisions\<close>

type_synonym permission_kind = string

definition PermissionKindRead :: permission_kind where "PermissionKindRead = ''read''"
definition PermissionKindURL :: permission_kind where "PermissionKindURL = ''url''"
definition PermissionKindShell :: permission_kind where "PermissionKindShell = ''shell''"
definition PermissionKindMCPTool :: permission_kind where "PermissionKindMCPTool = ''mcp''"
definition PermissionKindCustomTool :: permission_kind where "PermissionKindCustomTool = ''custom''"

lemmas kind_defs = PermissionKindRead_def PermissionKindURL_def PermissionKindShell_def
  PermissionKindMCPTool_def PermissionKindCustomTool_def

record shell_command =
  cmd_identifier :: string
  command_readonly :: bool

record permission_request =
  kind :: permission_kind
  request_path :: "string option"
  possiblePaths :: "string list"
  readOnly :: "bool option"
  commands :: "shell_command list"
  hasWriteFileRedirection :: "bool option"
  fullCommandText :: "string option"

datatype candidate_error = EmptyCandidate | NullByteCandidate | NonFilesystem | Unresolved

datatype reason =
    ShellNotReadOnly
  | ToolNotReadOnly
  | KindNotAllowed permission_kind
  | NoRoot
  | NoCandidates
  | InvalidPath string candidate_error
  | OutsideRoot string string
  | UnparseableURL string
  | SchemeNotAllowed string
  | NoHostname
  | RestrictedLiteral ip
  | LocalHostname string
  | LookupFailed string
  | NoAddresses string
  | ResolvesToRestricted string ip

datatype decision = Approve (approved_ip: string) | Refuse reason

definition approved :: "decision \<Rightarrow> bool" where
  "approved d \<longleftrightarrow> (case d of Approve _ \<Rightarrow> True | Refuse _ \<Rightarrow> False)"

text \<open>The network as the URL check sees it: \<open>url.Parse\<close> reduced to scheme and \<open>Hostname()\<close>,
  \<open>net.ParseIP\<close>, \<open>net.LookupIP\<close>, \<open>IP.String\<close> and the Unicode part of \<open>strings.ToLower\<close>.\<close>

record net_env =
  parse_url :: "string \<Rightarrow> (string \<times> string) option"
  parse_ip :: "string \<Rightarrow> ip option"
  lookup_ip :: "string \<Rightarrow> ip list option"
  ip_text :: "ip \<Rightarrow> string"
  unicode_lower :: "string \<Rightarrow> string"

section \<open>URLs\<close>

definition request_url :: "permission_request \<Rightarrow> string" where
  "request_url req =
     (case request_path req of
        Some p \<Rightarrow> if p \<noteq> [] then p else (case possiblePaths req of [] \<Rightarrow> [] | q # _ \<Rightarrow> q)
      | None \<Rightarrow> (case possiblePaths req of [] \<Rightarrow> [] | q # _ \<Rightarrow> q))"

definition check_addresses :: "net_env \<Rightarrow> string \<Rightarrow> ip list option \<Rightarrow> decision" where
  "check_addresses ne host found =
     (case found of
        None \<Rightarrow> Refuse (LookupFailed host)
      | Some [] \<Rightarrow> Refuse (NoAddresses host)
      | Some (ip # ips) \<Rightarrow>
          (case find isRestrictedIP (ip # ips) of
             Some bad \<Rightarrow> Refuse (ResolvesToRestricted host bad)
           | None \<Rightarrow> Approve (ip_text ne ip)))"

definition validateURL :: "net_env \<Rightarrow> permission_request \<Rightarrow> decision" where
  "validateURL ne req =
     (let rawURL = request_url req in
      if rawURL = [] then Approve []
      else case parse_url ne rawURL of
        None \<Rightarrow> Refuse (UnparseableURL rawURL)
      | Some (parsed_scheme, hostname) \<Rightarrow>
          let scheme = to_lower (unicode_lower ne) parsed_scheme in
          if scheme \<noteq> ''http'' \<and> scheme \<noteq> ''https'' then Refuse (SchemeNotAllowed parsed_scheme)
          else if hostname = [] then Refuse NoHostname
          else case parse_ip ne hostname of
            Some ip \<Rightarrow> if isRestrictedIP ip then Refuse (RestrictedLiteral ip) else Approve []
          | None \<Rightarrow>
              let lower = to_lower (unicode_lower ne) hostname in
              if lower = ''localhost'' \<or> has_suffix lower ''.local'' then Refuse (LocalHostname hostname)
              else check_addresses ne hostname (lookup_ip ne hostname))"

section \<open>Files\<close>

definition requestPathCandidates :: "permission_request \<Rightarrow> string list" where
  "requestPathCandidates req = (case request_path req of Some p \<Rightarrow> [p] | None \<Rightarrow> []) @ possiblePaths req"

definition looksLikeNonFilesystemPath :: "(string \<Rightarrow> string) \<Rightarrow> string \<Rightarrow> bool" where
  "looksLikeNonFilesystemPath ul candidate =
     (let lower = to_lower ul candidate in contains lower ''://'' \<or> has_prefix lower ''file:'')"

definition absolute_candidate :: "string \<Rightarrow> string \<Rightarrow> string \<Rightarrow> string" where
  "absolute_candidate cwd trimmed normalizedRoot =
     clean (make_abs cwd (if is_abs trimmed then trimmed else join_paths [normalizedRoot, trimmed]))"

definition normalizeCandidatePath ::
    "(string \<Rightarrow> eval_result) \<Rightarrow> (string \<Rightarrow> string) \<Rightarrow> string \<Rightarrow> string \<Rightarrow> string \<Rightarrow> candidate_error + string" where
  "normalizeCandidatePath ev ul cwd candidate normalizedRoot =
     (let trimmed = trim_space candidate in
      if trimmed = [] then Inl EmptyCandidate
      else if CHR 0x00 \<in> set trimmed then Inl NullByteCandidate
      else if looksLikeNonFilesystemPath ul trimmed then Inl NonFilesystem
      else case resolveSymlinks ev (absolute_candidate cwd trimmed normalizedRoot) of
        Inl _ \<Rightarrow> Inl Unresolved
      | Inr r \<Rightarrow> Inr r)"

fun check_candidates ::
    "(string \<Rightarrow> eval_result) \<Rightarrow> (string \<Rightarrow> string) \<Rightarrow> string \<Rightarrow> string \<Rightarrow> string list \<Rightarrow> decision" where
  "check_candidates ev ul cwd normalizedRoot [] = Approve []"
| "check_candidates ev ul cwd normalizedRoot (c # cs) =
     (case normalizeCandidatePath ev ul cwd c normalizedRoot of
        Inl e \<Rightarrow> Refuse (InvalidPath c e)
      | Inr normalized \<Rightarrow>
          if \<not> pathWithinRoot ev cwd normalized normalizedRoot then Refuse (OutsideRoot c normalized)
          else check_candidates ev ul cwd normalizedRoot cs)"

definition decideFilesystem ::
    "(string \<Rightarrow> eval_result) \<Rightarrow> (string \<Rightarrow> string) \<Rightarrow> string \<Rightarrow> permission_request \<Rightarrow> string \<Rightarrow> decision" where
  "decideFilesystem ev ul cwd req normalizedRoot =
     (if normalizedRoot = [] then Refuse NoRoot
      else if requestPathCandidates req = [] then Refuse NoCandidates
      else check_candidates ev ul cwd normalizedRoot (requestPathCandidates req))"

section \<open>Shell commands that only read\<close>

definition shellRequestReadOnly :: "permission_request \<Rightarrow> bool" where
  "shellRequestReadOnly req =
     (if hasWriteFileRedirection req = Some True then False
      else if (case fullCommandText req of Some t \<Rightarrow> match_string shellWriteIdiomRE t | None \<Rightarrow> False) then False
      else case readOnly req of
        Some b \<Rightarrow> b
      | None \<Rightarrow> commands req \<noteq> [] \<and> list_all command_readonly (commands req))"

section \<open>The decision\<close>

definition decidePermission ::
    "net_env \<Rightarrow> (string \<Rightarrow> eval_result) \<Rightarrow> string \<Rightarrow> permission_request \<Rightarrow> string \<Rightarrow> decision" where
  "decidePermission ne ev cwd req normalizedRoot =
     (if kind req = PermissionKindRead then decideFilesystem ev (unicode_lower ne) cwd req normalizedRoot
      else if kind req = PermissionKindURL then validateURL ne req
      else if kind req = PermissionKindShell then
        if \<not> shellRequestReadOnly req then Refuse ShellNotReadOnly
        else decideFilesystem ev (unicode_lower ne) cwd req normalizedRoot
      else if kind req = PermissionKindMCPTool \<or> kind req = PermissionKindCustomTool then
        if readOnly req = Some True then Approve [] else Refuse ToolNotReadOnly
      else Refuse (KindNotAllowed (kind req)))"

section \<open>Paths of approved requests\<close>

lemma check_candidates_approved:
  "approved (check_candidates ev ul cwd rt cs) \<longleftrightarrow>
   (\<forall>c \<in> set cs. \<exists>r. normalizeCandidatePath ev ul cwd c rt = Inr r \<and> pathWithinRoot ev cwd r rt)"
  by (induction cs) (auto simp: approved_def split: sum.splits)

lemma absolute_candidate_abs:
  "is_abs cwd \<Longrightarrow> \<exists>es. absolute_candidate cwd c rt = abs_path es \<and> list_all plain es"
  unfolding absolute_candidate_def by (metis clean_abs elems_plain is_abs_make_abs)

lemma normalizeCandidatePath_located:
  assumes "coherent_fs ev" "is_abs cwd" "normalizeCandidatePath ev ul cwd c rt = Inr r"
  shows "clean_path r \<and> resolveSymlinks ev r = Inr r"
proof -
  have "resolveSymlinks ev (absolute_candidate cwd (trim_space c) rt) = Inr r"
    using assms(3) by (simp add: normalizeCandidatePath_def Let_def split: if_splits sum.splits)
  then show ?thesis
    using absolute_candidate_abs [OF assms(2)] resolveSymlinks_idem [OF assms(1)] by metis
qed

lemma approved_filesystem:
  assumes "approved (decidePermission ne ev cwd req rt)" "kind req \<in> {PermissionKindRead, PermissionKindShell}"
  shows "rt \<noteq> [] \<and> requestPathCandidates req \<noteq> [] \<and>
    approved (check_candidates ev (unicode_lower ne) cwd rt (requestPathCandidates req))"
  using assms by (auto simp: decidePermission_def decideFilesystem_def approved_def kind_defs split: if_splits)

text \<open>A path that resolves to a location at or below the root, element by element.\<close>

definition confined :: "(string \<Rightarrow> eval_result) \<Rightarrow> string \<Rightarrow> string \<Rightarrow> string \<Rightarrow> bool" where
  "confined ev cwd rt c \<longleftrightarrow>
     (\<exists>loc. resolveSymlinks ev (absolute_candidate cwd (trim_space c) rt) = Inr loc \<and> prefix (elems rt) (elems loc))"

lemma approved_confined:
  assumes "coherent_fs ev" "is_abs cwd" "normalizeRootPath ev cwd dir = Inr rt"
    and "kind req \<in> {PermissionKindRead, PermissionKindShell}" "approved (decidePermission ne ev cwd req rt)"
  shows "requestPathCandidates req \<noteq> [] \<and> (\<forall>c \<in> set (requestPathCandidates req). confined ev cwd rt c)"
proof -
  have rt: "rt \<noteq> []" "requestPathCandidates req \<noteq> []"
    and ok: "approved (check_candidates ev (unicode_lower ne) cwd rt (requestPathCandidates req))"
    using approved_filesystem [OF assms(5,4)] by simp_all
  have loc: "clean_path rt" "resolveSymlinks ev rt = Inr rt"
    using normalizeRootPath_located [OF assms(1-3) rt(1)] by simp_all
  have "confined ev cwd rt c" if c: "c \<in> set (requestPathCandidates req)" for c
  proof -
    obtain r where r: "normalizeCandidatePath ev (unicode_lower ne) cwd c rt = Inr r" "pathWithinRoot ev cwd r rt"
      using ok c by (auto simp: check_candidates_approved)
    then have "clean_path r" "resolveSymlinks ev r = Inr r" using normalizeCandidatePath_located [OF assms(1,2)] by blast+
    then have "prefix (elems rt) (elems r)" using within_located [OF assms(1,2) r(2)] loc by blast
    moreover have "resolveSymlinks ev (absolute_candidate cwd (trim_space c) rt) = Inr r"
      using r(1) by (simp add: normalizeCandidatePath_def Let_def split: if_splits sum.splits)
    ultimately show ?thesis by (auto simp: confined_def)
  qed
  with rt(2) show ?thesis by blast
qed

text \<open>Reading stays in the project: when a read or shell request is approved, it names at least one path, and
  every path it names, once its symbolic links are resolved, lies at or below the project root,
  element by element.\<close>
theorem approved_paths_confined:
  assumes "coherent_fs ev" "is_abs cwd" "normalizeRootPath ev cwd dir = Inr rt"
    and "kind req \<in> {PermissionKindRead, PermissionKindShell}" "approved (decidePermission ne ev cwd req rt)"
  shows "requestPathCandidates req \<noteq> [] \<and>
    (\<forall>c \<in> set (requestPathCandidates req). \<exists>loc.
       resolveSymlinks ev (absolute_candidate cwd (trim_space c) rt) = Inr loc \<and>
       prefix (elems rt) (elems loc))"
  using approved_confined [OF assms] by (simp add: confined_def)

section \<open>Addresses of approved requests\<close>

definition wellformed_net :: "net_env \<Rightarrow> bool" where
  "wellformed_net ne \<longleftrightarrow>
     (\<forall>h ip. parse_ip ne h = Some ip \<longrightarrow> length ip = 4 \<or> length ip = 16) \<and>
     (\<forall>h ips. lookup_ip ne h = Some ips \<longrightarrow> (\<forall>ip \<in> set ips. length ip = 4 \<or> length ip = 16))"

lemma check_addresses_approved:
  "approved (check_addresses ne h found) \<longleftrightarrow>
   (\<exists>ips. found = Some ips \<and> ips \<noteq> [] \<and> (\<forall>ip \<in> set ips. \<not> isRestrictedIP ip) \<and>
      approved_ip (check_addresses ne h found) = ip_text ne (hd ips))"
  by (auto simp: check_addresses_def approved_def find_None_iff split: option.splits list.splits dest!: find_Some_split)

text \<open>C32: A URL that is approved is an http or https one whose host is an address outside the restricted table, or
  a name all of whose addresses, at least one, are outside it; the address for pinning is the
  first of them.\<close>
theorem approved_url_unrestricted:
  assumes "wellformed_net ne" "kind req = PermissionKindURL" "approved (decidePermission ne ev cwd req rt)"
    and "request_url req \<noteq> []"
  shows "\<exists>scheme host. parse_url ne (request_url req) = Some (scheme, host) \<and> host \<noteq> [] \<and>
    to_lower (unicode_lower ne) scheme \<in> {''http'', ''https''} \<and>
    (case parse_ip ne host of
       Some ip \<Rightarrow> \<not> restricted ip
     | None \<Rightarrow> \<exists>ips. lookup_ip ne host = Some ips \<and> ips \<noteq> [] \<and> (\<forall>ip \<in> set ips. \<not> restricted ip) \<and>
         approved_ip (decidePermission ne ev cwd req rt) = ip_text ne (hd ips))"
proof -
  have d: "decidePermission ne ev cwd req rt = validateURL ne req"
    using assms(2) by (simp add: decidePermission_def kind_defs)
  have ok: "approved (validateURL ne req)" using assms(3) d by simp
  obtain scheme host where p: "parse_url ne (request_url req) = Some (scheme, host)" "host \<noteq> []"
      "to_lower (unicode_lower ne) scheme \<in> {''http'', ''https''}"
    using ok assms(4) by (auto simp: validateURL_def Let_def approved_def split: option.splits if_splits)
  show ?thesis
  proof (cases "parse_ip ne host")
    case (Some ip)
    then have "\<not> isRestrictedIP ip"
      using ok p assms(4) by (auto simp: validateURL_def Let_def approved_def split: if_splits)
    then show ?thesis using p Some assms(1) isRestrictedIP_table [of ip] by (auto simp: wellformed_net_def)
  next
    case None
    then have v: "validateURL ne req = check_addresses ne host (lookup_ip ne host)"
      using ok p assms(4) by (auto simp: validateURL_def Let_def approved_def split: if_splits)
    then obtain ips where "lookup_ip ne host = Some ips" "ips \<noteq> []" "\<forall>ip \<in> set ips. \<not> isRestrictedIP ip"
        "approved_ip (validateURL ne req) = ip_text ne (hd ips)"
      using ok check_addresses_approved [of ne host "lookup_ip ne host"] by auto
    then show ?thesis using p None d assms(1) isRestrictedIP_table by (auto simp: wellformed_net_def)
  qed
qed

section \<open>Commands of approved requests\<close>

text \<open>C33: A shell request whose command text has one of the programs \<open>tee\<close>, \<open>dd\<close>, \<open>rsync\<close>,
  \<open>mkfifo\<close>, \<open>mknod\<close> and \<open>truncate\<close> at its start, or after one of the
  separators \<open>; & | (\<close> and white space, in any letter case and with any text after it, is refused,
  whatever the provider says about the command. The program must be a whole word. The start of a later line is no such position: see
  \<open>newline_hides_writer\<close>.\<close>
theorem writer_refused:
  assumes "kind req = PermissionKindShell" "fullCommandText req = Some (pre @ ws @ cmd @ rest)"
    and "command_position pre" "white_text ws" "ends_word rest"
    and "map lower_byte cmd \<in> {''tee'', ''dd'', ''rsync'', ''mkfifo'', ''mknod'', ''truncate''}"
  shows "decidePermission ne ev cwd req rt = Refuse ShellNotReadOnly"
proof -
  have "map lower_byte cmd \<in> set writer_names" using assms(6) by (simp add: writer_names_def)
  from writer_found [OF assms(3,4) this assms(5)] show ?thesis
    using assms(1,2) by (simp add: decidePermission_def shellRequestReadOnly_def kind_defs)
qed

text \<open>A line break does not start a command: the pattern anchors at the start of the text only.\<close>

definition two_lines :: permission_request where
  "two_lines = \<lparr>kind = PermissionKindShell, request_path = None, possiblePaths = [''/w/f''], readOnly = Some True,
     commands = [], hasWriteFileRedirection = Some False, fullCommandText = Some (''ls'' @ [CHR 10] @ ''tee f'')\<rparr>"

lemma two_lines_readonly: "shellRequestReadOnly two_lines"
  by code_simp

theorem newline_hides_writer:
  "decidePermission ne sample_fs ''/'' two_lines ''/real/w'' =
   decideFilesystem sample_fs (unicode_lower ne) ''/'' two_lines ''/real/w''"
  using two_lines_readonly by (simp add: decidePermission_def kind_defs two_lines_def)

text \<open>Of several URLs only the first is checked.\<close>

theorem later_urls_unchecked:
  assumes "kind req = PermissionKindURL" "request_path req = None"
  shows "decidePermission ne ev cwd (req\<lparr>possiblePaths := u # us\<rparr>) rt =
    decidePermission ne ev cwd (req\<lparr>possiblePaths := u # us'\<rparr>) rt"
  using assms by (simp add: decidePermission_def kind_defs validateURL_def request_url_def)

section \<open>Instances\<close>

text \<open>A file system without symbolic links or files other than the root and one directory.\<close>

definition plain_fs :: "string \<Rightarrow> eval_result" where
  "plain_fs p =
     (if is_abs p then
        (if elems p = [] then Resolved ''/'' else if elems p = [''w''] then Resolved ''/w'' else NotExist)
      else NotExist)"

lemma plain_fs_coherent: "coherent_fs plain_fs"
proof -
  have fixed: "is_abs ''/''" "elems ''/'' = []" "elems ''/w'' = [''w'']" "is_abs ''/w''" "clean_path ''/''" "clean_path ''/w''"
    by code_simp+
  show ?thesis
    unfolding coherent_fs_def sane_fs_def
    by (auto simp: fixed plain_fs_def elems_abs_path split: if_splits)
qed

lemma normalize_w: "normalizeRootPath plain_fs ''/'' ''/w'' = Inr ''/w''"
  by code_simp

definition read_request :: "string \<Rightarrow> permission_request" where
  "read_request p = \<lparr>kind = PermissionKindRead, request_path = Some p, possiblePaths = [], readOnly = None,
     commands = [], hasWriteFileRedirection = None, fullCommandText = None\<rparr>"

definition sample_net :: net_env where
  "sample_net = \<lparr>parse_url = \<lambda>u. if u = ''https://a'' then Some (''HTTPS'', ''a'') else None,
     parse_ip = \<lambda>h. None, lookup_ip = \<lambda>h. Some [[8, 8, 8, 8]], ip_text = \<lambda>ip. ''8.8.8.8'', unicode_lower = \<lambda>s. s\<rparr>"

theorem approved_paths_confined_witness:
  "approved (decidePermission sample_net plain_fs ''/'' (read_request ''/w/x/../f'') ''/w'') \<and>
   \<not> approved (decidePermission sample_net plain_fs ''/'' (read_request ''../f'') ''/w'') \<and>
   (\<exists>loc. resolveSymlinks plain_fs (absolute_candidate ''/'' (trim_space ''/w/x/../f'') ''/w'') = Inr loc \<and>
      prefix (elems ''/w'') (elems loc))"
proof -
  have ok: "approved (decidePermission sample_net plain_fs ''/'' (read_request ''/w/x/../f'') ''/w'')" by code_simp
  have no: "\<not> approved (decidePermission sample_net plain_fs ''/'' (read_request ''../f'') ''/w'')" by code_simp
  have k: "kind (read_request ''/w/x/../f'') \<in> {PermissionKindRead, PermissionKindShell}" by (simp add: read_request_def)
  have abs: "is_abs ''/''" by code_simp
  have "\<forall>c \<in> set (requestPathCandidates (read_request ''/w/x/../f'')). \<exists>loc.
      resolveSymlinks plain_fs (absolute_candidate ''/'' (trim_space c) ''/w'') = Inr loc \<and> prefix (elems ''/w'') (elems loc)"
    using approved_paths_confined [OF plain_fs_coherent abs normalize_w k ok] by blast
  with ok no show ?thesis by (simp add: requestPathCandidates_def read_request_def)
qed

theorem approved_url_unrestricted_witness:
  "\<exists>ips. lookup_ip sample_net ''a'' = Some ips \<and> ips \<noteq> [] \<and> (\<forall>ip \<in> set ips. \<not> restricted ip)"
proof -
  let ?req = "(read_request ''https://a'')\<lparr>kind := PermissionKindURL\<rparr>"
  have w: "wellformed_net sample_net" by (simp add: wellformed_net_def sample_net_def)
  have ok: "approved (decidePermission sample_net plain_fs ''/'' ?req ''/w'')" by code_simp
  have u: "request_url ?req = ''https://a''" by (simp add: request_url_def read_request_def)
  show ?thesis
    using approved_url_unrestricted [OF w _ ok] by (auto simp: u) (auto simp: sample_net_def)
qed

theorem writer_refused_witness:
  "decidePermission sample_net plain_fs ''/'' (two_lines\<lparr>fullCommandText := Some ''ls |  TEE out''\<rparr>) ''/w'' = Refuse ShellNotReadOnly"
proof (rule writer_refused [of _ "''ls |''" "''  ''" "''TEE''" "'' out''"])
  show "command_position ''ls |''" "white_text ''  ''" "ends_word '' out''"
    "map lower_byte ''TEE'' \<in> {''tee'', ''dd'', ''rsync'', ''mkfifo'', ''mknod'', ''truncate''}"
    by code_simp+
qed (simp_all add: two_lines_def)

end
