(* ===== verification/AcpPermission.thy ===== *)
theory AcpPermission
  imports Permission
begin

text \<open>
  How permission requests of an agent are answered: \<open>providers/acpcore/permissions.go\<close> with the
  handler that \<open>acpcore.go\<close> creates for a session, and the handler and request translation of
  \<open>providers/copilotsdk/copilotsdk.go\<close>. Requests are decoded JSON; a JSON object is the list of
  its members, of which \<open>encoding/json\<close> keeps the last one with a key.
\<close>

section \<open>Decoded JSON\<close>

datatype json = JNull | JBool bool | JNumber rat | JString string | JArray "json list" | JObject "(string \<times> json) list"

definition member :: "(string \<times> json) list \<Rightarrow> string \<Rightarrow> json" where
  "member obj k = (case map_of (rev obj) k of Some v \<Rightarrow> v | None \<Rightarrow> JNull)"

fun as_string :: "json \<Rightarrow> string option" where
  "as_string (JString s) = Some s"
| "as_string _ = None"

fun as_bool :: "json \<Rightarrow> bool option" where
  "as_bool (JBool b) = Some b"
| "as_bool _ = None"

fun as_list :: "json \<Rightarrow> json list option" where
  "as_list (JArray xs) = Some xs"
| "as_list _ = None"

fun as_object :: "json \<Rightarrow> (string \<times> json) list option" where
  "as_object (JObject m) = Some m"
| "as_object _ = None"

text \<open>\<open>s, _ := v.(string)\<close>\<close>

definition string_or_empty :: "json \<Rightarrow> string" where
  "string_or_empty v = (case as_string v of Some s \<Rightarrow> s | None \<Rightarrow> [])"

text \<open>The raw \<open>params\<close> of an envelope: absent, not a JSON object, the literal \<open>null\<close>, an object.\<close>

datatype raw_params = NoParams | MalformedParams | NullParams | Params "(string \<times> json) list"

section \<open>From a request to the analyzer's request\<close>

definition acp_kind :: "string \<Rightarrow> permission_kind" where
  "acp_kind k =
     (if k = ''read'' then PermissionKindRead
      else if k = ''url'' then PermissionKindURL
      else if k = ''shell'' then PermissionKindShell
      else if k = ''mcp'' then PermissionKindMCPTool
      else if k = ''custom_tool'' then PermissionKindCustomTool
      else k)"

fun acp_command :: "json \<Rightarrow> shell_command option" where
  "acp_command (JObject m) =
     Some \<lparr>cmd_identifier = string_or_empty (member m ''identifier''),
           command_readonly = (as_bool (member m ''read_only'') = Some True)\<rparr>"
| "acp_command _ = None"

definition translatePermissionRequest :: "(string \<times> json) list \<Rightarrow> permission_request" where
  "translatePermissionRequest m =
     \<lparr>kind = (case as_string (member m ''kind'') of Some k \<Rightarrow> acp_kind k | None \<Rightarrow> []),
      request_path = as_string (member m ''path''),
      possiblePaths = (case as_list (member m ''possible_paths'') of Some xs \<Rightarrow> List.map_filter as_string xs | None \<Rightarrow> []),
      readOnly = as_bool (member m ''read_only''),
      commands = (case as_list (member m ''commands'') of Some xs \<Rightarrow> List.map_filter acp_command xs | None \<Rightarrow> []),
      hasWriteFileRedirection = as_bool (member m ''has_write_file_redirection''),
      fullCommandText = as_string (member m ''full_command_text'')\<rparr>"

section \<open>Handlers and decisions\<close>

text \<open>
  A handler is what the session closed over: the result of normalising its working directory. The
  transport keeps one per ACP session.
\<close>

type_synonym session_handler = "root_error + string"

datatype refusal = EmptyParams | BadParams | BadWorkingDirectory root_error | Decided reason

definition session_answer ::
    "net_env \<Rightarrow> (string \<Rightarrow> eval_result) \<Rightarrow> string \<Rightarrow> session_handler \<Rightarrow> (string \<times> json) list \<Rightarrow> refusal option" where
  "session_answer ne ev cwd h m =
     (case h of
        Inl e \<Rightarrow> Some (BadWorkingDirectory e)
      | Inr rt \<Rightarrow>
          (case Permission.decidePermission ne ev cwd (translatePermissionRequest m) rt of
             Approve _ \<Rightarrow> None
           | Refuse r \<Rightarrow> Some (Decided r)))"

definition registerPermissionHandler ::
    "string \<Rightarrow> session_handler \<Rightarrow> (string \<rightharpoonup> session_handler) \<Rightarrow> (string \<rightharpoonup> session_handler)" where
  "registerPermissionHandler sid h hs = (if sid = [] then hs else hs(sid \<mapsto> h))"

definition unregisterPermissionHandler ::
    "string \<Rightarrow> (string \<rightharpoonup> session_handler) \<Rightarrow> (string \<rightharpoonup> session_handler)" where
  "unregisterPermissionHandler sid hs = hs(sid := None)"

fun params_of :: "raw_params \<Rightarrow> (string \<times> json) list option" where
  "params_of (Params m) = Some m"
| "params_of _ = None"

definition permissionHandlerFor ::
    "(string \<rightharpoonup> session_handler) \<Rightarrow> (string \<times> json) list option \<Rightarrow> session_handler option" where
  "permissionHandlerFor hs params =
     (case params of
        None \<Rightarrow> None
      | Some m \<Rightarrow>
          let sessionID = string_or_empty (member m ''sessionId'') in
          if sessionID = [] then None else hs sessionID)"

text \<open>The refusal of a request, \<open>None\<close> when it is approved.\<close>

definition acp_decide ::
    "net_env \<Rightarrow> (string \<Rightarrow> eval_result) \<Rightarrow> string \<Rightarrow> session_handler option \<Rightarrow> raw_params \<Rightarrow> refusal option" where
  "acp_decide ne ev cwd handler raw =
     (case raw of
        NoParams \<Rightarrow> Some EmptyParams
      | MalformedParams \<Rightarrow> Some BadParams
      | _ \<Rightarrow>
          (case handler of
             None \<Rightarrow> None
           | Some h \<Rightarrow> session_answer ne ev cwd h (case params_of raw of Some m \<Rightarrow> m | None \<Rightarrow> [])))"

section \<open>The answer\<close>

definition allow_kinds :: "string list" where "allow_kinds = [''allow_once'', ''allow_always'']"
definition reject_kinds :: "string list" where "reject_kinds = [''reject_once'', ''reject_always'']"

text \<open>The options of a request that can be selected, with identifier and kind.\<close>

fun option_entry :: "json \<Rightarrow> (string \<times> string) option" where
  "option_entry (JObject m) =
     (let oid = string_or_empty (member m ''optionId'') in
      if oid = [] then None else Some (oid, string_or_empty (member m ''kind'')))"
| "option_entry _ = None"

fun select_loop :: "string list \<Rightarrow> string \<Rightarrow> json list \<Rightarrow> string" where
  "select_loop wantKinds fallback [] = fallback"
| "select_loop wantKinds fallback (raw # rs) =
     (case option_entry raw of
        None \<Rightarrow> select_loop wantKinds fallback rs
      | Some (oid, k) \<Rightarrow>
          let fallback' = (if fallback = [] then oid else fallback) in
          if k \<in> set wantKinds then oid else select_loop wantKinds fallback' rs)"

definition selectPermissionOptionID :: "(string \<times> json) list option \<Rightarrow> bool \<Rightarrow> string" where
  "selectPermissionOptionID params ok =
     (let rawOpts = (case params of None \<Rightarrow> [] | Some m \<Rightarrow> (case as_list (member m ''options'') of Some xs \<Rightarrow> xs | None \<Rightarrow> []))
      in select_loop (if ok then allow_kinds else reject_kinds) [] rawOpts)"

datatype outcome = Selected string | Cancelled

text \<open>The response sent for a request: the outcome and the refusal from which \<open>_meta.reason\<close> is made.\<close>

definition handlePermissionRequest ::
    "net_env \<Rightarrow> (string \<Rightarrow> eval_result) \<Rightarrow> string \<Rightarrow> (string \<rightharpoonup> session_handler) \<Rightarrow> raw_params \<Rightarrow>
     outcome \<times> refusal option" where
  "handlePermissionRequest ne ev cwd hs raw =
     (let params = params_of raw;
          refused = acp_decide ne ev cwd (permissionHandlerFor hs params) raw;
          optionID = selectPermissionOptionID params (refused = None)
      in (if optionID \<noteq> [] then Selected optionID else Cancelled, refused))"

section \<open>Copilot's requests\<close>

text \<open>The variants of \<open>rpc.PermissionRequest\<close> with the fields the translation reads.\<close>

datatype copilot_request =
    CopilotRead string
  | CopilotShell string "string list" bool "shell_command list"
  | CopilotURL string
  | CopilotMCP bool
  | CopilotCustomTool
  | CopilotOther string

definition empty_request :: "permission_kind \<Rightarrow> permission_request" where
  "empty_request k = \<lparr>kind = k, request_path = None, possiblePaths = [], readOnly = None, commands = [],
     hasWriteFileRedirection = None, fullCommandText = None\<rparr>"

fun translateCopilotRequest :: "copilot_request \<Rightarrow> permission_request" where
  "translateCopilotRequest (CopilotRead p) = (empty_request PermissionKindRead)\<lparr>request_path := Some p\<rparr>"
| "translateCopilotRequest (CopilotShell t ps redir cs) =
     (empty_request PermissionKindShell)\<lparr>fullCommandText := Some t, possiblePaths := ps,
        hasWriteFileRedirection := Some redir, commands := cs\<rparr>"
| "translateCopilotRequest (CopilotURL u) = (empty_request PermissionKindURL)\<lparr>request_path := Some u\<rparr>"
| "translateCopilotRequest (CopilotMCP ro) = (empty_request PermissionKindMCPTool)\<lparr>readOnly := Some ro\<rparr>"
| "translateCopilotRequest CopilotCustomTool = empty_request PermissionKindCustomTool"
| "translateCopilotRequest (CopilotOther k) = empty_request k"

datatype copilot_answer = NoResult | Approved | Rejected refusal

definition buildPermissionHandler ::
    "net_env \<Rightarrow> (string \<Rightarrow> eval_result) \<Rightarrow> string \<Rightarrow> string \<Rightarrow> bool \<Rightarrow> copilot_request \<Rightarrow> copilot_answer" where
  "buildPermissionHandler ne ev cwd workingDirectory managed request =
     (if managed then NoResult
      else case normalizeRootPath ev cwd workingDirectory of
        Inl e \<Rightarrow> Rejected (BadWorkingDirectory e)
      | Inr rt \<Rightarrow>
          (case Permission.decidePermission ne ev cwd (translateCopilotRequest request) rt of
             Approve _ \<Rightarrow> Approved
           | Refuse r \<Rightarrow> Rejected (Decided r)))"

section \<open>Which option is selected\<close>

text \<open>The options of a request that have an identifier.\<close>

definition offered :: "(string \<times> json) list \<Rightarrow> (string \<times> string) list" where
  "offered m = (case as_list (member m ''options'') of Some xs \<Rightarrow> List.map_filter option_entry xs | None \<Rightarrow> [])"

lemma map_filter_Cons:
  "List.map_filter f (x # xs) = (case f x of Some y \<Rightarrow> y # List.map_filter f xs | None \<Rightarrow> List.map_filter f xs)"
  by (simp add: List.map_filter_def split: option.splits)

lemma option_entry_id: "option_entry raw = Some (oid, k) \<Longrightarrow> oid \<noteq> []"
  by (cases raw) (auto simp: Let_def split: if_splits)

lemma select_loop_spec:
  "select_loop want fallback rs =
   (case find (\<lambda>(oid, k). k \<in> set want) (List.map_filter option_entry rs) of
      Some (oid, k) \<Rightarrow> oid
    | None \<Rightarrow> if fallback \<noteq> [] then fallback else (case List.map_filter option_entry rs of [] \<Rightarrow> [] | (oid, k) # _ \<Rightarrow> oid))"
  by (induction want fallback rs rule: select_loop.induct)
     (auto simp: map_filter_Cons Let_def dest: option_entry_id split: option.splits list.splits prod.splits)

lemma select_offered:
  "selectPermissionOptionID (Some m) ok =
   (case find (\<lambda>(oid, k). k \<in> set (if ok then allow_kinds else reject_kinds)) (offered m) of
      Some (oid, k) \<Rightarrow> oid
    | None \<Rightarrow> (case offered m of [] \<Rightarrow> [] | (oid, k) # _ \<Rightarrow> oid))"
  by (auto simp: selectPermissionOptionID_def select_loop_spec offered_def List.map_filter_def split: option.splits)

lemma offered_id: "(oid, k) \<in> set (offered m) \<Longrightarrow> oid \<noteq> []"
  by (auto simp: offered_def List.map_filter_def dest: option_entry_id split: option.splits)

lemma refused_selects_reject:
  assumes "(i, k) \<in> set (offered m)" "k \<in> set reject_kinds"
  shows "\<exists>oid k'. selectPermissionOptionID (Some m) False = oid \<and> oid \<noteq> [] \<and> (oid, k') \<in> set (offered m) \<and> k' \<in> set reject_kinds"
proof -
  obtain oid k' where f: "find (\<lambda>(oid, k). k \<in> set reject_kinds) (offered m) = Some (oid, k')"
    using assms find_Some_iff_ex [of "\<lambda>(oid, k). k \<in> set reject_kinds" "offered m"] by fastforce
  then have "(oid, k') \<in> set (offered m)" "k' \<in> set reject_kinds"
    using find_Some_split by fastforce+
  then show ?thesis using f offered_id by (auto simp: select_offered)
qed

section \<open>Answers to an agent\<close>

lemma registered_answer:
  assumes "string_or_empty (member m ''sessionId'') = sid" "sid \<noteq> []" "hs sid = Some h"
  shows "handlePermissionRequest ne ev cwd hs (Params m) =
    (let refused = session_answer ne ev cwd h m; oid = selectPermissionOptionID (Some m) (refused = None)
     in (if oid \<noteq> [] then Selected oid else Cancelled, refused))"
  using assms by (simp add: handlePermissionRequest_def permissionHandlerFor_def acp_decide_def Let_def)

lemma session_answer_None:
  "session_answer ne ev cwd (Inr rt) m = None \<longleftrightarrow>
   approved (Permission.decidePermission ne ev cwd (translatePermissionRequest m) rt)"
  by (simp add: session_answer_def approved_def split: decision.splits)

text \<open>C11: An agent that offers a way to say no cannot read outside the project: for a session whose handler is
  registered, the answer to a read or shell request with a rejecting option either selects a
  rejecting option, or every path that the request names resolves to a location at or below the
  project root.\<close>
theorem acp_answer_confined:
  assumes "coherent_fs ev" "is_abs cwd" "normalizeRootPath ev cwd dir = Inr rt"
    and "hs = registerPermissionHandler sid (Inr rt) hs0" "sid \<noteq> []" "string_or_empty (member m ''sessionId'') = sid"
    and "(i, k) \<in> set (offered m)" "k \<in> set reject_kinds"
    and "kind (translatePermissionRequest m) \<in> {PermissionKindRead, PermissionKindShell}"
  shows "(\<exists>oid k'. fst (handlePermissionRequest ne ev cwd hs (Params m)) = Selected oid \<and>
      (oid, k') \<in> set (offered m) \<and> k' \<in> set reject_kinds) \<or>
    (\<forall>c \<in> set (requestPathCandidates (translatePermissionRequest m)). confined ev cwd rt c)"
proof (cases "session_answer ne ev cwd (Inr rt) m")
  case None
  then show ?thesis using approved_confined [OF assms(1-3,9)] by (auto simp: session_answer_None)
next
  case (Some r)
  have h: "hs sid = Some (Inr rt)" using assms(4,5) by (simp add: registerPermissionHandler_def)
  obtain oid k' where "selectPermissionOptionID (Some m) False = oid" "oid \<noteq> []" "(oid, k') \<in> set (offered m)" "k' \<in> set reject_kinds"
    using refused_selects_reject [OF assms(7,8)] by blast
  moreover from this Some have "fst (handlePermissionRequest ne ev cwd hs (Params m)) = Selected oid"
    using registered_answer [of m sid hs "Inr rt", OF assms(6,5) h] by (simp add: Let_def)
  ultimately show ?thesis by blast
qed

text \<open>The first of a copilot handler's obligations: a request that managed policy reserves for the
  user is never answered, and an approved one is confined.\<close>
theorem copilot_approved_confined:
  assumes "coherent_fs ev" "is_abs cwd" "buildPermissionHandler ne ev cwd dir managed request = Approved"
    and "kind (translateCopilotRequest request) \<in> {PermissionKindRead, PermissionKindShell}"
  shows "\<not> managed \<and> (\<exists>rt. normalizeRootPath ev cwd dir = Inr rt \<and>
    (\<forall>c \<in> set (requestPathCandidates (translateCopilotRequest request)). confined ev cwd rt c))"
proof -
  obtain rt where rt: "\<not> managed" "normalizeRootPath ev cwd dir = Inr rt"
      "approved (Permission.decidePermission ne ev cwd (translateCopilotRequest request) rt)"
    using assms(3) by (auto simp: buildPermissionHandler_def approved_def split: if_splits sum.splits decision.splits)
  then show ?thesis using approved_confined [OF assms(1,2) rt(2) assms(4) rt(3)] by blast
qed

section \<open>Answers that grant what was refused\<close>

definition outside_read :: "string \<Rightarrow> string list \<Rightarrow> (string \<times> json) list" where
  "outside_read sid kinds =
     [(''sessionId'', JString sid), (''kind'', JString ''read''), (''path'', JString ''/etc/shadow''),
      (''options'', JArray (map (\<lambda>k. JObject [(''optionId'', JString (''o-'' @ k)), (''kind'', JString k)]) kinds))]"

definition session_table :: "string \<rightharpoonup> session_handler" where
  "session_table = registerPermissionHandler ''s1'' (Inr ''/w'') (\<lambda>_. None)"

text \<open>A refused request for which the agent offers approving options only is answered by approving.\<close>

theorem refused_but_allowed:
  "handlePermissionRequest sample_net plain_fs ''/'' session_table (Params (outside_read ''s1'' [''allow_once''])) =
   (Selected ''o-allow_once'', Some (Decided (OutsideRoot ''/etc/shadow'' ''/etc/shadow'')))"
  by code_simp

text \<open>A request that names no registered session is approved without any check.\<close>

theorem unregistered_session_approved:
  assumes "hs (string_or_empty (member m ''sessionId'')) = None \<or> string_or_empty (member m ''sessionId'') = []"
  shows "snd (handlePermissionRequest ne ev cwd hs (Params m)) = None"
  using assms by (auto simp: handlePermissionRequest_def permissionHandlerFor_def acp_decide_def Let_def)

theorem unregistered_session_approved_witness:
  "fst (handlePermissionRequest sample_net plain_fs ''/'' session_table
     (Params (outside_read ''s2'' [''reject_once'', ''allow_once'']))) = Selected ''o-allow_once''"
  by code_simp

theorem acp_answer_confined_witness:
  "fst (handlePermissionRequest sample_net plain_fs ''/'' session_table
     (Params (outside_read ''s1'' [''allow_once'', ''reject_once'']))) = Selected ''o-reject_once''"
proof -
  let ?m = "outside_read ''s1'' [''allow_once'', ''reject_once'']"
  have facts: "is_abs ''/''" "''s1'' \<noteq> []" "string_or_empty (member ?m ''sessionId'') = ''s1''"
    "(''o-reject_once'', ''reject_once'') \<in> set (offered ?m)" "''reject_once'' \<in> set reject_kinds"
    "kind (translatePermissionRequest ?m) \<in> {PermissionKindRead, PermissionKindShell}"
    "requestPathCandidates (translatePermissionRequest ?m) = [''/etc/shadow'']"
    "offered ?m = [(''o-allow_once'', ''allow_once''), (''o-reject_once'', ''reject_once'')]"
    by code_simp+
  have "resolveSymlinks plain_fs (absolute_candidate ''/'' (trim_space ''/etc/shadow'') ''/w'') = Inr ''/etc/shadow''"
    "\<not> prefix (elems ''/w'') (elems ''/etc/shadow'')" by code_simp+
  then have "\<not> confined plain_fs ''/'' ''/w'' ''/etc/shadow''" by (simp add: confined_def)
  then show ?thesis
    using acp_answer_confined [OF plain_fs_coherent facts(1) normalize_w session_table_def facts(2-6)] facts(7,8)
    by (auto simp: reject_kinds_def)
qed

end
