(* ===== verification/Findings.thy ===== *)
theory Findings
  imports LineScan PathScope Prelude
begin

text \<open>
  Findings as the model reports them: the wire format, its validation and the recorder of
  \<open>internal/mcpserver/validation.go\<close> with the tool handler of \<open>server.go\<close>. The JSON codec of one
  finding, the write failures and the Unicode part of \<open>strings.ToLower\<close> are parameters. The mutex
  of the recorder is the atomicity of a step.
\<close>

section \<open>Data\<close>

record apply_input =
  ap_target :: string
  ap_strategy :: string
  ap_anchor :: string
  ap_snippet :: string

record guardrail_input =
  g_kind :: string
  g_tool :: string
  g_rule :: string
  g_config :: string
  g_apply :: "apply_input option"

record evidence_input =
  ev_path :: string
  ev_lines :: string
  ev_symbol :: string

record finding_input =
  in_category :: string
  in_mistake :: string
  in_guardrail :: guardrail_input
  in_evidence :: "evidence_input list"
  in_confidence :: float64

section \<open>Normalisation and validation\<close>

definition trim_apply :: "apply_input \<Rightarrow> apply_input" where
  "trim_apply a = \<lparr>ap_target = trim_space (ap_target a), ap_strategy = trim_space (ap_strategy a),
     ap_anchor = trim_space (ap_anchor a), ap_snippet = trim_space (ap_snippet a)\<rparr>"

definition trim_evidence :: "evidence_input \<Rightarrow> evidence_input" where
  "trim_evidence e = \<lparr>ev_path = trim_space (ev_path e), ev_lines = trim_space (ev_lines e),
     ev_symbol = trim_space (ev_symbol e)\<rparr>"

definition trim_guardrail :: "guardrail_input \<Rightarrow> guardrail_input" where
  "trim_guardrail g = \<lparr>g_kind = trim_space (g_kind g), g_tool = trim_space (g_tool g), g_rule = trim_space (g_rule g),
     g_config = trim_space (g_config g), g_apply = map_option trim_apply (g_apply g)\<rparr>"

definition normalizeFinding :: "(string \<Rightarrow> string) \<Rightarrow> finding_input \<Rightarrow> finding_input" where
  "normalizeFinding ul f =
     \<lparr>in_category = to_lower ul (trim_space (in_category f)), in_mistake = trim_space (in_mistake f),
      in_guardrail = trim_guardrail (in_guardrail f), in_evidence = map trim_evidence (in_evidence f),
      in_confidence = in_confidence f\<rparr>"

definition maxMistakeLen :: nat where "maxMistakeLen = 1024"
definition maxConfigSnippetLen :: nat where "maxConfigSnippetLen = 8 * 1024"
definition maxApplySnippetLen :: nat where "maxApplySnippetLen = 8 * 1024"
definition maxEvidenceEntries :: nat where "maxEvidenceEntries = 32"
definition maxEvidenceFieldLen :: nat where "maxEvidenceFieldLen = 512"

definition builtin_categories :: "string list" where
  "builtin_categories = [''lint-rule'', ''test'', ''ci-check'', ''doc'', ''config'', ''refactor-boundary'']"

definition registerCategory :: "(string \<Rightarrow> string) \<Rightarrow> string \<Rightarrow> string list \<Rightarrow> string list" where
  "registerCategory ul c valid = List.insert (to_lower ul (trim_space c)) valid"

datatype validation_error =
    NoCategory | InvalidCategory string | NoMistake | MistakeTooLong | BadConfidence
  | NoKind | NoTool | NoRule | ConfigTooLong | SnippetTooLong | TooMuchEvidence nat | EvidenceTooLong nat

definition evidence_too_long :: "evidence_input \<Rightarrow> bool" where
  "evidence_too_long e \<longleftrightarrow>
     rune_count (ev_path e) > maxEvidenceFieldLen \<or> rune_count (ev_lines e) > maxEvidenceFieldLen \<or>
     rune_count (ev_symbol e) > maxEvidenceFieldLen"

fun check_evidence :: "nat \<Rightarrow> evidence_input list \<Rightarrow> validation_error option" where
  "check_evidence i [] = None"
| "check_evidence i (e # es) = (if evidence_too_long e then Some (EvidenceTooLong i) else check_evidence (Suc i) es)"

definition validateFinding :: "string list \<Rightarrow> finding_input \<Rightarrow> validation_error option" where
  "validateFinding valid f =
     (let g = in_guardrail f; c = in_confidence f in
      if in_category f = [] then Some NoCategory
      else if in_category f \<notin> set valid then Some (InvalidCategory (in_category f))
      else if in_mistake f = [] then Some NoMistake
      else if rune_count (in_mistake f) > maxMistakeLen then Some MistakeTooLong
      else if c = NaN \<or> (case c of Infinite _ \<Rightarrow> True | _ \<Rightarrow> False) \<or> float_less c (Finite 0) \<or> float_less (Finite 1) c then Some BadConfidence
      else if g_kind g = [] then Some NoKind
      else if g_tool g = [] then Some NoTool
      else if g_rule g = [] then Some NoRule
      else if rune_count (g_config g) > maxConfigSnippetLen then Some ConfigTooLong
      else if (case g_apply g of Some a \<Rightarrow> rune_count (ap_snippet a) > maxApplySnippetLen | None \<Rightarrow> False) then Some SnippetTooLong
      else if length (in_evidence f) > maxEvidenceEntries then Some (TooMuchEvidence (length (in_evidence f)))
      else check_evidence 0 (in_evidence f))"

section \<open>The recorder\<close>

datatype output_path_error = NotAbsolute | TempDirUnresolved | PathUnresolved | OutsideTemp string

definition validateOutputPath :: "(string \<Rightarrow> eval_result) \<Rightarrow> string \<Rightarrow> string \<Rightarrow> string \<Rightarrow> output_path_error option" where
  "validateOutputPath ev cwd tempDir path =
     (if \<not> is_abs path then Some NotAbsolute
      else case ev tempDir of
        Resolved t \<Rightarrow>
          (case resolveSymlinks ev (clean path) of
             Inl _ \<Rightarrow> Some PathUnresolved
           | Inr resolved \<Rightarrow>
               if \<not> pathWithinRoot ev cwd resolved (clean t) then Some (OutsideTemp resolved) else None)
      | _ \<Rightarrow> Some TempDirUnresolved)"

text \<open>
  The recorder and the text of its file. \<open>sanitize\<close> is the hook between validation and writing,
  \<open>enc\<close> is \<open>json.Marshal\<close>; a write delivers all bytes of the line or fails after some of them.
\<close>

record recorder =
  rec_open :: bool
  rec_count :: nat
  rec_text :: string

datatype record_error = Invalid validation_error | RecorderClosed | MarshalFailed | WriteFailed

definition new_recorder :: "string \<Rightarrow> recorder" where
  "new_recorder existing = \<lparr>rec_open = True, rec_count = 0, rec_text = existing\<rparr>"

definition close_recorder :: "recorder \<Rightarrow> recorder" where
  "close_recorder rc = rc\<lparr>rec_open := False\<rparr>"

definition write_line :: "string \<Rightarrow> nat option \<Rightarrow> recorder \<Rightarrow> (record_error + nat) \<times> recorder" where
  "write_line line torn rc =
     (case torn of
        Some n \<Rightarrow> (Inl WriteFailed, rc\<lparr>rec_text := rec_text rc @ take n (line @ [newline])\<rparr>)
      | None \<Rightarrow>
          (Inr (rec_count rc + 1),
           rc\<lparr>rec_text := rec_text rc @ line @ [newline], rec_count := rec_count rc + 1\<rparr>))"

definition record_finding ::
    "(string \<Rightarrow> string) \<Rightarrow> string list \<Rightarrow> (finding_input \<Rightarrow> finding_input) option \<Rightarrow> (finding_input \<Rightarrow> string option) \<Rightarrow>
     nat option \<Rightarrow> finding_input \<Rightarrow> recorder \<Rightarrow> (record_error + nat) \<times> recorder" where
  "record_finding ul valid sanitize enc torn input rc =
     (let f = normalizeFinding ul input in
      case validateFinding valid f of
        Some e \<Rightarrow> (Inl (Invalid e), rc)
      | None \<Rightarrow>
          if \<not> rec_open rc then (Inl RecorderClosed, rc)
          else
            let f' = (case sanitize of Some s \<Rightarrow> s f | None \<Rightarrow> f) in
            case enc f' of
              None \<Rightarrow> (Inl MarshalFailed, rc)
            | Some line \<Rightarrow> write_line line torn rc)"

text \<open>The tool handler: a validation error goes to the model in the result, another error is a
  protocol error.\<close>

datatype tool_result = ToolOk nat | ToolRejected validation_error | ToolFault record_error

definition tool_record :: "record_error + nat \<Rightarrow> tool_result" where
  "tool_record r = (case r of Inr n \<Rightarrow> ToolOk n | Inl (Invalid e) \<Rightarrow> ToolRejected e | Inl e \<Rightarrow> ToolFault e)"

definition maxFindingLine :: nat where "maxFindingLine = 1024 * 1024"

datatype read_error = LineTooLong | BadFinding

fun parse_findings :: "(string \<Rightarrow> finding_input option) \<Rightarrow> string list \<Rightarrow> read_error + finding_input list" where
  "parse_findings dec [] = Inr []"
| "parse_findings dec (l # ls) =
     (let t = trim_space l in
      if t = [] then parse_findings dec ls
      else case dec t of
        None \<Rightarrow> Inl BadFinding
      | Some f \<Rightarrow> and_then (parse_findings dec ls) (\<lambda>fs. Inr (f # fs)))"

text \<open>The lines before one that is too long have been parsed when the scan ends.\<close>

definition lines_before :: "nat \<Rightarrow> string \<Rightarrow> string list" where
  "lines_before cap s = map drop_cr (takeWhile (\<lambda>l. length l < cap) (raw_lines s))"

definition readFindings :: "(string \<Rightarrow> finding_input option) \<Rightarrow> string \<Rightarrow> read_error + finding_input list" where
  "readFindings dec s =
     and_then (parse_findings dec (lines_before maxFindingLine s))
       (\<lambda>fs. if lines_within maxFindingLine s = None then Inl LineTooLong else Inr fs)"

text \<open>An absent file holds no findings.\<close>

definition readFindingsJSONL :: "(string \<Rightarrow> finding_input option) \<Rightarrow> string option \<Rightarrow> read_error + finding_input list" where
  "readFindingsJSONL dec content = (case content of None \<Rightarrow> Inr [] | Some s \<Rightarrow> readFindings dec s)"

section \<open>What is recorded can be read\<close>

definition codec_ok :: "(finding_input \<Rightarrow> string option) \<Rightarrow> (string \<Rightarrow> finding_input option) \<Rightarrow> finding_input \<Rightarrow> bool" where
  "codec_ok enc dec f \<longleftrightarrow>
     (case enc f of
        None \<Rightarrow> False
      | Some l \<Rightarrow> dec l = Some f \<and> newline \<notin> set l \<and> l \<noteq> [] \<and> hd l = CHR ''{'' \<and> last l = CHR ''}'')"

lemma codec_okE:
  assumes "codec_ok enc dec f"
  obtains l where "enc f = Some l" "dec l = Some f" "newline \<notin> set l" "trim_space l = l" "l \<noteq> []" "drop_cr l = l"
proof -
  obtain l where l: "enc f = Some l" "dec l = Some f" "newline \<notin> set l" "l \<noteq> []" "hd l = CHR ''{''" "last l = CHR ''}''"
    using assms by (auto simp: codec_ok_def split: option.splits)
  moreover have "trim_space l = l" using l by (intro trim_space_solid) (simp_all add: solid_def)
  moreover have "drop_cr l = l" using l by (simp add: drop_cr_def)
  ultimately show ?thesis using that by blast
qed

text \<open>A run of the recorder: what is accepted of a list of inputs, and the recorder after it.\<close>

definition accepted :: "(string \<Rightarrow> string) \<Rightarrow> string list \<Rightarrow> finding_input list \<Rightarrow> finding_input list" where
  "accepted ul valid fs = filter (\<lambda>f. validateFinding valid f = None) (map (normalizeFinding ul) fs)"

definition record_all ::
    "(string \<Rightarrow> string) \<Rightarrow> string list \<Rightarrow> (finding_input \<Rightarrow> string option) \<Rightarrow> finding_input list \<Rightarrow> recorder \<Rightarrow> recorder" where
  "record_all ul valid enc fs rc = fold (\<lambda>f rc. snd (record_finding ul valid None enc None f rc)) fs rc"

definition written :: "(finding_input \<Rightarrow> string option) \<Rightarrow> finding_input list \<Rightarrow> string" where
  "written enc fs = lines_text (List.map_filter enc fs)"

lemma map_filter_enc: "list_all (codec_ok enc dec) fs \<Longrightarrow> List.map_filter enc (fs @ gs) = List.map_filter enc fs @ List.map_filter enc gs"
  by (simp add: List.map_filter_def)

lemma record_all_written:
  assumes "rec_open rc" "list_all (codec_ok enc dec) (accepted ul valid fs)"
  shows "rec_text (record_all ul valid enc fs rc) = rec_text rc @ written enc (accepted ul valid fs) \<and>
    rec_count (record_all ul valid enc fs rc) = rec_count rc + length (accepted ul valid fs)"
  using assms
proof (induction fs arbitrary: rc)
  case Nil
  then show ?case by (simp add: record_all_def accepted_def written_def lines_text_def List.map_filter_def)
next
  case (Cons f fs)
  let ?n = "normalizeFinding ul f" and ?rc = "snd (record_finding ul valid None enc None f rc)"
  have all: "record_all ul valid enc (f # fs) rc = record_all ul valid enc fs ?rc" by (simp add: record_all_def)
  show ?case
  proof (cases "validateFinding valid ?n")
    case None
    then have acc: "accepted ul valid (f # fs) = ?n # accepted ul valid fs" by (simp add: accepted_def)
    then obtain l where l: "enc ?n = Some l" using Cons.prems(2) by (auto elim: codec_okE)
    then have "?rc = rc\<lparr>rec_text := rec_text rc @ l @ [newline], rec_count := rec_count rc + 1\<rparr>"
      using None Cons.prems(1) by (simp add: record_finding_def write_line_def)
    then show ?thesis
      using Cons.IH [of ?rc] Cons.prems acc l by (simp add: all written_def lines_text_def List.map_filter_simps)
  next
    case (Some e)
    then have "?rc = rc" "accepted ul valid (f # fs) = accepted ul valid fs"
      by (simp_all add: record_finding_def accepted_def)
    then show ?thesis using Cons by (simp add: all)
  qed
qed

lemma lines_before_short:
  assumes "raw_lines s = ls @ long" "\<forall>l \<in> set ls. length l < cap \<and> drop_cr l = l"
    and "long = [] \<or> cap \<le> length (hd long)"
  shows "lines_before cap s = ls"
proof -
  have "takeWhile (\<lambda>l. length l < cap) (ls @ long) = ls @ takeWhile (\<lambda>l. length l < cap) long"
    using assms(2) by (simp add: takeWhile_append2)
  moreover have "takeWhile (\<lambda>l. length l < cap) long = []" using assms(3) by (cases long) auto
  ultimately show ?thesis using assms(1,2) by (simp add: lines_before_def map_idI)
qed

lemma written_lines:
  assumes "list_all (codec_ok enc dec) fs" "\<forall>l \<in> set (List.map_filter enc fs). length l < maxFindingLine"
  shows "readFindings dec (written enc fs) = Inr fs"
proof -
  have ls: "\<forall>l \<in> set (List.map_filter enc fs). newline \<notin> set l \<and> length l < maxFindingLine \<and> drop_cr l = l"
    using assms by (auto simp: list_all_iff List.map_filter_def elim!: codec_okE)
  have scan: "lines_within maxFindingLine (written enc fs) = Some (List.map_filter enc fs)"
    unfolding written_def by (rule lines_within_text [OF ls])
  have "raw_lines (written enc fs) = List.map_filter enc fs"
    using ls raw_lines_text [of "List.map_filter enc fs" "[]"] by (simp add: written_def raw_lines_single)
  then have "lines_before maxFindingLine (written enc fs) = List.map_filter enc fs"
    using ls by (intro lines_before_short [where long = "[]"]) simp_all
  moreover have "parse_findings dec (List.map_filter enc fs) = Inr fs"
    using assms(1) by (induction fs) (auto simp: List.map_filter_simps elim!: codec_okE)
  ultimately show ?thesis by (simp add: readFindings_def scan)
qed

text \<open>One accepted finding whose line does not fit makes every finding of the run unreadable.\<close>

theorem oversize_finding_blocks_read:
  assumes "list_all (codec_ok enc dec) fs" "\<forall>l \<in> set (List.map_filter enc fs). length l < maxFindingLine"
    and "newline \<notin> set l" "maxFindingLine \<le> length l"
  shows "readFindings dec (written enc fs @ l @ newline # later) = Inl LineTooLong"
proof -
  let ?ls = "List.map_filter enc fs"
  have nl: "\<forall>x \<in> set ?ls. newline \<notin> set x \<and> drop_cr x = x"
    using assms(1) by (auto simp: list_all_iff List.map_filter_def elim!: codec_okE)
  have raw: "raw_lines (written enc fs @ l @ newline # later) = ?ls @ l # raw_lines later"
    using raw_lines_text [of ?ls "l @ newline # later"] nl assms(3) by (simp add: written_def raw_lines_append)
  then have "lines_before maxFindingLine (written enc fs @ l @ newline # later) = ?ls"
    using assms(2,4) nl by (intro lines_before_short [OF raw]) simp_all
  moreover have "parse_findings dec ?ls = Inr fs"
    using assms(1) by (induction fs) (auto simp: List.map_filter_simps elim!: codec_okE)
  moreover have "lines_within maxFindingLine (written enc fs @ l @ newline # later) = None"
    using assms(4) by (simp add: lines_within_def raw)
  ultimately show ?thesis by (simp add: readFindings_def)
qed

text \<open>So the file is readable exactly when every line fits.\<close>

lemma written_read:
  assumes "list_all (codec_ok enc dec) fs"
  shows "readFindings dec (written enc fs) =
    (if \<forall>l \<in> set (List.map_filter enc fs). length l < maxFindingLine then Inr fs else Inl LineTooLong)"
proof (cases "\<forall>l \<in> set (List.map_filter enc fs). length l < maxFindingLine")
  case True
  then show ?thesis using written_lines [OF assms] by simp
next
  case False
  define long where "long f = (case enc f of Some l \<Rightarrow> maxFindingLine \<le> length l | None \<Rightarrow> False)" for f
  have "\<exists>f \<in> set fs. long f"
    using False by (fastforce simp: List.map_filter_def long_def)
  then obtain as f bs where fs: "fs = as @ f # bs" "long f" "\<forall>a \<in> set as. \<not> long a"
    by (metis split_list_first_prop)
  obtain l where l: "enc f = Some l" "newline \<notin> set l" "maxFindingLine \<le> length l"
    using fs assms by (auto simp: long_def elim: codec_okE split: option.splits)
  have "written enc fs = written enc as @ l @ newline # written enc bs"
    using l(1) by (simp add: written_def lines_text_def fs(1) List.map_filter_def)
  moreover have "\<forall>l \<in> set (List.map_filter enc as). length l < maxFindingLine"
    using fs(3) by (auto simp: long_def List.map_filter_def)
  ultimately have "readFindings dec (written enc fs) = Inl LineTooLong"
    using oversize_finding_blocks_read [of enc dec as l "written enc bs"] assms fs(1) l(2,3) by simp
  then show ?thesis using False by simp
qed

text \<open>C13: Whatever inputs a model sends to a recorder that has no sanitizer and whose writes succeed, the file read back
  after the run holds exactly the accepted ones, normalised and in order, if the line of each is shorter than 1 MiB, and
  otherwise cannot be read at all. Every accepted one passes validation; the recorder reports their
  number. The encoder writes an accepted finding as a one-line object that decodes to it.\<close>
theorem recorded_findings_read_back:
  assumes "list_all (codec_ok enc dec) (accepted ul valid fs)"
  shows "readFindingsJSONL dec (Some (rec_text (record_all ul valid enc fs (new_recorder [])))) =
      (if \<forall>l \<in> set (List.map_filter enc (accepted ul valid fs)). length l < maxFindingLine
       then Inr (accepted ul valid fs) else Inl LineTooLong) \<and>
    (\<forall>f \<in> set (accepted ul valid fs). validateFinding valid f = None) \<and>
    rec_count (record_all ul valid enc fs (new_recorder [])) = length (accepted ul valid fs)"
proof -
  have "rec_text (record_all ul valid enc fs (new_recorder [])) = written enc (accepted ul valid fs)"
    "rec_count (record_all ul valid enc fs (new_recorder [])) = length (accepted ul valid fs)"
    using record_all_written [of "new_recorder []", OF _ assms] by (simp_all add: new_recorder_def)
  then show ?thesis
    using written_read [OF assms] by (simp add: readFindingsJSONL_def accepted_def)
qed

section \<open>Where findings are written\<close>

text \<open>A path accepted for the findings file resolves to a location at or below the resolved temporary
  directory, element by element, whatever symbolic links it goes through.\<close>
theorem output_path_contained:
  assumes "coherent_fs ev" "is_abs cwd" "is_abs tempDir" "validateOutputPath ev cwd tempDir path = None"
  shows "\<exists>t loc. ev tempDir = Resolved t \<and> resolveSymlinks ev (clean path) = Inr loc \<and> prefix (elems t) (elems loc)"
proof -
  obtain t loc where t: "ev tempDir = Resolved t" "resolveSymlinks ev (clean path) = Inr loc"
      "pathWithinRoot ev cwd loc (clean t)" "is_abs path"
    using assms(4) by (auto simp: validateOutputPath_def split: if_splits eval_result.splits sum.splits)
  have "clean_path t" "resolveSymlinks ev t = Inr t" using resolved_is_located [OF assms(1,3) t(1)] by simp_all
  moreover have "clean_path loc" "resolveSymlinks ev loc = Inr loc"
    using resolveSymlinks_idem [OF assms(1) elems_plain] t(2,4) clean_abs by metis+
  ultimately have "prefix (elems t) (elems loc)"
    using within_located [OF assms(1,2)] t(3) clean_path_facts [of t] by simp
  then show ?thesis using t(1,2) by blast
qed

section \<open>Instances\<close>

definition sample_input :: finding_input where
  "sample_input = \<lparr>in_category = '' Doc'', in_mistake = ''m '',
     in_guardrail = \<lparr>g_kind = ''doc'', g_tool = ''t'', g_rule = ''r'', g_config = [], g_apply = None\<rparr>,
     in_evidence = [], in_confidence = Finite 1\<rparr>"

definition sample_recorded :: finding_input where
  "sample_recorded = sample_input\<lparr>in_category := ''doc'', in_mistake := ''m''\<rparr>"

definition sample_marshal :: "finding_input \<Rightarrow> string option" where
  "sample_marshal f = Some (''{'' @ in_mistake f @ ''}'')"

definition sample_unmarshal :: "string \<Rightarrow> finding_input option" where
  "sample_unmarshal l = (if l = ''{m}'' then Some sample_recorded else None)"

lemma sample_accepted:
  "accepted (\<lambda>s. s) builtin_categories [sample_input, sample_input\<lparr>in_confidence := NaN\<rparr>, sample_input] =
   [sample_recorded, sample_recorded]"
  by code_simp

theorem recorded_findings_read_back_witness:
  "readFindingsJSONL sample_unmarshal (Some (rec_text (record_all (\<lambda>s. s) builtin_categories sample_marshal
     [sample_input, sample_input\<lparr>in_confidence := NaN\<rparr>, sample_input] (new_recorder [])))) =
   Inr [sample_recorded, sample_recorded]"
proof -
  have "codec_ok sample_marshal sample_unmarshal sample_recorded" by code_simp
  then have "list_all (codec_ok sample_marshal sample_unmarshal) [sample_recorded, sample_recorded]" by simp
  moreover have "\<forall>l \<in> set (List.map_filter sample_marshal [sample_recorded, sample_recorded]). length l < maxFindingLine"
    by (simp add: List.map_filter_simps sample_marshal_def sample_recorded_def maxFindingLine_def)
  ultimately show ?thesis
    using recorded_findings_read_back [of sample_marshal sample_unmarshal "\<lambda>s. s" builtin_categories
        "[sample_input, sample_input\<lparr>in_confidence := NaN\<rparr>, sample_input]"]
    unfolding sample_accepted by simp
qed

text \<open>A file system with a temporary directory that holds a link to one of its own directories.\<close>

definition link_fs :: "string \<Rightarrow> eval_result" where
  "link_fs p =
     (if \<not> is_abs p then NotExist
      else case elems p of
        [] \<Rightarrow> Resolved ''/''
      | [a] \<Rightarrow> if a = ''tmp'' then Resolved ''/tmp'' else NotExist
      | [a, b] \<Rightarrow>
          if a = ''tmp'' \<and> (b = ''d'' \<or> b = ''link'') then Resolved ''/tmp/d'' else NotExist
      | _ \<Rightarrow> NotExist)"

lemma link_fs_coherent: "coherent_fs link_fs"
proof -
  have fixed: "is_abs ''/''" "elems ''/'' = []" "elems ''/tmp'' = [''tmp'']" "elems ''/tmp/d'' = [''tmp'', ''d'']"
    "is_abs ''/tmp''" "is_abs ''/tmp/d''" "clean_path ''/''" "clean_path ''/tmp''" "clean_path ''/tmp/d''"
    "plain ''d''" by code_simp+
  show ?thesis
    unfolding coherent_fs_def sane_fs_def
    by (auto simp: fixed link_fs_def elems_abs_path append_eq_Cons_conv split: if_splits list.splits)
qed

text \<open>A path through a symbolic link is accepted when it stays inside.\<close>

theorem linked_output_path_accepted: "validateOutputPath link_fs ''/'' ''/tmp'' ''/tmp/link/f.jsonl'' = None"
  by code_simp

theorem output_path_contained_witness:
  "\<exists>loc. resolveSymlinks link_fs (clean ''/tmp/link/f.jsonl'') = Inr loc \<and> prefix (elems ''/tmp'') (elems loc)"
proof -
  have "is_abs ''/''" "is_abs ''/tmp''" by code_simp+
  moreover have "link_fs ''/tmp'' = Resolved ''/tmp''" by code_simp
  ultimately show ?thesis
    using output_path_contained [OF link_fs_coherent _ _ linked_output_path_accepted] by auto
qed

end
