(* ===== verification/FindingBuild.thy ===== *)
theory FindingBuild
  imports Findings
begin

text \<open>
  From a model's answer to findings: the types, normalisation, thresholds and identity of
  \<open>internal/analyzer/orchestrator.go\<close>, the response parsers of \<open>promptbuilder.go\<close> and the decoders of
  \<open>phase2decoder.go\<close>. \<open>json.Unmarshal\<close> of a response, SHA-256 and the Unicode part of
  \<open>strings.ToLower\<close> are parameters; a decoded response is the list of its members in the
  order in which the map is iterated. Prompt texts are not modelled.
\<close>

section \<open>Data\<close>

record rule_pack =
  pk_category :: string
  pk_enabled :: bool
  pk_threshold :: float64

record mistake =
  m_category :: string
  m_summary :: string
  m_excerpt :: string
  m_confidence :: float64

record finding =
  f_category :: string
  f_mistake :: string
  f_guardrail :: guardrail_input
  f_evidence :: "evidence_input list"
  f_confidence :: float64
  f_hash :: string
  f_unverified :: bool

record raw_finding =
  rf_mistake :: string
  rf_guardrail :: guardrail_input
  rf_evidence :: "evidence_input list"
  rf_confidence :: float64

record text_env =
  sha256_hex :: "string \<Rightarrow> string"
  ulower :: "string \<Rightarrow> string"

datatype phase2_mode = Phase2ModeNone | Phase2ModeMCP | Phase2ModeCLI

record phase_request =
  rq_dry_run :: bool
  rq_strict :: bool
  rq_validator :: "(string \<Rightarrow> string \<Rightarrow> bool \<times> bool) option"
  rq_existing :: "string \<Rightarrow> bool"
  rq_mode :: phase2_mode
  rq_output :: string
  rq_redactor :: "(string \<Rightarrow> string) option"

datatype warning =
    UnknownCategory1 string
  | UnknownCategory2 string
  | UnknownRecorded string
  | DroppedLintRule string string string
  | ChunkAborted nat
  | ChunkFailed nat
  | ChunkParseFailed nat
  | MissingSummary nat
  | EmptySummary nat
  | Phase2Failed
  | Phase2DecodeFailed

text \<open>A Go map from categories to slices: an absent category is an empty one.\<close>

type_synonym 'a by_category = "string \<Rightarrow> 'a list"

definition add_to :: "string \<Rightarrow> 'a list \<Rightarrow> 'a by_category \<Rightarrow> 'a by_category" where
  "add_to c xs m = m(c := m c @ xs)"

section \<open>Packs\<close>

definition enabledCategories :: "rule_pack list \<Rightarrow> string list" where
  "enabledCategories packs = map pk_category (filter pk_enabled packs)"

definition categoryLookup :: "rule_pack list \<Rightarrow> string \<Rightarrow> rule_pack option" where
  "categoryLookup packs c = map_of (rev (map (\<lambda>p. (pk_category p, p)) packs)) c"

definition packForCategory :: "rule_pack list \<Rightarrow> string \<Rightarrow> rule_pack" where
  "packForCategory packs c =
     (case find (\<lambda>p. pk_category p = c) packs of
        Some p \<Rightarrow> p
      | None \<Rightarrow> \<lparr>pk_category = c, pk_enabled = True, pk_threshold = Finite 0\<rparr>)"

text \<open>The pack of a category that a response names, if it is known and enabled.\<close>

definition active_pack :: "rule_pack list \<Rightarrow> string \<Rightarrow> rule_pack option" where
  "active_pack packs c =
     (case categoryLookup packs c of Some p \<Rightarrow> if pk_enabled p then Some p else None | None \<Rightarrow> None)"

section \<open>Mistakes\<close>

definition toMistakes :: "mistake list \<Rightarrow> mistake list" where
  "toMistakes raws = map (\<lambda>r. r\<lparr>m_category := trim_space (m_category r)\<rparr>) raws"

definition normalizeMistakes :: "string \<Rightarrow> mistake list \<Rightarrow> mistake list" where
  "normalizeMistakes defaultCategory ms =
     map (\<lambda>m. let c = trim_space (m_category m) in
            \<lparr>m_category = (if c = [] then defaultCategory else c), m_summary = trim_space (m_summary m),
             m_excerpt = trim_space (m_excerpt m), m_confidence = m_confidence m\<rparr>)
       (filter (\<lambda>m. trim_space (m_summary m) \<noteq> []) ms)"

definition positive :: "float64 \<Rightarrow> bool" where
  "positive t \<longleftrightarrow> float_less (Finite 0) t"

definition below :: "float64 \<Rightarrow> float64 \<Rightarrow> bool" where
  "below c t \<longleftrightarrow> c = NaN \<or> float_less c t"

text \<open>\<open>threshold <= 0\<close> is false for NaN.\<close>

definition not_positive :: "float64 \<Rightarrow> bool" where
  "not_positive t \<longleftrightarrow> float_less t (Finite 0) \<or> t = Finite 0"

definition filterMistakesByThreshold :: "float64 \<Rightarrow> mistake list \<Rightarrow> mistake list" where
  "filterMistakesByThreshold t ms = (if not_positive t then ms else filter (\<lambda>m. \<not> below (m_confidence m) t) ms)"

definition phase1SummaryMaxRunes :: nat where "phase1SummaryMaxRunes = 2000"

definition clampSummary :: "string \<Rightarrow> string" where
  "clampSummary s =
     (let t = trim_space s in
      if rune_count t \<le> phase1SummaryMaxRunes then t
      else encode_runes (take phase1SummaryMaxRunes (runes t)))"

section \<open>Responses\<close>

definition fence :: string where "fence = ''```''"

definition stripCodeFence :: "string \<Rightarrow> string" where
  "stripCodeFence raw =
     (let trimmed = trim_space raw in
      if \<not> has_prefix trimmed fence then trimmed
      else
        let ls = split_on newline trimmed;
            ls1 = (if ls \<noteq> [] \<and> has_prefix (trim_space (hd ls)) fence then tl ls else ls);
            ls2 = (if ls1 \<noteq> [] \<and> trim_space (last ls1) = fence then butlast ls1 else ls1)
        in trim_space (join [newline] ls2))"

datatype response_error = EmptyResponse | InvalidJSON | NoOutputPath | ReadFailed read_error

type_synonym phase1_doc = "string \<times> (string \<times> mistake list) list"
type_synonym phase1_answer = "mistake by_category \<times> string \<times> warning list"

definition parse_category1 ::
    "rule_pack list \<Rightarrow> string \<times> mistake list \<Rightarrow> mistake by_category \<times> warning list \<Rightarrow> mistake by_category \<times> warning list" where
  "parse_category1 packs entry acc =
     (case active_pack packs (fst entry) of
        None \<Rightarrow> (fst acc, snd acc @ [UnknownCategory1 (fst entry)])
      | Some p \<Rightarrow>
          (add_to (pk_category p)
             (filterMistakesByThreshold (pk_threshold p) (normalizeMistakes (pk_category p) (toMistakes (snd entry))))
             (fst acc), snd acc))"

definition parsePhase1Response ::
    "(string \<Rightarrow> phase1_doc option) \<Rightarrow> rule_pack list \<Rightarrow> string \<Rightarrow> response_error + phase1_answer" where
  "parsePhase1Response decode packs raw =
     (let payload = stripCodeFence raw in
      if payload = [] then Inl EmptyResponse
      else case decode payload of
        None \<Rightarrow> Inl InvalidJSON
      | Some (summary, entries) \<Rightarrow>
          let (out, ws) = fold (parse_category1 packs) entries (\<lambda>_. [], []) in
          Inr (out, clampSummary summary, ws))"

section \<open>Findings\<close>

definition normalizeForHash :: "string \<Rightarrow> string" where
  "normalizeForHash t = join '' '' (split_fields t)"

definition hash_preimage :: "text_env \<Rightarrow> finding \<Rightarrow> string" where
  "hash_preimage te f =
     to_lower (ulower te) (trim_space (f_category f)) @ ''|'' @
     to_lower (ulower te) (normalizeForHash (f_mistake f)) @ ''|'' @
     to_lower (ulower te) (trim_space (g_tool (f_guardrail f))) @ ''|'' @
     to_lower (ulower te) (trim_space (g_rule (f_guardrail f)))"

definition computeFindingHash :: "text_env \<Rightarrow> finding \<Rightarrow> string" where
  "computeFindingHash te f = sha256_hex te (hash_preimage te f)"

text \<open>An apply specification without a target or a snippet is dropped; its snippet is not trimmed.\<close>

definition build_apply :: "apply_input \<Rightarrow> apply_input option" where
  "build_apply a =
     (let a' = \<lparr>ap_target = trim_space (ap_target a), ap_strategy = trim_space (ap_strategy a),
                ap_anchor = trim_space (ap_anchor a), ap_snippet = ap_snippet a\<rparr>
      in if ap_target a' = [] \<or> ap_snippet a' = [] then None else Some a')"

definition buildFinding ::
    "text_env \<Rightarrow> string \<Rightarrow> string \<Rightarrow> float64 \<Rightarrow> guardrail_input \<Rightarrow> evidence_input list \<Rightarrow> finding" where
  "buildFinding te category mistake confidence g evs =
     (let k = trim_space (g_kind g);
          guardrail = \<lparr>g_kind = (if k = [] then category else k), g_tool = trim_space (g_tool g),
             g_rule = trim_space (g_rule g), g_config = trim_space (g_config g),
             g_apply = (case g_apply g of Some a \<Rightarrow> build_apply a | None \<Rightarrow> None)\<rparr>;
          f = \<lparr>f_category = category, f_mistake = mistake, f_guardrail = guardrail,
             f_evidence = map trim_evidence (filter (\<lambda>e. trim_space (ev_path e) \<noteq> []) evs),
             f_confidence = confidence, f_hash = [], f_unverified = False\<rparr>
      in f\<lparr>f_hash := computeFindingHash te f\<rparr>)"

definition validateAndBuildFindings :: "text_env \<Rightarrow> string \<Rightarrow> raw_finding list \<Rightarrow> finding list" where
  "validateAndBuildFindings te category raws =
     map (\<lambda>r. buildFinding te category (trim_space (rf_mistake r)) (rf_confidence r) (rf_guardrail r) (rf_evidence r))
       (filter (\<lambda>r. trim_space (rf_mistake r) \<noteq> []) raws)"

definition parse_category2 ::
    "text_env \<Rightarrow> rule_pack list \<Rightarrow> string \<times> raw_finding list \<Rightarrow> finding by_category \<times> warning list \<Rightarrow>
     finding by_category \<times> warning list" where
  "parse_category2 te packs entry acc =
     (case active_pack packs (fst entry) of
        None \<Rightarrow> (fst acc, snd acc @ [UnknownCategory2 (fst entry)])
      | Some p \<Rightarrow> (add_to (pk_category p) (validateAndBuildFindings te (pk_category p) (snd entry)) (fst acc), snd acc))"

definition parsePhase2Response ::
    "text_env \<Rightarrow> (string \<Rightarrow> (string \<times> raw_finding list) list option) \<Rightarrow> rule_pack list \<Rightarrow> string \<Rightarrow>
     response_error + finding by_category \<times> warning list" where
  "parsePhase2Response te decode packs raw =
     (let payload = stripCodeFence raw in
      if payload = [] then Inr (\<lambda>_. [], [])
      else case decode payload of
        None \<Rightarrow> Inl InvalidJSON
      | Some entries \<Rightarrow> Inr (fold (parse_category2 te packs) entries (\<lambda>_. [], [])))"

section \<open>Recorded findings\<close>

record materialize_state =
  ms_findings :: "finding by_category"
  ms_seen :: "string list"
  ms_warnings :: "warning list"

definition materialize_one ::
    "text_env \<Rightarrow> rule_pack list \<Rightarrow> finding_input \<Rightarrow> materialize_state \<Rightarrow> materialize_state" where
  "materialize_one te packs i st =
     (case active_pack packs (trim_space (to_lower (ulower te) (in_category i))) of
        None \<Rightarrow> st\<lparr>ms_warnings := ms_warnings st @ [UnknownRecorded (in_category i)]\<rparr>
      | Some p \<Rightarrow>
          let m = trim_space (in_mistake i) in
          if m = [] then st
          else
            let f = buildFinding te (pk_category p) m (in_confidence i) (in_guardrail i) (in_evidence i) in
            if f_hash f \<in> set (ms_seen st) then st
            else st\<lparr>ms_seen := f_hash f # ms_seen st, ms_findings := add_to (pk_category p) [f] (ms_findings st)\<rparr>)"

definition materializeRecordedFindings ::
    "text_env \<Rightarrow> rule_pack list \<Rightarrow> finding_input list \<Rightarrow> finding by_category \<times> warning list" where
  "materializeRecordedFindings te packs raw =
     (let st = fold (materialize_one te packs) raw \<lparr>ms_findings = \<lambda>_. [], ms_seen = [], ms_warnings = []\<rparr>
      in (ms_findings st, ms_warnings st))"

definition redact_finding :: "(string \<Rightarrow> string) \<Rightarrow> finding \<Rightarrow> finding" where
  "redact_finding red f =
     f\<lparr>f_mistake := red (f_mistake f),
       f_guardrail := (let g = f_guardrail f in
         g\<lparr>g_tool := red (g_tool g), g_rule := red (g_rule g), g_config := red (g_config g),
           g_apply := map_option (\<lambda>a. a\<lparr>ap_snippet := red (ap_snippet a), ap_anchor := red (ap_anchor a)\<rparr>) (g_apply g)\<rparr>),
       f_evidence := map (\<lambda>e. e\<lparr>ev_symbol := red (ev_symbol e)\<rparr>) (f_evidence f)\<rparr>"

definition applyFindingRedactor :: "(string \<Rightarrow> string) option \<Rightarrow> finding by_category \<Rightarrow> finding by_category" where
  "applyFindingRedactor red m = (case red of None \<Rightarrow> m | Some r \<Rightarrow> (\<lambda>c. map (redact_finding r) (m c)))"

section \<open>Decoders\<close>

text \<open>The answer of a second-phase session: its text and the content of the findings file.\<close>

record decoders =
  dec_phase1 :: "string \<Rightarrow> phase1_doc option"
  dec_phase2 :: "string \<Rightarrow> (string \<times> raw_finding list) list option"
  dec_finding :: "string \<Rightarrow> finding_input option"

definition jsonPhase2Decode ::
    "text_env \<Rightarrow> decoders \<Rightarrow> phase_request \<Rightarrow> rule_pack list \<Rightarrow> string \<Rightarrow>
     response_error + finding by_category \<times> warning list" where
  "jsonPhase2Decode te de req packs raw =
     and_then (parsePhase2Response te (dec_phase2 de) packs raw)
       (\<lambda>(fs, ws). Inr (applyFindingRedactor (rq_redactor req) fs, ws))"

definition filePhase2Decode ::
    "text_env \<Rightarrow> decoders \<Rightarrow> phase_request \<Rightarrow> rule_pack list \<Rightarrow> string option \<Rightarrow>
     response_error + finding by_category \<times> warning list" where
  "filePhase2Decode te de req packs content =
     (if rq_output req = [] then Inl NoOutputPath
      else case readFindingsJSONL (dec_finding de) content of
        Inl e \<Rightarrow> Inl (ReadFailed e)
      | Inr raw \<Rightarrow>
          let (fs, ws) = materializeRecordedFindings te packs raw
          in Inr (applyFindingRedactor (rq_redactor req) fs, ws))"

definition phase2_decode ::
    "text_env \<Rightarrow> decoders \<Rightarrow> phase_request \<Rightarrow> rule_pack list \<Rightarrow> string \<Rightarrow> string option \<Rightarrow>
     response_error + finding by_category \<times> warning list" where
  "phase2_decode te de req packs raw content =
     (case rq_mode req of
        Phase2ModeNone \<Rightarrow> jsonPhase2Decode te de req packs raw
      | _ \<Rightarrow> filePhase2Decode te de req packs content)"

section \<open>The last filter\<close>

definition lint_rule_category :: string where "lint_rule_category = ''lint-rule''"

text \<open>What the allow-list says of a finding: kept, kept as unverified, or dropped.\<close>

datatype lint_verdict = Keep | KeepUnverified | DropRule

definition lint_check :: "phase_request \<Rightarrow> rule_pack \<Rightarrow> finding \<Rightarrow> lint_verdict" where
  "lint_check req pack f =
     (if pk_category pack = lint_rule_category then
        (case rq_validator req of
           None \<Rightarrow> Keep
         | Some v \<Rightarrow>
             let (allowed, known) = v (g_tool (f_guardrail f)) (g_rule (f_guardrail f)) in
             if known \<and> \<not> allowed then (if rq_strict req then DropRule else KeepUnverified) else Keep)
      else Keep)"

fun validateFindings :: "phase_request \<Rightarrow> rule_pack \<Rightarrow> finding list \<Rightarrow> finding list \<times> warning list" where
  "validateFindings req pack [] = ([], [])"
| "validateFindings req pack (f # fs) =
     (let (out, ws) = validateFindings req pack fs in
      if positive (pk_threshold pack) \<and> below (f_confidence f) (pk_threshold pack) then (out, ws)
      else
        case lint_check req pack f of
          DropRule \<Rightarrow> (out, DroppedLintRule (f_mistake f) (g_rule (f_guardrail f)) (g_tool (f_guardrail f)) # ws)
        | Keep \<Rightarrow> (if rq_existing req (f_hash f) then (out, ws) else (f # out, ws))
        | KeepUnverified \<Rightarrow> (if rq_existing req (f_hash f) then (out, ws) else (f\<lparr>f_unverified := True\<rparr> # out, ws)))"

section \<open>Properties of decoded findings\<close>

text \<open>Every finding under a category was built for it, for an active pack.\<close>

definition built_for :: "text_env \<Rightarrow> rule_pack list \<Rightarrow> finding by_category \<Rightarrow> bool" where
  "built_for te packs m \<longleftrightarrow>
     (\<forall>c. \<forall>f \<in> set (m c). f_category f = c \<and> f_hash f = computeFindingHash te f \<and> f_mistake f \<noteq> [] \<and>
        \<not> f_unverified f \<and> (\<exists>p \<in> set packs. pk_category p = c \<and> pk_enabled p))"

lemma categoryLookup_mem: "categoryLookup packs c = Some p \<Longrightarrow> p \<in> set packs \<and> pk_category p = c"
  by (auto simp: categoryLookup_def dest!: map_of_SomeD)

lemma active_pack_mem: "active_pack packs c = Some p \<Longrightarrow> p \<in> set packs \<and> pk_category p = c \<and> pk_enabled p"
  by (auto simp: active_pack_def dest: categoryLookup_mem split: option.splits if_splits)

lemma buildFinding_facts:
  "f_category (buildFinding te c m x g evs) = c"
  "f_mistake (buildFinding te c m x g evs) = m"
  "\<not> f_unverified (buildFinding te c m x g evs)"
  "f_confidence (buildFinding te c m x g evs) = x"
  "f_hash (buildFinding te c m x g evs) = computeFindingHash te (buildFinding te c m x g evs)"
  by (simp_all add: buildFinding_def Let_def computeFindingHash_def hash_preimage_def)

lemma built_for_empty: "built_for te packs (\<lambda>_. [])"
  by (simp add: built_for_def)

lemma built_for_add:
  assumes "built_for te packs m" "p \<in> set packs" "pk_enabled p" "pk_category p = c"
    and "\<forall>f \<in> set fs. f_category f = c \<and> f_hash f = computeFindingHash te f \<and> f_mistake f \<noteq> [] \<and> \<not> f_unverified f"
  shows "built_for te packs (add_to c fs m)"
  using assms by (auto simp: built_for_def add_to_def)

lemma parsePhase2_built:
  assumes "parsePhase2Response te decode packs raw = Inr (m, ws)"
  shows "built_for te packs m"
proof -
  have step: "built_for te packs (fst (parse_category2 te packs e acc))" if "built_for te packs (fst acc)" for e acc
    using that active_pack_mem [of packs "fst e"]
    by (auto simp: parse_category2_def validateAndBuildFindings_def buildFinding_facts split: option.split intro!: built_for_add)
  have "built_for te packs (fst (fold (parse_category2 te packs) entries acc))" if "built_for te packs (fst acc)" for entries acc
    using that by (induction entries arbitrary: acc) (simp_all add: step)
  from this [of "(\<lambda>_. [], [])"] have "built_for te packs (fst (fold (parse_category2 te packs) entries (\<lambda>_. [], [])))" for entries
    by (simp add: built_for_empty)
  moreover have "m = (\<lambda>_. []) \<or> (\<exists>entries. fold (parse_category2 te packs) entries (\<lambda>_. [], []) = (m, ws))"
    using assms by (auto simp: parsePhase2Response_def Let_def split: if_splits option.splits)
  ultimately show ?thesis using built_for_empty by (metis fst_conv)
qed

text \<open>Materialised findings have pairwise distinct hashes, over all categories.\<close>

definition seen_exactly :: "materialize_state \<Rightarrow> bool" where
  "seen_exactly st \<longleftrightarrow>
     distinct (ms_seen st) \<and> (\<forall>c. distinct (map f_hash (ms_findings st c)) \<and> f_hash ` set (ms_findings st c) \<subseteq> set (ms_seen st)) \<and>
     (\<forall>c d. c \<noteq> d \<longrightarrow> f_hash ` set (ms_findings st c) \<inter> f_hash ` set (ms_findings st d) = {})"

lemma materialize_one_inv:
  assumes "seen_exactly st \<and> built_for te packs (ms_findings st)"
  shows "seen_exactly (materialize_one te packs i st) \<and> built_for te packs (ms_findings (materialize_one te packs i st))"
proof (cases "active_pack packs (trim_space (to_lower (ulower te) (in_category i)))")
  case None
  then show ?thesis using assms by (simp add: materialize_one_def seen_exactly_def)
next
  case (Some p)
  let ?f = "buildFinding te (pk_category p) (trim_space (in_mistake i)) (in_confidence i) (in_guardrail i) (in_evidence i)"
  show ?thesis
  proof (cases "trim_space (in_mistake i) = [] \<or> f_hash ?f \<in> set (ms_seen st)")
    case True
    then show ?thesis using assms Some by (auto simp: materialize_one_def Let_def)
  next
    case False
    then have one: "materialize_one te packs i st =
        st\<lparr>ms_seen := f_hash ?f # ms_seen st, ms_findings := add_to (pk_category p) [?f] (ms_findings st)\<rparr>"
      using Some by (simp add: materialize_one_def Let_def)
    have "built_for te packs (add_to (pk_category p) [?f] (ms_findings st))"
      using assms False active_pack_mem [OF Some] by (intro built_for_add) (auto simp: buildFinding_facts)
    moreover have "seen_exactly (materialize_one te packs i st)"
      using assms False unfolding one seen_exactly_def by (auto simp: add_to_def)
    ultimately show ?thesis by (simp add: one)
  qed
qed

lemma materialize_sound:
  assumes "materializeRecordedFindings te packs raw = (m, ws)"
  shows "built_for te packs m \<and> (\<forall>c. distinct (map f_hash (m c))) \<and>
    (\<forall>c d. c \<noteq> d \<longrightarrow> f_hash ` set (m c) \<inter> f_hash ` set (m d) = {})"
proof -
  have "seen_exactly (fold (materialize_one te packs) raw st) \<and> built_for te packs (ms_findings (fold (materialize_one te packs) raw st))"
    if "seen_exactly st \<and> built_for te packs (ms_findings st)" for st
    using that by (induction raw arbitrary: st) (simp_all add: materialize_one_inv)
  from this [of "\<lparr>ms_findings = \<lambda>_. [], ms_seen = [], ms_warnings = []\<rparr>"]
  show ?thesis
    using assms built_for_empty by (simp add: materializeRecordedFindings_def Let_def seen_exactly_def)
qed

end
