(* ===== verification/Orchestrator.thy ===== *)
theory Orchestrator
  imports FindingBuild
begin

text \<open>
  The two phases of an analysis, \<open>internal/analyzer/orchestrator_chunked.go\<close>. What a provider
  answers is an argument: for the first phase a function of the chunk and of the summary in its
  prompt, for the second the answer and the content of the findings file it leaves. In parallel
  mode the answers arrive in any order and are kept by chunk, so a function of the chunk is all
  that remains of the interleaving. Prompt texts, timeouts and the capture of exchanges are left
  out; the session pool is the theory \<open>SessionPool\<close>.
\<close>

section \<open>Runs\<close>

datatype provider_error = RateLimit | ProviderError

datatype session_answer = Answered string | Failed provider_error

datatype analysis_error =
    NoFactory
  | NoChunks
  | NoEnabledCategories
  | Phase1RateLimit
  | Phase1Failed provider_error
  | Phase1SchemaViolation nat
  | Phase2RateLimit
  | Phase2ProviderError
  | Phase2Undecodable response_error

datatype execution_mode = ModeSequential | ModeParallel

record analysis_result =
  ar_mistakes :: "mistake list"
  ar_findings :: "finding list"
  ar_warnings :: "warning list"
  ar_completed :: "string list"
  ar_phase1_complete :: bool

definition empty_result :: analysis_result where
  "empty_result = \<lparr>ar_mistakes = [], ar_findings = [], ar_warnings = [], ar_completed = [], ar_phase1_complete = False\<rparr>"

text \<open>Outcome of the first phase: mistakes, number of clean chunks, warnings and an error.\<close>

type_synonym phase1_outcome = "mistake by_category \<times> nat \<times> warning list \<times> analysis_error option"

definition orderedByCategory :: "'a by_category \<Rightarrow> string list \<Rightarrow> 'a list" where
  "orderedByCategory m order = concat (map m order)"

definition mergeMistakes :: "mistake by_category \<Rightarrow> mistake by_category \<Rightarrow> mistake by_category" where
  "mergeMistakes dst src = (\<lambda>c. dst c @ src c)"

section \<open>First phase\<close>

text \<open>
  The sequential loop from chunk \<open>i\<close> on; \<open>n\<close> is the number of chunks, \<open>k\<close> of those left.
\<close>

fun sequential_loop ::
    "decoders \<Rightarrow> rule_pack list \<Rightarrow> (nat \<Rightarrow> string \<Rightarrow> session_answer) \<Rightarrow> nat \<Rightarrow> nat \<Rightarrow> string \<Rightarrow>
     mistake by_category \<Rightarrow> nat \<Rightarrow> warning list \<Rightarrow> phase1_outcome" where
  "sequential_loop de packs respond n 0 prior ms completed ws = (ms, completed, ws, None)"
| "sequential_loop de packs respond n (Suc k) prior ms completed ws =
     (let i = n - Suc k in
      case respond i prior of
        Failed RateLimit \<Rightarrow> (ms, completed, ws, Some Phase1RateLimit)
      | Failed ProviderError \<Rightarrow> (ms, completed, ws @ [ChunkAborted i], Some (Phase1Failed ProviderError))
      | Answered raw \<Rightarrow>
          (case parsePhase1Response (dec_phase1 de) packs raw of
             Inl _ \<Rightarrow> sequential_loop de packs respond n k [] ms completed (ws @ [ChunkParseFailed i])
           | Inr (parsed, summary, pws) \<Rightarrow>
               if k \<noteq> 0 \<and> summary = [] then
                 (ms, completed, ws @ pws @ [MissingSummary i], Some (Phase1SchemaViolation i))
               else
                 sequential_loop de packs respond n k summary (mergeMistakes ms parsed) (completed + 1) (ws @ pws)))"

definition runPhase1Sequential ::
    "decoders \<Rightarrow> rule_pack list \<Rightarrow> (nat \<Rightarrow> string \<Rightarrow> session_answer) \<Rightarrow> nat \<Rightarrow> phase1_outcome" where
  "runPhase1Sequential de packs respond n = sequential_loop de packs respond n n [] (\<lambda>_. []) 0 []"

text \<open>The results of the parallel calls are merged in chunk order after all have ended.\<close>

definition merge_chunk ::
    "decoders \<Rightarrow> rule_pack list \<Rightarrow> (nat \<Rightarrow> session_answer) \<Rightarrow> nat \<Rightarrow>
     mistake by_category \<times> nat \<times> warning list \<Rightarrow> mistake by_category \<times> nat \<times> warning list" where
  "merge_chunk de packs answer i acc =
     (case acc of (ms, completed, ws) \<Rightarrow>
      case answer i of
        Failed _ \<Rightarrow> (ms, completed, ws @ [ChunkFailed i])
      | Answered raw \<Rightarrow>
          (case parsePhase1Response (dec_phase1 de) packs raw of
             Inl _ \<Rightarrow> (ms, completed, ws @ [ChunkParseFailed i])
           | Inr (parsed, summary, pws) \<Rightarrow>
               (mergeMistakes ms parsed, completed + 1,
                ws @ pws @ (if trim_space summary = [] then [EmptySummary i] else []))))"

definition runPhase1Parallel ::
    "decoders \<Rightarrow> rule_pack list \<Rightarrow> (nat \<Rightarrow> session_answer) \<Rightarrow> nat \<Rightarrow> phase1_outcome" where
  "runPhase1Parallel de packs answer n =
     (let (ms, completed, ws) = fold (merge_chunk de packs answer) [0..<n] (\<lambda>_. [], 0, [])
      in (ms, completed, ws, if list_ex (\<lambda>i. answer i = Failed RateLimit) [0..<n] then Some Phase1RateLimit else None))"

definition runPhase1 ::
    "decoders \<Rightarrow> rule_pack list \<Rightarrow> execution_mode \<Rightarrow> (nat \<Rightarrow> string \<Rightarrow> session_answer) \<Rightarrow> nat \<Rightarrow> phase1_outcome" where
  "runPhase1 de packs mode respond n =
     (if mode = ModeParallel \<and> n > 1 then runPhase1Parallel de packs (\<lambda>i. respond i []) n
      else runPhase1Sequential de packs respond n)"

section \<open>Second phase\<close>

text \<open>The answer of the second session and the findings file it leaves; \<open>prompt_ws\<close> are the warnings
  of the prompt builder.\<close>

definition runPhase2 ::
    "text_env \<Rightarrow> decoders \<Rightarrow> phase_request \<Rightarrow> rule_pack list \<Rightarrow> warning list \<Rightarrow> session_answer \<Rightarrow> string option \<Rightarrow>
     (finding by_category \<times> warning list) \<times> analysis_error option" where
  "runPhase2 te de req packs prompt_ws answer content =
     (case answer of
        Failed RateLimit \<Rightarrow> ((\<lambda>_. [], prompt_ws), Some Phase2RateLimit)
      | Failed ProviderError \<Rightarrow> ((\<lambda>_. [], prompt_ws @ [Phase2Failed]), Some Phase2ProviderError)
      | Answered raw \<Rightarrow>
          (case phase2_decode te de req packs raw content of
             Inl e \<Rightarrow> ((\<lambda>_. [], prompt_ws @ [Phase2DecodeFailed]), Some (Phase2Undecodable e))
           | Inr (fs, ws) \<Rightarrow> ((fs, prompt_ws @ ws), None)))"

definition validate_categories ::
    "phase_request \<Rightarrow> rule_pack list \<Rightarrow> string list \<Rightarrow> finding by_category \<Rightarrow> finding by_category \<times> warning list" where
  "validate_categories req packs order fs =
     fold (\<lambda>c (m, ws). let (out, vws) = validateFindings req (packForCategory packs c) (m c)
                        in (m(c := out), ws @ vws)) order (fs, [])"

definition finish_phase2 ::
    "phase_request \<Rightarrow> rule_pack list \<Rightarrow> (finding by_category \<times> warning list) \<times> analysis_error option \<Rightarrow>
     analysis_result \<Rightarrow> analysis_result \<times> analysis_error option" where
  "finish_phase2 req packs p2 r =
     (case p2 of ((fs, ws), err) \<Rightarrow>
        let r1 = r\<lparr>ar_warnings := ar_warnings r @ ws\<rparr> in
        case err of
          Some e \<Rightarrow> (r1, Some e)
        | None \<Rightarrow>
            let (m, vws) = validate_categories req packs (enabledCategories packs) fs
            in (r1\<lparr>ar_warnings := ar_warnings r1 @ vws, ar_findings := orderedByCategory m (enabledCategories packs)\<rparr>, None))"

section \<open>Whole runs\<close>

definition runChunks ::
    "text_env \<Rightarrow> decoders \<Rightarrow> rule_pack list \<Rightarrow> bool \<Rightarrow> execution_mode \<Rightarrow> phase_request \<Rightarrow>
     (nat \<Rightarrow> string \<Rightarrow> session_answer) \<Rightarrow> nat \<Rightarrow> warning list \<Rightarrow> session_answer \<Rightarrow> string option \<Rightarrow>
     analysis_result \<times> analysis_error option" where
  "runChunks te de packs factory mode req respond n prompt_ws answer2 content =
     (if \<not> factory then (empty_result, Some NoFactory)
      else if n = 0 then (empty_result, Some NoChunks)
      else if enabledCategories packs = [] then (empty_result, Some NoEnabledCategories)
      else
        case runPhase1 de packs mode respond n of (ms, completed, ws, err) \<Rightarrow>
          let r0 = empty_result\<lparr>ar_warnings := ws\<rparr> in
          case err of
            Some e \<Rightarrow> (r0, Some e)
          | None \<Rightarrow>
              let enabled = enabledCategories packs;
                  done = (completed = n);
                  r1 = r0\<lparr>ar_mistakes := orderedByCategory ms enabled, ar_phase1_complete := done\<rparr>
              in if rq_dry_run req \<or> ar_mistakes r1 = [] then
                   (if done then r1\<lparr>ar_completed := enabled\<rparr> else r1, None)
                 else
                   case finish_phase2 req packs (runPhase2 te de req packs prompt_ws answer2 content) r1 of
                     (r2, Some e) \<Rightarrow> (r2, Some e)
                   | (r2, None) \<Rightarrow> (if done then r2\<lparr>ar_completed := enabled\<rparr> else r2, None))"

definition runPhase2Only ::
    "text_env \<Rightarrow> decoders \<Rightarrow> rule_pack list \<Rightarrow> bool \<Rightarrow> phase_request \<Rightarrow> mistake by_category \<Rightarrow> warning list \<Rightarrow>
     session_answer \<Rightarrow> string option \<Rightarrow> analysis_result \<times> analysis_error option" where
  "runPhase2Only te de packs factory req mistakes prompt_ws answer2 content =
     (if \<not> factory then (empty_result, Some NoFactory)
      else if enabledCategories packs = [] then (empty_result, Some NoEnabledCategories)
      else
        let enabled = enabledCategories packs;
            r1 = empty_result\<lparr>ar_mistakes := orderedByCategory mistakes enabled\<rparr>
        in if rq_dry_run req \<or> ar_mistakes r1 = [] then (r1, None)
           else
             case finish_phase2 req packs (runPhase2 te de req packs prompt_ws answer2 content) r1 of
               (r2, Some e) \<Rightarrow> (r2, Some e)
             | (r2, None) \<Rightarrow> (r2\<lparr>ar_completed := enabled\<rparr>, None))"

section \<open>Findings of a run\<close>

lemma validateFindings_sound:
  "f \<in> set (fst (validateFindings req pack fs)) \<Longrightarrow>
   (\<exists>g \<in> set fs. f = g \<and> lint_check req pack g = Keep \<or>
      f = g\<lparr>f_unverified := True\<rparr> \<and> lint_check req pack g = KeepUnverified) \<and>
   \<not> (positive (pk_threshold pack) \<and> below (f_confidence f) (pk_threshold pack)) \<and> \<not> rq_existing req (f_hash f)"
  by (induction fs) (auto simp: Let_def split: prod.splits if_splits lint_verdict.splits)

lemma validateFindings_hashes: "subseq (map f_hash (fst (validateFindings req pack fs))) (map f_hash fs)"
  by (induction fs) (auto simp: Let_def split: prod.splits lint_verdict.splits)

text \<open>What makes a finding admissible, in its own terms. A linter knows the rule of a finding and does not
  allow it:\<close>

definition lint_offence :: "phase_request \<Rightarrow> finding \<Rightarrow> bool" where
  "lint_offence req f \<longleftrightarrow> f_category f = ''lint-rule'' \<and>
     (\<exists>v. rq_validator req = Some v \<and> v (g_tool (f_guardrail f)) (g_rule (f_guardrail f)) = (False, True))"

text \<open>Its confidence reaches the threshold of a pack; NaN reaches no positive one.\<close>

definition reaches :: "rule_pack \<Rightarrow> finding \<Rightarrow> bool" where
  "reaches p f \<longleftrightarrow> (float_less (Finite 0) (pk_threshold p) \<longrightarrow>
     f_confidence f \<noteq> NaN \<and> \<not> float_less (f_confidence f) (pk_threshold p))"

text \<open>A finding that may be shown: a pack of its category is enabled, it reaches the threshold of the first pack
  of that category, an offence against the allow-list is marked and not tolerated in a strict run, and
  the finding was not known before.\<close>

definition admissible :: "phase_request \<Rightarrow> rule_pack list \<Rightarrow> finding \<Rightarrow> bool" where
  "admissible req packs f \<longleftrightarrow>
     (\<exists>p \<in> set packs. pk_category p = f_category f \<and> pk_enabled p) \<and>
     (\<forall>p. find (\<lambda>p. pk_category p = f_category f) packs = Some p \<longrightarrow> reaches p f) \<and>
     (f_unverified f \<longleftrightarrow> lint_offence req f) \<and> \<not> (lint_offence req f \<and> rq_strict req) \<and>
     \<not> rq_existing req (f_hash f)"

lemma packForCategory_category: "pk_category (packForCategory packs c) = c"
  by (auto simp: packForCategory_def find_Some_iff split: option.split)

lemma lint_check_offence:
  assumes "pk_category pack = f_category f"
  shows "lint_check req pack f =
    (if lint_offence req f then if rq_strict req then DropRule else KeepUnverified else Keep)"
  using assms by (auto simp: lint_check_def lint_offence_def lint_rule_category_def split: option.split prod.splits)

lemma kept_reaches:
  assumes "\<not> (positive (pk_threshold (packForCategory packs c)) \<and>
      below (f_confidence f) (pk_threshold (packForCategory packs c)))"
    and "find (\<lambda>p. pk_category p = c) packs = Some p"
  shows "reaches p f"
  using assms by (auto simp: packForCategory_def reaches_def positive_def below_def)

text \<open>Every finding is under its category and not yet marked.\<close>

definition filed :: "rule_pack list \<Rightarrow> finding by_category \<Rightarrow> bool" where
  "filed packs m \<longleftrightarrow> (\<forall>c. \<forall>f \<in> set (m c). f_category f = c \<and> \<not> f_unverified f)"

lemma lint_offence_marked [simp]: "lint_offence req (f\<lparr>f_unverified := b\<rparr>) = lint_offence req f"
  by (simp add: lint_offence_def)

text \<open>A second pass over a category, which only happens when two packs share it, changes nothing that
  matters: what is kept stays admissible.\<close>

lemma validateFindings_admissible:
  assumes "f \<in> set (fst (validateFindings req (packForCategory packs c) fs))" "c \<in> set (enabledCategories packs)"
    and "\<forall>g \<in> set fs. f_category g = c \<and> (f_unverified g \<longrightarrow> lint_offence req g)"
  shows "f_category f = c \<and> admissible req packs f"
proof -
  obtain g where g: "g \<in> set fs"
    "f = g \<and> lint_check req (packForCategory packs c) g = Keep \<or>
     f = g\<lparr>f_unverified := True\<rparr> \<and> lint_check req (packForCategory packs c) g = KeepUnverified"
    using validateFindings_sound [OF assms(1)] by blast
  have c: "f_category g = c" "f_unverified g \<longrightarrow> lint_offence req g" using assms(3) g(1) by blast+
  have "lint_check req (packForCategory packs c) g =
      (if lint_offence req g then if rq_strict req then DropRule else KeepUnverified else Keep)"
    using c(1) by (intro lint_check_offence) (simp add: packForCategory_category)
  with g(2) c have f: "f_category f = c" "f_unverified f \<longleftrightarrow> lint_offence req f" "\<not> (lint_offence req f \<and> rq_strict req)"
    by (auto split: if_splits)
  have "\<exists>p \<in> set packs. pk_category p = c \<and> pk_enabled p"
    using assms(2) by (auto simp: enabledCategories_def)
  with f validateFindings_sound [OF assms(1)] kept_reaches [of packs c f] show ?thesis
    by (simp add: admissible_def)
qed

definition validate_step ::
    "phase_request \<Rightarrow> rule_pack list \<Rightarrow> string \<Rightarrow> finding by_category \<times> warning list \<Rightarrow> finding by_category \<times> warning list" where
  "validate_step req packs c acc =
     (let (out, vws) = validateFindings req (packForCategory packs c) (fst acc c) in ((fst acc)(c := out), snd acc @ vws))"

lemma validate_categories_fold: "validate_categories req packs order fs = fold (validate_step req packs) order (fs, [])"
proof -
  have "(\<lambda>c (m, ws). let (out, vws) = validateFindings req (packForCategory packs c) (m c) in (m(c := out), ws @ vws)) =
      validate_step req packs"
    by (intro ext) (simp add: validate_step_def split: prod.splits)
  then show ?thesis by (simp add: validate_categories_def)
qed

text \<open>Categories in \<open>seen\<close> have been validated.\<close>

definition checked :: "phase_request \<Rightarrow> rule_pack list \<Rightarrow> string set \<Rightarrow> finding by_category \<Rightarrow> bool" where
  "checked req packs seen m \<longleftrightarrow>
     (\<forall>d. \<forall>f \<in> set (m d). f_category f = d \<and> (if d \<in> seen then admissible req packs f else \<not> f_unverified f))"

lemma validate_step_inv:
  assumes "c \<in> set (enabledCategories packs)" "checked req packs seen (fst acc)"
  shows "checked req packs (insert c seen) (fst (validate_step req packs c acc))"
  unfolding checked_def
proof (intro allI ballI)
  fix d f
  assume f: "f \<in> set (fst (validate_step req packs c acc) d)"
  show "f_category f = d \<and> (if d \<in> insert c seen then admissible req packs f else \<not> f_unverified f)"
  proof (cases "d = c")
    case True
    then have kept: "f \<in> set (fst (validateFindings req (packForCategory packs c) (fst acc c)))"
      using f by (simp add: validate_step_def split: prod.splits)
    have "f_category f = c \<and> admissible req packs f"
    proof (cases "c \<in> seen")
      case True
      then show ?thesis
        using assms(2) by (intro validateFindings_admissible [OF kept assms(1)]) (fastforce simp: checked_def admissible_def)
    next
      case False
      then show ?thesis
        using assms(2) by (intro validateFindings_admissible [OF kept assms(1)]) (auto simp: checked_def)
    qed
    then show ?thesis using True by simp
  next
    case False
    then show ?thesis using f assms(2) by (auto simp: checked_def validate_step_def split: prod.splits)
  qed
qed

lemma validate_fold_checked:
  "checked req packs seen (fst acc) \<Longrightarrow> set order \<subseteq> set (enabledCategories packs) \<Longrightarrow>
   checked req packs (set order \<union> seen) (fst (fold (validate_step req packs) order acc))"
proof (induction order arbitrary: acc seen)
  case (Cons c order)
  have "c \<in> set (enabledCategories packs)" using Cons.prems(2) by simp
  from Cons.IH [OF validate_step_inv [OF this Cons.prems(1)]] Cons.prems(2)
  show ?case by simp
qed simp

lemma validate_categories_admissible:
  assumes "filed packs m" "set order \<subseteq> set (enabledCategories packs)" "c \<in> set order"
    and "f \<in> set (fst (validate_categories req packs order m) c)"
  shows "admissible req packs f"
proof -
  have "checked req packs {} (fst (m, []))" using assms(1) by (simp add: checked_def filed_def)
  from validate_fold_checked [OF this assms(2)] show ?thesis
    using assms(3,4) by (simp add: checked_def validate_categories_fold)
qed

lemma phase2_filed:
  assumes "runPhase2 te de req packs prompt_ws answer content = ((fs, ws), None)"
  shows "filed packs fs"
proof -
  obtain raw where d: "phase2_decode te de req packs raw content = Inr (fs, drop (length prompt_ws) ws)"
    using assms by (auto simp: runPhase2_def split: session_answer.splits provider_error.splits sum.splits)
  have redacted: "filed packs (applyFindingRedactor red m)" if "built_for te packs m" for red m
    using that by (auto simp: filed_def built_for_def applyFindingRedactor_def redact_finding_def split: option.split)
  show ?thesis
    using d parsePhase2_built materialize_sound redacted
    by (fastforce simp: phase2_decode_def jsonPhase2Decode_def filePhase2Decode_def Let_def
        split: phase2_mode.splits if_splits sum.splits prod.splits)
qed

lemma finish_phase2_admissible:
  assumes "finish_phase2 req packs p2 r = (r', None)" "ar_findings r = []"
    and "\<And>fs ws. p2 = ((fs, ws), None) \<Longrightarrow> filed packs fs" "f \<in> set (ar_findings r')"
  shows "admissible req packs f"
proof -
  obtain fs ws where p2: "p2 = ((fs, ws), None)"
    using assms(1) by (auto simp: finish_phase2_def Let_def split: prod.splits option.splits)
  have "ar_findings r' = orderedByCategory (fst (validate_categories req packs (enabledCategories packs) fs)) (enabledCategories packs)"
    using assms(1) p2 by (auto simp: finish_phase2_def Let_def split: prod.splits)
  then obtain c where "c \<in> set (enabledCategories packs)"
      "f \<in> set (fst (validate_categories req packs (enabledCategories packs) fs) c)"
    using assms(4) by (auto simp: orderedByCategory_def)
  then show ?thesis using validate_categories_admissible [OF assms(3) [OF p2] order_refl] by blast
qed

lemma finish_phase2_error: "finish_phase2 req packs p2 r = (r', Some e) \<Longrightarrow> ar_findings r' = ar_findings r"
  by (auto simp: finish_phase2_def Let_def split: prod.splits option.splits)

lemma findings_from_phase2:
  assumes "runChunks te de packs factory mode req respond n prompt_ws answer content = (r, err) \<or>
      runPhase2Only te de packs factory req mistakes prompt_ws answer content = (r, err)"
    and "ar_findings r \<noteq> []"
  obtains r0 r1 where "ar_findings r0 = []" "ar_findings r1 = ar_findings r"
    "finish_phase2 req packs (runPhase2 te de req packs prompt_ws answer content) r0 = (r1, None)"
proof -
  have "\<exists>r0 r1. ar_findings r0 = [] \<and> ar_findings r1 = ar_findings r \<and>
      finish_phase2 req packs (runPhase2 te de req packs prompt_ws answer content) r0 = (r1, None)"
    using assms
    by (auto simp: runChunks_def runPhase2Only_def Let_def empty_result_def dest!: finish_phase2_error
        split: if_splits prod.splits option.splits) (metis analysis_result.select_convs(2) analysis_result.update_convs)+
  then show ?thesis using that by blast
qed

lemma run_findings_admissible:
  assumes "runChunks te de packs factory mode req respond n prompt_ws answer content = (r, err) \<or>
      runPhase2Only te de packs factory req mistakes prompt_ws answer content = (r, err)"
    and "f \<in> set (ar_findings r)"
  shows "admissible req packs f"
  using findings_from_phase2 [OF assms(1)] finish_phase2_admissible phase2_filed assms(2)
  by (metis empty_iff list.set(1))

lemma unique_pack_reached:
  assumes "admissible req packs f" "distinct (map pk_category packs)"
  shows "\<exists>p \<in> set packs. pk_category p = f_category f \<and> pk_enabled p \<and> reaches p f"
proof -
  obtain p where p: "p \<in> set packs" "pk_category p = f_category f" "pk_enabled p"
    using assms(1) unfolding admissible_def by blast
  obtain q where q: "find (\<lambda>p. pk_category p = f_category f) packs = Some q"
    using p(1,2) by (cases "find (\<lambda>p. pk_category p = f_category f) packs") (auto simp: find_None_iff)
  have "q \<in> set packs" "pk_category q = f_category f"
    using q by (auto simp: find_Some_iff)
  then have "q = p" using p(1,2) assms(2) by (auto simp: distinct_map inj_on_def)
  moreover have "reaches q f" using assms(1) q unfolding admissible_def by blast
  ultimately show ?thesis using p by blast
qed

text \<open>C8: Whatever the provider answers and in whichever mode and transport a run is made, every finding of its
  result is of the category of an enabled pack and is not an existing one; its confidence reaches
  the threshold of the first pack of that category, which is the enabled pack itself when no two packs
  share a category; and if its category is that of lint rules and the linter's allow-list knows its
  rule and does not allow it, the run is not strict and the finding is marked as unverified. No
  other finding is marked.\<close>
theorem findings_admissible:
  assumes "runChunks te de packs factory mode req respond n prompt_ws answer content = (r, err) \<or>
      runPhase2Only te de packs factory req mistakes prompt_ws answer content = (r, err)"
    and "f \<in> set (ar_findings r)"
  shows "admissible req packs f \<and>
    (distinct (map pk_category packs) \<longrightarrow>
       (\<exists>p \<in> set packs. pk_category p = f_category f \<and> pk_enabled p \<and> reaches p f))"
  using run_findings_admissible [OF assms] unique_pack_reached by blast

section \<open>Chunks behind a completed run\<close>

text \<open>Chunk \<open>i\<close>, prompted with a summary, was answered with the mistakes \<open>p\<close>.\<close>

definition clean_chunk ::
    "decoders \<Rightarrow> rule_pack list \<Rightarrow> (nat \<Rightarrow> string \<Rightarrow> session_answer) \<Rightarrow> nat \<Rightarrow> string \<Rightarrow> mistake by_category \<Rightarrow> bool" where
  "clean_chunk de packs respond i prior p \<longleftrightarrow>
     (\<exists>raw s ws. respond i prior = Answered raw \<and> parsePhase1Response (dec_phase1 de) packs raw = Inr (p, s, ws))"

definition union_of :: "(nat \<Rightarrow> mistake by_category) \<Rightarrow> nat list \<Rightarrow> mistake by_category" where
  "union_of parsed is = (\<lambda>c. concat (map (\<lambda>i. parsed i c) is))"

lemma union_of_upd: "j \<notin> set is \<Longrightarrow> union_of (parsed(j := p)) is = union_of parsed is"
  by (auto simp: union_of_def fun_eq_iff intro!: arg_cong [where f = concat] map_cong)

lemma sequential_loop_clean:
  "sequential_loop de packs respond n k prior ms completed ws = (ms', completed', ws', None) \<Longrightarrow> k \<le> n \<Longrightarrow>
   completed' \<le> completed + k \<and>
   (completed' = completed + k \<longrightarrow>
     (\<exists>priors parsed. (\<forall>i \<in> {n - k..<n}. clean_chunk de packs respond i (priors i) (parsed i)) \<and>
        ms' = mergeMistakes ms (union_of parsed [n - k..<n])))"
proof (induction k arbitrary: prior ms completed ws)
  case 0
  then show ?case by (auto simp: mergeMistakes_def union_of_def)
next
  case (Suc k)
  define j where "j = n - Suc k"
  have j: "j < n" "n - k = Suc j" using Suc.prems(2) by (simp_all add: j_def)
  have range: "{n - Suc k..<n} = insert j {n - k..<n}" "[n - Suc k..<n] = j # [n - k..<n]" "j \<notin> {n - k..<n}"
    using j by (auto simp: j_def [symmetric] upt_conv_Cons)
  obtain raw where raw: "respond j prior = Answered raw"
    using Suc.prems(1) by (auto simp: j_def Let_def split: session_answer.splits provider_error.splits)
  show ?case
  proof (cases "parsePhase1Response (dec_phase1 de) packs raw")
    case (Inl e)
    then have "sequential_loop de packs respond n k [] ms completed (ws @ [ChunkParseFailed j]) = (ms', completed', ws', None)"
      using Suc.prems(1) raw by (simp add: j_def Let_def)
    from Suc.IH [OF this] Suc.prems(2) show ?thesis by simp
  next
    case (Inr a)
    obtain p s pws where a: "a = (p, s, pws)" by (cases a)
    have "sequential_loop de packs respond n k s (mergeMistakes ms p) (completed + 1) (ws @ pws) = (ms', completed', ws', None)"
      using Suc.prems(1) raw Inr a by (simp add: j_def Let_def split: if_splits)
    from Suc.IH [OF this] Suc.prems(2)
    have le: "completed' \<le> completed + Suc k" and ex: "completed' = completed + Suc k \<longrightarrow>
        (\<exists>priors parsed. (\<forall>i \<in> {n - k..<n}. clean_chunk de packs respond i (priors i) (parsed i)) \<and>
           ms' = mergeMistakes (mergeMistakes ms p) (union_of parsed [n - k..<n]))" by simp_all
    have "\<exists>priors parsed. (\<forall>i \<in> {n - Suc k..<n}. clean_chunk de packs respond i (priors i) (parsed i)) \<and>
        ms' = mergeMistakes ms (union_of parsed [n - Suc k..<n])" if full: "completed' = completed + Suc k"
    proof -
      obtain priors parsed where pp: "\<forall>i \<in> {n - k..<n}. clean_chunk de packs respond i (priors i) (parsed i)"
          "ms' = mergeMistakes (mergeMistakes ms p) (union_of parsed [n - k..<n])" using ex full by blast
      have "clean_chunk de packs respond j prior p" using raw Inr a by (auto simp: clean_chunk_def)
      then have "\<forall>i \<in> {n - Suc k..<n}. clean_chunk de packs respond i ((priors(j := prior)) i) ((parsed(j := p)) i)"
        using pp(1) range(3) by (auto simp: range(1))
      moreover have "ms' = mergeMistakes ms (union_of (parsed(j := p)) [n - Suc k..<n])"
        using pp(2) range(3) union_of_upd [of j "[n - k..<n]" parsed p]
        by (simp add: range(2) union_of_def mergeMistakes_def fun_eq_iff)
      ultimately show ?thesis by blast
    qed
    with le show ?thesis by blast
  qed
qed

lemma merge_fold_clean:
  "fold (merge_chunk de packs answer) [0..<n] (\<lambda>_. [], 0, []) = (ms, completed, ws) \<Longrightarrow>
   completed \<le> n \<and>
   (completed = n \<longrightarrow>
     (\<exists>parsed. (\<forall>i < n. clean_chunk de packs (\<lambda>i _. answer i) i [] (parsed i)) \<and> ms = union_of parsed [0..<n]))"
proof (induction n arbitrary: ms completed ws)
  case 0
  then show ?case by (auto simp: union_of_def)
next
  case (Suc n)
  obtain ms0 c0 ws0 where acc: "fold (merge_chunk de packs answer) [0..<n] (\<lambda>_. [], 0, []) = (ms0, c0, ws0)"
    by (metis prod_cases3)
  then have step: "merge_chunk de packs answer n (ms0, c0, ws0) = (ms, completed, ws)" using Suc.prems by simp
  show ?case
  proof (cases "\<exists>raw p s pws. answer n = Answered raw \<and> parsePhase1Response (dec_phase1 de) packs raw = Inr (p, s, pws)")
    case False
    then have "completed = c0"
      using step by (auto simp: merge_chunk_def split: session_answer.splits sum.splits)
    then show ?thesis using Suc.IH [OF acc] by simp
  next
    case True
    then obtain raw p s pws where p: "answer n = Answered raw" "parsePhase1Response (dec_phase1 de) packs raw = Inr (p, s, pws)" by blast
    then have c: "completed = c0 + 1" "ms = mergeMistakes ms0 p" using step by (auto simp: merge_chunk_def)
    have "\<exists>parsed. (\<forall>i < Suc n. clean_chunk de packs (\<lambda>i _. answer i) i [] (parsed i)) \<and> ms = union_of parsed [0..<Suc n]"
      if full: "completed = Suc n"
    proof -
      have "c0 = n" using full c by simp
      then obtain parsed where pp: "\<forall>i < n. clean_chunk de packs (\<lambda>i _. answer i) i [] (parsed i)" "ms0 = union_of parsed [0..<n]"
        using Suc.IH [OF acc] by blast
      have "\<forall>i < Suc n. clean_chunk de packs (\<lambda>i _. answer i) i [] ((parsed(n := p)) i)"
        using pp(1) p by (auto simp: clean_chunk_def less_Suc_eq)
      moreover have "ms = union_of (parsed(n := p)) [0..<Suc n]"
        using pp(2) c union_of_upd [of n "[0..<n]" parsed p] by (simp add: union_of_def mergeMistakes_def fun_eq_iff)
      ultimately show ?thesis by blast
    qed
    then show ?thesis using Suc.IH [OF acc] c by simp
  qed
qed

lemma runPhase1_clean:
  assumes "runPhase1 de packs mode respond n = (ms, n, ws, None)"
  shows "\<exists>priors parsed. (\<forall>i < n. clean_chunk de packs respond i (priors i) (parsed i)) \<and> ms = union_of parsed [0..<n]"
proof (cases "mode = ModeParallel \<and> n > 1")
  case True
  then obtain ws' where "fold (merge_chunk de packs (\<lambda>i. respond i [])) [0..<n] (\<lambda>_. [], 0, []) = (ms, n, ws')"
    using assms by (auto simp: runPhase1_def runPhase1Parallel_def Let_def split: prod.splits)
  from merge_fold_clean [OF this]
  obtain parsed where p: "\<forall>i < n. clean_chunk de packs (\<lambda>i _. respond i []) i [] (parsed i)" "ms = union_of parsed [0..<n]"
    by blast
  then have "\<forall>i < n. clean_chunk de packs respond i [] (parsed i)" by (simp add: clean_chunk_def)
  with p(2) show ?thesis by (intro exI [of _ "\<lambda>_. []"] exI [of _ parsed]) simp
next
  case False
  then have "sequential_loop de packs respond n n [] (\<lambda>_. []) 0 [] = (ms, n, ws, None)"
    using assms by (auto simp: runPhase1_def runPhase1Sequential_def)
  from sequential_loop_clean [OF this] show ?thesis by (fastforce simp: mergeMistakes_def)
qed

text \<open>C9: A run reports categories as completed only if every chunk of the transcript was answered and its answer
  could be read; it then reports all enabled categories, without error, and its mistakes are those
  of all chunks, in chunk order.\<close>
theorem completed_run_covers_transcript:
  assumes "runChunks te de packs factory mode req respond n prompt_ws answer content = (r, err)"
    and "ar_completed r \<noteq> []"
  shows "err = None \<and> ar_completed r = enabledCategories packs \<and>
    (\<exists>priors parsed. (\<forall>i < n. clean_chunk de packs respond i (priors i) (parsed i)) \<and>
       ar_mistakes r = orderedByCategory (union_of parsed [0..<n]) (enabledCategories packs))"
proof -
  obtain ms completed ws perr where p1: "runPhase1 de packs mode respond n = (ms, completed, ws, perr)"
    by (metis prod_cases4)
  have keep: "ar_completed r' = ar_completed r0 \<and> ar_mistakes r' = ar_mistakes r0"
    if "finish_phase2 req packs p2 r0 = (r', e)" for p2 r0 r' e
    using that by (auto simp: finish_phase2_def Let_def split: prod.splits option.splits)
  have "perr = None \<and> completed = n \<and> err = None \<and> ar_completed r = enabledCategories packs \<and>
      ar_mistakes r = orderedByCategory ms (enabledCategories packs)"
    using assms
    by (auto simp: runChunks_def p1 Let_def empty_result_def dest!: keep split: if_splits prod.splits option.splits)
  then show ?thesis using runPhase1_clean p1 by blast
qed

section \<open>Parallel and sequential runs\<close>

text \<open>A provider whose answer to a chunk does not depend on the summary in the prompt and is well-formed.\<close>

definition steady :: "decoders \<Rightarrow> rule_pack list \<Rightarrow> (nat \<Rightarrow> string \<Rightarrow> session_answer) \<Rightarrow> nat \<Rightarrow> bool" where
  "steady de packs respond i \<longleftrightarrow>
     (\<exists>raw p s ws. (\<forall>prior. respond i prior = Answered raw) \<and>
        parsePhase1Response (dec_phase1 de) packs raw = Inr (p, s, ws) \<and> trim_space s \<noteq> [])"

lemma sequential_loop_steady:
  assumes "\<forall>i < n. steady de packs respond i"
  shows "k \<le> n \<Longrightarrow> sequential_loop de packs respond n k prior ms completed ws =
    (case fold (merge_chunk de packs (\<lambda>i. respond i [])) [n - k..<n] (ms, completed, ws) of (ms', c', ws') \<Rightarrow> (ms', c', ws', None))"
proof (induction k arbitrary: prior ms completed ws)
  case (Suc k)
  define j where "j = n - Suc k"
  have j: "j < n" "n - k = Suc j" "[n - Suc k..<n] = j # [n - k..<n]"
    using Suc.prems by (simp_all add: j_def upt_conv_Cons Suc_diff_Suc)
  obtain raw p s pws where r: "\<forall>prior. respond j prior = Answered raw"
      "parsePhase1Response (dec_phase1 de) packs raw = Inr (p, s, pws)" "trim_space s \<noteq> []"
    using assms j(1) by (auto simp: steady_def)
  then have "s \<noteq> []" by auto
  then have "sequential_loop de packs respond n (Suc k) prior ms completed ws =
      sequential_loop de packs respond n k s (mergeMistakes ms p) (completed + 1) (ws @ pws)"
    using r by (simp add: j_def Let_def)
  moreover have "merge_chunk de packs (\<lambda>i. respond i []) j (ms, completed, ws) = (mergeMistakes ms p, completed + 1, ws @ pws)"
    using r by (simp add: merge_chunk_def)
  ultimately show ?case using Suc by (simp add: j(3))
qed simp

text \<open>C23: Parallel dispatch changes nothing for a provider whose answers are well-formed and do not depend on
  the running summary: mistakes, their order, the number of clean chunks and the warnings are
  those of the sequential loop.\<close>
theorem parallel_matches_sequential:
  assumes "\<forall>i < n. steady de packs respond i"
  shows "runPhase1 de packs ModeParallel respond n = runPhase1 de packs ModeSequential respond n"
proof -
  have calm: "\<not> list_ex (\<lambda>i. respond i [] = Failed RateLimit) [0..<n]"
    using assms by (auto simp: list_ex_iff steady_def)
  have "runPhase1Sequential de packs respond n = runPhase1Parallel de packs (\<lambda>i. respond i []) n"
    using sequential_loop_steady [OF assms order_refl] calm
    by (simp add: runPhase1Sequential_def runPhase1Parallel_def Let_def split: prod.splits)
  then show ?thesis by (simp add: runPhase1_def)
qed

section \<open>Identity of findings\<close>

lemma validate_step_subseq:
  "subseq (map f_hash (fst (validate_step req packs c acc) d)) (map f_hash (fst acc d))"
  using validateFindings_hashes [of req "packForCategory packs c" "fst acc c"]
  by (cases "validateFindings req (packForCategory packs c) (fst acc c)") (simp add: validate_step_def)

lemma validate_categories_subseq:
  "subseq (map f_hash (fst (validate_categories req packs order m) d)) (map f_hash (m d))"
proof -
  have "subseq (map f_hash (fst (fold (validate_step req packs) order acc) d)) (map f_hash (fst acc d))" for acc
  proof (induction order arbitrary: acc)
    case (Cons c order)
    show ?case
      using subseq_order.order_trans [OF Cons [of "validate_step req packs c acc"] validate_step_subseq] by simp
  qed simp
  from this [of "(m, [])"] show ?thesis by (simp add: validate_categories_fold)
qed

definition hashes_apart :: "finding by_category \<Rightarrow> bool" where
  "hashes_apart m \<longleftrightarrow> (\<forall>c. distinct (map f_hash (m c))) \<and>
     (\<forall>c d. c \<noteq> d \<longrightarrow> f_hash ` set (m c) \<inter> f_hash ` set (m d) = {})"

lemma ordered_distinct:
  assumes "hashes_apart m" "distinct order"
  shows "distinct (map f_hash (orderedByCategory m order))"
  using assms(2)
proof (induction order)
  case (Cons c order)
  have "f_hash ` set (m c) \<inter> f_hash ` set (m d) = {}" if "d \<in> set order" for d
    using assms(1) Cons.prems that unfolding hashes_apart_def by (metis distinct.simps(2))
  then have "f_hash ` set (m c) \<inter> f_hash ` set (orderedByCategory m order) = {}"
    by (auto simp: orderedByCategory_def)
  then show ?case using Cons assms(1) by (simp add: orderedByCategory_def hashes_apart_def)
qed (simp add: orderedByCategory_def)

lemma subseq_subset: "subseq xs ys \<Longrightarrow> set xs \<subseteq> set ys"
  by (induction rule: list_emb.induct) auto

lemma distinct_subseq: "subseq xs ys \<Longrightarrow> distinct ys \<Longrightarrow> distinct xs"
  by (induction rule: list_emb.induct) (auto dest: subseq_subset)

lemma hashes_apart_subseq:
  assumes "hashes_apart m" "\<And>c. subseq (map f_hash (m' c)) (map f_hash (m c))"
  shows "hashes_apart m'"
proof -
  have sub: "f_hash ` set (m' c) \<subseteq> f_hash ` set (m c)" for c
    using subseq_subset [OF assms(2) [of c]] by simp
  show ?thesis
    unfolding hashes_apart_def
  proof (intro conjI allI impI)
    show "distinct (map f_hash (m' c))" for c
      using distinct_subseq [OF assms(2) [of c]] assms(1) by (simp add: hashes_apart_def)
    show "f_hash ` set (m' c) \<inter> f_hash ` set (m' d) = {}" if "c \<noteq> d" for c d
    proof -
      have "f_hash ` set (m c) \<inter> f_hash ` set (m d) = {}" using assms(1) that unfolding hashes_apart_def by blast
      then show ?thesis using sub [of c] sub [of d] by blast
    qed
  qed
qed

lemma recorded_apart:
  assumes "filePhase2Decode te de req packs content = Inr (fs, ws)"
  shows "hashes_apart fs"
proof -
  obtain raw m where m: "materializeRecordedFindings te packs raw = (m, ws)" "fs = applyFindingRedactor (rq_redactor req) m"
    using assms by (auto simp: filePhase2Decode_def Let_def split: if_splits sum.splits prod.splits)
  have hash: "map f_hash (applyFindingRedactor red m c) = map f_hash (m c)" for red c
    by (simp add: applyFindingRedactor_def redact_finding_def comp_def split: option.split)
  then have "f_hash ` set (applyFindingRedactor red m c) = f_hash ` set (m c)" for red c
    by (metis list.set_map)
  then show ?thesis using materialize_sound [OF m(1)] hash by (simp add: m(2) hashes_apart_def)
qed

text \<open>When findings are recorded through a tool, no two findings of a run have the same hash, so each has a
  lifecycle of its own in the state of the project; the categories of the packs are distinct.\<close>
theorem recorded_findings_have_distinct_hashes:
  assumes "runChunks te de packs factory mode req respond n prompt_ws answer content = (r, err)"
    and "rq_mode req \<noteq> Phase2ModeNone" "distinct (enabledCategories packs)"
  shows "distinct (map f_hash (ar_findings r))"
proof (cases "ar_findings r = []")
  case False
  obtain r0 r1 where f: "ar_findings r0 = []" "ar_findings r1 = ar_findings r"
      "finish_phase2 req packs (runPhase2 te de req packs prompt_ws answer content) r0 = (r1, None)"
    using findings_from_phase2 [OF disjI1 [OF assms(1)] False] by blast
  obtain fs ws where p2: "runPhase2 te de req packs prompt_ws answer content = ((fs, ws), None)"
    using f(3) by (auto simp: finish_phase2_def Let_def split: prod.splits option.splits)
  then obtain ws' where "filePhase2Decode te de req packs content = Inr (fs, ws')"
    using assms(2)
    by (cases "rq_mode req")
       (auto simp: runPhase2_def phase2_decode_def split: session_answer.splits provider_error.splits sum.splits)
  then have "hashes_apart (fst (validate_categories req packs (enabledCategories packs) fs))"
    using recorded_apart hashes_apart_subseq validate_categories_subseq by blast
  moreover have "ar_findings r = orderedByCategory (fst (validate_categories req packs (enabledCategories packs) fs)) (enabledCategories packs)"
    using f p2 by (auto simp: finish_phase2_def Let_def split: prod.splits)
  ultimately show ?thesis using ordered_distinct [OF _ assms(3)] by simp
qed simp

section \<open>What the rules leave open\<close>

text \<open>A parallel run in which the provider fails on every chunk ends without an error, the sequential
  run with one.\<close>

lemma all_failed_fold:
  "\<forall>i \<in> set is. answer i = Failed ProviderError \<Longrightarrow>
   fold (merge_chunk de packs answer) is (ms, c, ws) = (ms, c, ws @ map ChunkFailed is)"
  by (induction "is" arbitrary: ws) (simp_all add: merge_chunk_def)

theorem failed_parallel_run_has_no_error:
  assumes "\<forall>i p. respond i p = Failed ProviderError" "n > 1" "enabledCategories packs \<noteq> []"
  shows "runChunks te de packs True ModeParallel req respond n prompt_ws answer content =
      (empty_result\<lparr>ar_warnings := map ChunkFailed [0..<n]\<rparr>, None)"
    and "snd (runChunks te de packs True ModeSequential req respond n prompt_ws answer content) = Some (Phase1Failed ProviderError)"
proof -
  have "fold (merge_chunk de packs (\<lambda>i. respond i [])) [0..<n] (\<lambda>_. [], 0, []) = (\<lambda>_. [], 0, map ChunkFailed [0..<n])"
    using assms(1) all_failed_fold [of "[0..<n]" "\<lambda>i. respond i []" de packs "\<lambda>_. []" 0 "[]"] by simp
  moreover have "\<not> list_ex (\<lambda>i. respond i [] = Failed RateLimit) [0..<n]" using assms(1) by (simp add: list_ex_iff)
  ultimately have p1: "runPhase1 de packs ModeParallel respond n = (\<lambda>_. [], 0, map ChunkFailed [0..<n], None)"
    using assms(2) by (simp add: runPhase1_def runPhase1Parallel_def)
  have none: "orderedByCategory (\<lambda>_. []) order = ([] :: mistake list)" for order
    by (simp add: orderedByCategory_def)
  show "runChunks te de packs True ModeParallel req respond n prompt_ws answer content =
      (empty_result\<lparr>ar_warnings := map ChunkFailed [0..<n]\<rparr>, None)"
    using assms(2,3) by (simp add: runChunks_def p1 none empty_result_def)
  obtain k where k: "n = Suc k" using assms(2) by (cases n) simp_all
  have "runPhase1 de packs ModeSequential respond n = (\<lambda>_. [], 0, [ChunkAborted 0], Some (Phase1Failed ProviderError))"
    using assms(1) by (simp add: runPhase1_def runPhase1Sequential_def k)
  then show "snd (runChunks te de packs True ModeSequential req respond n prompt_ws answer content) = Some (Phase1Failed ProviderError)"
    using assms(2,3) by (simp add: runChunks_def)
qed

section \<open>Instances\<close>

definition doc_pack :: rule_pack where
  "doc_pack = \<lparr>pk_category = ''doc'', pk_enabled = True, pk_threshold = Finite (1 / 2)\<rparr>"

definition sample_guardrail :: guardrail_input where
  "sample_guardrail = \<lparr>g_kind = [], g_tool = ''t'', g_rule = ''r'', g_config = [], g_apply = None\<rparr>"

definition sample_raw :: "string \<Rightarrow> rat \<Rightarrow> raw_finding" where
  "sample_raw m x = \<lparr>rf_mistake = m, rf_guardrail = sample_guardrail, rf_evidence = [], rf_confidence = Finite x\<rparr>"

definition sample_decoders :: decoders where
  "sample_decoders =
     \<lparr>dec_phase1 = \<lambda>t. if t = ''a'' then
          Some (''sum'', [(''doc'', [\<lparr>m_category = [], m_summary = ''s'', m_excerpt = [], m_confidence = Finite 1\<rparr>])]) else None,
      dec_phase2 = \<lambda>t. if t = ''b'' then Some [(''doc'', [sample_raw ''m'' 1, sample_raw ''weak'' (1 / 4)])] else None,
      dec_finding = sample_unmarshal\<rparr>"

definition sample_text_env :: text_env where
  "sample_text_env = \<lparr>sha256_hex = \<lambda>s. s, ulower = \<lambda>s. s\<rparr>"

definition plain_request :: phase_request where
  "plain_request = \<lparr>rq_dry_run = False, rq_strict = True, rq_validator = None, rq_existing = \<lambda>h. False,
     rq_mode = Phase2ModeNone, rq_output = [], rq_redactor = None\<rparr>"

definition sample_run :: "rule_pack list \<Rightarrow> phase_request \<Rightarrow> string option \<Rightarrow> analysis_result \<times> analysis_error option" where
  "sample_run packs req content =
     runChunks sample_text_env sample_decoders packs True ModeParallel req (\<lambda>i p. Answered ''a'') 2 [] (Answered ''b'') content"

lemma sample_run_findings: "map f_mistake (ar_findings (fst (sample_run [doc_pack] plain_request None))) = [''m'']"
  "ar_completed (fst (sample_run [doc_pack] plain_request None)) = [''doc'']"
  by code_simp+

text \<open>A linter that knows the rule and does not allow it, in a permissive run.\<close>

definition lint_pack :: rule_pack where
  "lint_pack = \<lparr>pk_category = ''lint-rule'', pk_enabled = True, pk_threshold = Finite (1 / 2)\<rparr>"

definition lint_request :: phase_request where
  "lint_request = plain_request\<lparr>rq_strict := False, rq_validator := Some (\<lambda>tool rule. (rule \<noteq> ''r'', True))\<rparr>"

definition lint_decoders :: decoders where
  "lint_decoders = sample_decoders\<lparr>
     dec_phase1 := \<lambda>t. Some (''sum'', [(''lint-rule'', [\<lparr>m_category = [], m_summary = ''s'', m_excerpt = [], m_confidence = Finite 1\<rparr>])]),
     dec_phase2 := \<lambda>t. Some [(''lint-rule'', [sample_raw ''m'' 1, sample_raw ''weak'' (1 / 4)])]\<rparr>"

definition lint_run :: "analysis_result \<times> analysis_error option" where
  "lint_run = runChunks sample_text_env lint_decoders [lint_pack] True ModeParallel lint_request
     (\<lambda>i p. Answered ''a'') 2 [] (Answered ''b'') None"

theorem findings_admissible_witness:
  "map (\<lambda>f. (f_mistake f, f_unverified f)) (ar_findings (fst lint_run)) = [(''m'', True)] \<and>
   lint_offence lint_request (hd (ar_findings (fst lint_run))) \<and> reaches lint_pack (hd (ar_findings (fst lint_run)))"
proof -
  have found: "map (\<lambda>f. (f_mistake f, f_unverified f)) (ar_findings (fst lint_run)) = [(''m'', True)]"
    by code_simp
  then have f: "hd (ar_findings (fst lint_run)) \<in> set (ar_findings (fst lint_run))" "f_unverified (hd (ar_findings (fst lint_run)))"
    by auto
  have run: "runChunks sample_text_env lint_decoders [lint_pack] True ModeParallel lint_request (\<lambda>i p. Answered ''a'') 2 []
      (Answered ''b'') None = (fst lint_run, snd lint_run)" by (simp add: lint_run_def)
  have "admissible lint_request [lint_pack] (hd (ar_findings (fst lint_run))) \<and>
      (\<exists>p \<in> set [lint_pack]. reaches p (hd (ar_findings (fst lint_run))))"
    using findings_admissible [OF disjI1 [OF run] f(1)] by auto
  with f(2) found show ?thesis by (simp add: admissible_def)
qed

theorem completed_run_covers_transcript_witness:
  "snd (sample_run [doc_pack] plain_request None) = None \<and> length (ar_mistakes (fst (sample_run [doc_pack] plain_request None))) = 2"
proof -
  have "snd (sample_run [doc_pack] plain_request None) = None"
    using completed_run_covers_transcript [of sample_text_env sample_decoders "[doc_pack]" True ModeParallel plain_request
        "\<lambda>i p. Answered ''a''" 2 "[]" "Answered ''b''" None "fst (sample_run [doc_pack] plain_request None)"
        "snd (sample_run [doc_pack] plain_request None)"] sample_run_findings(2)
    by (simp add: sample_run_def [symmetric])
  moreover have "length (ar_mistakes (fst (sample_run [doc_pack] plain_request None))) = 2" by code_simp
  ultimately show ?thesis by simp
qed

theorem parallel_matches_sequential_witness:
  "runPhase1 sample_decoders [doc_pack] ModeParallel (\<lambda>i p. Answered ''a'') 2 =
   runPhase1 sample_decoders [doc_pack] ModeSequential (\<lambda>i p. Answered ''a'') 2"
proof (rule parallel_matches_sequential)
  have "stripCodeFence ''a'' = ''a''" "trim_space (clampSummary ''sum'') \<noteq> []" by code_simp+
  then show "\<forall>i < 2. steady sample_decoders [doc_pack] (\<lambda>i p. Answered ''a'') i"
    by (auto simp: steady_def parsePhase1Response_def sample_decoders_def Let_def split: prod.splits)
qed

definition recording_request :: phase_request where
  "recording_request = plain_request\<lparr>rq_mode := Phase2ModeMCP, rq_output := ''/tmp/f''\<rparr>"

theorem recorded_findings_have_distinct_hashes_witness:
  "distinct (map f_hash (ar_findings (fst (sample_run [doc_pack] recording_request (Some (lines_text [''{m}'', ''{m}''])))))) \<and>
   map f_mistake (fst (materializeRecordedFindings sample_text_env [doc_pack] [sample_recorded, sample_recorded]) ''doc'') = [''m'']"
proof -
  let ?c = "Some (lines_text [''{m}'', ''{m}''])"
  have "distinct (map f_hash (ar_findings (fst (sample_run [doc_pack] recording_request ?c))))"
  proof (rule recorded_findings_have_distinct_hashes)
    show "runChunks sample_text_env sample_decoders [doc_pack] True ModeParallel recording_request (\<lambda>i p. Answered ''a'') 2 []
        (Answered ''b'') ?c = (fst (sample_run [doc_pack] recording_request ?c), snd (sample_run [doc_pack] recording_request ?c))"
      by (simp add: sample_run_def)
  qed (simp_all add: recording_request_def enabledCategories_def doc_pack_def)
  moreover have "map f_mistake (fst (materializeRecordedFindings sample_text_env [doc_pack] [sample_recorded, sample_recorded]) ''doc'') = [''m'']"
    by code_simp
  ultimately show ?thesis by simp
qed

text \<open>Two packs of one category duplicate every finding of it.\<close>

theorem shared_category_duplicates_findings:
  "map f_mistake (ar_findings (fst (sample_run [doc_pack, doc_pack] plain_request None))) = [''m'', ''m'']"
  by code_simp

text \<open>A finding recorded for a category with a capital letter is accepted and then dropped.\<close>

theorem capital_category_dropped:
  "validateFinding (registerCategory (\<lambda>s. s) ''Docs'' builtin_categories)
     (normalizeFinding (\<lambda>s. s) (sample_input\<lparr>in_category := ''Docs''\<rparr>)) = None"
  "fst (materializeRecordedFindings sample_text_env [doc_pack\<lparr>pk_category := ''Docs''\<rparr>]
     [normalizeFinding (\<lambda>s. s) (sample_input\<lparr>in_category := ''Docs''\<rparr>)]) ''Docs'' = []"
  "snd (materializeRecordedFindings sample_text_env [doc_pack\<lparr>pk_category := ''Docs''\<rparr>]
     [normalizeFinding (\<lambda>s. s) (sample_input\<lparr>in_category := ''Docs''\<rparr>)]) = [UnknownRecorded ''docs'']"
  by code_simp+

text \<open>Different findings can have the same hash: the separator is not escaped.\<close>

theorem hash_not_injective:
  "hash_preimage te (buildFinding te ''doc'' ''a|b'' x (sample_guardrail\<lparr>g_tool := ''c''\<rparr>) []) =
   hash_preimage te (buildFinding te ''doc'' ''a'' x (sample_guardrail\<lparr>g_tool := ''b|c''\<rparr>) [])"
proof -
  have n: "normalizeForHash ''a|b'' = ''a|b''" "normalizeForHash ''a'' = ''a''" "trim_space ''c'' = ''c''" "trim_space ''b|c'' = ''b|c''"
    by code_simp+
  show ?thesis
    by (simp add: hash_preimage_def buildFinding_def Let_def n sample_guardrail_def to_lower_def is_ascii_def lower_byte_def)
qed

end
