(* ===== verification/RunCache.thy ===== *)
theory RunCache
  imports StateStore Orchestrator "HOL-Library.List_Lexorder" "HOL-Library.Char_ord"
begin

text \<open>
  What an analysis remembers between runs: \<open>internal/pipeline/cache.go\<close> and
  \<open>discovery_cache.go\<close>. A discovered source carries the outcome of hashing its content; the
  formatting of a threshold with \<open>%g\<close> is a parameter.
\<close>

section \<open>Cache keys of sources\<close>

record chat_source =
  cs_path :: string
  cs_hash :: "string option"
  cs_mtime :: int

record cache_key_stats =
  ks_cached :: nat
  ks_changed :: nat
  ks_fresh :: nat
  ks_kept :: nat
  ks_dropped :: nat

definition zero_stats :: cache_key_stats where
  "zero_stats = \<lparr>ks_cached = 0, ks_changed = 0, ks_fresh = 0, ks_kept = 0, ks_dropped = 0\<rparr>"

definition count_key :: "string option \<Rightarrow> string \<Rightarrow> cache_key_stats \<Rightarrow> cache_key_stats" where
  "count_key existing key st =
     (case existing of
        None \<Rightarrow> st\<lparr>ks_fresh := ks_fresh st + 1\<rparr>
      | Some k \<Rightarrow> if k \<noteq> key then st\<lparr>ks_changed := ks_changed st + 1\<rparr> else st\<lparr>ks_cached := ks_cached st + 1\<rparr>)"

definition cache_key_step ::
    "(string \<Rightarrow> string) \<Rightarrow> string dict \<Rightarrow> string \<Rightarrow> chat_source \<Rightarrow> string dict \<times> cache_key_stats \<Rightarrow> string dict \<times> cache_key_stats" where
  "cache_key_step sha prior head src acc =
     (case acc of (out, st) \<Rightarrow>
      case cs_hash src of
        None \<Rightarrow>
          (case map_of prior (cs_path src) of
             Some k \<Rightarrow> (AList.update (cs_path src) k out, st\<lparr>ks_kept := ks_kept st + 1\<rparr>)
           | None \<Rightarrow> (out, st\<lparr>ks_dropped := ks_dropped st + 1\<rparr>))
      | Some h \<Rightarrow>
          (let key = chatCacheKey sha (cs_path src) h head
           in (AList.update (cs_path src) key out, count_key (map_of prior (cs_path src)) key st)))"

definition computeCacheKeys ::
    "(string \<Rightarrow> string) \<Rightarrow> chat_source list \<Rightarrow> string dict \<Rightarrow> string \<Rightarrow> string dict \<times> cache_key_stats" where
  "computeCacheKeys sha sources prior head = fold (cache_key_step sha prior head) sources ([], zero_stats)"

definition cacheUnchanged :: "project_state option \<Rightarrow> string dict \<Rightarrow> string \<Rightarrow> bool" where
  "cacheUnchanged st keys head \<longleftrightarrow>
     (case st of
        None \<Rightarrow> False
      | Some s \<Rightarrow>
          LastRunUTC s \<noteq> zero_time \<and> RepoHeadSHA s = head \<and>
          length keys = length (or_empty (ChatHashes s)) \<and>
          list_all (\<lambda>(path, key). map_of (or_empty (ChatHashes s)) path = Some key) keys)"

section \<open>The discovery cache\<close>

record discovery_entry =
  en_mtimes :: "int dict"
  en_head :: string

type_synonym discovery_cache = "string \<Rightarrow> discovery_entry option"

definition discovery_check :: "discovery_cache \<Rightarrow> string \<Rightarrow> chat_source list \<Rightarrow> string \<Rightarrow> bool" where
  "discovery_check c project sources head =
     (case c project of
        None \<Rightarrow> False
      | Some e \<Rightarrow>
          en_head e = head \<and> length (en_mtimes e) = length sources \<and>
          list_all (\<lambda>s. map_of (en_mtimes e) (cs_path s) = Some (cs_mtime s)) sources)"

definition discovery_update :: "discovery_cache \<Rightarrow> string \<Rightarrow> chat_source list \<Rightarrow> string \<Rightarrow> discovery_cache" where
  "discovery_update c project sources head =
     c(project := Some \<lparr>en_mtimes = fold (\<lambda>s. AList.update (cs_path s) (cs_mtime s)) sources [], en_head = head\<rparr>)"

section \<open>What a run adds to the state\<close>

definition finding_key :: "text_env \<Rightarrow> finding \<Rightarrow> string" where
  "finding_key te f = to_lower (ulower te) (trim_space (f_hash f))"

definition record_spec :: "text_env \<Rightarrow> string \<Rightarrow> finding \<Rightarrow> finding_state dict \<Rightarrow> finding_state dict" where
  "record_spec te projectName f fs =
     (let hash = finding_key te f in
      case g_apply (f_guardrail f) of
        None \<Rightarrow> fs
      | Some a \<Rightarrow>
          if hash = [] then fs
          else
            let spec = \<lparr>Category = f_category f, TargetFile = ap_target a, Strategy = ap_strategy a,
                        Anchor = ap_anchor a, Snippet = ap_snippet a\<rparr>;
                e = (case map_of fs hash of Some e \<Rightarrow> e | None \<Rightarrow> zero_finding);
                e1 = e\<lparr>ApplySpec := Some spec\<rparr>
            in AList.update hash (if ProjectName e1 = [] then e1\<lparr>ProjectName := projectName\<rparr> else e1) fs)"

definition recordFindingApplySpecs :: "text_env \<Rightarrow> string \<Rightarrow> finding list \<Rightarrow> project_state \<Rightarrow> project_state" where
  "recordFindingApplySpecs te projectName fs s =
     s\<lparr>Findings := Some (fold (record_spec te projectName) fs (or_empty (Findings s)))\<rparr>"

definition collectFindingHashes :: "finding list \<Rightarrow> string list" where
  "collectFindingHashes fs = map f_hash (filter (\<lambda>f. trim_space (f_hash f) \<noteq> []) fs)"

definition MaxFindingHashes :: nat where "MaxFindingHashes = 5000"

definition mergeHashLists :: "string list \<Rightarrow> string list \<Rightarrow> string list" where
  "mergeHashLists base addition =
     (let merged = dedup_by (\<lambda>h. h) {} (base @ addition)
      in if length merged > MaxFindingHashes then drop (length merged - MaxFindingHashes) merged else merged)"

definition collectDismissedHashes :: "project_state \<Rightarrow> string \<Rightarrow> bool" where
  "collectDismissedHashes s h \<longleftrightarrow>
     h \<in> set (FindingHashes s) \<or>
     list_ex (\<lambda>(k, e). k = h \<and> Status e = FindingStatusDismissed) (or_empty (Findings s))"

definition pruneLastRunPerCategory :: "rule_pack list \<Rightarrow> int dict \<Rightarrow> int dict" where
  "pruneLastRunPerCategory packs m = filter (\<lambda>(c, _). c \<in> set (map pk_category packs)) m"

definition ProviderUsageMaxAge :: int where "ProviderUsageMaxAge = 30 * 24 * 3600 * 10 ^ 9"

definition pruneProviderUsage :: "int \<Rightarrow> string \<Rightarrow> provider_usage dict \<Rightarrow> provider_usage dict" where
  "pruneProviderUsage now active m =
     filter (\<lambda>(p, u). p = active \<or>
       LastSuccessUTC u \<noteq> zero_time \<and> \<not> time_sub now (LastSuccessUTC u) > ProviderUsageMaxAge) m"

section \<open>Mistakes kept for a second attempt\<close>

record prompt_pack = rule_pack +
  pp_template :: string
  pp_preamble :: string
  pp_description :: string
  pp_schema :: string

definition effective_description :: "prompt_pack \<Rightarrow> string" where
  "effective_description p = (let d = trim_space (pp_description p) in if d \<noteq> [] then d else pk_category p)"

definition pack_line :: "(float64 \<Rightarrow> string) \<Rightarrow> prompt_pack \<Rightarrow> string" where
  "pack_line fmt_g p =
     ''pack='' @ pk_category p @ ''|threshold='' @ fmt_g (pk_threshold p) @ ''|tpl='' @ pp_template p @
     ''|preamble='' @ trim_space (pp_preamble p) @ ''|desc='' @ effective_description p @
     ''|schema='' @ trim_space (pp_schema p) @ [newline]"

definition phase1CacheKey ::
    "(string \<Rightarrow> string) \<Rightarrow> (float64 \<Rightarrow> string) \<Rightarrow> string dict \<Rightarrow> string \<Rightarrow> string \<Rightarrow> prompt_pack list \<Rightarrow> string" where
  "phase1CacheKey sha fmt_g keys head since packs =
     sha (concat (map (\<lambda>(p, k). p @ ''='' @ k @ [newline]) (sort_key fst keys)) @
          ''repo_head='' @ head @ [newline] @ ''since='' @ trim_space since @ [newline] @
          concat (map (pack_line fmt_g) (filter pk_enabled packs)))"

text \<open>Mistakes grouped by a category, as an association list.\<close>

type_synonym mistake_groups = "mistake list dict"

definition to_cached :: "mistake \<Rightarrow> cached_mistake" where
  "to_cached m = \<lparr>MistakeCategory = m_category m, Summary = m_summary m,
     EvidenceExcerpt = m_excerpt m, Confidence = m_confidence m\<rparr>"

definition of_cached :: "cached_mistake \<Rightarrow> mistake" where
  "of_cached c = \<lparr>m_category = MistakeCategory c, m_summary = Summary c,
     m_excerpt = EvidenceExcerpt c, m_confidence = Confidence c\<rparr>"

definition mistakesToCached :: "mistake_groups \<Rightarrow> cached_mistake list dict" where
  "mistakesToCached ms = map (\<lambda>(c, l). (c, map to_cached l)) ms"

definition cachedToMistakes :: "cached_mistake list dict \<Rightarrow> mistake_groups" where
  "cachedToMistakes ms = map (\<lambda>(c, l). (c, map of_cached l)) ms"

definition savePhase1Cache :: "int \<Rightarrow> mistake_groups \<Rightarrow> string \<Rightarrow> project_state \<Rightarrow> project_state" where
  "savePhase1Cache now ms key s =
     s\<lparr>CachedPhase1 := Some \<lparr>Mistakes = mistakesToCached ms, CacheKey = key, Timestamp = now\<rparr>\<rparr>"

definition loadPhase1Cache :: "string \<Rightarrow> project_state \<Rightarrow> mistake_groups option \<times> project_state" where
  "loadPhase1Cache key s =
     (case CachedPhase1 s of
        None \<Rightarrow> (None, s)
      | Some c \<Rightarrow>
          if CacheKey c \<noteq> key then (None, s\<lparr>CachedPhase1 := None\<rparr>)
          else (Some (cachedToMistakes (Mistakes c)), s))"

definition clearPhase1Cache :: "project_state \<Rightarrow> project_state" where
  "clearPhase1Cache s = s\<lparr>CachedPhase1 := None\<rparr>"

definition add_mistake :: "mistake \<Rightarrow> mistake_groups \<Rightarrow> mistake_groups" where
  "add_mistake m out =
     AList.update (m_category m)
       ((case map_of out (m_category m) of Some l \<Rightarrow> l | None \<Rightarrow> []) @ [m]) out"

definition mistakesFromResult :: "analysis_result \<Rightarrow> mistake_groups" where
  "mistakesFromResult r = fold add_mistake (ar_mistakes r) []"

definition by_group :: "mistake_groups \<Rightarrow> mistake by_category" where
  "by_group ms c = (case map_of ms c of Some l \<Rightarrow> l | None \<Rightarrow> [])"

section \<open>Keys of a run\<close>

definition key_value ::
    "(string \<Rightarrow> string) \<Rightarrow> string option \<Rightarrow> string \<Rightarrow> string \<Rightarrow> chat_source \<Rightarrow> string option \<Rightarrow> string option" where
  "key_value sha old head p src v =
     (if cs_path src \<noteq> p then v
      else case cs_hash src of
        Some h \<Rightarrow> Some (chatCacheKey sha p h head)
      | None \<Rightarrow> (case old of Some k \<Rightarrow> Some k | None \<Rightarrow> v))"

lemma cache_keys_lookup_fold:
  "map_of (fst (fold (cache_key_step sha prior head) sources acc)) p =
   fold (key_value sha (map_of prior p) head p) sources (map_of (fst acc) p)"
  by (induction sources arbitrary: acc)
     (auto simp: cache_key_step_def key_value_def update_conv Let_def split: prod.splits option.splits)

lemma computeCacheKeys_lookup:
  "map_of (fst (computeCacheKeys sha sources prior head)) p =
   fold (key_value sha (map_of prior p) head p) sources None"
  by (simp add: computeCacheKeys_def cache_keys_lookup_fold)

lemma computeCacheKeys_distinct: "distinct (map fst (fst (computeCacheKeys sha sources prior head)))"
proof -
  have "distinct (map fst (fst acc)) \<Longrightarrow>
      distinct (map fst (fst (fold (cache_key_step sha prior head) sources acc)))" for acc
    by (induction sources arbitrary: acc)
       (auto simp: cache_key_step_def distinct_update Let_def split: prod.splits option.splits)
  then show ?thesis by (simp add: computeCacheKeys_def)
qed

text \<open>Keys computed from the keys of a run are those keys.\<close>

lemma key_value_stable:
  "w = fold (key_value sha old head p) sources None \<Longrightarrow> fold (key_value sha w head p) sources None = w"
proof (induction sources arbitrary: w rule: rev_induct)
  case (snoc x xs)
  then show ?case by (auto simp: key_value_def split: option.splits if_splits)
qed simp

lemma computeCacheKeys_stable:
  assumes "map_of prior = map_of (fst (computeCacheKeys sha sources old head))"
  shows "map_of (fst (computeCacheKeys sha sources prior head)) = map_of prior"
proof
  fix p
  show "map_of (fst (computeCacheKeys sha sources prior head)) p = map_of prior p"
    using key_value_stable [of "map_of prior p" sha "map_of old p" head p sources]
    by (simp add: computeCacheKeys_lookup assms)
qed

lemma same_lookup_same_length:
  assumes "distinct (map fst xs)" "distinct (map fst ys)" "map_of xs = map_of ys"
  shows "length xs = length ys"
proof -
  have "length zs = card (dom (map_of zs))" if "distinct (map fst zs)" for zs :: "('k \<times> 'v) list"
    using that by (metis distinct_card dom_map_of_conv_image_fst length_map list.set_map)
  then show ?thesis using assms by metis
qed

lemma cacheUnchanged_iff:
  assumes "distinct (map fst keys)" "distinct (map fst (or_empty (ChatHashes s)))"
  shows "cacheUnchanged (Some s) keys head \<longleftrightarrow>
    LastRunUTC s \<noteq> zero_time \<and> RepoHeadSHA s = head \<and> map_of keys = map_of (or_empty (ChatHashes s))"
proof
  assume hit: "cacheUnchanged (Some s) keys head"
  let ?h = "or_empty (ChatHashes s)"
  have len: "length keys = length ?h" and sub: "map_of ?h p = Some k" if "map_of keys p = Some k" for p k
    using hit map_of_SomeD [OF that] by (auto simp: cacheUnchanged_def list_all_iff)
  have "dom (map_of keys) = dom (map_of ?h)"
  proof (rule card_subset_eq)
    have "card (dom (map_of keys)) = length keys" "card (dom (map_of ?h)) = length ?h"
      using assms by (metis distinct_card dom_map_of_conv_image_fst length_map list.set_map)+
    moreover have "length keys = length ?h" using hit by (simp add: cacheUnchanged_def)
    ultimately show "card (dom (map_of keys)) = card (dom (map_of ?h))" by simp
    show "dom (map_of keys) \<subseteq> dom (map_of ?h)" using sub by blast
  qed (simp add: finite_dom_map_of)
  moreover have "map_of keys p = map_of ?h p" if "p \<in> dom (map_of keys)" for p
    using that sub by auto
  ultimately have "map_of keys = map_of ?h" by (metis map_le_antisym map_le_def)
  then show "LastRunUTC s \<noteq> zero_time \<and> RepoHeadSHA s = head \<and> map_of keys = map_of ?h"
    using hit by (simp add: cacheUnchanged_def)
next
  assume "LastRunUTC s \<noteq> zero_time \<and> RepoHeadSHA s = head \<and> map_of keys = map_of (or_empty (ChatHashes s))"
  moreover have "map_of keys p = Some k" if "(p, k) \<in> set keys" for p k
    using that assms(1) by simp
  ultimately show "cacheUnchanged (Some s) keys head"
    using same_lookup_same_length [OF assms] by (auto simp: cacheUnchanged_def list_all_iff)
qed

section \<open>Finding hashes\<close>

lemma mergeHashLists_bounded:
  "distinct (mergeHashLists base addition) \<and> length (mergeHashLists base addition) \<le> MaxFindingHashes \<and>
   set (mergeHashLists base addition) \<subseteq> set base \<union> set addition"
proof -
  let ?m = "dedup_by (\<lambda>h. h) {} (base @ addition)"
  have "distinct ?m" using dedup_by_distinct [of "\<lambda>h. h" "{}" "base @ addition"] by simp
  moreover have "set ?m \<subseteq> set base \<union> set addition"
    using dedup_by_subset [of "\<lambda>h. h" "{}" "base @ addition"] by simp
  moreover from this have "set (drop k ?m) \<subseteq> set base \<union> set addition" for k
    using set_drop_subset [of k ?m] by blast
  ultimately show ?thesis by (simp add: mergeHashLists_def Let_def)
qed

text \<open>Up to the cap, new hashes are kept whatever the base.\<close>

lemma mergeHashLists_keeps_new:
  assumes "set addition \<inter> set base = {}" "length addition \<le> MaxFindingHashes"
  shows "set addition \<subseteq> set (mergeHashLists base addition)"
proof -
  let ?new = "dedup_by (\<lambda>h. h) (set base) addition"
  have m: "dedup_by (\<lambda>h. h) {} (base @ addition) = dedup_by (\<lambda>h. h) {} base @ ?new"
    by (simp add: dedup_by_append)
  have new: "set ?new = set addition"
    using dedup_by_keys [of "\<lambda>h. h" "set base" addition] assms(1) by auto
  have "length ?new \<le> MaxFindingHashes"
    using dedup_by_length [of "\<lambda>h. h" "set base" addition] assms(2) by linarith
  then have "set ?new \<subseteq> set (mergeHashLists base addition)" by (auto simp: mergeHashLists_def Let_def m)
  with new show ?thesis by simp
qed

section \<open>Mistakes kept and replayed\<close>

lemma cached_roundtrip: "cachedToMistakes (mistakesToCached ms) = ms"
proof -
  have "of_cached (to_cached m) = m" for m by (simp add: of_cached_def to_cached_def)
  then have "map of_cached (map to_cached l) = l" for l by (induction l) auto
  then show ?thesis by (induction ms) (auto simp: cachedToMistakes_def mistakesToCached_def)
qed

lemma add_mistake_group: "by_group (add_mistake m g) c = by_group g c @ (if m_category m = c then [m] else [])"
  by (auto simp: by_group_def add_mistake_def update_conv split: option.splits)

lemma fold_add_mistake: "by_group (fold add_mistake ms g) c = by_group g c @ filter (\<lambda>m. m_category m = c) ms"
  by (induction ms arbitrary: g) (simp_all add: add_mistake_group)

lemma mistakesFromResult_group:
  "by_group (mistakesFromResult r) c = filter (\<lambda>m. m_category m = c) (ar_mistakes r)"
  by (simp add: mistakesFromResult_def fold_add_mistake) (simp add: by_group_def)

text \<open>Every mistake is filed under the category it names.\<close>

definition filed_by_category :: "mistake by_category \<Rightarrow> bool" where
  "filed_by_category ms \<longleftrightarrow> (\<forall>c. \<forall>m \<in> set (ms c). m_category m = c)"

lemma regrouped_order:
  assumes "filed_by_category ms" "distinct order"
    and "ar_mistakes r = orderedByCategory ms order"
  shows "orderedByCategory (by_group (mistakesFromResult r)) order = ar_mistakes r"
proof -
  have own: "filter (\<lambda>m. m_category m = c) (ms d) = (if c = d then ms d else [])" for c d
    using assms(1) by (auto simp: filed_by_category_def filter_empty_conv filter_id_conv)
  have one: "filter (\<lambda>m. m_category m = c) (concat (map ms ds)) = (if c \<in> set ds then ms c else [])"
    if "distinct ds" for c ds
    using that by (induction ds) (auto simp: own)
  have "by_group (mistakesFromResult r) c = ms c" if "c \<in> set order" for c
    using one [OF assms(2), of c] that by (simp add: mistakesFromResult_group assms(3) orderedByCategory_def)
  then show ?thesis by (simp add: assms(3) orderedByCategory_def cong: map_cong)
qed

end
