(* ===== verification/PipelineRun.thy ===== *)
theory PipelineRun
  imports RunCache History
begin

text \<open>
  One run of the analysis of a project over its stored state, \<open>internal/pipeline/pipeline.go\<close>: \<open>Run\<close>
  with its stages caching, transcript preparation, analysis and persistence. Discovery, reading of
  transcripts, construction of the provider, its answers, the writer of the todos file (the
  function variable \<open>persistFindings\<close>), the clock and which writes succeed are fields of the
  environment, and so is what other writers of the state file do before each save. A failed save
  leaves the directory as it was, up to a backup of an older document that no load reads. Events,
  logs, the invalidation of the read cache of the web server, the copy of the todos into the project
  and the toolchain and prompt ingredients are left out; the writer of the todos file is the theory
  \<open>Todos\<close>, the blocks of the transcript are those of \<open>Transcripts\<close>.
\<close>

section \<open>The environment of a run\<close>

record transcript =
  tp_packs :: "prompt_pack list"
  tp_used :: int
  tp_messages :: int
  tp_hits :: int
  tp_chunks :: nat

record run_env =
  pe_text :: text_env
  pe_fmt_g :: "float64 \<Rightarrow> string"
  pe_path :: string
  pe_name :: string
  pe_provider :: string
  pe_head :: string
  pe_sources :: "chat_source list"
  pe_since :: string
  pe_force :: bool
  pe_dry_run :: bool
  pe_permissive :: bool
  pe_parallel :: bool
  pe_supports_parallel :: bool
  pe_transcript :: "transcript option"
  pe_provider_ok :: bool
  pe_start :: "(string \<times> bool) option"
  pe_validator :: "string \<Rightarrow> string \<Rightarrow> bool \<times> bool"
  pe_phase2 :: phase2_mode
  pe_phase2_file :: string
  pe_phase2_ok :: bool
  pe_redactor :: "(string \<Rightarrow> string) option"
  pe_decoders :: decoders
  pe_respond :: "nat \<Rightarrow> string \<Rightarrow> session_answer"
  pe_prompt_warnings :: "warning list"
  pe_answer2 :: session_answer
  pe_recorded :: "string option"
  pe_error_text :: "analysis_error \<Rightarrow> string \<times> bool"
  pe_todos :: "finding list \<Rightarrow> int option"
  pe_now :: int
  pe_cached_at :: int
  pe_success_at :: int
  pe_prune_at :: "nat \<Rightarrow> int"
  pe_today :: string
  pe_millis :: int
  pe_others :: "nat \<Rightarrow> doc dir \<Rightarrow> doc dir"
  pe_writes :: "string \<Rightarrow> bool"

record world =
  w_state :: "doc dir"
  w_history :: "hdoc dir"
  w_cache :: "discovery_cache option"

datatype run_outcome =
    LoadFailed store_error
  | CacheHit
  | PrepFailed
  | NoMessages
  | NoProvider
  | ProviderNotStarted
  | AnalysisFailed analysis_error analysis_result
  | DryRunDone analysis_result
  | TodosFailed analysis_result
  | SaveFailed store_error analysis_result
  | Completed analysis_result

section \<open>Stages\<close>

text \<open>\<open>None\<close> is a hit.\<close>

definition runCaching :: "run_env \<Rightarrow> discovery_cache option \<Rightarrow> project_state \<Rightarrow> string dict option" where
  "runCaching env cache s =
     (if \<not> pe_force env \<and>
         (case cache of Some c \<Rightarrow> discovery_check c (pe_path env) (pe_sources env) (pe_head env) | None \<Rightarrow> False)
      then None
      else
        let keys = fst (computeCacheKeys (sha256_hex (pe_text env)) (pe_sources env) (or_empty (ChatHashes s)) (pe_head env))
        in if \<not> pe_force env \<and> cacheUnchanged (Some s) keys (pe_head env) then None else Some keys)"

datatype preparation = Unprepared | NothingReadable transcript | Prepared transcript

definition runTranscriptPrep :: "transcript option \<Rightarrow> preparation" where
  "runTranscriptPrep t =
     (case t of
        None \<Rightarrow> Unprepared
      | Some tp \<Rightarrow>
          if \<not> list_ex pk_enabled (tp_packs tp) then Unprepared
          else if tp_messages tp = 0 then NothingReadable tp
          else if tp_chunks tp = 0 then Unprepared
          else Prepared tp)"

definition packs_of :: "transcript \<Rightarrow> rule_pack list" where
  "packs_of tp = map rule_pack.truncate (tp_packs tp)"

definition prune_state :: "int \<Rightarrow> string \<Rightarrow> rule_pack list \<Rightarrow> project_state \<Rightarrow> project_state" where
  "prune_state now active packs s =
     s\<lparr>LastRunPerCategory := map_option (pruneLastRunPerCategory packs) (LastRunPerCategory s),
       ProviderUsage := map_option (pruneProviderUsage now active) (ProviderUsage s)\<rparr>"

text \<open>The \<open>i\<close>-th locked save of a run: prune, load again, merge, write.\<close>

definition savePrunedState ::
    "run_env \<Rightarrow> nat \<Rightarrow> rule_pack list \<Rightarrow> project_state \<Rightarrow> doc dir \<Rightarrow> project_state \<times> store_error option \<times> doc dir" where
  "savePrunedState env i packs s fs =
     (let s1 = prune_state (pe_prune_at env i) (pe_provider env) packs s; fs1 = pe_others env i fs
      in case mergePipelineResult (pe_writes env) s1 fs1 of
           Inl e \<Rightarrow> (s1, Some e, fs1)
         | Inr fs2 \<Rightarrow> (s1, None, fs2))"

definition persistFailureState ::
    "run_env \<Rightarrow> nat \<Rightarrow> rule_pack list \<Rightarrow> project_state \<Rightarrow> doc dir \<Rightarrow> doc dir" where
  "persistFailureState env i packs s fs = snd (snd (savePrunedState env i packs s fs))"

definition resolveExecutionMode :: "bool \<Rightarrow> bool \<Rightarrow> execution_mode" where
  "resolveExecutionMode requested supports = (if requested \<and> supports then ModeParallel else ModeSequential)"

definition setupPhase2Transport :: "bool \<Rightarrow> phase2_mode \<Rightarrow> bool \<Rightarrow> phase2_mode" where
  "setupPhase2Transport dryRun mode built =
     (let m = (if dryRun then Phase2ModeNone else mode)
      in if m \<noteq> Phase2ModeNone \<and> \<not> built then Phase2ModeNone else m)"

definition phase_req :: "run_env \<Rightarrow> project_state \<Rightarrow> phase_request" where
  "phase_req env s =
     \<lparr>rq_dry_run = pe_dry_run env, rq_strict = \<not> pe_permissive env, rq_validator = Some (pe_validator env),
      rq_existing = collectDismissedHashes s,
      rq_mode = setupPhase2Transport (pe_dry_run env) (pe_phase2 env) (pe_phase2_ok env),
      rq_output = pe_phase2_file env, rq_redactor = pe_redactor env\<rparr>"

definition run_key :: "run_env \<Rightarrow> transcript \<Rightarrow> string dict \<Rightarrow> string" where
  "run_key env tp keys =
     phase1CacheKey (sha256_hex (pe_text env)) (pe_fmt_g env) keys (pe_head env) (pe_since env) (tp_packs tp)"

definition dispatch ::
    "run_env \<Rightarrow> transcript \<Rightarrow> project_state \<Rightarrow> mistake_groups option \<Rightarrow> analysis_result \<times> analysis_error option" where
  "dispatch env tp s cached =
     (case (cached, pe_force env) of
        (Some (g # gs), False) \<Rightarrow>
          runPhase2Only (pe_text env) (pe_decoders env) (packs_of tp) True (phase_req env s) (by_group (g # gs))
            (pe_prompt_warnings env) (pe_answer2 env) (pe_recorded env)
      | _ \<Rightarrow>
          runChunks (pe_text env) (pe_decoders env) (packs_of tp) True
            (resolveExecutionMode (pe_parallel env) (pe_supports_parallel env)) (phase_req env s)
            (pe_respond env) (tp_chunks tp) (pe_prompt_warnings env) (pe_answer2 env) (pe_recorded env))"

definition runAnalysis ::
    "run_env \<Rightarrow> transcript \<Rightarrow> string dict \<Rightarrow> project_state \<Rightarrow> doc dir \<Rightarrow>
     (run_outcome + analysis_result \<times> project_state) \<times> doc dir" where
  "runAnalysis env tp keys s fs =
     (if \<not> pe_provider_ok env then (Inl NoProvider, fs)
      else case pe_start env of
        Some err \<Rightarrow>
          (Inl ProviderNotStarted,
           persistFailureState env 0 (packs_of tp) (recordProviderFailure (pe_provider env) (Some err) s) fs)
      | None \<Rightarrow>
          (case loadPhase1Cache (run_key env tp keys) s of (cached, s1) \<Rightarrow>
           case dispatch env tp s cached of
             (r, None) \<Rightarrow> (Inr (r, clearPhase1Cache s1), fs)
           | (r, Some e) \<Rightarrow>
               (case (if ar_mistakes r \<noteq> [] \<and> ar_phase1_complete r
                      then savePrunedState env 0 (packs_of tp)
                             (savePhase1Cache (pe_cached_at env) (mistakesFromResult r) (run_key env tp keys) s1) fs
                      else (s1, None, fs))
                of (s2, _, fs2) \<Rightarrow>
                  (Inl (AnalysisFailed e r),
                   persistFailureState env 1 (packs_of tp)
                     (recordProviderFailure (pe_provider env) (Some (pe_error_text env e)) s2) fs2))))"

section \<open>Persistence of a result\<close>

definition add_stat :: "string \<times> int \<Rightarrow> int dict \<Rightarrow> int dict" where
  "add_stat kv m =
     (case kv of (k, n) \<Rightarrow> AList.update k (i64 ((case map_of m k of Some x \<Rightarrow> x | None \<Rightarrow> 0) + n)) m)"

definition result_state ::
    "run_env \<Rightarrow> transcript \<Rightarrow> string dict \<Rightarrow> analysis_result \<Rightarrow> int \<Rightarrow> project_state \<Rightarrow> project_state" where
  "result_state env tp keys r added s =
     (let s1 = s\<lparr>LastRunUTC := pe_now env, RepoHeadSHA := pe_head env, ChatHashes := Some keys,
                 FindingHashes := mergeHashLists (FindingHashes s) (collectFindingHashes (ar_findings r))\<rparr>;
          s2 = recordFindingApplySpecs (pe_text env) (pe_name env) (ar_findings r) s1;
          s3 = s2\<lparr>LastRunPerCategory := Some (fold (\<lambda>c. AList.update c (pe_now env)) (ar_completed r) (or_empty (LastRunPerCategory s2)))\<rparr>;
          s4 = recordProviderSuccess (pe_provider env) 0 (pe_success_at env) s3
      in s4\<lparr>UsageStats := Some (fold add_stat
             [(''sources_analyzed'', tp_used tp), (''messages_analyzed'', tp_messages tp),
              (''mistakes_found'', int (length (ar_mistakes r))), (''findings_added'', added),
              (''redaction_hits'', tp_hits tp)] (or_empty (UsageStats s4)))\<rparr>)"

definition history_delta :: "run_env \<Rightarrow> analysis_result \<Rightarrow> int \<Rightarrow> project_state \<Rightarrow> day_delta" where
  "history_delta env r added s =
     \<lparr>DeltaRuns = 1, DeltaNew = added, DeltaTotal = int (length (FindingHashes s)), DeltaTokens = 0,
      RunDurationMillis = pe_millis env,
      DeltaPerCategory = fold (\<lambda>f. add_stat (f_category f, 1)) (ar_findings r) []\<rparr>"

definition runOutputAndPersist ::
    "run_env \<Rightarrow> transcript \<Rightarrow> string dict \<Rightarrow> analysis_result \<Rightarrow> project_state \<Rightarrow> world \<Rightarrow> run_outcome \<times> world" where
  "runOutputAndPersist env tp keys r s w =
     (if pe_dry_run env then (DryRunDone r, w)
      else case pe_todos env (ar_findings r) of
        None \<Rightarrow> (TodosFailed r, w)
      | Some added \<Rightarrow>
          (case savePrunedState env 0 (packs_of tp) (result_state env tp keys r added s) (w_state w) of
             (s1, Some e, fs) \<Rightarrow> (SaveFailed e r, w\<lparr>w_state := fs\<rparr>)
           | (s1, None, fs) \<Rightarrow>
               (Completed r,
                \<lparr>w_state = fs,
                 w_history = (case updateHistoryToday (pe_writes env) (pe_today env) (history_delta env r added s1) (w_history w)
                              of Inr h \<Rightarrow> h | Inl _ \<Rightarrow> w_history w),
                 w_cache = map_option (\<lambda>c. discovery_update c (pe_path env) (pe_sources env) (pe_head env)) (w_cache w)\<rparr>)))"

section \<open>A run\<close>

definition run_pipeline :: "run_env \<Rightarrow> world \<Rightarrow> run_outcome \<times> world" where
  "run_pipeline env w =
     (case load_project (w_state w) of
        Inl e \<Rightarrow> (LoadFailed e, w)
      | Inr s \<Rightarrow>
          (case runCaching env (w_cache w) s of
             None \<Rightarrow> (CacheHit, w)
           | Some keys \<Rightarrow>
               (case runTranscriptPrep (pe_transcript env) of
                  Unprepared \<Rightarrow> (PrepFailed, w)
                | NothingReadable tp \<Rightarrow>
                    (NoMessages,
                     w\<lparr>w_state := persistFailureState env 0 (packs_of tp)
                        (s\<lparr>LastRunUTC := pe_now env, RepoHeadSHA := pe_head env, ChatHashes := Some keys\<rparr>) (w_state w)\<rparr>)
                | Prepared tp \<Rightarrow>
                    (case runAnalysis env tp keys s (w_state w) of
                       (Inl out, fs) \<Rightarrow> (out, w\<lparr>w_state := fs\<rparr>)
                     | (Inr (r, s1), fs) \<Rightarrow> runOutputAndPersist env tp keys r s1 (w\<lparr>w_state := fs\<rparr>)))))"

text \<open>Several runs one after the other.\<close>

fun run_all :: "run_env list \<Rightarrow> world \<Rightarrow> run_outcome list \<times> world" where
  "run_all [] w = ([], w)"
| "run_all (env # envs) w =
     (let (out, w1) = run_pipeline env w; (outs, w2) = run_all envs w1 in (out # outs, w2))"

section \<open>Saves\<close>

text \<open>What other writers of the state file do: the handlers of the web server change no field of
  which the pipeline is the owner, and never remove a hash.\<close>

definition handlers_only :: "run_env \<Rightarrow> bool" where
  "handlers_only env \<longleftrightarrow>
     (\<forall>i fs s. load_project fs = Inr s \<longrightarrow>
        (\<exists>s'. load_project (pe_others env i fs) = Inr s' \<and> LastRunUTC s' = LastRunUTC s \<and>
              RepoHeadSHA s' = RepoHeadSHA s \<and> ChatHashes s' = ChatHashes s \<and>
              CachedPhase1 s' = CachedPhase1 s \<and> set (FindingHashes s) \<subseteq> set (FindingHashes s')))"

text \<open>The directory stores what \<open>s\<close> says of earlier runs, and at least its hashes.\<close>

definition remembers :: "project_state \<Rightarrow> doc dir \<Rightarrow> bool" where
  "remembers s fs \<longleftrightarrow>
     (\<exists>s'. load_project fs = Inr s' \<and> LastRunUTC s' = LastRunUTC s \<and> RepoHeadSHA s' = RepoHeadSHA s \<and>
           ChatHashes s' = ChatHashes s \<and> set (FindingHashes s) \<subseteq> set (FindingHashes s'))"

lemma remembers_others: "handlers_only env \<Longrightarrow> remembers s fs \<Longrightarrow> remembers s (pe_others env i fs)"
  unfolding handlers_only_def remembers_def by (metis subset_trans)

lemma prune_state_fields [simp]:
  "LastRunUTC (prune_state now a packs s) = LastRunUTC s" "RepoHeadSHA (prune_state now a packs s) = RepoHeadSHA s"
  "ChatHashes (prune_state now a packs s) = ChatHashes s" "FindingHashes (prune_state now a packs s) = FindingHashes s"
  "CachedPhase1 (prune_state now a packs s) = CachedPhase1 s"
  by (simp_all add: prune_state_def)

lemma recordProviderFailure_fields [simp]:
  "LastRunUTC (recordProviderFailure a e s) = LastRunUTC s" "RepoHeadSHA (recordProviderFailure a e s) = RepoHeadSHA s"
  "ChatHashes (recordProviderFailure a e s) = ChatHashes s" "FindingHashes (recordProviderFailure a e s) = FindingHashes s"
  "CachedPhase1 (recordProviderFailure a e s) = CachedPhase1 s"
  by (simp_all add: recordProviderFailure_def Let_def split: option.split)

lemma set_union_hashes: "set (mergeStringSliceUnion xs ys) = set xs \<union> set ys"
  using dedup_by_keys [of "\<lambda>s. s" "{}" "xs @ ys"] by (auto simp: mergeStringSliceUnion_def)

lemma merged_fields [simp]:
  "LastRunUTC (normal_state (merge_states d p)) = LastRunUTC p"
  "RepoHeadSHA (normal_state (merge_states d p)) = RepoHeadSHA p"
  "ChatHashes (normal_state (merge_states d p)) = Some (or_empty (ChatHashes p))"
  "CachedPhase1 (normal_state (merge_states d p)) = CachedPhase1 p"
  "set (FindingHashes (normal_state (merge_states d p))) = set (FindingHashes d) \<union> set (FindingHashes p)"
  by (simp_all add: normal_state_def normalizeState_def merge_states_def set_union_hashes)

lemma save_cases:
  assumes "savePrunedState env i packs p fs = (s1, err, fs')"
  obtains (failed) e where "err = Some e" "fs' = pe_others env i fs"
  | (saved) d where "err = None" "load_project (pe_others env i fs) = Inr d"
      "load_project fs' = Inr (normal_state (merge_states d s1))"
  using assms by (auto simp: savePrunedState_def Let_def elim: merge_result_loads split: sum.splits)

lemma save_state: "savePrunedState env i packs p fs = (s1, err, fs') \<Longrightarrow> s1 = prune_state (pe_prune_at env i) (pe_provider env) packs p"
  by (auto simp: savePrunedState_def Let_def split: sum.splits)

lemma loaded_chats: "load_project fs = Inr s \<Longrightarrow> ChatHashes s = Some (or_empty (ChatHashes s))"
  using load_current [of fs s] by (cases s) (auto simp: normal_state_def normalizeState_def)

lemma save_remembers:
  assumes "savePrunedState env i packs p fs = (s1, err, fs')" "handlers_only env" "remembers s fs"
    and "LastRunUTC p = LastRunUTC s" "RepoHeadSHA p = RepoHeadSHA s" "ChatHashes p = ChatHashes s"
  shows "remembers s fs'"
  using assms(1)
proof (cases rule: save_cases)
  case (failed e)
  then show ?thesis using remembers_others assms(2,3) by simp
next
  case (saved d)
  have "set (FindingHashes s) \<subseteq> set (FindingHashes d)" "ChatHashes s = Some (or_empty (ChatHashes s))"
    using remembers_others [OF assms(2,3), of i] saved(2) loaded_chats [OF saved(2)] by (auto simp: remembers_def)
  then show ?thesis using saved(3) assms(4-6) by (auto simp: remembers_def save_state [OF assms(1)])
qed

definition hashes_of :: "doc dir \<Rightarrow> string set" where
  "hashes_of fs = (case load_project fs of Inr s \<Rightarrow> set (FindingHashes s) | Inl _ \<Rightarrow> {})"

lemma save_keeps_hashes:
  assumes "savePrunedState env i packs p fs = (s1, err, fs')" "handlers_only env"
  shows "hashes_of fs \<subseteq> hashes_of fs' \<and> (err = None \<longrightarrow> set (FindingHashes p) \<subseteq> hashes_of fs')"
proof -
  have mono: "hashes_of fs \<subseteq> hashes_of (pe_others env i fs)"
  proof (cases "load_project fs")
    case (Inr s)
    then obtain s' where "load_project (pe_others env i fs) = Inr s'" "set (FindingHashes s) \<subseteq> set (FindingHashes s')"
      using assms(2) unfolding handlers_only_def by blast
    with Inr show ?thesis by (simp add: hashes_of_def)
  qed (simp add: hashes_of_def)
  from assms(1) show ?thesis
  proof (cases rule: save_cases)
    case (failed e)
    then show ?thesis using mono by simp
  next
    case (saved d)
    then show ?thesis using mono by (auto simp: hashes_of_def save_state [OF assms(1)])
  qed
qed

lemma remembers_hashes: "remembers s fs \<Longrightarrow> set (FindingHashes s) \<subseteq> hashes_of fs"
  by (auto simp: remembers_def hashes_of_def)

lemma remembers_loaded: "load_project fs = Inr s \<Longrightarrow> remembers s fs"
  by (simp add: remembers_def)

section \<open>What a run leaves behind\<close>

lemma loadPhase1Cache_fields:
  "loadPhase1Cache key s = (cached, s1) \<Longrightarrow>
   LastRunUTC s1 = LastRunUTC s \<and> RepoHeadSHA s1 = RepoHeadSHA s \<and> ChatHashes s1 = ChatHashes s \<and>
   FindingHashes s1 = FindingHashes s \<and> Findings s1 = Findings s"
  by (auto simp: loadPhase1Cache_def split: option.splits if_splits)

lemma persist_remembers:
  assumes "handlers_only env" "remembers s fs"
    and "LastRunUTC p = LastRunUTC s" "RepoHeadSHA p = RepoHeadSHA s" "ChatHashes p = ChatHashes s"
  shows "remembers s (persistFailureState env i packs p fs)"
  using save_remembers [OF _ assms] by (simp add: persistFailureState_def) (metis prod.collapse)

lemma runAnalysis_failed:
  assumes "runAnalysis env tp keys s fs = (Inl out, fs')" "load_project fs = Inr s" "handlers_only env"
  shows "remembers s fs' \<and> (out = NoProvider \<or> out = ProviderNotStarted \<or> (\<exists>e r. out = AnalysisFailed e r))"
proof (cases "pe_provider_ok env \<and> pe_start env = None")
  case False
  then show ?thesis
    using assms
    by (auto simp: runAnalysis_def split: option.splits if_splits intro: persist_remembers remembers_loaded)
next
  case True
  obtain cached s1 where c: "loadPhase1Cache (run_key env tp keys) s = (cached, s1)" by fastforce
  obtain r err where d: "dispatch env tp s cached = (r, err)" by fastforce
  with True c assms(1) obtain e where e: "err = Some e" by (cases err) (auto simp: runAnalysis_def)
  obtain s2 err2 fs2 where m: "(if ar_mistakes r \<noteq> [] \<and> ar_phase1_complete r
      then savePrunedState env 0 (packs_of tp) (savePhase1Cache (pe_cached_at env) (mistakesFromResult r) (run_key env tp keys) s1) fs
      else (s1, None, fs)) = (s2, err2, fs2)" by (metis prod_cases3)
  have out: "out = AnalysisFailed e r"
      "fs' = persistFailureState env 1 (packs_of tp)
         (recordProviderFailure (pe_provider env) (Some (pe_error_text env e)) s2) fs2"
    using assms(1) True by (auto simp: runAnalysis_def c d e m)
  have s1: "LastRunUTC s1 = LastRunUTC s" "RepoHeadSHA s1 = RepoHeadSHA s" "ChatHashes s1 = ChatHashes s"
    using loadPhase1Cache_fields [OF c] by auto
  have "remembers s fs2 \<and> LastRunUTC s2 = LastRunUTC s \<and> RepoHeadSHA s2 = RepoHeadSHA s \<and> ChatHashes s2 = ChatHashes s"
  proof (cases "ar_mistakes r \<noteq> [] \<and> ar_phase1_complete r")
    case True
    with m have sv: "savePrunedState env 0 (packs_of tp)
      (savePhase1Cache (pe_cached_at env) (mistakesFromResult r) (run_key env tp keys) s1) fs = (s2, err2, fs2)" by simp
    show ?thesis
      using save_remembers [OF sv assms(3) remembers_loaded [OF assms(2)]] save_state [OF sv] s1
      by (simp add: savePhase1Cache_def)
  next
    case False
    with m have "s2 = s1" "fs2 = fs" by auto
    then show ?thesis using s1 remembers_loaded [OF assms(2)] by simp
  qed
  then show ?thesis using out persist_remembers [OF assms(3)] by simp
qed

lemma clearPhase1Cache_fields [simp]:
  "LastRunUTC (clearPhase1Cache s) = LastRunUTC s" "RepoHeadSHA (clearPhase1Cache s) = RepoHeadSHA s"
  "ChatHashes (clearPhase1Cache s) = ChatHashes s" "FindingHashes (clearPhase1Cache s) = FindingHashes s"
  "Findings (clearPhase1Cache s) = Findings s"
  "CachedPhase1 (clearPhase1Cache s) = None"
  by (simp_all add: clearPhase1Cache_def)

lemma runAnalysis_done:
  assumes "runAnalysis env tp keys s fs = (Inr (r, s1), fs')"
  obtains cached where "fs' = fs" "FindingHashes s1 = FindingHashes s" "Findings s1 = Findings s"
    "dispatch env tp s cached = (r, None)"
    "cached = fst (loadPhase1Cache (run_key env tp keys) s)"
proof -
  obtain cached s0 where c: "loadPhase1Cache (run_key env tp keys) s = (cached, s0)" by fastforce
  have "fs' = fs" "s1 = clearPhase1Cache s0" "dispatch env tp s cached = (r, None)"
    using assms by (auto simp: runAnalysis_def c split: if_splits option.splits prod.splits)
  with that c loadPhase1Cache_fields [OF c] show ?thesis by simp
qed

lemma result_state_fields [simp]:
  "LastRunUTC (result_state env tp keys r added s) = pe_now env"
  "RepoHeadSHA (result_state env tp keys r added s) = pe_head env"
  "ChatHashes (result_state env tp keys r added s) = Some keys"
  "FindingHashes (result_state env tp keys r added s) =
     mergeHashLists (FindingHashes s) (collectFindingHashes (ar_findings r))"
  by (simp_all add: result_state_def recordProviderSuccess_def recordFindingApplySpecs_def Let_def)

lemma runAnalysis_stopped:
  "runAnalysis env tp keys s fs = (Inl out, fs') \<Longrightarrow>
   out = NoProvider \<or> out = ProviderNotStarted \<or> (\<exists>e r. out = AnalysisFailed e r)"
  by (auto simp: runAnalysis_def split: if_splits option.splits prod.splits)

lemma output_cases:
  assumes "runOutputAndPersist env tp keys r s w = (out, w')"
  obtains (dry) "out = DryRunDone r" "w' = w"
  | (todos) "out = TodosFailed r" "w' = w"
  | (unsaved) added s2 e fs where "out = SaveFailed e r" "w' = w\<lparr>w_state := fs\<rparr>"
      "savePrunedState env 0 (packs_of tp) (result_state env tp keys r added s) (w_state w) = (s2, Some e, fs)"
  | (saved) added s2 where "out = Completed r"
      "savePrunedState env 0 (packs_of tp) (result_state env tp keys r added s) (w_state w) = (s2, None, w_state w')"
  using assms by (auto simp: runOutputAndPersist_def split: if_splits option.splits prod.splits)

lemma run_cases:
  assumes "run_pipeline env w = (out, w')"
  obtains (unloaded) e where "load_project (w_state w) = Inl e" "out = LoadFailed e" "w' = w"
  | (hit) s where "load_project (w_state w) = Inr s" "out = CacheHit" "w' = w"
  | (unprepared) s keys where "load_project (w_state w) = Inr s" "runCaching env (w_cache w) s = Some keys"
      "out = PrepFailed" "w' = w"
  | (unreadable) s keys packs p where "load_project (w_state w) = Inr s" "runCaching env (w_cache w) s = Some keys"
      "out = NoMessages" "w' = w\<lparr>w_state := persistFailureState env 0 packs p (w_state w)\<rparr>"
  | (stopped) s keys tp fs where "load_project (w_state w) = Inr s" "runCaching env (w_cache w) s = Some keys"
      "runAnalysis env tp keys s (w_state w) = (Inl out, fs)" "w' = w\<lparr>w_state := fs\<rparr>"
      "runTranscriptPrep (pe_transcript env) = Prepared tp"
  | (analysed) s keys tp r s1 where "load_project (w_state w) = Inr s" "runCaching env (w_cache w) s = Some keys"
      "runAnalysis env tp keys s (w_state w) = (Inr (r, s1), w_state w)"
      "runOutputAndPersist env tp keys r s1 w = (out, w')"
      "runTranscriptPrep (pe_transcript env) = Prepared tp"
proof (cases "load_project (w_state w)")
  case (Inl e)
  then show ?thesis using assms by (intro unloaded) (auto simp: run_pipeline_def)
next
  case s: (Inr s)
  show ?thesis
  proof (cases "runCaching env (w_cache w) s")
    case None
    then show ?thesis using assms s by (intro hit) (auto simp: run_pipeline_def)
  next
    case k: (Some keys)
    show ?thesis
    proof (cases "runTranscriptPrep (pe_transcript env)")
      case Unprepared
      then show ?thesis using assms s k by (intro unprepared) (auto simp: run_pipeline_def)
    next
      case (NothingReadable tp)
      then show ?thesis using assms s k by (intro unreadable) (auto simp: run_pipeline_def)
    next
      case (Prepared tp)
      obtain res fs where a: "runAnalysis env tp keys s (w_state w) = (res, fs)" by fastforce
      show ?thesis
      proof (cases res)
        case (Inl o')
        then show ?thesis using assms s k Prepared a by (intro stopped) (auto simp: run_pipeline_def)
      next
        case (Inr p)
        obtain r s1 where p: "p = (r, s1)" by fastforce
        moreover from a Inr p have "fs = w_state w" using runAnalysis_done by metis
        ultimately show ?thesis using assms s k Prepared a Inr by (intro analysed) (auto simp: run_pipeline_def)
      qed
    qed
  qed
qed

lemma result_findings:
  "Findings (result_state env tp keys r added s) =
     Some (fold (record_spec (pe_text env) (pe_name env)) (ar_findings r) (or_empty (Findings s)))"
  by (simp add: result_state_def recordProviderSuccess_def recordFindingApplySpecs_def Let_def)

lemma run_completed:
  assumes "run_pipeline env w = (Completed r, w')"
  obtains s keys tp cached s1 added s2 where
    "load_project (w_state w) = Inr s" "runCaching env (w_cache w) s = Some keys"
    "dispatch env tp s cached = (r, None)" "FindingHashes s1 = FindingHashes s" "Findings s1 = Findings s"
    "savePrunedState env 0 (packs_of tp) (result_state env tp keys r added s1) (w_state w) = (s2, None, w_state w')"
  using assms
proof (cases rule: run_cases)
  case (stopped s keys tp fs)
  then show ?thesis using runAnalysis_stopped [OF stopped(3)] by simp
next
  case (analysed s keys tp r' s1)
  from analysed(3) obtain cached where c: "FindingHashes s1 = FindingHashes s" "Findings s1 = Findings s" "dispatch env tp s cached = (r', None)"
    by (rule runAnalysis_done)
  from analysed(4) show ?thesis
  proof (cases rule: output_cases)
    case (saved added s2)
    then show ?thesis using that analysed(1,2) c by simp
  qed simp_all
qed simp_all

text \<open>Inputs that decide whether a run is skipped.\<close>

definition same_inputs :: "run_env \<Rightarrow> run_env \<Rightarrow> bool" where
  "same_inputs a b \<longleftrightarrow> pe_sources a = pe_sources b \<and> pe_head a = pe_head b \<and> pe_path a = pe_path b \<and>
     sha256_hex (pe_text a) = sha256_hex (pe_text b)"

lemma runCaching_keys:
  "runCaching env cache s = Some keys \<Longrightarrow>
   keys = fst (computeCacheKeys (sha256_hex (pe_text env)) (pe_sources env) (or_empty (ChatHashes s)) (pe_head env))"
  by (auto simp: runCaching_def Let_def split: if_splits)

lemma completed_then_hit:
  assumes "run_pipeline env w = (Completed r, w')" "same_inputs env env'" "\<not> pe_force env'"
    and "pe_now env \<noteq> zero_time"
  shows "run_pipeline env' w' = (CacheHit, w')"
proof -
  obtain s keys tp cached s1 added s2 where run: "runCaching env (w_cache w) s = Some keys"
    "savePrunedState env 0 (packs_of tp) (result_state env tp keys r added s1) (w_state w) = (s2, None, w_state w')"
    using assms(1) by (rule run_completed)
  let ?sha = "sha256_hex (pe_text env)"
  have keys: "keys = fst (computeCacheKeys ?sha (pe_sources env) (or_empty (ChatHashes s)) (pe_head env))"
    using runCaching_keys [OF run(1)] .
  obtain s' where s': "load_project (w_state w') = Inr s'" "LastRunUTC s' = pe_now env"
      "RepoHeadSHA s' = pe_head env" "ChatHashes s' = Some keys"
    using run(2) save_state [OF run(2)] by (cases rule: save_cases) auto
  have "map_of (fst (computeCacheKeys ?sha (pe_sources env) keys (pe_head env))) = map_of keys"
    by (rule computeCacheKeys_stable) (simp add: keys)
  then have "cacheUnchanged (Some s') (fst (computeCacheKeys ?sha (pe_sources env) keys (pe_head env))) (pe_head env)"
    using s' assms(4) by (subst cacheUnchanged_iff) (simp_all add: computeCacheKeys_distinct, simp add: keys computeCacheKeys_distinct)
  then have "runCaching env' (w_cache w') s' = None"
    using assms(2,3) s' by (simp add: runCaching_def same_inputs_def Let_def)
  with s' show ?thesis by (simp add: run_pipeline_def)
qed


lemma runCaching_remembered:
  assumes "runCaching env cache s = Some keys" "load_project fs = Inr s" "remembers s fs'"
    and "same_inputs env env'" "pe_force env \<longrightarrow> pe_force env'"
  obtains s' where "load_project fs' = Inr s'" "runCaching env' cache s' \<noteq> None"
proof -
  obtain s' where s': "load_project fs' = Inr s'" "LastRunUTC s' = LastRunUTC s" "RepoHeadSHA s' = RepoHeadSHA s"
    "ChatHashes s' = ChatHashes s"
    using assms(3) by (auto simp: remembers_def)
  then have "runCaching env' cache s' \<noteq> None"
    using assms(1,4,5)
    by (auto simp: runCaching_def same_inputs_def cacheUnchanged_def Let_def split: if_splits option.splits)
  with s'(1) that show ?thesis by blast
qed

definition settled :: "run_outcome \<Rightarrow> bool" where
  "settled out \<longleftrightarrow> out = CacheHit \<or> out = NoMessages \<or> (\<exists>r. out = Completed r)"

lemma run_unsettled:
  assumes "run_pipeline env w = (out, w')" "\<not> settled out" "handlers_only env" "load_project (w_state w) = Inr s"
  shows "remembers s (w_state w') \<and> w_cache w' = w_cache w \<and> (\<exists>keys. runCaching env (w_cache w) s = Some keys)"
proof -
  have here: "remembers s (w_state w)" by (rule remembers_loaded [OF assms(4)])
  show ?thesis
    using assms(1)
  proof (cases rule: run_cases)
    case (stopped s' keys tp fs)
    then show ?thesis using runAnalysis_failed [OF stopped(3,1) assms(3)] assms(4) by simp
  next
    case (analysed s' keys tp r s1)
    from analysed(4) show ?thesis
    proof (cases rule: output_cases)
      case (unsaved added s2 e fs)
      from unsaved(3) have "fs = pe_others env 0 (w_state w)" by (cases rule: save_cases) simp_all
      then show ?thesis using unsaved(2) analysed(1,2) assms(4) remembers_others [OF assms(3) here] by simp
    qed (use analysed assms(2,4) here in \<open>simp_all add: settled_def\<close>)
  qed (use assms(2,4) here in \<open>simp_all add: settled_def\<close>)
qed

lemma run_hit:
  assumes "run_pipeline env w = (CacheHit, w')"
  shows "w' = w \<and> (\<exists>s. load_project (w_state w) = Inr s \<and> runCaching env (w_cache w) s = None)"
  using assms
proof (cases rule: run_cases)
  case (hit s)
  then show ?thesis using assms
    by (cases "runCaching env (w_cache w) s")
       (auto simp: run_pipeline_def split: preparation.splits prod.splits sum.splits
         dest: runAnalysis_stopped elim: output_cases)
next
  case (stopped s keys tp fs)
  then show ?thesis using runAnalysis_stopped [OF stopped(3)] by simp
next
  case (analysed s keys tp r s1)
  from analysed(4) show ?thesis by (cases rule: output_cases) simp_all
qed simp_all

text \<open>C7: A run that did not complete is repeated. Whatever failed, provider, analysis, output or save, the
  transcripts do not count as analysed: if the web handlers are the only other writers of the
  state, the next run over the same sources is no cache hit, unless the failed one was forced and the
  next one is not.\<close>
theorem failed_run_retried:
  assumes "run_pipeline env w = (out, w')" "\<not> settled out" "handlers_only env"
    and "same_inputs env env'" "pe_force env \<longrightarrow> pe_force env'"
  shows "fst (run_pipeline env' w') \<noteq> CacheHit"
proof (cases "load_project (w_state w)")
  case (Inl e)
  then show ?thesis using assms(1) by (auto simp: run_pipeline_def)
next
  case (Inr s)
  then obtain keys where k: "remembers s (w_state w')" "w_cache w' = w_cache w" "runCaching env (w_cache w) s = Some keys"
    using run_unsettled [OF assms(1-3)] by blast
  obtain s' where "load_project (w_state w') = Inr s'" "runCaching env' (w_cache w') s' \<noteq> None"
    by (rule runCaching_remembered [OF k(3) Inr k(1) assms(4,5)]) (use k(2) in auto)
  then show ?thesis using run_hit [of env' w'] by (metis prod.collapse sum.inject(2))
qed

section \<open>Findings of several runs\<close>

text \<open>What a run has found, however it ended, and what it has found and saved.\<close>

fun result_of :: "run_outcome \<Rightarrow> analysis_result option" where
  "result_of (AnalysisFailed e r) = Some r"
| "result_of (DryRunDone r) = Some r"
| "result_of (TodosFailed r) = Some r"
| "result_of (SaveFailed e r) = Some r"
| "result_of (Completed r) = Some r"
| "result_of _ = None"

lemma run_result:
  assumes "run_pipeline env w = (out, w')" "result_of out = Some r" "load_project (w_state w) = Inr s"
  obtains keys tp err where "runCaching env (w_cache w) s = Some keys" "runTranscriptPrep (pe_transcript env) = Prepared tp"
    "dispatch env tp s (fst (loadPhase1Cache (run_key env tp keys) s)) = (r, err)"
  using assms(1)
proof (cases rule: run_cases)
  case (stopped s' keys tp fs)
  obtain e where "out = AnalysisFailed e r" using runAnalysis_stopped [OF stopped(3)] assms(2) by auto
  then have "dispatch env tp s' (fst (loadPhase1Cache (run_key env tp keys) s')) = (r, Some e)"
    using stopped(3) by (auto simp: runAnalysis_def split: if_splits option.splits prod.splits)
  with that stopped assms(3) show ?thesis by simp
next
  case (analysed s' keys tp r' s1)
  from analysed(4) have "r' = r" using assms(2) by (cases rule: output_cases) auto
  from analysed(3) have "dispatch env tp s' (fst (loadPhase1Cache (run_key env tp keys) s')) = (r', None)"
    by (rule runAnalysis_done) simp
  with that analysed assms(3) \<open>r' = r\<close> show ?thesis by simp
qed (use assms(2) in simp_all)

definition found :: "run_outcome \<Rightarrow> finding list" where
  "found out = (case result_of out of Some r \<Rightarrow> ar_findings r | None \<Rightarrow> [])"

fun saved_findings :: "run_outcome \<Rightarrow> finding list" where
  "saved_findings (Completed r) = ar_findings r"
| "saved_findings _ = []"

lemma saved_found: "set (saved_findings out) \<subseteq> set (found out)"
  by (cases out) (simp_all add: found_def)

lemma dispatch_admissible:
  assumes "dispatch env tp s cached = (r, err)" "f \<in> set (ar_findings r)"
  shows "admissible (phase_req env s) (packs_of tp) f"
proof -
  consider ms where "runPhase2Only (pe_text env) (pe_decoders env) (packs_of tp) True (phase_req env s) ms
      (pe_prompt_warnings env) (pe_answer2 env) (pe_recorded env) = (r, err)"
    | mode where "runChunks (pe_text env) (pe_decoders env) (packs_of tp) True mode (phase_req env s)
      (pe_respond env) (tp_chunks tp) (pe_prompt_warnings env) (pe_answer2 env) (pe_recorded env) = (r, err)"
    using assms(1) by (auto simp: dispatch_def split: option.splits list.splits bool.splits)
  then show ?thesis
    by cases (use run_findings_admissible assms(2) in blast)+
qed

lemma found_is_new:
  assumes "run_pipeline env w = (out, w')" "f \<in> set (found out)"
  shows "f_hash f \<notin> hashes_of (w_state w)"
proof (cases "load_project (w_state w)")
  case (Inl e)
  then show ?thesis by (simp add: hashes_of_def)
next
  case (Inr s)
  obtain r where r: "result_of out = Some r" "f \<in> set (ar_findings r)"
    using assms(2) by (cases "result_of out") (auto simp: found_def)
  obtain keys tp err where "dispatch env tp s (fst (loadPhase1Cache (run_key env tp keys) s)) = (r, err)"
    by (rule run_result [OF assms(1) r(1) Inr])
  then have "admissible (phase_req env s) (packs_of tp) f" using dispatch_admissible r(2) by blast
  with Inr show ?thesis
    by (simp add: hashes_of_def admissible_def phase_req_def collectDismissedHashes_def Let_def)
qed

lemma run_keeps_hashes:
  assumes "run_pipeline env w = (out, w')" "handlers_only env"
  shows "hashes_of (w_state w) \<subseteq> hashes_of (w_state w')"
proof (cases "load_project (w_state w)")
  case (Inl e)
  then show ?thesis by (simp add: hashes_of_def)
next
  case (Inr s)
  show ?thesis
  proof (cases "settled out")
    case False
    have "remembers s (w_state w')" using run_unsettled [OF assms(1) False assms(2) Inr] by simp
    then show ?thesis using remembers_hashes [of s "w_state w'"] Inr by (simp add: hashes_of_def)
  next
    case True
    from assms(1) show ?thesis
    proof (cases rule: run_cases)
      case (unreadable s' keys packs p)
      then show ?thesis
        using save_keeps_hashes [of env 0 packs p "w_state w", OF _ assms(2)]
        by (cases "savePrunedState env 0 packs p (w_state w)") (simp add: persistFailureState_def)
    next
      case (stopped s' keys tp fs)
      then show ?thesis using runAnalysis_stopped [OF stopped(3)] True by (auto simp: settled_def)
    next
      case (analysed s' keys tp r s1)
      from analysed(4) show ?thesis
      proof (cases rule: output_cases)
        case (saved added s2)
        then show ?thesis using save_keeps_hashes [OF saved(2) assms(2)] by simp
      qed (use True in \<open>simp_all add: settled_def\<close>)
    qed simp_all
  qed
qed

lemma saved_is_stored:
  assumes "run_pipeline env w = (out, w')" "handlers_only env" "f \<in> set (saved_findings out)"
    and "length (saved_findings out) \<le> MaxFindingHashes" "trim_space (f_hash f) \<noteq> []"
  shows "f_hash f \<in> hashes_of (w_state w')"
proof -
  obtain r where r: "out = Completed r" "f \<in> set (ar_findings r)" using assms(3) by (cases out) auto
  with assms(1) obtain s keys tp cached s1 added s2 where run:
    "load_project (w_state w) = Inr s" "FindingHashes s1 = FindingHashes s"
    "savePrunedState env 0 (packs_of tp) (result_state env tp keys r added s1) (w_state w) = (s2, None, w_state w')"
    by (metis run_completed)
  let ?new = "collectFindingHashes (ar_findings r)"
  have "set ?new \<inter> set (FindingHashes s1) = {}"
    using found_is_new [OF assms(1)] r(1) run(1,2) saved_found [of out]
    by (fastforce simp: collectFindingHashes_def hashes_of_def)
  moreover have "length ?new \<le> length (ar_findings r)" by (simp add: collectFindingHashes_def)
  then have "length ?new \<le> MaxFindingHashes" using assms(4) r(1) by simp
  ultimately have "set ?new \<subseteq> set (mergeHashLists (FindingHashes s1) ?new)" by (rule mergeHashLists_keeps_new)
  moreover have "f_hash f \<in> set ?new" using r(2) assms(5) by (auto simp: collectFindingHashes_def)
  ultimately show ?thesis using save_keeps_hashes [OF run(3) assms(2)] by auto
qed

lemma run_all_keeps_hashes:
  "run_all envs w = (outs, w') \<Longrightarrow> \<forall>env \<in> set envs. handlers_only env \<Longrightarrow>
   hashes_of (w_state w) \<subseteq> hashes_of (w_state w') \<and>
   (\<forall>out \<in> set outs. \<forall>f \<in> set (found out). f_hash f \<notin> hashes_of (w_state w))"
proof (induction envs arbitrary: w outs)
  case (Cons env envs)
  obtain out w1 where o: "run_pipeline env w = (out, w1)" by fastforce
  obtain os where os: "run_all envs w1 = (os, w')" and outs: "outs = out # os"
    using Cons.prems(1) by (auto simp: o split: prod.splits)
  have "hashes_of (w_state w) \<subseteq> hashes_of (w_state w1)"
    using run_keeps_hashes [OF o] Cons.prems(2) by simp
  with Cons.IH [OF os] found_is_new [OF o] Cons.prems(2) outs show ?case by auto
qed simp

text \<open>C2: A finding is reported once. Take runs that follow each other, failed and forced ones included, with the web
  handlers as the only other writers of the state, and a finding of one that completed, so that its
  state was saved. If that run had at most \<open>MaxFindingHashes\<close> findings and the hash is not blank, no
  later run, however it ends, finds one with the same hash.\<close>
theorem finding_reported_once:
  assumes "run_all envs w = (outs, w')" "\<forall>env \<in> set envs. handlers_only env"
    and "i < j" "j < length outs" "f \<in> set (saved_findings (outs ! i))" "g \<in> set (found (outs ! j))"
    and "length (saved_findings (outs ! i)) \<le> MaxFindingHashes" "trim_space (f_hash f) \<noteq> []"
  shows "f_hash f \<noteq> f_hash g"
  using assms
proof (induction envs arbitrary: w outs i j)
  case (Cons env envs)
  obtain out w1 where o: "run_pipeline env w = (out, w1)" by fastforce
  obtain os where os: "run_all envs w1 = (os, w')" and outs: "outs = out # os"
    using Cons.prems(1) by (auto simp: o split: prod.splits)
  show ?case
  proof (cases i)
    case 0
    then have "f_hash f \<in> hashes_of (w_state w1)"
      using saved_is_stored [OF o] Cons.prems outs by simp
    moreover have "outs ! j \<in> set os" using Cons.prems(3,4) outs 0 by (cases j) auto
    then have "f_hash g \<notin> hashes_of (w_state w1)"
      using run_all_keeps_hashes [OF os] Cons.prems(2,6) by auto
    ultimately show ?thesis by auto
  next
    case (Suc i')
    then show ?thesis using Cons.IH [OF os, of i' "j - 1"] Cons.prems outs by (cases j) auto
  qed
qed simp

text \<open>The cap on stored hashes is undone by the merge: a run that reports a finding when the disk holds
  as many hashes as the cap leaves one more there.\<close>
theorem hash_cap_undone:
  assumes "run_pipeline env w = (Completed r, w')" "handlers_only env"
    and "load_project (w_state w) = Inr s" "load_project (w_state w') = Inr s'"
    and "distinct (FindingHashes s)" "length (FindingHashes s) \<ge> MaxFindingHashes"
    and "f \<in> set (ar_findings r)" "length (ar_findings r) \<le> MaxFindingHashes" "trim_space (f_hash f) \<noteq> []"
  shows "length (FindingHashes s') > MaxFindingHashes"
proof -
  have f: "f \<in> set (saved_findings (Completed r))" "length (saved_findings (Completed r)) \<le> MaxFindingHashes"
    using assms(7,8) by simp_all
  have "insert (f_hash f) (set (FindingHashes s)) \<subseteq> set (FindingHashes s')"
    using run_keeps_hashes [OF assms(1,2)] saved_is_stored [OF assms(1,2) f assms(9)] assms(3,4)
    by (simp add: hashes_of_def)
  moreover have "f_hash f \<notin> set (FindingHashes s)"
    using found_is_new [OF assms(1)] assms(3,7) by (simp add: hashes_of_def found_def)
  ultimately have "Suc (length (FindingHashes s)) \<le> card (set (FindingHashes s'))"
    using card_mono [of "set (FindingHashes s')" "insert (f_hash f) (set (FindingHashes s))"] assms(5)
    by (simp add: distinct_card)
  also have "\<dots> \<le> length (FindingHashes s')" by (rule card_length)
  finally show ?thesis using assms(6) by simp
qed

section \<open>Mistakes of an interrupted run\<close>



lemma save_written:
  assumes "handlers_only env" "pe_writes env = (\<lambda>_. True)" "load_project fs = Inr s0"
  obtains fs' d where "savePrunedState env i packs p fs = (prune_state (pe_prune_at env i) (pe_provider env) packs p, None, fs')"
    "load_project fs' = Inr (normal_state (merge_states d (prune_state (pe_prune_at env i) (pe_provider env) packs p)))"
proof -
  let ?p = "prune_state (pe_prune_at env i) (pe_provider env) packs p"
  obtain d where d: "load_project (pe_others env i fs) = Inr d" using assms(1,3) unfolding handlers_only_def by blast
  then obtain fs' where m: "mergePipelineResult (\<lambda>_. True) ?p (pe_others env i fs) = Inr fs'"
    using save_succeeds by (fastforce simp: mergePipelineResult_def)
  then have "savePrunedState env i packs p fs = (?p, None, fs')" by (simp add: savePrunedState_def assms(2) Let_def)
  with that m show ?thesis by (metis merge_result_loads)
qed



lemma mistakesFromResult_nonempty: "ar_mistakes r \<noteq> [] \<Longrightarrow> mistakesFromResult r \<noteq> []"
proof
  assume "ar_mistakes r \<noteq> []" "mistakesFromResult r = []"
  then have "filter (\<lambda>m. m_category m = m_category (hd (ar_mistakes r))) (ar_mistakes r) = []"
    using mistakesFromResult_group [of r "m_category (hd (ar_mistakes r))"] by (simp add: by_group_def)
  then show False using \<open>ar_mistakes r \<noteq> []\<close> by (cases "ar_mistakes r") auto
qed


text \<open>Other labels lose them: when the model has labelled every mistake with a
  category that is not enabled, the replay has no mistakes and counts as a completed run.\<close>
theorem relabelled_mistakes_lost:
  assumes "ar_mistakes r \<noteq> []" "\<forall>m \<in> set (ar_mistakes r). m_category m \<notin> set (enabledCategories (packs_of tp))"
    and "enabledCategories (packs_of tp) \<noteq> []" "\<not> pe_force env"
  shows "dispatch env tp s (Some (mistakesFromResult r)) = (empty_result, None)"
proof -
  have "by_group (mistakesFromResult r) c = []" if "c \<in> set (enabledCategories (packs_of tp))" for c
    using that assms(2) by (auto simp: mistakesFromResult_group filter_empty_conv)
  then have "orderedByCategory (by_group (mistakesFromResult r)) (enabledCategories (packs_of tp)) = []"
    by (simp add: orderedByCategory_def)
  moreover obtain g gs where "mistakesFromResult r = g # gs"
    using mistakesFromResult_nonempty [OF assms(1)] by (cases "mistakesFromResult r") auto
  ultimately show ?thesis
    using assms(3,4) by (simp add: dispatch_def runPhase2Only_def empty_result_def)
qed

section \<open>Runs that go through\<close>

lemma runAnalysis_healthy:
  assumes "pe_provider_ok env" "pe_start env = None"
    and "dispatch env tp s (fst (loadPhase1Cache (run_key env tp keys) s)) = (r, err)"
  shows "case err of
      None \<Rightarrow> runAnalysis env tp keys s fs = (Inr (r, clearPhase1Cache (snd (loadPhase1Cache (run_key env tp keys) s))), fs)
    | Some e \<Rightarrow> \<exists>fs'. runAnalysis env tp keys s fs = (Inl (AnalysisFailed e r), fs')"
  using assms by (auto simp: runAnalysis_def split: option.split prod.split)

lemma run_goes_through:
  assumes "load_project (w_state w) = Inr s" "runCaching env (w_cache w) s = Some keys"
    and "runTranscriptPrep (pe_transcript env) = Prepared tp" "pe_provider_ok env" "pe_start env = None"
    and "dispatch env tp s (fst (loadPhase1Cache (run_key env tp keys) s)) = (r, None)"
    and "\<not> pe_dry_run env" "pe_todos env (ar_findings r) = Some added" "handlers_only env" "pe_writes env = (\<lambda>_. True)"
  shows "\<exists>w'. run_pipeline env w = (Completed r, w')"
proof -
  let ?s1 = "clearPhase1Cache (snd (loadPhase1Cache (run_key env tp keys) s))"
  have "runAnalysis env tp keys s (w_state w) = (Inr (r, ?s1), w_state w)"
    using runAnalysis_healthy [OF assms(4-6)] by simp
  moreover obtain fs' where "savePrunedState env 0 (packs_of tp) (result_state env tp keys r added ?s1) (w_state w) =
      (prune_state (pe_prune_at env 0) (pe_provider env) (packs_of tp) (result_state env tp keys r added ?s1), None, fs')"
    by (rule save_written [OF assms(9,10,1)])
  ultimately show ?thesis using assms by (simp add: run_pipeline_def runOutputAndPersist_def)
qed

lemma run_interrupted:
  assumes "load_project (w_state w) = Inr s" "runCaching env (w_cache w) s = Some keys"
    and "runTranscriptPrep (pe_transcript env) = Prepared tp" "pe_provider_ok env" "pe_start env = None"
    and "dispatch env tp s (fst (loadPhase1Cache (run_key env tp keys) s)) = (r, Some e)"
  shows "\<exists>w'. run_pipeline env w = (AnalysisFailed e r, w')"
  using runAnalysis_healthy [OF assms(4-6), of "w_state w"] assms(1-3) by (auto simp: run_pipeline_def)

section \<open>Instances\<close>

definition sample_transcript :: transcript where
  "sample_transcript = \<lparr>tp_packs = [rule_pack.extend doc_pack (prompt_pack.fields [] [] [] [])], tp_used = 1, tp_messages = 1,
     tp_hits = 0, tp_chunks = 2\<rparr>"

definition sample_env :: "session_answer \<Rightarrow> session_answer \<Rightarrow> run_env" where
  "sample_env answer1 answer2 =
     \<lparr>pe_text = sample_text_env, pe_fmt_g = \<lambda>_. [], pe_path = ''/p'', pe_name = ''p'', pe_provider = ''x'', pe_head = ''h'',
      pe_sources = [\<lparr>cs_path = ''c'', cs_hash = Some ''1'', cs_mtime = 1\<rparr>], pe_since = [], pe_force = False,
      pe_dry_run = False, pe_permissive = False, pe_parallel = True, pe_supports_parallel = True,
      pe_transcript = Some sample_transcript, pe_provider_ok = True, pe_start = None,
      pe_validator = \<lambda>_ _. (True, False), pe_phase2 = Phase2ModeNone, pe_phase2_file = [], pe_phase2_ok = True,
      pe_redactor = None, pe_decoders = sample_decoders, pe_respond = \<lambda>_ _. answer1, pe_prompt_warnings = [],
      pe_answer2 = answer2, pe_recorded = None, pe_error_text = \<lambda>_. (''e'', False),
      pe_todos = \<lambda>fs. Some (int (length fs)), pe_now = 1, pe_cached_at = 1, pe_success_at = 1, pe_prune_at = \<lambda>_. 1,
      pe_today = ''d'', pe_millis = 1, pe_others = \<lambda>_ fs. fs, pe_writes = \<lambda>_. True\<rparr>"

definition fresh_world :: world where
  "fresh_world = \<lparr>w_state = \<lambda>_. Absent, w_history = \<lambda>_. Absent, w_cache = None\<rparr>"

lemma fresh_load: "load_project (w_state fresh_world) = Inr defaultState"
  by (simp add: load_project_def loadWithResult_def fresh_world_def)

lemma sample_handlers: "handlers_only (sample_env a b)"
  by (simp add: handlers_only_def sample_env_def)

lemma sample_caching: "\<exists>keys. runCaching (sample_env a b) None defaultState = Some keys"
  by (simp add: runCaching_def sample_env_def cacheUnchanged_def defaultState_def Let_def)

lemma sample_prep: "runTranscriptPrep (pe_transcript (sample_env a b)) = Prepared sample_transcript"
  by (simp add: sample_env_def sample_transcript_def runTranscriptPrep_def doc_pack_def rule_pack.defs prompt_pack.defs)

lemma sample_cache: "fst (loadPhase1Cache key defaultState) = None"
  by (simp add: loadPhase1Cache_def defaultState_def)

definition sample_result :: "session_answer \<Rightarrow> session_answer \<Rightarrow> analysis_result" where
  "sample_result a b = fst (dispatch (sample_env a b) sample_transcript defaultState None)"

lemma sample_fields:
  "pe_provider_ok (sample_env a b)" "pe_start (sample_env a b) = None" "\<not> pe_dry_run (sample_env a b)" "\<not> pe_force (sample_env a b)"
  "pe_todos (sample_env a b) fs = Some (int (length fs))" "pe_writes (sample_env a b) = (\<lambda>_. True)"
  "pe_transcript (sample_env a b) = Some sample_transcript" "pe_decoders (sample_env a b) = sample_decoders"
  "pe_now (sample_env a b) \<noteq> zero_time" "same_inputs (sample_env a b) (sample_env c d)"
  by (simp_all add: sample_env_def zero_time_def same_inputs_def)

lemma sample_dispatch:
  "snd (dispatch (sample_env a b) sample_transcript defaultState None) = err \<Longrightarrow>
   dispatch (sample_env a b) sample_transcript defaultState (fst (loadPhase1Cache key defaultState)) = (sample_result a b, err)"
  by (auto simp: sample_cache sample_result_def)

lemma sample_completes:
  assumes "snd (dispatch (sample_env a b) sample_transcript defaultState None) = None"
  shows "\<exists>w'. run_pipeline (sample_env a b) fresh_world = (Completed (sample_result a b), w')"
proof -
  obtain keys where "runCaching (sample_env a b) (w_cache fresh_world) defaultState = Some keys"
    using sample_caching by (auto simp: fresh_world_def)
  then show ?thesis
    by (rule run_goes_through [OF fresh_load _ sample_prep sample_fields(1,2) sample_dispatch [OF assms]
          sample_fields(3,5) sample_handlers sample_fields(6)])
qed

lemma sample_interrupted:
  assumes "snd (dispatch (sample_env a b) sample_transcript defaultState None) = Some e"
  shows "\<exists>w'. run_pipeline (sample_env a b) fresh_world = (AnalysisFailed e (sample_result a b), w')"
proof -
  obtain keys where "runCaching (sample_env a b) (w_cache fresh_world) defaultState = Some keys"
    using sample_caching by (auto simp: fresh_world_def)
  then show ?thesis
    by (rule run_interrupted [OF fresh_load _ sample_prep sample_fields(1,2) sample_dispatch [OF assms]])
qed

lemma sample_good:
  "snd (dispatch (sample_env (Answered ''a'') (Answered ''b'')) sample_transcript defaultState None) = None"
  "map f_hash (ar_findings (sample_result (Answered ''a'') (Answered ''b''))) = [''doc|m|t|r'']"
  by code_simp+

lemma sample_bad:
  "snd (dispatch (sample_env (Answered ''a'') (Failed ProviderError)) sample_transcript defaultState None) = Some Phase2ProviderError"
  "ar_phase1_complete (sample_result (Answered ''a'') (Failed ProviderError))"
  "length (ar_mistakes (sample_result (Answered ''a'') (Failed ProviderError))) = 2"
  by code_simp+

text \<open>Chunks that the provider never answered are not retried: the run counts as completed although no
  category does, and the next one is a cache hit.\<close>
theorem unanswered_chunks_not_retried:
  "\<exists>r w'. run_pipeline (sample_env (Failed ProviderError) (Answered ''b'')) fresh_world = (Completed r, w') \<and>
     ar_warnings r = [ChunkFailed 0, ChunkFailed 1] \<and> ar_completed r = [] \<and>
     run_pipeline (sample_env (Answered ''a'') (Answered ''b'')) w' = (CacheHit, w')"
proof -
  have d: "snd (dispatch (sample_env (Failed ProviderError) (Answered ''b'')) sample_transcript defaultState None) = None"
    "ar_warnings (sample_result (Failed ProviderError) (Answered ''b'')) = [ChunkFailed 0, ChunkFailed 1] \<and>
     ar_completed (sample_result (Failed ProviderError) (Answered ''b'')) = []"
    by code_simp+
  obtain w' where w': "run_pipeline (sample_env (Failed ProviderError) (Answered ''b'')) fresh_world =
      (Completed (sample_result (Failed ProviderError) (Answered ''b'')), w')"
    using sample_completes [OF d(1)] by blast
  from completed_then_hit [OF w' sample_fields(10,4,9)] d(2) w' show ?thesis by blast
qed


theorem failed_run_retried_witness:
  "\<exists>e r w'. run_pipeline (sample_env (Answered ''a'') (Failed ProviderError)) fresh_world = (AnalysisFailed e r, w') \<and>
     fst (run_pipeline (sample_env (Answered ''a'') (Answered ''b'')) w') \<noteq> CacheHit"
proof -
  obtain r w' where w': "run_pipeline (sample_env (Answered ''a'') (Failed ProviderError)) fresh_world =
      (AnalysisFailed Phase2ProviderError r, w')"
    using sample_interrupted [OF sample_bad(1)] by blast
  have "\<not> settled (AnalysisFailed Phase2ProviderError r)" by (simp add: settled_def)
  from failed_run_retried [OF w' this sample_handlers sample_fields(10)] w' show ?thesis
    by (auto simp: sample_fields)
qed




text \<open>A forced run after the first one, whose second phase answers with another finding.\<close>

definition second_env :: run_env where
  "second_env = (sample_env (Answered ''a'') (Answered ''b''))\<lparr>pe_force := True,
     pe_decoders := sample_decoders\<lparr>dec_phase2 := \<lambda>t. Some [(''doc'', [sample_raw ''m'' 1, sample_raw ''n'' 1])]\<rparr>\<rparr>"

definition after_first :: project_state where
  "after_first = defaultState\<lparr>FindingHashes := [''doc|m|t|r'']\<rparr>"

lemma second_dispatch:
  "collectDismissedHashes s = collectDismissedHashes after_first \<Longrightarrow>
   dispatch second_env sample_transcript s cached = dispatch second_env sample_transcript after_first None"
  by (simp add: dispatch_def second_env_def phase_req_def split: option.split list.split)

lemma second_good:
  "snd (dispatch second_env sample_transcript after_first None) = None"
  "map f_hash (ar_findings (fst (dispatch second_env sample_transcript after_first None))) = [''doc|n|t|r'']"
  by code_simp+

lemma record_spec_none:
  "\<forall>f \<in> set fs. g_apply (f_guardrail f) = None \<Longrightarrow> fold (record_spec te name) fs m = m"
  by (induction fs arbitrary: m) (simp_all add: record_spec_def Let_def)

lemma first_leaves:
  assumes "run_pipeline (sample_env (Answered ''a'') (Answered ''b'')) fresh_world = (Completed r, w')"
  obtains s where "load_project (w_state w') = Inr s" "collectDismissedHashes s = collectDismissedHashes after_first"
proof -
  let ?r = "sample_result (Answered ''a'') (Answered ''b'')"
  have r: "r = ?r" using sample_completes [OF sample_good(1)] assms by auto
  obtain s keys tp cached s1 added s2 where run: "load_project (w_state fresh_world) = Inr s" "FindingHashes s1 = FindingHashes s"
    "Findings s1 = Findings s" "savePrunedState (sample_env (Answered ''a'') (Answered ''b'')) 0 (packs_of tp)
       (result_state (sample_env (Answered ''a'') (Answered ''b'')) tp keys r added s1) (w_state fresh_world) = (s2, None, w_state w')"
    using assms by (rule run_completed)
  have s: "s = defaultState" using run(1) fresh_load by simp
  have new: "collectFindingHashes (ar_findings ?r) = [''doc|m|t|r'']" by code_simp
  have "list_all (\<lambda>f. g_apply (f_guardrail f) = None) (ar_findings ?r)" by code_simp
  then have "fold (record_spec sample_text_env ''p'') (ar_findings ?r) fs = fs" for fs
    by (simp add: record_spec_none list_all_iff)
  note new = new this
  have "set (mergeHashLists [] [''doc|m|t|r'']) = {''doc|m|t|r''}"
    using mergeHashLists_keeps_new [of "[''doc|m|t|r'']" "[]"] mergeHashLists_bounded [of "[]" "[''doc|m|t|r'']"]
    by (auto simp: MaxFindingHashes_def)
  then have s2: "set (FindingHashes s2) = {''doc|m|t|r''}" "Findings s2 = Some []"
    using save_state [OF run(4)] run(2,3) new by (simp_all add: s r defaultState_def result_findings sample_env_def prune_state_def)
  from run(4) obtain d where d: "load_project (w_state fresh_world) = Inr d"
      "load_project (w_state w') = Inr (normal_state (merge_states d s2))"
    by (cases rule: save_cases) (auto simp: sample_env_def)
  then have "d = defaultState" using fresh_load by simp
  then have m: "set (FindingHashes (normal_state (merge_states d s2))) = {''doc|m|t|r''}"
      "or_empty (Findings (normal_state (merge_states d s2))) = []"
    using s2 by (auto simp: defaultState_def normal_state_def normalizeState_def merge_states_def set_union_hashes)
  have "collectDismissedHashes (normal_state (merge_states d s2)) = collectDismissedHashes after_first"
    by (rule ext) (simp only: collectDismissedHashes_def m, simp add: after_first_def defaultState_def)
  with d(2) that show ?thesis by blast
qed

theorem finding_reported_once_witness:
  "\<exists>r1 r2 w. run_all [sample_env (Answered ''a'') (Answered ''b''), second_env] fresh_world = ([Completed r1, Completed r2], w) \<and>
     (\<forall>f \<in> set (ar_findings r1). \<forall>g \<in> set (ar_findings r2). f_hash f \<noteq> f_hash g) \<and> ar_findings r1 \<noteq> [] \<and> ar_findings r2 \<noteq> []"
proof -
  let ?r1 = "sample_result (Answered ''a'') (Answered ''b'')"
  let ?r2 = "fst (dispatch second_env sample_transcript after_first None)"
  obtain w1 where w1: "run_pipeline (sample_env (Answered ''a'') (Answered ''b'')) fresh_world = (Completed ?r1, w1)"
    using sample_completes [OF sample_good(1)] by blast
  obtain s where s: "load_project (w_state w1) = Inr s" "collectDismissedHashes s = collectDismissedHashes after_first"
    by (rule first_leaves [OF w1])
  have "\<exists>w2. run_pipeline second_env w1 = (Completed ?r2, w2)"
  proof (rule run_goes_through [OF s(1)])
    show "runTranscriptPrep (pe_transcript second_env) = Prepared sample_transcript"
      using sample_prep by (simp add: second_env_def)
    show "dispatch second_env sample_transcript s (fst (loadPhase1Cache key s)) = (?r2, None)" for key
      using second_dispatch [OF s(2)] second_good(1) by (simp add: prod_eq_iff)
    show "runCaching second_env (w_cache w1) s = Some (fst (computeCacheKeys (sha256_hex (pe_text second_env)) (pe_sources second_env)
        (or_empty (ChatHashes s)) (pe_head second_env)))" by (simp add: runCaching_def second_env_def Let_def)
    show "handlers_only second_env" by (simp add: handlers_only_def second_env_def sample_env_def)
  qed (simp_all add: second_env_def sample_fields)
  then obtain w2 where w2: "run_pipeline second_env w1 = (Completed ?r2, w2)" by blast
  have all: "run_all [sample_env (Answered ''a'') (Answered ''b''), second_env] fresh_world = ([Completed ?r1, Completed ?r2], w2)"
    by (simp add: w1 w2)
  have ne: "ar_findings ?r1 \<noteq> []" "ar_findings ?r2 \<noteq> []" "length (ar_findings ?r1) = 1"
    using sample_good(2) second_good(2) by (auto simp: length_map [of f_hash, symmetric] simp del: length_map)
  have "f_hash f \<noteq> f_hash g" if "f \<in> set (ar_findings ?r1)" "g \<in> set (ar_findings ?r2)" for f g
  proof (rule finding_reported_once [OF all, of 0 1])
    show "\<forall>env \<in> set [sample_env (Answered ''a'') (Answered ''b''), second_env]. handlers_only env"
      by (simp add: sample_handlers) (simp add: handlers_only_def second_env_def sample_env_def)
    have "f_hash f \<in> set (map f_hash (ar_findings ?r1))" using that(1) by simp
    then have "f_hash f = ''doc|m|t|r''" by (simp only: sample_good(2)) simp
    moreover have "trim_space ''doc|m|t|r'' \<noteq> []" by code_simp
    ultimately show "trim_space (f_hash f) \<noteq> []" by simp
  qed (use that ne(3) in \<open>simp_all add: MaxFindingHashes_def found_def\<close>)
  with all ne show ?thesis by blast
qed

end
