(* ===== verification/SessionPool.thy ===== *)
theory SessionPool
  imports Prelude "HOL-Library.Multiset"
begin

text \<open>
  The pool of provider sessions of an analysis, \<open>internal/analyzer/sessionpool.go\<close>: its state and its
  critical sections as functions on it, and the interleavings of \<open>Acquire\<close>, \<open>Release\<close> and \<open>Close\<close> as a
  step relation whose steps are the sections between \<open>Lock\<close> and \<open>Unlock\<close>. A session is a number, new
  for every call of the factory that succeeds. Shown: the cap, exclusive use, no lost wake-up, and that nothing is
  left open after a shutdown.
\<close>

section \<open>The pool and its critical sections\<close>

type_synonym session = nat

record pool =
  capacity :: nat
  live :: int
  free :: "session list"
  pooled :: "session list"
  closed :: bool
  allClosed :: bool

definition sequentialPoolCap :: nat where "sequentialPoolCap = 1"

definition newSessionPool :: "int \<Rightarrow> pool" where
  "newSessionPool n =
     \<lparr>capacity = (if n \<le> 0 then sequentialPoolCap else nat n), live = 0, free = [], pooled = [],
      closed = False, allClosed = False\<rparr>"

text \<open>One round of the loop of \<open>Acquire\<close>, with the lock held; \<open>cancelled\<close> is \<open>ctx.Err() != nil\<close>.\<close>

datatype acquire_round = PoolClosed | Cancelled | Took session | Make | Wait

definition acquire_section :: "bool \<Rightarrow> pool \<Rightarrow> acquire_round \<times> pool" where
  "acquire_section cancelled p =
     (if closed p then (PoolClosed, p)
      else if cancelled then (Cancelled, p)
      else if free p \<noteq> [] then (Took (last (free p)), p\<lparr>free := butlast (free p)\<rparr>)
      else if live p < int (capacity p) then (Make, p\<lparr>live := live p + 1\<rparr>)
      else (Wait, p))"

text \<open>After the factory: \<open>None\<close> is its error. The results say whether the session was handed out,
  and whether the waiters were woken.\<close>

datatype made_round = MakeFailed | MadeLate session | Made session

definition made_section :: "session option \<Rightarrow> pool \<Rightarrow> made_round \<times> pool" where
  "made_section r p =
     (case r of
        None \<Rightarrow> (MakeFailed, p\<lparr>live := live p - 1\<rparr>)
      | Some s \<Rightarrow>
          if closed p then (MadeLate s, p\<lparr>live := live p - 1\<rparr>)
          else (Made s, p\<lparr>pooled := pooled p @ [s]\<rparr>))"

text \<open>\<open>Release\<close>: whether the session is closed, and the pool; the waiters are woken in both cases.\<close>

definition release :: "session \<Rightarrow> bool \<Rightarrow> pool \<Rightarrow> bool \<times> pool" where
  "release s ok p =
     (if \<not> ok \<or> closed p then (True, p\<lparr>pooled := remove1 s (pooled p), live := live p - 1\<rparr>)
      else (False, p\<lparr>free := free p @ [s]\<rparr>))"

text \<open>\<open>Close\<close> up to \<open>Unlock\<close>: the sessions it goes on to close, \<open>None\<close> when it was called before.\<close>

definition close_pool :: "pool \<Rightarrow> session list option \<times> pool" where
  "close_pool p =
     (if allClosed p then (None, p)
      else (Some (pooled p), p\<lparr>closed := True, allClosed := True, pooled := [], free := []\<rparr>))"

section \<open>Interleavings\<close>

text \<open>
  Goroutines are counted by where they are: about to take the lock, waiting for a broadcast, in the
  factory; those that use a session are its entry in \<open>in_use\<close>. \<open>closing\<close> is what \<open>Close\<close> has left to
  close, \<open>close_calls\<close> every call of a session's \<open>Close\<close>.
\<close>

record pool_system =
  the_pool :: pool
  entering :: nat
  waiting :: nat
  making :: nat
  in_use :: "session list"
  next_session :: session
  closing :: "session list"
  close_calls :: "session list"

definition broadcast :: "pool_system \<Rightarrow> pool_system" where
  "broadcast w = w\<lparr>entering := entering w + waiting w, waiting := 0\<rparr>"

definition after_round :: "acquire_round \<Rightarrow> pool_system \<Rightarrow> pool_system" where
  "after_round r w =
     (case r of
        PoolClosed \<Rightarrow> w
      | Cancelled \<Rightarrow> w
      | Took s \<Rightarrow> w\<lparr>in_use := in_use w @ [s]\<rparr>
      | Make \<Rightarrow> w\<lparr>making := making w + 1\<rparr>
      | Wait \<Rightarrow> w\<lparr>waiting := waiting w + 1\<rparr>)"

definition after_made :: "made_round \<Rightarrow> pool_system \<Rightarrow> pool_system" where
  "after_made r w =
     (case r of
        MakeFailed \<Rightarrow> broadcast w
      | MadeLate s \<Rightarrow> (broadcast w)\<lparr>next_session := Suc s, close_calls := close_calls w @ [s]\<rparr>
      | Made s \<Rightarrow> w\<lparr>next_session := Suc s, in_use := in_use w @ [s]\<rparr>)"

inductive pool_step :: "pool_system \<Rightarrow> pool_system \<Rightarrow> bool" where
  call: "pool_step w (w\<lparr>entering := entering w + 1\<rparr>)"
| round: "0 < entering w \<Longrightarrow> acquire_section cancelled (the_pool w) = (r, p) \<Longrightarrow>
    pool_step w (after_round r (w\<lparr>the_pool := p, entering := entering w - 1\<rparr>))"
| made: "0 < making w \<Longrightarrow> made = None \<or> made = Some (next_session w) \<Longrightarrow>
    made_section made (the_pool w) = (r, p) \<Longrightarrow>
    pool_step w (after_made r (w\<lparr>the_pool := p, making := making w - 1\<rparr>))"
| give_back: "s \<in> set (in_use w) \<Longrightarrow> release s ok (the_pool w) = (shut, p) \<Longrightarrow>
    pool_step w (broadcast (w\<lparr>the_pool := p, in_use := remove1 s (in_use w),
      close_calls := close_calls w @ (if shut then [s] else [])\<rparr>))"
| shut_down: "close_pool (the_pool w) = (Some ss, p) \<Longrightarrow>
    pool_step w (broadcast (w\<lparr>the_pool := p, closing := ss\<rparr>))"
| shut_again: "close_pool (the_pool w) = (None, p) \<Longrightarrow> pool_step w (w\<lparr>the_pool := p\<rparr>)"
| close_one: "closing w = s # ss \<Longrightarrow> pool_step w (w\<lparr>closing := ss, close_calls := close_calls w @ [s]\<rparr>)"
| watchdog: "pool_step w (broadcast w)"

inductive_cases pool_stepE: "pool_step w w'"

definition fresh_pool :: "pool_system \<Rightarrow> bool" where
  "fresh_pool w \<longleftrightarrow>
     (\<exists>n. the_pool w = newSessionPool n) \<and> entering w = 0 \<and> waiting w = 0 \<and> making w = 0 \<and> in_use w = [] \<and>
     next_session w = 0 \<and> closing w = [] \<and> close_calls w = []"

text \<open>What holds in the open pool, in the closed one, and in both.\<close>

definition open_inv :: "pool_system \<Rightarrow> bool" where
  "open_inv w \<longleftrightarrow>
     live (the_pool w) = int (making w + length (in_use w) + length (free (the_pool w))) \<and>
     mset (pooled (the_pool w)) = mset (in_use w) + mset (free (the_pool w)) \<and> closing w = [] \<and>
     set (close_calls w) \<inter> set (pooled (the_pool w)) = {} \<and>
     (0 < waiting w \<longrightarrow> free (the_pool w) = [] \<and> live (the_pool w) = int (capacity (the_pool w)))"

definition closed_inv :: "pool_system \<Rightarrow> bool" where
  "closed_inv w \<longleftrightarrow>
     free (the_pool w) = [] \<and> pooled (the_pool w) = [] \<and> waiting w = 0 \<and>
     int (making w + length (in_use w)) \<le> live (the_pool w)"

text \<open>A session built is in use, free, about to be closed or closed.\<close>

definition tracked :: "pool_system \<Rightarrow> session \<Rightarrow> bool" where
  "tracked w s \<longleftrightarrow> s \<in> set (in_use w) \<or> s \<in> set (free (the_pool w)) \<or> s \<in> set (closing w) \<or> s \<in> set (close_calls w)"

definition pool_inv :: "pool_system \<Rightarrow> bool" where
  "pool_inv w \<longleftrightarrow>
     0 < capacity (the_pool w) \<and> live (the_pool w) \<le> int (capacity (the_pool w)) \<and>
     allClosed (the_pool w) = closed (the_pool w) \<and>
     distinct (in_use w @ free (the_pool w)) \<and>
     (\<forall>s. tracked w s \<longleftrightarrow> s < next_session w) \<and>
     (if closed (the_pool w) then closed_inv w else open_inv w)"

lemmas counts = pool_inv_def open_inv_def closed_inv_def

lemmas invs = counts tracked_def

lemma length_taken: "s \<in> set xs \<Longrightarrow> int (length (remove1 s xs)) = int (length xs) - 1"
  by (induction xs) auto

lemma fresh_pool_inv: "fresh_pool w \<Longrightarrow> pool_inv w"
  by (auto simp: fresh_pool_def invs newSessionPool_def sequentialPoolCap_def)

lemma pool_invE:
  assumes "pool_inv w"
  obtains "closed (the_pool w)" "closed_inv w" | "\<not> closed (the_pool w)" "open_inv w"
  using assms by (auto simp: pool_inv_def split: if_splits)

text \<open>Tracking depends on four fields only.\<close>

lemma tracked_same:
  assumes "in_use w' = in_use w" "free (the_pool w') = free (the_pool w)" "closing w' = closing w"
    "close_calls w' = close_calls w"
  shows "tracked w' = tracked w"
  using assms by (simp add: tracked_def fun_eq_iff)

lemma round_inv:
  assumes "pool_inv w" "acquire_section cancelled (the_pool w) = (r, p)"
  shows "pool_inv (after_round r (w\<lparr>the_pool := p, entering := entering w - 1\<rparr>))"
proof (cases "closed (the_pool w) \<or> cancelled \<or> free (the_pool w) = []")
  case True
  have "tracked (after_round r (w\<lparr>the_pool := p, entering := entering w - 1\<rparr>)) = tracked w"
    using assms(2) True by (intro tracked_same) (auto simp: acquire_section_def after_round_def split: if_splits)
  with assms True show ?thesis by (auto simp: acquire_section_def after_round_def counts split: if_splits)
next
  case False
  then obtain fs s where f: "free (the_pool w) = fs @ [s]" by (metis rev_exhaust)
  then have "r = Took s" "p = (the_pool w)\<lparr>free := fs\<rparr>" using assms(2) False by (auto simp: acquire_section_def)
  moreover have "in_use w @ [s] @ fs = in_use w @ s # fs" by simp
  ultimately show ?thesis using assms(1) f False by (auto simp: after_round_def invs)
qed

lemma failed_inv:
  assumes "pool_inv w" "0 < making w"
  shows "pool_inv (broadcast (w\<lparr>the_pool := (the_pool w)\<lparr>live := live (the_pool w) - 1\<rparr>, making := making w - 1\<rparr>))"
    (is "pool_inv ?w")
proof -
  have "tracked ?w = tracked w" by (rule tracked_same) (simp_all add: broadcast_def)
  with assms show ?thesis by (cases "closed (the_pool w)") (auto simp: broadcast_def counts of_nat_diff)
qed

lemma late_inv:
  assumes "pool_inv w" "closed (the_pool w)"
  shows "pool_inv (w\<lparr>next_session := Suc (next_session w), close_calls := close_calls w @ [next_session w]\<rparr>)"
  using assms by (auto simp: invs less_Suc_eq)

lemma made_here_inv:
  assumes "pool_inv w" "0 < making w" "\<not> closed (the_pool w)"
  shows "pool_inv (w\<lparr>the_pool := (the_pool w)\<lparr>pooled := pooled (the_pool w) @ [next_session w]\<rparr>, making := making w - 1,
    next_session := Suc (next_session w), in_use := in_use w @ [next_session w]\<rparr>)"
proof -
  have new: "\<not> tracked w (next_session w)" using assms(1) by (simp add: pool_inv_def)
  then have "next_session w \<notin> set (in_use w)" "next_session w \<notin> set (free (the_pool w))" "next_session w \<notin> set (close_calls w)"
    by (simp_all add: tracked_def)
  with assms show ?thesis by (auto simp: invs less_Suc_eq)
qed

lemma made_inv:
  assumes "pool_inv w" "0 < making w" "made = None \<or> made = Some (next_session w)"
    and "made_section made (the_pool w) = (r, p)"
  shows "pool_inv (after_made r (w\<lparr>the_pool := p, making := making w - 1\<rparr>))"
proof (cases made)
  case None
  then have "r = MakeFailed" "p = (the_pool w)\<lparr>live := live (the_pool w) - 1\<rparr>" using assms(4) by (auto simp: made_section_def)
  then show ?thesis using failed_inv [OF assms(1,2)] by (simp add: after_made_def)
next
  case (Some s)
  then have s: "made = Some (next_session w)" using assms(3) by simp
  show ?thesis
  proof (cases "closed (the_pool w)")
    case True
    then have "r = MadeLate (next_session w)" "p = (the_pool w)\<lparr>live := live (the_pool w) - 1\<rparr>"
      using assms(4) s by (auto simp: made_section_def)
    then show ?thesis
      using late_inv [OF failed_inv [OF assms(1,2)]] True by (simp add: after_made_def broadcast_def)
  next
    case False
    then have "r = Made (next_session w)" "p = (the_pool w)\<lparr>pooled := pooled (the_pool w) @ [next_session w]\<rparr>"
      using assms(4) s by (auto simp: made_section_def)
    then show ?thesis using made_here_inv [OF assms(1,2) False] by (simp add: after_made_def)
  qed
qed

lemma discard_inv:
  assumes "pool_inv w" "s \<in> set (in_use w)"
  shows "pool_inv (broadcast (w\<lparr>the_pool := (the_pool w)\<lparr>pooled := remove1 s (pooled (the_pool w)), live := live (the_pool w) - 1\<rparr>,
    in_use := remove1 s (in_use w), close_calls := close_calls w @ [s]\<rparr>))"
  using assms(1)
proof (cases rule: pool_invE)
  case 1
  with assms show ?thesis
    by (auto simp: broadcast_def invs length_taken dest: notin_set_remove1)
next
  case 2
  have d: "distinct (in_use w @ free (the_pool w))" "mset (pooled (the_pool w)) = mset (in_use w @ free (the_pool w))"
    using assms(1) 2 by (simp_all add: invs)
  then have p: "distinct (pooled (the_pool w))" by (metis mset_eq_imp_distinct_iff)
  with assms 2 show ?thesis
    by (auto simp: broadcast_def invs length_taken set_remove1_eq
        dest: notin_set_remove1)
qed

lemma give_back_inv:
  assumes "pool_inv w" "s \<in> set (in_use w)" "release s ok (the_pool w) = (shut, p)"
  shows "pool_inv (broadcast (w\<lparr>the_pool := p, in_use := remove1 s (in_use w),
    close_calls := close_calls w @ (if shut then [s] else [])\<rparr>))"
proof (cases shut)
  case True
  then have "p = (the_pool w)\<lparr>pooled := remove1 s (pooled (the_pool w)), live := live (the_pool w) - 1\<rparr>"
    using assms(3) by (auto simp: release_def split: if_splits)
  then show ?thesis using discard_inv [OF assms(1,2)] True by simp
next
  case False
  then have p: "p = (the_pool w)\<lparr>free := free (the_pool w) @ [s]\<rparr>" "\<not> closed (the_pool w)"
    using assms(3) by (auto simp: release_def split: if_splits)
  with assms False show ?thesis
    by (auto simp: broadcast_def invs length_taken set_remove1_eq
        dest: notin_set_remove1)
qed

lemma shut_down_inv:
  assumes "pool_inv w" "close_pool (the_pool w) = (Some ss, p)"
  shows "pool_inv (broadcast (w\<lparr>the_pool := p, closing := ss\<rparr>))"
proof -
  have p: "\<not> closed (the_pool w)" "ss = pooled (the_pool w)"
    "p = (the_pool w)\<lparr>closed := True, allClosed := True, pooled := [], free := []\<rparr>"
    using assms by (auto simp: close_pool_def invs split: if_splits)
  have "set (pooled (the_pool w)) = set (in_use w) \<union> set (free (the_pool w))"
    using assms(1) p(1) by (simp add: invs) (metis set_mset_mset set_mset_union)
  with assms(1) p show ?thesis by (auto simp: broadcast_def invs)
qed

lemma pool_kept: "w\<lparr>the_pool := the_pool w\<rparr> = w"
  by simp

lemma pool_step_inv: "pool_step w w' \<Longrightarrow> pool_inv w \<Longrightarrow> pool_inv w'"
proof (induction rule: pool_step.induct)
  case (call w)
  moreover have "tracked (w\<lparr>entering := entering w + 1\<rparr>) = tracked w" by (rule tracked_same) simp_all
  ultimately show ?case by (auto simp: counts split: if_splits)
next
  case (round w cancelled r p)
  then show ?case using round_inv by blast
next
  case (made w made r p)
  then show ?case using made_inv by blast
next
  case (give_back s w ok shut p)
  then show ?case using give_back_inv by blast
next
  case (shut_down w ss p)
  then show ?case using shut_down_inv by blast
next
  case (shut_again w p)
  then have "p = the_pool w" unfolding close_pool_def by (metis Pair_inject option.distinct(1))
  then have same: "w\<lparr>the_pool := p\<rparr> = w" using pool_kept by blast
  show ?case by (rule ssubst [of _ w pool_inv, OF same shut_again(2)])
next
  case (close_one w s ss)
  then have c: "closed (the_pool w)" by (auto simp: invs split: if_splits)
  with close_one have t: "tracked (w\<lparr>closing := ss, close_calls := close_calls w @ [s]\<rparr>) x \<longleftrightarrow> tracked w x" for x
    by (auto simp: tracked_def)
  from close_one(2) c show ?case by (simp add: pool_inv_def closed_inv_def t)
next
  case (watchdog w)
  moreover have "tracked (broadcast w) = tracked w" by (rule tracked_same) (simp_all add: broadcast_def)
  ultimately show ?case by (auto simp: broadcast_def counts)
qed

interpretation session_pool: transition_system fresh_pool pool_step pool_inv
  by unfold_locales (auto intro: fresh_pool_inv pool_step_inv)

section \<open>What the pool promises\<close>

text \<open>C24: However goroutines acquire, release and close, the sessions in use, free and in the making never exceed the
  capacity, no two goroutines hold one session, and while the pool is open none that is in use or
  free has been closed; and once the pool is closed, nobody holds or makes a session and \<open>Close\<close> is
  through, every session ever built has been closed.\<close>
theorem sessions_capped_exclusive_and_closed:
  assumes "fresh_pool w" "pool_step\<^sup>*\<^sup>* w w'"
  shows "making w' + length (in_use w') + length (free (the_pool w')) \<le> capacity (the_pool w') \<and>
    distinct (in_use w' @ free (the_pool w')) \<and>
    (\<not> closed (the_pool w') \<longrightarrow> set (close_calls w') \<inter> set (in_use w' @ free (the_pool w')) = {}) \<and>
    (closed (the_pool w') \<and> making w' = 0 \<and> in_use w' = [] \<and> closing w' = [] \<longrightarrow>
       (\<forall>s < next_session w'. s \<in> set (close_calls w')))"
proof -
  have inv: "pool_inv w'" using session_pool.reachable_inv [OF assms] .
  then show ?thesis
  proof (cases rule: pool_invE)
    case 1
    with inv show ?thesis by (auto simp: invs)
  next
    case 2
    then have "set (pooled (the_pool w')) = set (in_use w' @ free (the_pool w'))"
      by (simp add: open_inv_def) (metis set_mset_mset set_mset_union)
    with inv 2 show ?thesis by (auto simp: invs)
  qed
qed

text \<open>C26: No wake-up is lost: while a goroutine waits for a session, the pool is open, none is free, and goroutines that
  use or build a session account for the whole capacity, so there is one, and returning a session
  leaves nobody waiting.\<close>
theorem no_lost_wakeup:
  assumes "fresh_pool w" "pool_step\<^sup>*\<^sup>* w w'" "0 < waiting w'"
  shows "\<not> closed (the_pool w') \<and> free (the_pool w') = [] \<and> 0 < making w' + length (in_use w') \<and>
    making w' + length (in_use w') = capacity (the_pool w') \<and>
    (\<forall>s \<in> set (in_use w'). \<exists>w''. pool_step w' w'' \<and> free (the_pool w'') = [s] \<and> waiting w'' = 0 \<and>
       entering w'' = entering w' + waiting w')"
proof -
  have inv: "pool_inv w'" using session_pool.reachable_inv [OF assms(1,2)] .
  then have o: "\<not> closed (the_pool w')" "free (the_pool w') = []"
      "live (the_pool w') = int (making w' + length (in_use w'))" "live (the_pool w') = int (capacity (the_pool w'))"
      "0 < capacity (the_pool w')"
    using assms(3) by (auto simp: invs split: if_splits)
  have "\<exists>w''. pool_step w' w'' \<and> free (the_pool w'') = [s] \<and> waiting w'' = 0 \<and> entering w'' = entering w' + waiting w'"
    if s: "s \<in> set (in_use w')" for s
  proof -
    have "release s True (the_pool w') = (False, (the_pool w')\<lparr>free := [s]\<rparr>)" using o by (simp add: release_def)
    note gave = give_back [OF s this]
    show ?thesis by (rule exI, rule conjI, rule gave) (simp add: broadcast_def)
  qed
  with o show ?thesis by auto
qed

section \<open>Runs\<close>

definition start_pool :: pool_system where
  "start_pool = \<lparr>the_pool = newSessionPool 1, entering = 0, waiting = 0, making = 0, in_use = [], next_session = 0,
     closing = [], close_calls = []\<rparr>"

lemma start_pool_fresh: "fresh_pool start_pool"
  by (auto simp: fresh_pool_def start_pool_def)

text \<open>A pool of one session, which a goroutine uses.\<close>

definition one_used :: pool_system where
  "one_used = start_pool\<lparr>the_pool := (newSessionPool 1)\<lparr>live := 1, pooled := [0]\<rparr>, in_use := [0], next_session := 1\<rparr>"

lemmas pool_run = start_pool_def newSessionPool_def sequentialPoolCap_def one_used_def acquire_section_def after_round_def
  made_section_def after_made_def release_def close_pool_def broadcast_def

lemma one_used_run: "pool_step\<^sup>*\<^sup>* start_pool one_used"
proof -
  let ?a = "start_pool\<lparr>entering := 1\<rparr>"
  let ?b = "start_pool\<lparr>the_pool := (newSessionPool 1)\<lparr>live := 1\<rparr>, making := 1\<rparr>"
  have "pool_step start_pool ?a" using call [of start_pool] by (simp add: start_pool_def)
  moreover have "pool_step ?a ?b"
    using round [of ?a False Make "(newSessionPool 1)\<lparr>live := 1\<rparr>"] by (simp add: pool_run)
  moreover have "pool_step ?b one_used"
    using made [of ?b "Some 0" "Made 0" "(newSessionPool 1)\<lparr>live := 1, pooled := [0]\<rparr>"] by (simp add: pool_run)
  ultimately show ?thesis by (meson converse_rtranclp_into_rtranclp rtranclp.rtrancl_refl)
qed

text \<open>A second goroutine waits.\<close>

lemma one_waits: "pool_step\<^sup>*\<^sup>* start_pool (one_used\<lparr>waiting := 1\<rparr>)"
proof -
  have "pool_step one_used (one_used\<lparr>entering := 1\<rparr>)" using call [of one_used] by (simp add: pool_run)
  moreover have "pool_step (one_used\<lparr>entering := 1\<rparr>) (one_used\<lparr>waiting := 1\<rparr>)"
    using round [of "one_used\<lparr>entering := 1\<rparr>" False Wait "the_pool one_used"] by (simp add: pool_run)
  ultimately show ?thesis using one_used_run by (meson rtranclp.rtrancl_into_rtrancl)
qed

text \<open>\<open>Close\<close> while the session is in use: it is closed by \<open>Close\<close> and once more when it is returned.\<close>

theorem session_closed_twice: "\<exists>w. pool_step\<^sup>*\<^sup>* start_pool w \<and> close_calls w = [0, 0]"
proof -
  let ?p = "(newSessionPool 1)\<lparr>live := 1, closed := True, allClosed := True\<rparr>"
  let ?a = "one_used\<lparr>the_pool := ?p, closing := [0]\<rparr>"
  let ?b = "one_used\<lparr>the_pool := ?p\<lparr>live := 0\<rparr>, in_use := [], closing := [0], close_calls := [0]\<rparr>"
  let ?c = "?b\<lparr>closing := [], close_calls := [0, 0]\<rparr>"
  have "pool_step one_used ?a" using shut_down [of one_used "[0]" ?p] by (simp add: pool_run)
  moreover have "pool_step ?a ?b"
    using give_back [of 0 ?a True True "?p\<lparr>live := 0\<rparr>"] by (simp add: pool_run)
  moreover have "pool_step ?b ?c" using close_one [of ?b 0 "[]"] by (simp add: pool_run)
  ultimately have "pool_step\<^sup>*\<^sup>* start_pool ?c" using one_used_run by (meson rtranclp.rtrancl_into_rtrancl)
  moreover have "close_calls ?c = [0, 0]" by simp
  ultimately show ?thesis by blast
qed

theorem sessions_capped_exclusive_and_closed_witness:
  "making one_used + length (in_use one_used) + length (free (the_pool one_used)) \<le> 1 \<and>
   set (close_calls one_used) \<inter> set (in_use one_used @ free (the_pool one_used)) = {} \<and> in_use one_used = [0]"
  using sessions_capped_exclusive_and_closed [OF start_pool_fresh one_used_run] by (simp add: pool_run)

theorem no_lost_wakeup_witness:
  "\<exists>w. pool_step (one_used\<lparr>waiting := 1\<rparr>) w \<and> free (the_pool w) = [0] \<and> waiting w = 0 \<and> entering w = 1"
  using no_lost_wakeup [OF start_pool_fresh one_waits] by (simp add: pool_run)

end
