(* ===== verification/ProtoReader.thy ===== *)
theory ProtoReader
  imports LineScan Prelude
begin

text \<open>
  The reader of chat stores whose protobuf schema is unknown, \<open>internal/chat/readers/protobuf.go\<close>:
  a file is scanned for JSON lines, then for length-delimited fields that look like text, then for
  printable runs. \<open>None\<close> is a panic (a slice out of range). The Unicode classes, the Unicode part of
  \<open>strings.ToLower\<close> and the interpretation of a JSON record as a message are parameters;
  \<open>binary.Uvarint\<close> is written out. A read returns the messages in order, without duplicates.
\<close>

section \<open>Text candidates\<close>

record unicode_env =
  is_print :: "nat \<Rightarrow> bool"
  is_letter :: "nat \<Rightarrow> bool"
  is_decimal :: "nat \<Rightarrow> bool"

definition maxProtobufReaderDepth :: nat where "maxProtobufReaderDepth = 8"
definition maxProtobufCandidates :: nat where "maxProtobufCandidates = 4096"
definition minCandidateLength :: nat where "minCandidateLength = 8"
definition minPrintableRuneRatio :: rat where "minPrintableRuneRatio = 17 / 20"

definition printable_rune :: "unicode_env \<Rightarrow> nat \<Rightarrow> bool" where
  "printable_rune u r \<longleftrightarrow> is_print u r \<or> r = 0x0A \<or> r = 0x0D \<or> r = 0x09"

definition decodeCandidateString :: "unicode_env \<Rightarrow> string \<Rightarrow> string option" where
  "decodeCandidateString u raw =
     (if \<not> utf8_valid raw then None
      else
        let candidate = trim_space raw in
        if length candidate < minCandidateLength then None
        else
          let codes = map fst (runes candidate);
              printableRunes = length (filter (printable_rune u) codes);
              letterOrDigit = length (filter (\<lambda>r. is_letter u r \<or> is_decimal u r) codes)
          in if printableRunes = 0 \<or> letterOrDigit = 0 then None
             else if f_div (f_of_int (int printableRunes)) (f_of_int (int (rune_count candidate))) < fl53 minPrintableRuneRatio
             then None
             else Some candidate)"

definition likelyEmbeddedProto :: "unicode_env \<Rightarrow> string \<Rightarrow> bool" where
  "likelyEmbeddedProto u field \<longleftrightarrow> length field \<ge> 2 \<and> decodeCandidateString u field = None"

section \<open>The wire format\<close>

text \<open>\<open>binary.Uvarint\<close>: the value and the bytes read, \<open>None\<close> for a truncated or overflowing one. The tenth
  byte carries one bit, so the sum stays below 2 to the 64.\<close>

fun uvarint_from :: "nat \<Rightarrow> nat \<Rightarrow> string \<Rightarrow> (nat \<times> nat) option" where
  "uvarint_from i x [] = None"
| "uvarint_from i x (b # bs) =
     (if i = 10 then None
      else if byte b < 128 then (if i = 9 \<and> byte b > 1 then None else Some (x + byte b * 2 ^ (7 * i), i + 1))
      else uvarint_from (i + 1) (x + byte b mod 128 * 2 ^ (7 * i)) bs)"

definition uvarint :: "string \<Rightarrow> (nat \<times> nat) option" where
  "uvarint buf = uvarint_from 0 0 buf"

lemma uvarint_from_width: "uvarint_from i x buf = Some (v, n) \<Longrightarrow> i < n \<and> n \<le> i + length buf"
  by (induction i x buf rule: uvarint_from.induct) (auto split: if_splits)

lemma uvarint_width: "uvarint buf = Some (v, n) \<Longrightarrow> 0 < n \<and> n \<le> length buf"
  using uvarint_from_width [of 0 0 buf v n] by (simp add: uvarint_def)

text \<open>A length-delimited field: what follows its length. Offsets and lengths are \<open>int\<close>, so their sum can
  wrap around, and a slice whose end lies before its start panics.\<close>

datatype delimited = Stop | Panic | Field string nat

definition next_field :: "string \<Rightarrow> nat \<Rightarrow> nat \<Rightarrow> delimited" where
  "next_field payload start lengthValue =
     (let len = i64 (int lengthValue); stop = i64 (int start + len)
      in if len < 0 \<or> stop > int (length payload) then Stop
         else if stop < int start then Panic
         else Field (take (nat len) (drop start payload)) (start + nat len))"

lemma next_field_ahead: "next_field payload start lv = Field f stop \<Longrightarrow> start \<le> stop"
  by (auto simp: next_field_def Let_def split: if_splits)

definition add_candidate :: "unicode_env \<Rightarrow> string \<Rightarrow> string list \<Rightarrow> string list" where
  "add_candidate u field out = (case decodeCandidateString u field of Some t \<Rightarrow> out @ [t] | None \<Rightarrow> out)"

text \<open>
  The loop over the fields of one payload from \<open>offset\<close> on, and the guarded call; \<open>left\<close> counts the
  levels that may still be entered.
\<close>

function collect :: "unicode_env \<Rightarrow> nat \<Rightarrow> string \<Rightarrow> string list \<Rightarrow> string list option"
  and collect_fields :: "unicode_env \<Rightarrow> nat \<Rightarrow> string \<Rightarrow> nat \<Rightarrow> string list \<Rightarrow> string list option" where
  "collect u left payload out =
     (case left of
        0 \<Rightarrow> Some out
      | Suc left' \<Rightarrow>
          if payload = [] \<or> length out \<ge> maxProtobufCandidates then Some out
          else collect_fields u left' payload 0 out)"
| "collect_fields u left payload offset out =
     (if \<not> (offset < length payload \<and> length out < maxProtobufCandidates) then Some out
      else case uvarint (drop offset payload) of
        None \<Rightarrow> Some out
      | Some (tag, n) \<Rightarrow>
          if tag mod 8 = 0 then
            (case uvarint (drop (offset + n) payload) of
               None \<Rightarrow> Some out
             | Some (v, w) \<Rightarrow> collect_fields u left payload (offset + n + w) out)
          else if tag mod 8 = 1 then
            (if offset + n + 8 > length payload then Some out
             else collect_fields u left payload (offset + n + 8) out)
          else if tag mod 8 = 2 then
            (case uvarint (drop (offset + n) payload) of
               None \<Rightarrow> Some out
             | Some (lengthValue, w) \<Rightarrow>
                 (case next_field payload (offset + n + w) lengthValue of
                    Stop \<Rightarrow> Some out
                  | Panic \<Rightarrow> None
                  | Field field stop \<Rightarrow>
                      if likelyEmbeddedProto u field then
                        (case collect u left field (add_candidate u field out) of
                           None \<Rightarrow> None
                         | Some out' \<Rightarrow> collect_fields u left payload stop out')
                      else collect_fields u left payload stop (add_candidate u field out)))
          else if tag mod 8 = 5 then
            (if offset + n + 4 > length payload then Some out
             else collect_fields u left payload (offset + n + 4) out)
          else Some out)"
  by pat_completeness auto

text \<open>Every field consumes a byte, every nested payload a level.\<close>

termination
proof (relation "inv_image (less_than <*lex*> less_than <*lex*> less_than)
    (\<lambda>x. case x of Inl (u, left, payload, out) \<Rightarrow> (left, 0, 0)
                 | Inr (u, left, payload, offset, out) \<Rightarrow> (left, 1, length payload - offset))", goal_cases)
  case 1
  then show ?case by (auto intro!: wf_inv_image wf_lex_prod)
qed (auto dest!: uvarint_width next_field_ahead)

declare collect.simps [simp del] collect_fields.simps [simp del]

definition collectProtoStrings :: "unicode_env \<Rightarrow> string \<Rightarrow> string list option" where
  "collectProtoStrings u payload = collect u (maxProtobufReaderDepth + 1) payload []"

section \<open>From candidates to messages\<close>

definition ascii_printable :: "char \<Rightarrow> bool" where
  "ascii_printable c \<longleftrightarrow> byte c \<in> {0x0A, 0x0D, 0x09} \<or> 32 \<le> byte c \<and> byte c \<le> 126"

definition flush_run :: "string \<Rightarrow> string list" where
  "flush_run b =
     (if b = [] then []
      else let candidate = trim_space b in if length candidate \<ge> minCandidateLength then [candidate] else [])"

fun printable_runs :: "string \<Rightarrow> string \<Rightarrow> string list" where
  "printable_runs b [] = flush_run b"
| "printable_runs b (c # cs) =
     (if ascii_printable c then printable_runs (b @ [c]) cs else flush_run b @ printable_runs [] cs)"

definition extractPrintableRuns :: "string \<Rightarrow> string list" where
  "extractPrintableRuns data = printable_runs [] data"

definition normalizeCandidates :: "string list \<Rightarrow> string list" where
  "normalizeCandidates cs =
     dedup_by (\<lambda>c. c) {} (filter (\<lambda>c. c \<noteq> [] \<and> length c \<ge> minCandidateLength) (map trim_space cs))"

definition extractProtobufCandidates :: "unicode_env \<Rightarrow> string \<Rightarrow> string list option" where
  "extractProtobufCandidates u data =
     (case collectProtoStrings u data of
        None \<Rightarrow> None
      | Some cs \<Rightarrow> Some (normalizeCandidates (if cs = [] then extractPrintableRuns data else cs)))"

text \<open>A message; the zero \<open>time.Time\<close> is \<open>None\<close>.\<close>

record chat_message =
  cm_role :: string
  cm_content :: string
  cm_timestamp :: "int option"
  cm_tool :: string

definition userPrefixes :: "string list" where
  "userPrefixes = [''user:'', ''human:'', ''prompt:'']"

definition assistantPrefixes :: "string list" where
  "assistantPrefixes = [''assistant:'', ''model:'', ''gemini:'', ''ai:'']"

text \<open>The first matching prefix decides; the content is cut from the text at the length of the prefix,
  and nothing is returned when it is empty.\<close>

definition prefixed :: "string \<Rightarrow> string list \<Rightarrow> string \<Rightarrow> string \<Rightarrow> chat_message option option" where
  "prefixed role ps normalized lowered =
     (case find (has_prefix lowered) ps of
        None \<Rightarrow> None
      | Some p \<Rightarrow>
          (let content = trim_space (drop (length p) normalized)
           in Some (if content \<noteq> [] then Some \<lparr>cm_role = role, cm_content = content, cm_timestamp = None, cm_tool = []\<rparr> else None)))"

definition messageFromRolePrefixedString :: "(string \<Rightarrow> string) \<Rightarrow> string \<Rightarrow> chat_message option" where
  "messageFromRolePrefixedString ul candidate =
     (let normalized = trim_space candidate; lowered = to_lower ul normalized in
      case prefixed ''user'' userPrefixes normalized lowered of
        Some m \<Rightarrow> m
      | None \<Rightarrow>
          (case prefixed ''assistant'' assistantPrefixes normalized lowered of Some m \<Rightarrow> m | None \<Rightarrow> None))"

text \<open>\<open>record\<close> decodes a JSON object and interprets it as a message.\<close>

definition messageFromJSONString :: "(string \<Rightarrow> chat_message option) \<Rightarrow> string \<Rightarrow> chat_message option" where
  "messageFromJSONString record candidate =
     (let trimmed = trim_space candidate
      in if \<not> has_prefix trimmed ''{'' \<or> \<not> has_suffix trimmed ''}'' then None else record trimmed)"

definition message_key :: "chat_message \<Rightarrow> string" where
  "message_key m = cm_role m @ CHR 0x00 # trim_space (cm_content m)"

definition dedupeMessages :: "chat_message list \<Rightarrow> chat_message list" where
  "dedupeMessages ms = dedup_by message_key {} (filter (\<lambda>m. message_key m \<noteq> [CHR 0x00]) ms)"

definition messagesFromProtobufCandidates ::
    "(string \<Rightarrow> string) \<Rightarrow> (string \<Rightarrow> chat_message option) \<Rightarrow> string list \<Rightarrow> chat_message list" where
  "messagesFromProtobufCandidates ul record cs =
     (let json = List.map_filter (messageFromJSONString record) cs;
          role = List.map_filter (messageFromRolePrefixedString ul)
                   (filter (\<lambda>c. messageFromJSONString record c = None) cs)
      in if json \<noteq> [] then dedupeMessages json else dedupeMessages role)"

definition maxScannerBufferSize :: nat where "maxScannerBufferSize = 8 * 1024 * 1024"

definition parseJSONRecords :: "(string \<Rightarrow> chat_message option) \<Rightarrow> string \<Rightarrow> chat_message list option" where
  "parseJSONRecords record data =
     (case lines_within maxScannerBufferSize data of
        None \<Rightarrow> None
      | Some ls \<Rightarrow> Some (List.map_filter record (filter (\<lambda>l. l \<noteq> []) (map trim_space ls))))"

datatype read_result = ReadPanic | ReadError | ReadMessages "chat_message list"

definition readProtobuf ::
    "unicode_env \<Rightarrow> (string \<Rightarrow> string) \<Rightarrow> (string \<Rightarrow> chat_message option) \<Rightarrow> (string \<Rightarrow> chat_message option) \<Rightarrow>
     string option \<Rightarrow> read_result" where
  "readProtobuf u ul line record file =
     (case file of
        None \<Rightarrow> ReadError
      | Some data \<Rightarrow>
          (case parseJSONRecords line data of
             None \<Rightarrow> ReadError
           | Some ms \<Rightarrow>
               if ms \<noteq> [] then ReadMessages ms
               else case extractProtobufCandidates u data of
                 None \<Rightarrow> ReadPanic
               | Some cs \<Rightarrow> ReadMessages (if cs = [] then [] else messagesFromProtobufCandidates ul record cs)))"

section \<open>The walk\<close>

text \<open>What a walk over \<open>payload\<close> may do to the candidates: append texts of segments of it, up to the cap.\<close>

definition walked :: "unicode_env \<Rightarrow> string \<Rightarrow> string list \<Rightarrow> string list \<Rightarrow> bool" where
  "walked u payload out out' \<longleftrightarrow>
     (\<exists>new. out' = out @ new \<and> (\<forall>t \<in> set new. \<exists>seg. sublist seg payload \<and> decodeCandidateString u seg = Some t)) \<and>
     (length out \<le> maxProtobufCandidates \<longrightarrow> length out' \<le> maxProtobufCandidates)"

lemma walked_refl: "walked u payload out out"
  by (simp add: walked_def)

lemma walked_trans: "walked u payload a b \<Longrightarrow> walked u payload b c \<Longrightarrow> walked u payload a c"
  unfolding walked_def by fastforce

lemma walked_sub: "walked u seg out out' \<Longrightarrow> sublist seg payload \<Longrightarrow> walked u payload out out'"
  unfolding walked_def by (blast intro: sublist_order.order_trans)

lemma walked_field:
  "length out < maxProtobufCandidates \<Longrightarrow> sublist seg payload \<Longrightarrow> walked u payload out (add_candidate u seg out)"
  by (auto simp: walked_def add_candidate_def split: option.split)

lemma sublist_segment: "sublist (take n (drop m xs)) xs"
  by (meson sublist_drop sublist_order.order_trans sublist_take)

lemma next_field_segment: "next_field payload start lv = Field f stop \<Longrightarrow> sublist f payload"
  by (auto simp: next_field_def Let_def sublist_segment split: if_splits)

text \<open>One round of the loop either ends it or goes on after one field.\<close>

lemma collect_fields_round:
  assumes "collect_fields u left payload offset out = Some out'" "out' \<noteq> out"
    and "offset < length payload" "length out < maxProtobufCandidates"
  obtains tag n where "uvarint (drop offset payload) = Some (tag, n)" "tag mod 8 = 0 \<or> tag mod 8 = 1 \<or> tag mod 8 = 2 \<or> tag mod 8 = 5"
    "tag mod 8 = 0 \<Longrightarrow> \<exists>v w. uvarint (drop (offset + n) payload) = Some (v, w) \<and>
       collect_fields u left payload (offset + n + w) out = Some out'"
    "tag mod 8 = 1 \<Longrightarrow> \<not> offset + n + 8 > length payload \<and> collect_fields u left payload (offset + n + 8) out = Some out'"
    "tag mod 8 = 2 \<Longrightarrow> \<exists>lv w f stop. uvarint (drop (offset + n) payload) = Some (lv, w) \<and>
       next_field payload (offset + n + w) lv = Field f stop \<and>
       (if likelyEmbeddedProto u f
        then \<exists>out2. collect u left f (add_candidate u f out) = Some out2 \<and> collect_fields u left payload stop out2 = Some out'
        else collect_fields u left payload stop (add_candidate u f out) = Some out')"
    "tag mod 8 = 5 \<Longrightarrow> \<not> offset + n + 4 > length payload \<and> collect_fields u left payload (offset + n + 4) out = Some out'"
proof -
  note eq = assms(1) [unfolded collect_fields.simps [of u left payload offset out]]
  obtain tag n where u: "uvarint (drop offset payload) = Some (tag, n)"
    using eq assms(2-4) by (cases "uvarint (drop offset payload)") auto
  show ?thesis
    by (rule that [OF u]) (use eq u assms(2-4) in \<open>auto split: if_splits option.splits prod.splits delimited.splits\<close>)
qed

lemma collect_walked:
  "collect u left payload out = Some out' \<Longrightarrow> walked u payload out out'"
  "collect_fields u left payload offset out = Some out' \<Longrightarrow> walked u payload out out'"
proof (induction u left payload out and u left payload offset out arbitrary: out' and out' rule: collect_collect_fields.induct)
  case (1 u left payload out)
  from "1.prems" "1.IH" show ?case
    by (simp only: collect.simps [of u left payload out]) (auto simp: walked_refl split: nat.splits if_splits)
next
  case (2 u left payload offset out)
  show ?case
  proof (cases "offset < length payload \<and> length out < maxProtobufCandidates \<and> out' \<noteq> out")
    case False
    then show ?thesis using "2.prems" by (simp only: collect_fields.simps [of u left payload offset out]) (auto simp: walked_refl)
  next
    case True
    then have nn: "\<not> \<not> (offset < length payload \<and> length out < maxProtobufCandidates)" by simp
    from True obtain tag n where r: "uvarint (drop offset payload) = Some (tag, n)"
      "tag mod 8 = 0 \<or> tag mod 8 = 1 \<or> tag mod 8 = 2 \<or> tag mod 8 = 5"
      "tag mod 8 = 0 \<Longrightarrow> \<exists>v w. uvarint (drop (offset + n) payload) = Some (v, w) \<and>
         collect_fields u left payload (offset + n + w) out = Some out'"
      "tag mod 8 = 1 \<Longrightarrow> \<not> offset + n + 8 > length payload \<and> collect_fields u left payload (offset + n + 8) out = Some out'"
      "tag mod 8 = 2 \<Longrightarrow> \<exists>lv w f stop. uvarint (drop (offset + n) payload) = Some (lv, w) \<and>
         next_field payload (offset + n + w) lv = Field f stop \<and>
         (if likelyEmbeddedProto u f
          then \<exists>out2. collect u left f (add_candidate u f out) = Some out2 \<and> collect_fields u left payload stop out2 = Some out'
          else collect_fields u left payload stop (add_candidate u f out) = Some out')"
      "tag mod 8 = 5 \<Longrightarrow> \<not> offset + n + 4 > length payload \<and> collect_fields u left payload (offset + n + 4) out = Some out'"
      using collect_fields_round [OF "2.prems"] by metis
    consider "tag mod 8 = 0" | "tag mod 8 = 1" | "tag mod 8 = 2" | "tag mod 8 = 5" using r(2) by fastforce
    then show ?thesis
    proof cases
      case 1
      with r(3) obtain v w where v: "uvarint (drop (offset + n) payload) = Some (v, w)"
        "collect_fields u left payload (offset + n + w) out = Some out'" by blast
      show ?thesis by (rule "2.IH"(1) [OF nn r(1) refl 1 v(1) refl v(2)])
    next
      case 2
      then show ?thesis using r(4) by (intro "2.IH"(2) [OF nn r(1) refl]) simp_all
    next
      case 3
      with r(5) obtain lv w f stop where v: "uvarint (drop (offset + n) payload) = Some (lv, w)"
          "next_field payload (offset + n + w) lv = Field f stop"
        and go: "if likelyEmbeddedProto u f
          then \<exists>out2. collect u left f (add_candidate u f out) = Some out2 \<and> collect_fields u left payload stop out2 = Some out'
          else collect_fields u left payload stop (add_candidate u f out) = Some out'" by blast
      have seg: "sublist f payload" by (rule next_field_segment [OF v(2)])
      have one: "walked u payload out (add_candidate u f out)" by (rule walked_field [OF _ seg]) (use True in simp)
      have t: "tag mod 8 \<noteq> 0" "tag mod 8 \<noteq> 1" using 3 by simp_all
      show ?thesis
      proof (cases "likelyEmbeddedProto u f")
        case emb: True
        with go obtain out2 where o: "collect u left f (add_candidate u f out) = Some out2"
          "collect_fields u left payload stop out2 = Some out'" by auto
        have "walked u f (add_candidate u f out) out2" by (rule "2.IH"(3) [OF nn r(1) refl t 3 v(1) refl v(2) emb o(1)])
        then have "walked u payload (add_candidate u f out) out2" using seg by (rule walked_sub)
        moreover have "walked u payload out2 out'" by (rule "2.IH"(4) [OF nn r(1) refl t 3 v(1) refl v(2) emb o])
        ultimately show ?thesis using one walked_trans by blast
      next
        case False
        with go have "collect_fields u left payload stop (add_candidate u f out) = Some out'" by simp
        then have "walked u payload (add_candidate u f out) out'" by (rule "2.IH"(5) [OF nn r(1) refl t 3 v(1) refl v(2) False])
        with one show ?thesis using walked_trans by blast
      qed
    next
      case 4
      then show ?thesis using r(6) by (intro "2.IH"(6) [OF nn r(1) refl]) simp_all
    qed
  qed
qed

section \<open>Bounds\<close>

lemma decoded_length: "decodeCandidateString u seg = Some t \<Longrightarrow> t = trim_space seg \<and> minCandidateLength \<le> length t \<and> utf8_valid seg"
  by (auto simp: decodeCandidateString_def Let_def split: if_splits)

text \<open>C38: However the bytes of a file nest, the walk yields at most 4096 candidates, and each is the trimmed text, eight bytes
  or longer, of a valid UTF-8 segment of the file.\<close>
theorem candidates_bounded:
  assumes "collectProtoStrings u data = Some cs"
  shows "length cs \<le> 4096 \<and> (\<forall>t \<in> set cs. 8 \<le> length t \<and> (\<exists>seg. sublist seg data \<and> utf8_valid seg \<and> t = trim_space seg))"
proof -
  have "walked u data [] cs" using assms collect_walked(1) by (simp add: collectProtoStrings_def)
  then show ?thesis
    using decoded_length [of u] by (fastforce simp: walked_def maxProtobufCandidates_def minCandidateLength_def)
qed

lemma normalized_candidates:
  "distinct (normalizeCandidates cs) \<and> (\<forall>t \<in> set (normalizeCandidates cs). minCandidateLength \<le> length t)"
  using dedup_by_distinct [of "\<lambda>c. c"] dedup_by_subset [of "\<lambda>c. c"]
  unfolding normalizeCandidates_def by fastforce

lemma deduped_messages: "distinct (map message_key (dedupeMessages ms)) \<and> set (dedupeMessages ms) \<subseteq> set ms"
  using dedup_by_distinct [of message_key] dedup_by_subset [of message_key] unfolding dedupeMessages_def by fastforce

section \<open>Lengths that wrap around\<close>

lemma next_field_overflow:
  assumes "start < 2 ^ 62" "2 ^ 63 \<le> start + lv" "lv < 2 ^ 63"
  shows "next_field payload start lv = Panic"
proof -
  have l: "i64 (int lv) = int lv" using assms(3) by (intro i64_small) simp
  have "i64 (int start + int lv) = i64 (int start + int lv - 2 ^ 64)"
    using i64_shift [of "int start + int lv - 2 ^ 64" 1] by simp
  also have "\<dots> = int start + int lv - 2 ^ 64" using assms by (intro i64_id) (simp add: in_i64_def)
  finally have s: "i64 (int start + int lv) = int start + int lv - 2 ^ 64" .
  show ?thesis using assms by (simp add: next_field_def l s)
qed

text \<open>Ten bytes whose declared length runs past the largest \<open>int\<close>: the check against the length of the
  payload passes on the negative sum, and the slice panics.\<close>

definition crafted_length :: string where
  "crafted_length = [CHR 0x0A, CHR 0xFF, CHR 0xFF, CHR 0xFF, CHR 0xFF, CHR 0xFF, CHR 0xFF, CHR 0xFF, CHR 0xFF, CHR 0x7F]"

lemma crafted_length_panics: "collectProtoStrings u crafted_length = None"
proof -
  have u: "uvarint crafted_length = Some (10, 1)"
      "uvarint (drop (Suc 0) crafted_length) = Some (9223372036854775807, 9)" "length crafted_length = 10" "crafted_length \<noteq> []"
    by (simp_all add: uvarint_def crafted_length_def)
  have "next_field crafted_length 10 9223372036854775807 = Panic" by (rule next_field_overflow) simp_all
  with u show ?thesis
    by (simp add: collectProtoStrings_def collect.simps [of u 9] maxProtobufReaderDepth_def
        maxProtobufCandidates_def collect_fields.simps [of u 8 crafted_length 0])
qed

theorem crafted_file_panics: "readProtobuf u ul (\<lambda>l. None) record (Some crafted_length) = ReadPanic"
proof -
  have "raw_lines crafted_length = [[], tl crafted_length]" by code_simp
  then have "lines_within maxScannerBufferSize crafted_length = Some [drop_cr [], drop_cr (tl crafted_length)]"
    by (simp add: lines_within_def maxScannerBufferSize_def crafted_length_def)
  then show ?thesis
    by (auto simp: readProtobuf_def parseJSONRecords_def extractProtobufCandidates_def crafted_length_panics List.map_filter_def)
qed

section \<open>Reading back what was encoded\<close>

fun put_uvarint :: "nat \<Rightarrow> string" where
  "put_uvarint n = (if n < 128 then [char_of n] else char_of (n mod 128 + 128) # put_uvarint (n div 128))"

declare put_uvarint.simps [simp del]

lemma put_uvarint_nonempty [simp]: "put_uvarint n \<noteq> []"
  by (simp add: put_uvarint.simps [of n])

lemma uvarint_from_put:
  "n * 2 ^ (7 * i) < 2 ^ 64 \<Longrightarrow> i \<le> 9 \<Longrightarrow>
   uvarint_from i x (put_uvarint n @ t) = Some (x + n * 2 ^ (7 * i), i + length (put_uvarint n))"
proof (induction n arbitrary: i x rule: put_uvarint.induct)
  case (1 n)
  show ?case
  proof (cases "n < 128")
    case True
    have "i = 9 \<Longrightarrow> n < 2" using "1.prems" by simp
    then show ?thesis using True "1.prems" by (auto simp: put_uvarint.simps [of n])
  next
    case False
    have p: "(2::nat) ^ (7 * Suc i) = 128 * 2 ^ (7 * i)" by (simp add: power_add)
    have lt: "n div 128 * 2 ^ (7 * Suc i) \<le> n * 2 ^ (7 * i)"
      unfolding p mult.assoc [symmetric] by (intro mult_right_mono) simp_all
    have i: "i \<noteq> 9" using "1.prems" False by auto
    have split: "n mod 128 * 2 ^ (7 * i) + n div 128 * 2 ^ (7 * Suc i) = n * 2 ^ (7 * i)"
      unfolding p mult.assoc [symmetric] distrib_right [symmetric] by simp
    show ?thesis
      using "1.IH" [OF False, of "Suc i" "x + n mod 128 * 2 ^ (7 * i)"] "1.prems" i lt split False
      by (simp add: put_uvarint.simps [of n])
  qed
qed

lemma uvarint_put: "n < 2 ^ 64 \<Longrightarrow> uvarint (put_uvarint n @ t) = Some (n, length (put_uvarint n))"
  using uvarint_from_put [of n 0 0 t] by (simp add: uvarint_def)

text \<open>A message with one length-delimited field per text, as a protobuf writer lays it out.\<close>

definition encode_field :: "nat \<Rightarrow> string \<Rightarrow> string" where
  "encode_field num t = put_uvarint (num * 8 + 2) @ put_uvarint (length t) @ t"

definition encode_texts :: "nat \<Rightarrow> string list \<Rightarrow> string" where
  "encode_texts num ts = concat (map (encode_field num) ts)"

lemma encode_field_nonempty [simp]: "encode_field num t \<noteq> []"
  by (simp add: encode_field_def)

text \<open>A text that the reader keeps as it stands.\<close>

definition kept :: "unicode_env \<Rightarrow> string \<Rightarrow> bool" where
  "kept u t \<longleftrightarrow> decodeCandidateString u t = Some t"

lemma next_field_inside:
  assumes "length (p @ t @ q) < 2 ^ 62"
  shows "next_field (p @ t @ q) (length p) (length t) = Field t (length p + length t)"
proof -
  have "i64 (int (length t)) = int (length t)" "i64 (int (length p) + int (length t)) = int (length p + length t)"
    using assms by (auto intro!: i64_small simp: abs_of_nonneg)
  then show ?thesis by (simp add: next_field_def Let_def)
qed

lemma collect_fields_text:
  assumes "length (p @ encode_field num t @ q) < 2 ^ 62" "num < 2 ^ 60" "kept u t" "length out < maxProtobufCandidates"
  shows "collect_fields u left (p @ encode_field num t @ q) (length p) out =
    collect_fields u left (p @ encode_field num t @ q) (length (p @ encode_field num t)) (out @ [t])"
proof -
  let ?tag = "put_uvarint (num * 8 + 2)" and ?len = "put_uvarint (length t)"
  let ?all = "p @ encode_field num t @ q"
  have all: "?all = (p @ ?tag @ ?len) @ t @ q" by (simp add: encode_field_def)
  have tag: "uvarint (drop (length p) ?all) = Some (num * 8 + 2, length ?tag)"
    using uvarint_put [of "num * 8 + 2" "?len @ t @ q"] assms(2) by (simp add: encode_field_def)
  have "drop (length p + length ?tag) ?all = ?len @ t @ q" by (simp add: encode_field_def)
  moreover have "length t < 2 ^ 64" using assms(1) by (simp add: encode_field_def)
  ultimately have len: "uvarint (drop (length p + length ?tag) ?all) = Some (length t, length ?len)"
    using uvarint_put by simp
  have field: "next_field ?all (length p + length ?tag + length ?len) (length t) =
      Field t (length (p @ encode_field num t))"
    using next_field_inside [of "p @ ?tag @ ?len" t q] assms(1) unfolding all
    by (simp add: encode_field_def add.assoc)
  have off: "length p < length ?all" by simp
  have m: "(num * 8 + 2) mod 8 = 2" by presburger
  have k: "add_candidate u t out = out @ [t]" "\<not> likelyEmbeddedProto u t"
    using assms(3) by (simp_all add: add_candidate_def likelyEmbeddedProto_def kept_def)
  show ?thesis
    by (subst collect_fields.simps) (simp only: off assms(4) tag len field m k option.case prod.case delimited.case if_True if_False
        simp_thms not_not numeral_eq_iff, simp)
qed

lemma collect_fields_texts:
  assumes "length (p @ encode_texts num ts) < 2 ^ 62" "num < 2 ^ 60" "\<forall>t \<in> set ts. kept u t"
    "length out + length ts \<le> maxProtobufCandidates"
  shows "collect_fields u left (p @ encode_texts num ts) (length p) out = Some (out @ ts)"
  using assms
proof (induction ts arbitrary: p out)
  case Nil
  then show ?case by (simp add: encode_texts_def collect_fields.simps)
next
  case (Cons t ts)
  have e: "encode_texts num (t # ts) = encode_field num t @ encode_texts num ts" by (simp add: encode_texts_def)
  have "collect_fields u left (p @ encode_texts num (t # ts)) (length p) out =
      collect_fields u left (p @ encode_texts num (t # ts)) (length (p @ encode_field num t)) (out @ [t])"
    unfolding e using Cons.prems by (intro collect_fields_text) (simp_all add: e)
  also have "\<dots> = Some ((out @ [t]) @ ts)"
    using Cons.IH [of "p @ encode_field num t" "out @ [t]"] Cons.prems by (simp add: e)
  finally show ?case by simp
qed

lemma texts_read_back:
  assumes "length (encode_texts num ts) < 2 ^ 62" "num < 2 ^ 60" "\<forall>t \<in> set ts. kept u t" "length ts \<le> 4096"
  shows "collectProtoStrings u (encode_texts num ts) = Some ts"
  using collect_fields_texts [of "[]" num ts u "[]"] assms
  by (cases ts) (auto simp: collectProtoStrings_def collect.simps maxProtobufReaderDepth_def maxProtobufCandidates_def
      encode_texts_def)

text \<open>A message whose fields are distinct texts the reader accepts is read back field by field, in order, by the walk and
  by the normalised extraction: the walk inverts the encoding for any field number and any number of
  texts up to the cap.\<close>
theorem encoded_texts_read_back:
  assumes "length (encode_texts num ts) < 2 ^ 62" "num < 2 ^ 60" "\<forall>t \<in> set ts. kept u t" "length ts \<le> 4096"
    and "distinct ts" "ts \<noteq> []"
  shows "collectProtoStrings u (encode_texts num ts) = Some ts \<and>
    extractProtobufCandidates u (encode_texts num ts) = Some ts"
proof -
  have "\<forall>t \<in> set ts. trim_space t = t \<and> minCandidateLength \<le> length t"
    using assms(3) decoded_length unfolding kept_def by metis
  then have "map trim_space ts = ts" "filter (\<lambda>c. c \<noteq> [] \<and> minCandidateLength \<le> length c) ts = ts"
    by (auto intro!: map_idI simp: filter_id_conv minCandidateLength_def)
  then have "normalizeCandidates ts = ts"
    using assms(5) dedup_by_id [of "\<lambda>c. c" ts "{}"] by (simp add: normalizeCandidates_def)
  then show ?thesis using texts_read_back [OF assms(1-4)] assms(6) by (simp add: extractProtobufCandidates_def)
qed

text \<open>Witnesses over the printable ASCII classes.\<close>

definition ascii_env :: unicode_env where
  "ascii_env = \<lparr>is_print = (\<lambda>r. 32 \<le> r \<and> r \<le> 126), is_letter = (\<lambda>r. 65 \<le> r \<and> r \<le> 90 \<or> 97 \<le> r \<and> r \<le> 122),
    is_decimal = (\<lambda>r. 48 \<le> r \<and> r \<le> 57)\<rparr>"

lemma sample_kept: "kept ascii_env ''user: hi'' \<and> kept ascii_env ''model: ok''"
  by code_simp

lemma sample_message:
  "collectProtoStrings ascii_env (encode_texts 1 [''user: hi'', ''model: ok'']) = Some [''user: hi'', ''model: ok'']"
  by (rule texts_read_back)
    (use sample_kept in \<open>simp_all add: encode_texts_def encode_field_def put_uvarint.simps\<close>)

theorem encoded_texts_read_back_witness:
  "collectProtoStrings ascii_env (encode_texts 1 [''user: hi'', ''model: ok'']) = Some [''user: hi'', ''model: ok''] \<and>
   extractProtobufCandidates ascii_env (encode_texts 1 [''user: hi'', ''model: ok'']) = Some [''user: hi'', ''model: ok'']"
  by (rule encoded_texts_read_back)
    (use sample_kept in \<open>simp_all add: encode_texts_def encode_field_def put_uvarint.simps\<close>)

theorem candidates_bounded_witness:
  "length [''user: hi'', ''model: ok''] \<le> 4096 \<and> 8 \<le> length ''model: ok'' \<and>
   (\<exists>seg. sublist seg (encode_texts 1 [''user: hi'', ''model: ok'']) \<and> utf8_valid seg \<and> ''model: ok'' = trim_space seg)"
  using candidates_bounded [OF sample_message] by simp

text \<open>What the scan of the fields returns is free of duplicates, and a file with eight mebibytes of one
  line never gets that far.\<close>

theorem scanned_messages_distinct:
  assumes "readProtobuf u ul line record (Some data) = ReadMessages ms" "parseJSONRecords line data = Some []"
  shows "distinct (map message_key ms)"
  using assms deduped_messages
  by (auto simp: readProtobuf_def messagesFromProtobufCandidates_def Let_def split: option.splits if_splits)

theorem large_file_not_scanned:
  assumes "newline \<notin> set data" "8 * 1024 * 1024 \<le> length data"
  shows "readProtobuf u ul line record (Some data) = ReadError"
proof -
  have "raw_lines data = [data]" using assms by (auto simp: raw_lines_single)
  then show ?thesis using assms(2)
    by (simp add: readProtobuf_def parseJSONRecords_def lines_within_def maxScannerBufferSize_def)
qed

end
