(* ===== verification/ProjectNames.thy ===== *)
theory ProjectNames
  imports FsPath
begin

text \<open>
  The names projects have under the output root: their check in \<open>internal/config/loader.go\<close>, their
  derivation from a path in \<open>internal/pipeline/projectname.go\<close> and the path of the todos file in
  \<open>internal/output/generator.go\<close>. SHA-256 in hexadecimal, the Unicode part of \<open>strings.ToUpper\<close> and the
  configuration directory are parameters. Shown: a derived name passes the check, and the todos
  file of a name that passes lies two levels below the root.
\<close>

section \<open>The check\<close>

datatype name_error = NameRequired | NameSeparator | NameDots | NameReserved

definition to_upper :: "(string \<Rightarrow> string) \<Rightarrow> string \<Rightarrow> string" where
  "to_upper uu s = (if is_ascii s then map upper_byte s else uu s)"

definition reservedNames :: "string list" where
  "reservedNames =
     [''CON'', ''PRN'', ''AUX'', ''NUL'',
      ''COM0'', ''COM1'', ''COM2'', ''COM3'', ''COM4'', ''COM5'', ''COM6'', ''COM7'', ''COM8'', ''COM9'',
      ''LPT0'', ''LPT1'', ''LPT2'', ''LPT3'', ''LPT4'', ''LPT5'', ''LPT6'', ''LPT7'', ''LPT8'', ''LPT9'',
      ''CONIN$'', ''CONOUT$'']"

definition isWindowsReservedName :: "(string \<Rightarrow> string) \<Rightarrow> string \<Rightarrow> bool" where
  "isWindowsReservedName uu name =
     (let trimmed = rev (dropWhile (\<lambda>c. c = CHR '' '' \<or> c = CHR ''.'') (rev name));
          upper = to_upper uu (takeWhile (\<lambda>c. c \<noteq> CHR ''.'') trimmed)
      in upper \<in> set reservedNames)"

definition validateProjectName :: "(string \<Rightarrow> string) \<Rightarrow> string \<Rightarrow> name_error option" where
  "validateProjectName uu projectName =
     (let name = trim_space projectName in
      if name = [] then Some NameRequired
      else if \<exists>c \<in> set name. c = CHR 0x5C \<or> c = slash then Some NameSeparator
      else if name = ''.'' \<or> name = ''..'' then Some NameDots
      else if isWindowsReservedName uu name then Some NameReserved
      else None)"

section \<open>The derivation\<close>

definition name_safe :: "char \<Rightarrow> bool" where
  "name_safe c \<longleftrightarrow>
     65 \<le> byte c \<and> byte c \<le> (90 :: nat) \<or> 97 \<le> byte c \<and> byte c \<le> (122 :: nat) \<or>
     48 \<le> byte c \<and> byte c \<le> (57 :: nat) \<or> c = CHR ''.'' \<or> c = CHR ''_'' \<or> c = CHR ''-''"

text \<open>Every maximal run of other bytes becomes one underscore; \<open>inside\<close> says that the run has begun.\<close>

fun replace_unsafe :: "bool \<Rightarrow> string \<Rightarrow> string" where
  "replace_unsafe inside [] = []"
| "replace_unsafe inside (c # cs) =
     (if name_safe c then c # replace_unsafe False cs
      else if inside then replace_unsafe True cs
      else CHR ''_'' # replace_unsafe True cs)"

definition safe_base :: "string \<Rightarrow> string \<times> string" where
  "safe_base path =
     (let base = base_of path;
          base' = (if base = [] \<or> base = ''.'' \<or> base = [slash] then ''root'' else base);
          safe = replace_unsafe False base'
      in (base', if safe = [] then ''root'' else safe))"

definition projectNameCollides :: "string \<Rightarrow> string \<Rightarrow> (string \<times> string) list \<Rightarrow> bool" where
  "projectNameCollides candidate projectPath usedNames =
     (case map_of usedNames candidate of None \<Rightarrow> False | Some existing \<Rightarrow> clean existing \<noteq> projectPath)"

definition deriveProjectName :: "(string \<Rightarrow> string) \<Rightarrow> string \<Rightarrow> (string \<times> string) list \<Rightarrow> string" where
  "deriveProjectName sha projectPath usedNames =
     (let cleaned = clean projectPath;
          (base, safe) = safe_base cleaned;
          candidate = ''project-'' @ safe
      in if safe = base \<and> \<not> projectNameCollides candidate cleaned usedNames then candidate
         else candidate @ ''-'' @ take 8 (sha cleaned))"

section \<open>The path of the todos file\<close>

definition todosFileName :: string where "todosFileName = ''todos.md''"

datatype todos_error = BadName name_error | NoConfigRoot | ReadTodos | MakeDirectory | WriteTodos

definition todosPathForProject ::
    "(string \<Rightarrow> string) \<Rightarrow> string option \<Rightarrow> string \<Rightarrow> string \<Rightarrow> todos_error + string" where
  "todosPathForProject uu configRoot projectName outputRoot =
     (case validateProjectName uu projectName of
        Some e \<Rightarrow> Inl (BadName e)
      | None \<Rightarrow>
          let name = trim_space projectName; rt = trim_space outputRoot in
          (case (if rt = [] then configRoot else Some rt) of
             None \<Rightarrow> Inl NoConfigRoot
           | Some r \<Rightarrow> Inr (join_paths [r, name, todosFileName])))"

section \<open>Derived names\<close>

lemma replace_unsafe_safe: "list_all name_safe (replace_unsafe b s)"
  by (induction b s rule: replace_unsafe.induct) (auto simp: name_safe_def)

lemma name_safe_solid: "name_safe c \<Longrightarrow> solid c"
  by (auto simp: name_safe_def solid_def)

lemma name_safe_plain: "name_safe c \<Longrightarrow> c \<noteq> slash \<and> c \<noteq> CHR 0x5C \<and> byte c < (128 :: nat)"
  by (auto simp: name_safe_def)

lemma safe_base_safe: "list_all name_safe (snd (safe_base p))"
  using replace_unsafe_safe by (auto simp: safe_base_def Let_def name_safe_def)

definition hex_text :: "string \<Rightarrow> bool" where
  "hex_text s \<longleftrightarrow> list_all (\<lambda>c. 48 \<le> byte c \<and> byte c \<le> (57 :: nat) \<or> 97 \<le> byte c \<and> byte c \<le> (102 :: nat)) s"

lemma hex_text_safe: "hex_text s \<Longrightarrow> list_all name_safe (take n s)"
  unfolding hex_text_def list_all_iff by (auto simp: name_safe_def dest!: in_set_takeD)

lemma derived_shape:
  assumes "hex_text (sha (clean p))"
  obtains t where "deriveProjectName sha p used = ''project-'' @ t" "list_all name_safe t"
proof -
  obtain b s where b: "safe_base (clean p) = (b, s)" by fastforce
  then have "list_all name_safe s" using safe_base_safe [of "clean p"] by simp
  moreover have "list_all name_safe (s @ ''-'' @ take 8 (sha (clean p)))"
    using calculation hex_text_safe [OF assms] by (simp add: name_safe_def)
  moreover have "deriveProjectName sha p used = ''project-'' @ (if s = b \<and> \<not> projectNameCollides (''project-'' @ s) (clean p) used
      then s else s @ ''-'' @ take 8 (sha (clean p)))"
    unfolding deriveProjectName_def b Let_def prod.case by (simp only: append_assoc split: if_split) auto
  ultimately show ?thesis using that by presburger
qed

lemma reserved_short: "n \<in> set reservedNames \<Longrightarrow> take 3 n \<noteq> ''PRO''"
  by (auto simp: reservedNames_def)

lemma project_name_valid:
  assumes "list_all name_safe t"
  shows "trim_space (''project-'' @ t) = ''project-'' @ t \<and> validateProjectName uu (''project-'' @ t) = None"
proof -
  let ?n = "''project-'' @ t"
  have safe: "\<forall>c \<in> set ?n. name_safe c" using assms by (auto simp: list_all_iff name_safe_def)
  then have "solid (hd ?n)" "solid (last ?n)" by (auto intro!: name_safe_solid)
  then have trim: "trim_space ?n = ?n" by (intro trim_space_solid) simp_all
  let ?trimmed = "rev (dropWhile (\<lambda>c. c = CHR '' '' \<or> c = CHR ''.'') (rev ?n))"
  have "dropWhile (\<lambda>c. c = CHR '' '' \<or> c = CHR ''.'') (rev t @ CHR ''-'' # ''tcejorp'') =
      dropWhile (\<lambda>c. c = CHR '' '' \<or> c = CHR ''.'') (rev t) @ CHR ''-'' # ''tcejorp''"
    by (rule dropWhile_append3) simp
  then have "?trimmed = ''project-'' @ rev (dropWhile (\<lambda>c. c = CHR '' '' \<or> c = CHR ''.'') (rev t))" by simp
  moreover have "set (rev (dropWhile (\<lambda>c. c = CHR '' '' \<or> c = CHR ''.'') (rev t))) \<subseteq> set t"
    using set_dropWhileD by fastforce
  ultimately obtain r where r: "?trimmed = ''project-'' @ r" "set r \<subseteq> set t" by blast
  define w where "w = takeWhile (\<lambda>c. c \<noteq> CHR ''.'') ?trimmed"
  have w: "w = ''project-'' @ takeWhile (\<lambda>c. c \<noteq> CHR ''.'') r" unfolding w_def r(1) by simp
  have "is_ascii w" using assms r(2) name_safe_plain
    by (fastforce simp: w is_ascii_def list_all_iff dest: set_takeWhileD)
  moreover have "upper_byte (CHR ''p'') = CHR ''P''" "upper_byte (CHR ''r'') = CHR ''R''" "upper_byte (CHR ''o'') = CHR ''O''"
    by code_simp+
  ultimately have "take 3 (to_upper uu w) = ''PRO''" by (simp add: to_upper_def w)
  then have "\<not> isWindowsReservedName uu ?n"
    using reserved_short by (auto simp: isWindowsReservedName_def Let_def w_def)
  then show ?thesis using trim safe name_safe_plain by (auto simp: validateProjectName_def Let_def)
qed

lemma valid_name_plain: "validateProjectName uu n = None \<Longrightarrow> plain (trim_space n)"
  by (auto simp: validateProjectName_def plain_def Let_def split: if_splits)

lemma todos_path_elems:
  assumes "validateProjectName uu n = None" "is_abs (trim_space out)"
  shows "\<exists>p. todosPathForProject uu cfg n out = Inr p \<and> is_abs p \<and> elems p = elems (trim_space out) @ [trim_space n, todosFileName]"
proof -
  let ?r = "trim_space out" and ?n = "trim_space n"
  have r: "?r \<noteq> []" using assms(2) is_abs_nonempty by blast
  have p: "plain ?n" "plain todosFileName"
    using valid_name_plain [OF assms(1)] by (simp_all add: todosFileName_def plain_def)
  have j: "join_paths [?r, ?n, todosFileName] = clean ((?r @ slash # ?n) @ slash # todosFileName)"
    using r by (simp add: join_paths_def)
  have "is_abs ((?r @ slash # ?n) @ slash # todosFileName)" using assms(2) by (simp add: is_abs_append)
  then have "is_abs (join_paths [?r, ?n, todosFileName])"
      "elems (join_paths [?r, ?n, todosFileName]) = elems ?r @ [?n, todosFileName]"
    unfolding j using p by (simp_all add: is_abs_clean elems_clean elems_snoc del: append_assoc)
  then show ?thesis using assms(1) r by (simp add: todosPathForProject_def Let_def)
qed

text \<open>Whatever the path of a project, the name derived from it passes the check of project names, and the todos
  file of that name is \<open>root/name/todos.md\<close>: two elements below an absolute output root, never
  above it.\<close>
theorem derived_name_contained:
  assumes "hex_text (sha (clean p))" "is_abs (trim_space out)"
  shows "validateProjectName uu (deriveProjectName sha p used) = None \<and>
    (\<exists>path. todosPathForProject uu cfg (deriveProjectName sha p used) out = Inr path \<and>
       elems path = elems (trim_space out) @ [deriveProjectName sha p used, todosFileName])"
proof -
  obtain t where t: "deriveProjectName sha p used = ''project-'' @ t" "list_all name_safe t"
    by (rule derived_shape [where sha = sha and p = p, OF assms(1)])
  from project_name_valid [OF t(2)] have "validateProjectName uu (deriveProjectName sha p used) = None"
      "trim_space (deriveProjectName sha p used) = deriveProjectName sha p used"
    by (simp_all add: t(1))
  then show ?thesis using todos_path_elems [OF _ assms(2)] by metis
qed

theorem derived_name_contained_witness:
  "validateProjectName (\<lambda>s. s) (deriveProjectName (\<lambda>s. replicate 64 (CHR ''a'')) ''/home/u/my app'' []) = None \<and>
   deriveProjectName (\<lambda>s. replicate 64 (CHR ''a'')) ''/home/u/my app'' [] = ''project-my_app-aaaaaaaa''"
proof -
  have "hex_text (replicate 64 (CHR ''a''))" by code_simp
  moreover have "is_abs (trim_space ''/out'')" by code_simp
  moreover have "deriveProjectName (\<lambda>s. replicate 64 (CHR ''a'')) ''/home/u/my app'' [] = ''project-my_app-aaaaaaaa''"
    by code_simp
  ultimately show ?thesis
    using derived_name_contained [of "\<lambda>s. replicate 64 (CHR ''a'')" "''/home/u/my app''" "''/out''" "\<lambda>s. s"] by metis
qed

text \<open>Two projects with the same base: the second one is told apart by its hash.\<close>

lemma same_base_told_apart:
  "deriveProjectName (\<lambda>s. replicate 64 (CHR ''a'')) ''/b/app'' [(''project-app'', ''/a/app'')] = ''project-app-aaaaaaaa'' \<and>
   deriveProjectName (\<lambda>s. replicate 64 (CHR ''a'')) ''/a/app'' [(''project-app'', ''/a/app'')] = ''project-app''"
  by code_simp

end
