(* ===== verification/Todos.thy ===== *)
theory Todos
  imports FindingBuild ProjectNames Calendar
begin

text \<open>
  The file findings are reported in, \<open>internal/output/generator.go\<close>: the hashes already in it, the
  rendering of a run, the merge with the existing text, and the writer around it. The existing file,
  the outcomes of its system calls, SHA-256 and the Unicode part of the case mappings are
  parameters. The map of findings by heading, whose keys the code sorts, is the list of its sorted
  keys. Shown: the file is only appended to, every finding is found again under its hash, and over
  any sequence of runs no hash is reported twice.
\<close>

section \<open>Hashes in the file\<close>

definition versionMarker :: string where "versionMarker = ''<!-- dreamer:version:1 -->''"

definition hash_mark :: string where "hash_mark = ''dreamer:finding:''"

definition is_hex :: "char \<Rightarrow> bool" where
  "is_hex c \<longleftrightarrow> 48 \<le> byte c \<and> byte c \<le> (57 :: nat) \<or> 97 \<le> byte c \<and> byte c \<le> (102 :: nat) \<or>
     65 \<le> byte c \<and> byte c \<le> (70 :: nat)"

text \<open>\<open>dreamer:finding:([a-fA-F0-9]{64})\<close> at the start of a text, and its matches from left to right.\<close>

definition marker_at :: "string \<Rightarrow> bool" where
  "marker_at s \<longleftrightarrow> has_prefix s hash_mark \<and> length (take 64 (drop 16 s)) = 64 \<and> list_all is_hex (take 64 (drop 16 s))"

function find_hashes :: "string \<Rightarrow> string list" where
  "find_hashes s =
     (if s = [] then []
      else if marker_at s then take 64 (drop 16 s) # find_hashes (drop 80 s)
      else find_hashes (tl s))"
  by pat_completeness auto
termination by (relation "measure length") auto

declare find_hashes.simps [simp del]

definition extractExistingFindingHashes :: "text_env \<Rightarrow> string \<Rightarrow> string list" where
  "extractExistingFindingHashes te content = map (to_lower (ulower te)) (find_hashes content)"

definition with_hash :: "text_env \<Rightarrow> finding \<Rightarrow> finding" where
  "with_hash te f =
     f\<lparr>f_hash := to_lower (ulower te) (if f_hash f = [] then computeFindingHash te f else f_hash f)\<rparr>"

definition filterNewFindings :: "text_env \<Rightarrow> finding list \<Rightarrow> string list \<Rightarrow> finding list" where
  "filterNewFindings te fs existing =
     dedup_by f_hash (set existing) (map (with_hash te) (filter (\<lambda>f. trim_space (f_mistake f) \<noteq> []) fs))"

section \<open>Rendering\<close>

text \<open>\<open>Format(time.RFC3339)\<close> of a time in UTC.\<close>

definition pad :: "nat \<Rightarrow> int \<Rightarrow> string" where
  "pad w i = (let d = dec_nat (nat \<bar>i\<bar>) in (if i < 0 then ''-'' else []) @ replicate (w - length d) (CHR ''0'') @ d)"

definition rfc3339 :: "int \<Rightarrow> string" where
  "rfc3339 t =
     (let d = date_of utc_zone t in
      pad 4 (cyear d) @ ''-'' @ pad 2 (cmonth d) @ ''-'' @ pad 2 (cday d) @ ''T'' @
      pad 2 (hour_of utc_zone t) @ '':'' @ pad 2 (minute_of utc_zone t) @ '':'' @ pad 2 (sec_of_day utc_zone t mod 60) @ ''Z'')"

definition snippetLanguage :: "(string \<Rightarrow> string) \<Rightarrow> string \<Rightarrow> string" where
  "snippetLanguage ul tool =
     (let t = to_lower ul (trim_space tool) in
      if t \<in> {''golangci-lint'', ''golangci''} then ''yaml''
      else if t \<in> {''eslint'', ''biome''} then ''json''
      else if t \<in> {''ruff'', ''flake8'', ''mypy''} then ''toml''
      else if t \<in> {''github-actions'', ''gitlab-ci'', ''buildkite''} then ''yaml''
      else if has_suffix t ''.yaml'' \<or> has_suffix t ''.yml'' then ''yaml''
      else if has_suffix t ''.json'' then ''json''
      else if has_suffix t ''.toml'' then ''toml''
      else [])"

definition renderSnippet :: "(string \<Rightarrow> string) \<Rightarrow> string \<Rightarrow> string \<Rightarrow> string" where
  "renderSnippet ul snippet tool =
     ''    ```'' @ snippetLanguage ul tool @ [newline] @
     concat (map (\<lambda>line. (if line \<noteq> [] then ''    '' else []) @ line @ [newline]) (split_on newline snippet)) @
     ''    ```'' @ [newline]"

definition renderEvidenceLine :: "evidence_input \<Rightarrow> string" where
  "renderEvidenceLine ev =
     ''`'' @ ev_path ev @ (if trim_space (ev_lines ev) \<noteq> [] then '':'' @ ev_lines ev else []) @ ''`'' @
     (if trim_space (ev_symbol ev) \<noteq> [] then '' (`'' @ ev_symbol ev @ ''`)'' else [])"

definition em_dash :: string where "em_dash = [CHR 0xE2, CHR 0x80, CHR 0x94]"

definition renderMistakeLine :: "finding \<Rightarrow> string" where
  "renderMistakeLine f =
     (let tool = g_tool (f_guardrail f); rule = g_rule (f_guardrail f) in
      trim_space (f_mistake f) @
      (if tool = [] \<and> rule = [] then []
       else '' '' @ em_dash @ '' guardrail: '' @ tool @
         (if rule \<noteq> [] then (if tool \<noteq> [] then ''/'' else []) @ rule else []) @ ''.''))"

definition renderFinding :: "(string \<Rightarrow> string) \<Rightarrow> finding \<Rightarrow> string" where
  "renderFinding ul f =
     (let snippet = trim_space (g_config (f_guardrail f)) in
      (if f_unverified f then ''- [ ] [unverified] '' else ''- [ ] '') @ renderMistakeLine f @ [newline] @
      (if snippet \<noteq> [] then renderSnippet ul snippet (g_tool (f_guardrail f)) else []) @
      (if f_evidence f \<noteq> []
       then ''    Evidence:'' @ [newline] @
         concat (map (\<lambda>ev. ''    - '' @ renderEvidenceLine ev @ [newline]) (f_evidence f))
       else []) @
      ''    <!-- dreamer:finding:'' @ f_hash f @ '' -->'' @ [newline] @
      (if f_unverified f then ''    <!-- dreamer:lintrule:unverified -->'' @ [newline] else []))"

definition normalizeText :: "(string \<Rightarrow> string) \<Rightarrow> string \<Rightarrow> string" where
  "normalizeText ul v = join '' '' (split_fields (to_lower ul (trim_space v)))"

definition normalizeCategory :: "(string \<Rightarrow> string) \<Rightarrow> string \<Rightarrow> string" where
  "normalizeCategory ul category =
     normalizeText ul (map (\<lambda>c. if c = CHR ''_'' \<or> c = CHR ''-'' then CHR '' '' else c) category)"

fun capitalised :: "string \<Rightarrow> string" where
  "capitalised [] = []"
| "capitalised (c # cs) = upper_first c @ cs"

definition categoryHeading :: "(string \<Rightarrow> string) \<Rightarrow> string \<Rightarrow> string" where
  "categoryHeading ul category =
     (let n = normalizeCategory ul category in
      if n = [] then ''Uncategorized'' else join '' '' (map capitalised (split_fields n)))"

definition groupByCategory :: "(string \<Rightarrow> string) \<Rightarrow> finding list \<Rightarrow> string \<Rightarrow> finding list" where
  "groupByCategory ul fs h = filter (\<lambda>f. categoryHeading ul (f_category f) = h) fs"

definition sortedCategoryHeadings :: "(string \<Rightarrow> string) \<Rightarrow> finding list \<Rightarrow> string list" where
  "sortedCategoryHeadings ul fs = sort (remdups (map (\<lambda>f. categoryHeading ul (f_category f)) fs))"

definition run_label :: "int \<Rightarrow> string \<Rightarrow> string" where
  "run_label runAt runID = rfc3339 runAt @ (if runID \<noteq> [] then '' ['' @ runID @ '']'' else [])"

text \<open>Groups are separated by an empty line, and so are the sections of a run below.\<close>

definition renderRunSection :: "(string \<Rightarrow> string) \<Rightarrow> finding list \<Rightarrow> int \<Rightarrow> string \<Rightarrow> string" where
  "renderRunSection ul fs runAt runID =
     ''## Run '' @ run_label runAt runID @ [newline, newline] @
     join [newline] (map (\<lambda>h. ''### '' @ h @ [newline] @ concat (map (renderFinding ul) (groupByCategory ul fs h)))
       (sortedCategoryHeadings ul fs))"

definition renderWarningsSection :: "string list \<Rightarrow> int \<Rightarrow> string \<Rightarrow> string" where
  "renderWarningsSection warnings runAt runID =
     ''## Warnings (Run '' @ run_label runAt runID @ '')'' @ [newline, newline] @
     concat (map (\<lambda>w. let text' = trim_space w in if text' = [] then [] else ''- '' @ text' @ [newline]) warnings)"

section \<open>Merging\<close>

definition ends_line :: "string \<Rightarrow> string" where
  "ends_line s = (if has_suffix s [newline] then [] else [newline])"

definition mergeContent :: "string \<Rightarrow> string \<Rightarrow> string list \<Rightarrow> string" where
  "mergeContent existing header sections =
     (if trim_space existing = [] then header @ [newline, newline] @ versionMarker @ [newline, newline]
      else existing @ ends_line existing @ [newline]) @
     join [newline] (map (\<lambda>s. s @ ends_line s) sections)"

definition projectTitle :: "string \<Rightarrow> string \<Rightarrow> string" where
  "projectTitle projectName override =
     ''# dreamer todos '' @ em_dash @ '' '' @ (if trim_space override \<noteq> [] then trim_space override else projectName)"

record generate_options =
  go_output_root :: string
  go_title :: string
  go_warnings :: "string list"
  go_now :: int
  go_run_id :: string

record generate_result =
  gr_path :: string
  gr_added :: nat
  gr_wrote_warnings :: bool
  gr_existing :: "string list"

definition mergeTodos ::
    "text_env \<Rightarrow> string \<Rightarrow> string \<Rightarrow> finding list \<Rightarrow> generate_options \<Rightarrow> string \<times> generate_result" where
  "mergeTodos te projectName existing findings opts =
     (let hashes = extractExistingFindingHashes te existing;
          fresh = filterNewFindings te findings hashes;
          sections =
            (if fresh \<noteq> [] then [renderRunSection (ulower te) fresh (go_now opts) (go_run_id opts)] else []) @
            (if go_warnings opts \<noteq> [] then [renderWarningsSection (go_warnings opts) (go_now opts) (go_run_id opts)] else []);
          result = \<lparr>gr_path = [], gr_added = length fresh, gr_wrote_warnings = (go_warnings opts \<noteq> []), gr_existing = hashes\<rparr>
      in if sections = [] then ([], result)
         else (mergeContent existing (projectTitle projectName (go_title opts)) sections, result))"

section \<open>The writer\<close>

text \<open>The file before: absent, not readable, or its text; and whether the directory and the file can be written.\<close>

datatype todos_file = NoTodos | Unreadable | TodosText string

record todos_io =
  io_upper :: "string \<Rightarrow> string"
  io_config_root :: "string option"
  io_mkdir :: bool
  io_write :: bool

definition readExistingTodos :: "todos_file \<Rightarrow> todos_error + string" where
  "readExistingTodos file = (case file of NoTodos \<Rightarrow> Inr [] | Unreadable \<Rightarrow> Inl ReadTodos | TodosText s \<Rightarrow> Inr s)"

definition generateTodos ::
    "text_env \<Rightarrow> todos_io \<Rightarrow> string \<Rightarrow> finding list \<Rightarrow> generate_options \<Rightarrow> todos_file \<Rightarrow>
     (todos_error + generate_result) \<times> todos_file" where
  "generateTodos te io projectName findings opts file =
     (case todosPathForProject (io_upper io) (io_config_root io) projectName (go_output_root opts) of
        Inl e \<Rightarrow> (Inl e, file)
      | Inr path \<Rightarrow>
          (case readExistingTodos file of
             Inl e \<Rightarrow> (Inl e, file)
           | Inr existing \<Rightarrow>
               (let (merged, result) = mergeTodos te projectName existing findings opts;
                    done' = result\<lparr>gr_path := path\<rparr>
                in if merged = [] then (Inr done', file)
                   else if \<not> io_mkdir io then (Inl MakeDirectory, file)
                   else if \<not> io_write io then (Inl WriteTodos, file)
                   else (Inr done', TodosText merged))))"

section \<open>Finding hashes\<close>

lemma find_hashes_Nil [simp]: "find_hashes [] = []"
  by (simp add: find_hashes.simps)

text \<open>A byte that no match contains splits the search.\<close>

definition splits_hashes :: "char \<Rightarrow> bool" where
  "splits_hashes c \<longleftrightarrow> \<not> is_hex c \<and> c \<notin> set hash_mark"

lemma splits_space: "splits_hashes (CHR '' '')" "splits_hashes newline"
  by (auto simp: splits_hashes_def hash_mark_def is_hex_def newline_def)

lemma marker_at_alt: "marker_at s \<longleftrightarrow> take 16 s = hash_mark \<and> 80 \<le> length s \<and> list_all is_hex (take 64 (drop 16 s))"
proof -
  have l: "length hash_mark = 16" by (simp add: hash_mark_def)
  have "has_prefix s hash_mark \<longleftrightarrow> take 16 s = hash_mark"
    unfolding has_prefix_iff l [symmetric] by (metis append_eq_conv_conj append_take_drop_id)
  then show ?thesis by (auto simp: marker_at_def)
qed

lemma marker_at_take: "marker_at s \<longleftrightarrow> marker_at (take 80 s)"
  by (auto simp: marker_at_alt drop_take)

lemma marker_at_bytes:
  assumes "marker_at s"
  shows "80 \<le> length s" "\<forall>c \<in> set (take 80 s). \<not> splits_hashes c"
proof -
  obtain t where t: "s = hash_mark @ t" using assms by (auto simp: marker_at_def has_prefix_iff)
  have l: "length hash_mark = 16" by (simp add: hash_mark_def)
  have h: "length (take 64 t) = 64" "list_all is_hex (take 64 t)" using assms by (simp_all add: marker_at_def t l)
  show "80 \<le> length s" using h(1) by (simp add: t l)
  have "take 80 s = hash_mark @ take 64 t" by (simp add: t l)
  then show "\<forall>c \<in> set (take 80 s). \<not> splits_hashes c"
    using h(2) by (auto simp: splits_hashes_def list_all_iff)
qed

lemma marker_at_split:
  assumes "splits_hashes c"
  shows "marker_at (p @ c # q) \<longleftrightarrow> marker_at p"
proof (cases "80 \<le> length p")
  case True
  then show ?thesis using marker_at_take [of "p @ c # q"] marker_at_take [of p] by simp
next
  case False
  then have "c \<in> set (take 80 (p @ c # q))" by (simp add: take_Cons')
  then show ?thesis using marker_at_bytes(2) [of "p @ c # q"] marker_at_bytes(1) [of p] assms False by blast
qed

lemma find_hashes_split:
  assumes "splits_hashes c"
  shows "find_hashes (p @ c # q) = find_hashes p @ find_hashes q"
proof (induction p rule: find_hashes.induct)
  case (1 p)
  note eq = find_hashes.simps [of p] find_hashes.simps [of "p @ c # q"]
  consider "p = []" | "p \<noteq> []" "marker_at p" | "p \<noteq> []" "\<not> marker_at p" by blast
  then show ?case
  proof cases
    case 1
    then have "\<not> marker_at (c # q)" using marker_at_split [OF assms, of "[]" q] by (simp add: marker_at_def has_prefix_iff hash_mark_def)
    then show ?thesis using 1 by (simp add: find_hashes.simps [of "c # q"] find_hashes.simps [of "[]"])
  next
    case 2
    then show ?thesis
      using "1.IH"(1) marker_at_split [OF assms, of p q] marker_at_bytes(1) [of p] by (simp add: eq)
  next
    case 3
    then show ?thesis using "1.IH"(2) marker_at_split [OF assms, of p q] by (simp add: eq)
  qed
qed

definition hash64 :: "string \<Rightarrow> bool" where
  "hash64 h \<longleftrightarrow> length h = 64 \<and> list_all is_hex h"

text \<open>The comment of a finding, as it stands in a rendered file, is found.\<close>

definition comment_of :: "string \<Rightarrow> string" where
  "comment_of h = '' '' @ hash_mark @ h @ '' ''"

lemma comment_found:
  assumes "hash64 h" "sublist (comment_of h) s"
  shows "h \<in> set (find_hashes s)"
proof -
  obtain p q where s: "s = p @ CHR '' '' # (hash_mark @ h) @ CHR '' '' # q"
    using assms(2) by (auto simp: sublist_def comment_of_def)
  have l: "length hash_mark = 16" "hash_mark \<noteq> []" by (simp_all add: hash_mark_def)
  have "marker_at (hash_mark @ h)" using assms(1) l by (simp add: marker_at_def hash64_def has_prefix_iff)
  then have "h \<in> set (find_hashes (hash_mark @ h))"
    using assms(1) l by (simp add: find_hashes.simps [of "hash_mark @ h"] hash64_def)
  then show ?thesis unfolding s by (simp add: find_hashes_split splits_space del: append_assoc)
qed

lemma notin_set_tl: "c \<notin> set s \<Longrightarrow> c \<notin> set (tl s)"
  by (cases s) simp_all

lemma no_mark_no_hash: "CHR ''d'' \<notin> set s \<Longrightarrow> find_hashes s = []"
proof (induction s rule: find_hashes.induct)
  case (1 s)
  moreover have "\<not> marker_at s" using 1(3) by (auto simp: marker_at_def has_prefix_iff hash_mark_def)
  ultimately show ?case by (cases "s = []") (simp_all add: find_hashes.simps [of s] notin_set_tl)
qed

text \<open>What is trimmed consists of bytes of white space.\<close>

lemma trim_by_dropped: "\<exists>u. s = u @ trim_by ws s \<and> set u \<subseteq> \<Union> (set ` set ws)"
proof (induction ws s rule: trim_by.induct)
  case (1 ws s)
  show ?case
  proof (cases "leading ws s")
    case None
    then show ?thesis by (simp add: trim_by.simps [of ws s])
  next
    case (Some w)
    then obtain t where t: "s = w @ t" "w \<in> set ws" using leading_Some by (fastforce simp: has_prefix_iff)
    show ?thesis
    proof (cases "w = []")
      case True
      with Some show ?thesis by (simp add: trim_by.simps [of ws s])
    next
      case False
      have d: "trim_by ws s = trim_by ws t" using Some False by (simp add: trim_by.simps [of ws "w @ t"] t(1))
      from "1.IH" [OF Some False] t(1) obtain u where "t = u @ trim_by ws t" "set u \<subseteq> \<Union> (set ` set ws)" by auto
      then show ?thesis using t d by (intro exI [of _ "w @ u"]) auto
    qed
  qed
qed

lemma blank_bytes:
  assumes "trim_space s = []"
  shows "set s \<subseteq> \<Union> (set ` set space_encodings)"
proof -
  obtain u where u: "s = u @ trim_left s" "set u \<subseteq> \<Union> (set ` set space_encodings)"
    unfolding trim_left_def using trim_by_dropped by blast
  have none: "trim_by (map rev space_encodings) (rev (trim_left s)) = []"
    using assms by (simp add: trim_space_def trim_right_def)
  obtain v where "rev (trim_left s) = v @ trim_by (map rev space_encodings) (rev (trim_left s))"
      "set v \<subseteq> \<Union> (set ` set (map rev space_encodings))"
    using trim_by_dropped by blast
  then have "set (rev (trim_left s)) \<subseteq> \<Union> (set ` set (map rev space_encodings))" by (simp add: none)
  then have "set (trim_left s) \<subseteq> \<Union> (set ` set space_encodings)" by simp
  with u show ?thesis by (metis Un_least set_append)
qed

lemma blank_no_hash:
  assumes "trim_space s = []"
  shows "find_hashes s = []"
proof -
  have "CHR ''d'' \<notin> \<Union> (set ` set space_encodings)" by (simp add: space_encodings_literal)
  then show ?thesis using blank_bytes [OF assms] no_mark_no_hash by blast
qed

section \<open>What a run writes\<close>

lemma found_in:
  assumes "sublist a b" "sublist (comment_of h) a"
  shows "sublist (comment_of h) b"
  using assms by (meson sublist_order.order_trans)

lemma sublist_later: "sublist x y \<Longrightarrow> sublist x (p @ y)"
  by (meson sublist_append_leftI sublist_order.order_trans)

lemma sublist_first: "sublist x p \<Longrightarrow> sublist x (p @ y)"
  by (meson sublist_append_rightI sublist_order.order_trans)

lemma sublist_concat: "x \<in> set xs \<Longrightarrow> sublist x (concat xs)"
proof (induction xs)
  case (Cons y ys)
  then show ?case by (auto simp: sublist_append intro: sublist_order.order_trans [OF _ sublist_append_leftI])
qed simp

lemma sublist_join: "x \<in> set xs \<Longrightarrow> sublist x (join sep xs)"
proof (induction sep xs rule: join.induct)
  case (3 sep y z ys)
  then show ?case
    by (auto intro: sublist_order.order_trans [OF _ sublist_append_leftI] sublist_append_rightI)
qed auto

lemma comment_end: "sublist (comment_of h) (''    <!-- dreamer:finding:'' @ h @ '' -->'' @ t)"
proof -
  have "''    <!-- dreamer:finding:'' @ h @ '' -->'' @ t = ''    <!--'' @ comment_of h @ ''-->'' @ t"
    by (simp add: comment_of_def hash_mark_def)
  then show ?thesis by (simp only:) (intro sublist_later sublist_append_rightI)
qed

lemma finding_comment: "sublist (comment_of (f_hash f)) (renderFinding ul f)"
  unfolding renderFinding_def Let_def by (intro sublist_later comment_end)

lemma rendered_section:
  assumes "f \<in> set fs"
  shows "sublist (renderFinding ul f) (renderRunSection ul fs at' runID)"
proof -
  let ?h = "categoryHeading ul (f_category f)"
  let ?group = "\<lambda>h. ''### '' @ h @ [newline] @ concat (map (renderFinding ul) (groupByCategory ul fs h))"
  have "sublist (renderFinding ul f) (concat (map (renderFinding ul) (groupByCategory ul fs ?h)))"
    using assms by (intro sublist_concat) (simp add: groupByCategory_def)
  then have "sublist (renderFinding ul f) (?group ?h)"
    by (rule sublist_order.order_trans) (intro sublist_later sublist_order.order_refl)
  moreover have "sublist (?group ?h) (join [newline] (map ?group (sortedCategoryHeadings ul fs)))"
    using assms by (intro sublist_join) (simp add: sortedCategoryHeadings_def)
  moreover have "sublist (join [newline] (map ?group (sortedCategoryHeadings ul fs))) (renderRunSection ul fs at' runID)"
    unfolding renderRunSection_def by (intro sublist_later sublist_order.order_refl)
  ultimately show ?thesis by (meson sublist_order.order_trans)
qed

lemma section_comment: "f \<in> set fs \<Longrightarrow> sublist (comment_of (f_hash f)) (renderRunSection ul fs at' runID)"
  using rendered_section finding_comment by (meson sublist_order.order_trans)

lemma merged_sections:
  assumes "x \<in> set sections"
  shows "sublist x (mergeContent existing header sections)"
proof -
  have "sublist (x @ ends_line x) (join [newline] (map (\<lambda>s. s @ ends_line s) sections))"
    using assms by (intro sublist_join) simp
  then have "sublist x (join [newline] (map (\<lambda>s. s @ ends_line s) sections))"
    by (rule sublist_order.order_trans [rotated]) simp
  then show ?thesis unfolding mergeContent_def by (rule sublist_order.order_trans) simp
qed

lemma merged_keeps:
  assumes "h \<in> set (find_hashes existing)"
  shows "h \<in> set (find_hashes (mergeContent existing header sections))"
proof -
  have "trim_space existing \<noteq> []" using assms blank_no_hash by fastforce
  moreover have "ends_line existing @ [newline] = newline # (if has_suffix existing [newline] then [] else [newline])"
    by (simp add: ends_line_def)
  ultimately obtain t where "mergeContent existing header sections = existing @ newline # t"
    by (simp add: mergeContent_def)
  then show ?thesis using assms by (simp add: find_hashes_split splits_space)
qed

section \<open>Hashes in lower case\<close>

lemma hash64_ascii: "hash64 h \<Longrightarrow> is_ascii h"
  by (auto simp: hash64_def is_ascii_def list_all_iff is_hex_def)

lemma hash64_lower: "hash64 h \<Longrightarrow> hash64 (to_lower ul h) \<and> to_lower ul (to_lower ul h) = to_lower ul h"
  using hash64_ascii [of h] to_lower_idem [of h ul]
  by (auto simp: hash64_def to_lower_def list_all_iff is_hex_def lower_byte_def)

text \<open>The hash under which a finding is reported; it has to be a SHA-256 in hexadecimal.\<close>

definition hash_ok :: "text_env \<Rightarrow> finding \<Rightarrow> bool" where
  "hash_ok te f \<longleftrightarrow> hash64 (if f_hash f = [] then computeFindingHash te f else f_hash f)"

lemma fresh_hashes:
  assumes "list_all (hash_ok te) fs" "h \<in> f_hash ` set (filterNewFindings te fs ex)"
  shows "hash64 h" "to_lower (ulower te) h = h"
proof -
  have "f_hash ` set (filterNewFindings te fs ex) \<subseteq> f_hash ` with_hash te ` set fs"
    using dedup_by_subset unfolding filterNewFindings_def by fastforce
  then obtain f where "f \<in> set fs" "h = f_hash (with_hash te f)" using assms(2) by blast
  then show "hash64 h" "to_lower (ulower te) h = h"
    using assms(1) hash64_lower by (auto simp: list_all_iff hash_ok_def with_hash_def)
qed

lemma fresh_distinct: "distinct (map f_hash (filterNewFindings te fs ex))"
  "f_hash ` set (filterNewFindings te fs ex) \<inter> set ex = {}"
  unfolding filterNewFindings_def using dedup_by_distinct dedup_by_keys [of f_hash "set ex"] by blast+

lemma merge_shape:
  assumes "filterNewFindings te fs (extractExistingFindingHashes te ex) \<noteq> []"
  shows "\<exists>sections. fst (mergeTodos te name ex fs opts) = mergeContent ex (projectTitle name (go_title opts)) sections \<and>
    renderRunSection (ulower te) (filterNewFindings te fs (extractExistingFindingHashes te ex)) (go_now opts) (go_run_id opts) \<in>
      set sections"
  using assms
  by (intro exI [of _ "renderRunSection (ulower te) (filterNewFindings te fs (extractExistingFindingHashes te ex))
        (go_now opts) (go_run_id opts) # (if go_warnings opts = [] then []
          else [renderWarningsSection (go_warnings opts) (go_now opts) (go_run_id opts)])"])
    (simp add: mergeTodos_def Let_def)

lemma merged_hashes:
  assumes "fst (mergeTodos te name ex fs opts) \<noteq> []" "list_all (hash_ok te) fs"
  shows "set (extractExistingFindingHashes te ex) \<subseteq> set (extractExistingFindingHashes te (fst (mergeTodos te name ex fs opts)))"
    and "f_hash ` set (filterNewFindings te fs (extractExistingFindingHashes te ex)) \<subseteq>
      set (extractExistingFindingHashes te (fst (mergeTodos te name ex fs opts)))"
proof -
  let ?fresh = "filterNewFindings te fs (extractExistingFindingHashes te ex)"
  let ?m = "fst (mergeTodos te name ex fs opts)"
  let ?run = "renderRunSection (ulower te) ?fresh (go_now opts) (go_run_id opts)"
  obtain sections where m: "?m = mergeContent ex (projectTitle name (go_title opts)) sections"
    and s: "?fresh \<noteq> [] \<Longrightarrow> ?run \<in> set sections"
    using assms(1) by (auto simp: mergeTodos_def Let_def split: if_splits)
  show "set (extractExistingFindingHashes te ex) \<subseteq> set (extractExistingFindingHashes te ?m)"
    using merged_keeps unfolding m extractExistingFindingHashes_def by fastforce
  show "f_hash ` set ?fresh \<subseteq> set (extractExistingFindingHashes te ?m)"
  proof
    fix h assume h: "h \<in> f_hash ` set ?fresh"
    then obtain f where f: "f \<in> set ?fresh" "h = f_hash f" by blast
    then have "?fresh \<noteq> []" by auto
    then have "sublist (comment_of h) ?m"
      using found_in [OF merged_sections section_comment] s f m by metis
    then have "h \<in> set (find_hashes ?m)" using fresh_hashes(1) [OF assms(2) h] comment_found by blast
    then show "h \<in> set (extractExistingFindingHashes te ?m)"
      using fresh_hashes(2) [OF assms(2) h] unfolding extractExistingFindingHashes_def by (metis image_eqI list.set_map)
  qed
qed

section \<open>Runs\<close>

definition text_of :: "todos_file \<Rightarrow> string" where
  "text_of file = (case file of TodosText s \<Rightarrow> s | _ \<Rightarrow> [])"

text \<open>The hashes a call reports: those of the new findings when it succeeds, none when it fails.\<close>

definition reported :: "text_env \<Rightarrow> todos_file \<Rightarrow> finding list \<Rightarrow> todos_error + generate_result \<Rightarrow> string list" where
  "reported te file fs r =
     (case r of Inl _ \<Rightarrow> []
      | Inr _ \<Rightarrow> map f_hash (filterNewFindings te fs (extractExistingFindingHashes te (text_of file))))"

type_synonym todos_call = "todos_io \<times> string \<times> finding list \<times> generate_options"

fun todos_runs :: "text_env \<Rightarrow> todos_call list \<Rightarrow> todos_file \<Rightarrow> string list \<times> todos_file" where
  "todos_runs te [] file = ([], file)"
| "todos_runs te ((io, name, fs, opts) # cs) file =
     (let (r, file') = generateTodos te io name fs opts file;
          (hs, file'') = todos_runs te cs file'
      in (reported te file fs r @ hs, file''))"

definition hashes_of :: "text_env \<Rightarrow> todos_file \<Rightarrow> string set" where
  "hashes_of te file = set (extractExistingFindingHashes te (text_of file))"

lemma one_call:
  assumes "generateTodos te io name fs opts file = (r, file')" "list_all (hash_ok te) fs"
  shows "distinct (reported te file fs r)" "set (reported te file fs r) \<inter> hashes_of te file = {}"
    "set (reported te file fs r) \<union> hashes_of te file \<subseteq> hashes_of te file'"
proof -
  let ?ex = "extractExistingFindingHashes te (text_of file)"
  show "distinct (reported te file fs r)" "set (reported te file fs r) \<inter> hashes_of te file = {}"
    by (cases r, simp_all add: reported_def hashes_of_def fresh_distinct)+
  consider (failed) e where "r = Inl e" "file' = file"
    | (nothing) res where "r = Inr res" "file' = file" "filterNewFindings te fs ?ex = []"
    | (written) res where "r = Inr res" "fst (mergeTodos te name (text_of file) fs opts) \<noteq> []"
        "file' = TodosText (fst (mergeTodos te name (text_of file) fs opts))"
    using assms(1)
    by (cases "file") (auto simp: generateTodos_def readExistingTodos_def text_of_def mergeTodos_def mergeContent_def Let_def
        versionMarker_def split: sum.splits if_splits)
  then show "set (reported te file fs r) \<union> hashes_of te file \<subseteq> hashes_of te file'"
  proof cases
    case written
    then show ?thesis using merged_hashes [OF written(2) assms(2)]
      by (simp add: reported_def hashes_of_def text_of_def)
  qed (simp_all add: reported_def)
qed

lemma todos_runs_once:
  assumes "\<forall>(io, name, fs, opts) \<in> set cs. list_all (hash_ok te) fs"
  shows "distinct (fst (todos_runs te cs file)) \<and> set (fst (todos_runs te cs file)) \<inter> hashes_of te file = {} \<and>
    set (fst (todos_runs te cs file)) \<union> hashes_of te file \<subseteq> hashes_of te (snd (todos_runs te cs file))"
  using assms
proof (induction cs arbitrary: "file")
  case (Cons c cs)
  obtain io name fs opts where c: "c = (io, name, fs, opts)" by (cases c) auto
  obtain r file' where g: "generateTodos te io name fs opts file = (r, file')" by fastforce
  obtain hs file'' where t: "todos_runs te cs file' = (hs, file'')" by fastforce
  have one: "distinct (reported te file fs r)" "set (reported te file fs r) \<inter> hashes_of te file = {}"
      "set (reported te file fs r) \<union> hashes_of te file \<subseteq> hashes_of te file'"
    using one_call [OF g] Cons.prems c by auto
  have "distinct hs \<and> set hs \<inter> hashes_of te file' = {} \<and> set hs \<union> hashes_of te file' \<subseteq> hashes_of te file''"
    using Cons.IH [of file'] Cons.prems by (simp add: t)
  then show ?case using one by (auto simp: c g t)
qed simp

text \<open>C4: Over any sequence of runs on a project's todos file, whatever fails in between, no hash is reported twice and
  none that stood in the file before; and every hash reported, like every one that stood there,
  is found in the file afterwards.\<close>
theorem todos_reported_once:
  assumes "\<forall>(io, name, fs, opts) \<in> set cs. list_all (hash_ok te) fs"
  shows "distinct (fst (todos_runs te cs file)) \<and> set (fst (todos_runs te cs file)) \<inter> hashes_of te file = {} \<and>
    set (fst (todos_runs te cs file)) \<union> hashes_of te file \<subseteq> hashes_of te (snd (todos_runs te cs file))"
  by (rule todos_runs_once [OF assms])

text \<open>The text of a finding is written as it is: one that quotes the comment of a hash makes the file
  hold that hash, and a finding that has it is never reported.\<close>

theorem quoted_hash_suppresses:
  assumes "g \<in> set (filterNewFindings te fs (extractExistingFindingHashes te ex))" "hash64 h" "to_lower (ulower te) h = h"
    and "sublist (comment_of h) (trim_space (f_mistake g))" "f_hash f = h"
  shows "filterNewFindings te [f] (extractExistingFindingHashes te (fst (mergeTodos te name ex fs opts))) = []"
proof -
  let ?fresh = "filterNewFindings te fs (extractExistingFindingHashes te ex)"
  let ?m = "fst (mergeTodos te name ex fs opts)"
  let ?run = "renderRunSection (ulower te) ?fresh (go_now opts) (go_run_id opts)"
  obtain sections where m: "?m = mergeContent ex (projectTitle name (go_title opts)) sections" "?run \<in> set sections"
    using merge_shape [of te fs ex name opts] assms(1) by force
  have "sublist (trim_space (f_mistake g)) (renderFinding (ulower te) g)"
    unfolding renderFinding_def renderMistakeLine_def Let_def append_assoc by (intro sublist_later sublist_append_rightI)
  then have "sublist (comment_of h) (renderFinding (ulower te) g)" by (rule found_in) (rule assms(4))
  then have "sublist (comment_of h) ?m"
    using rendered_section [OF assms(1)] merged_sections [OF m(2)] m(1) found_in by metis
  then have "h \<in> set (find_hashes ?m)" using assms(2) comment_found by blast
  then have "h \<in> set (extractExistingFindingHashes te ?m)"
    using assms(3) unfolding extractExistingFindingHashes_def by (metis image_eqI list.set_map)
  moreover have "h \<noteq> []" using assms(2) by (auto simp: hash64_def)
  ultimately show ?thesis using assms(3,5) by (simp add: filterNewFindings_def with_hash_def)
qed

text \<open>A finding reported by the first of two runs, which the second one repeats in capitals.\<close>

definition sample_text_env :: text_env where
  "sample_text_env = \<lparr>sha256_hex = (\<lambda>s. replicate 64 (CHR ''0'')), ulower = (\<lambda>s. s)\<rparr>"

definition sample_reported :: "char \<Rightarrow> finding" where
  "sample_reported c =
     \<lparr>f_category = ''lint_rule'', f_mistake = ''Unchecked error'',
      f_guardrail = \<lparr>g_kind = [], g_tool = [], g_rule = [], g_config = [], g_apply = None\<rparr>,
      f_evidence = [], f_confidence = Finite 1, f_hash = replicate 64 c, f_unverified = False\<rparr>"

definition sample_call :: "char \<Rightarrow> todos_call" where
  "sample_call c =
     (\<lparr>io_upper = (\<lambda>s. s), io_config_root = None, io_mkdir = True, io_write = True\<rparr>, ''project-app'', [sample_reported c],
      \<lparr>go_output_root = ''/out'', go_title = [], go_warnings = [], go_now = 0, go_run_id = []\<rparr>)"

lemma call_writes:
  assumes "todosPathForProject (io_upper io) (io_config_root io) name (go_output_root opts) = Inr path" "io_mkdir io" "io_write io"
    and "filterNewFindings te fs (extractExistingFindingHashes te []) \<noteq> []"
  shows "\<exists>res file'. generateTodos te io name fs opts NoTodos = (Inr res, file')"
  using assms by (auto simp: generateTodos_def readExistingTodos_def Let_def split: prod.split)

lemma sample_first: "replicate 64 (CHR ''a'') \<in> set (fst (todos_runs sample_text_env (sample_call (CHR ''a'') # cs) NoTodos))"
proof -
  obtain io name fs opts where c: "sample_call (CHR ''a'') = (io, name, fs, opts)" by (cases "sample_call (CHR ''a'')") auto
  have fresh: "map f_hash (filterNewFindings sample_text_env [sample_reported (CHR ''a'')] (extractExistingFindingHashes sample_text_env [])) =
      [replicate 64 (CHR ''a'')]" by code_simp
  have "todosPathForProject (\<lambda>s. s) None ''project-app'' ''/out'' = Inr ''/out/project-app/todos.md''" by code_simp
  then obtain res file' where "generateTodos sample_text_env io name fs opts NoTodos = (Inr res, file')"
    using c fresh call_writes [of io name opts "''/out/project-app/todos.md''" sample_text_env fs]
    by (auto simp: sample_call_def)
  then show ?thesis
    using c fresh by (auto simp: reported_def text_of_def sample_call_def split: prod.split)
qed

theorem todos_reported_once_witness:
  "distinct (fst (todos_runs sample_text_env [sample_call (CHR ''a''), sample_call (CHR ''A'')] NoTodos)) \<and>
   replicate 64 (CHR ''a'') \<in>
     hashes_of sample_text_env (snd (todos_runs sample_text_env [sample_call (CHR ''a''), sample_call (CHR ''A'')] NoTodos))"
proof -
  have "list_all (hash_ok sample_text_env) [sample_reported (CHR ''a'')]" "list_all (hash_ok sample_text_env) [sample_reported (CHR ''A'')]"
    by code_simp+
  then have "\<forall>(io, name, fs, opts) \<in> set [sample_call (CHR ''a''), sample_call (CHR ''A'')]. list_all (hash_ok sample_text_env) fs"
    by (simp add: sample_call_def)
  from todos_reported_once [OF this, of NoTodos] sample_first [of "[sample_call (CHR ''A'')]"]
  show ?thesis by blast
qed

end
