(* ===== verification/Transcripts.thy ===== *)
theory Transcripts
  imports Chunker ProtoReader Todos "HOL-Library.AList"
begin

text \<open>
  What of a chat reaches a provider: the redaction of secrets, \<open>internal/analyzer/redaction.go\<close>, and
  the construction of transcript blocks, \<open>internal/pipeline/transcript.go\<close>. A compiled regular
  expression is a parameter that splits a text at its matches; reading a source is one too. Shown:
  the loop over the sources builds, for every tool in the order of its first source, one block of
  its redacted lines in the order of the sources.
\<close>

section \<open>Redaction\<close>

text \<open>The matches of a pattern, each with the text before it, and the text after the last.\<close>

type_synonym matches = "(string \<times> string) list \<times> string"

record redaction_pattern =
  rp_name :: string
  rp_find :: "string \<Rightarrow> matches"

definition newRedactor :: "redaction_pattern list \<Rightarrow> (string \<Rightarrow> (string \<Rightarrow> matches) option) \<Rightarrow> string list \<Rightarrow>
    redaction_pattern list option" where
  "newRedactor defaults compile extra =
     (let raws = filter (\<lambda>r. r \<noteq> []) (map trim_space extra) in
      if \<exists>r \<in> set raws. compile r = None then None
      else Some (defaults @ map (\<lambda>r. \<lparr>rp_name = ''custom'', rp_find = the (compile r)\<rparr>) raws))"

definition add_hits :: "string \<Rightarrow> nat \<Rightarrow> (string \<times> nat) list \<Rightarrow> (string \<times> nat) list" where
  "add_hits name n h =
     (if n = 0 then h else AList.update name ((case map_of h name of None \<Rightarrow> 0 | Some k \<Rightarrow> k) + n) h)"

definition redact_step :: "redaction_pattern \<Rightarrow> string \<times> (string \<times> nat) list \<Rightarrow> string \<times> (string \<times> nat) list" where
  "redact_step p acc =
     (case acc of (text', hits) \<Rightarrow>
      case rp_find p text' of (found, rest) \<Rightarrow>
        (concat (map (\<lambda>(before, m). before @ ''[REDACTED:'' @ rp_name p @ '']'') found) @ rest,
         add_hits (rp_name p) (length found) hits))"

definition redact :: "redaction_pattern list option \<Rightarrow> string \<Rightarrow> string \<times> (string \<times> nat) list" where
  "redact r text' =
     (case r of
        None \<Rightarrow> (text', [])
      | Some ps \<Rightarrow> if ps = [] \<or> text' = [] then (text', []) else fold redact_step ps (text', []))"

definition totalHits :: "(string \<times> nat) list \<Rightarrow> nat" where
  "totalHits hits = sum_list (map snd hits)"

section \<open>Lines\<close>

definition collapsible :: "char \<Rightarrow> bool" where
  "collapsible c \<longleftrightarrow> c \<in> {CHR 0x09, CHR 0x0D, CHR 0x0A, CHR '' ''}"

fun collapse :: "bool \<Rightarrow> string \<Rightarrow> string" where
  "collapse inside [] = []"
| "collapse inside (c # cs) =
     (if collapsible c then (if inside then collapse True cs else CHR '' '' # collapse True cs)
      else c # collapse False cs)"

definition normalizeWhitespace :: "string \<Rightarrow> string" where
  "normalizeWhitespace s = trim_space (collapse False s)"

definition message_line :: "chat_message \<Rightarrow> string \<Rightarrow> string" where
  "message_line m redacted =
     (case cm_timestamp m of None \<Rightarrow> [] | Some t \<Rightarrow> ''['' @ rfc3339 t @ ''] '') @ cm_role m @ '': '' @ redacted @ [newline]"

section \<open>Blocks\<close>

record transcript_source =
  ts_path :: string
  ts_tool :: string
  ts_parent :: string

record source_read =
  sr_messages :: "chat_message list"
  sr_truncated :: bool
  sr_bytes :: nat

record tool_aggregator =
  ta_tool :: string
  ta_paths :: "string list"
  ta_messages :: "string list"

record transcript_build =
  tb_blocks :: "tool_aggregator list"
  tb_used :: "transcript_source list"
  tb_count :: nat
  tb_warnings :: "string list"
  tb_hits :: nat

text \<open>The aggregator of a tool, new at the end of the order when the tool has none.\<close>

fun with_aggregator :: "string \<Rightarrow> (tool_aggregator \<Rightarrow> tool_aggregator) \<Rightarrow> tool_aggregator list \<Rightarrow> tool_aggregator list" where
  "with_aggregator t f [] = [f \<lparr>ta_tool = t, ta_paths = [], ta_messages = []\<rparr>]"
| "with_aggregator t f (a # as) = (if ta_tool a = t then f a # as else a # with_aggregator t f as)"

definition source_message ::
    "redaction_pattern list option \<Rightarrow> string \<Rightarrow> chat_message \<Rightarrow> transcript_build \<Rightarrow> transcript_build" where
  "source_message r tool m b =
     (let text' = normalizeWhitespace (cm_content m) in
      if text' = [] then b
      else let (redacted, hits) = redact r text' in
        b\<lparr>tb_hits := tb_hits b + totalHits hits, tb_count := tb_count b + 1,
          tb_blocks := with_aggregator tool (\<lambda>a. a\<lparr>ta_messages := ta_messages a @ [message_line m redacted]\<rparr>) (tb_blocks b)\<rparr>)"

definition skipped_warning :: "transcript_source \<Rightarrow> string \<Rightarrow> string" where
  "skipped_warning s err = ''Skipped '' @ ts_path s @ '' ('' @ err @ '').''"

definition truncated_warning :: "transcript_source \<Rightarrow> nat \<Rightarrow> string" where
  "truncated_warning s n =
     ''Truncated '' @ ts_path s @ '' after '' @ dec_nat n @
     '' retained bytes; tighten since or raise analyzer.chunking.max_chunk_bytes for more history.''"

definition build_source ::
    "redaction_pattern list option \<Rightarrow> bool \<Rightarrow> (transcript_source \<Rightarrow> string + source_read) \<Rightarrow> transcript_source \<Rightarrow>
     transcript_build \<Rightarrow> transcript_build" where
  "build_source r includeSubagents reads s b =
     (if \<not> includeSubagents \<and> ts_parent s \<noteq> [] then b
      else case reads s of
        Inl err \<Rightarrow> b\<lparr>tb_warnings := tb_warnings b @ [skipped_warning s err]\<rparr>
      | Inr res \<Rightarrow>
          if sr_messages res = [] then b
          else
            let b1 = b\<lparr>tb_warnings := tb_warnings b @ (if sr_truncated res then [truncated_warning s (sr_bytes res)] else []),
                       tb_used := tb_used b @ [s],
                       tb_blocks := with_aggregator (ts_tool s) (\<lambda>a. a\<lparr>ta_paths := ta_paths a @ [ts_path s]\<rparr>) (tb_blocks b)\<rparr>
            in fold (source_message r (ts_tool s)) (sr_messages res) b1)"

definition empty_build :: transcript_build where
  "empty_build = \<lparr>tb_blocks = [], tb_used = [], tb_count = 0, tb_warnings = [], tb_hits = 0\<rparr>"

definition block_of :: "tool_aggregator \<Rightarrow> provider_block" where
  "block_of a =
     \<lparr>Tool = ta_tool a, Sources = ta_paths a,
      Header = ''tool: '' @ ta_tool a @ [newline] @ ''sources: '' @ join '', '' (ta_paths a) @ [newline, newline],
      Messages = ta_messages a\<rparr>"

definition buildProviderBlocks ::
    "redaction_pattern list option \<Rightarrow> bool \<Rightarrow> (transcript_source \<Rightarrow> string + source_read) \<Rightarrow> transcript_source list \<Rightarrow>
     provider_block list \<times> transcript_build" where
  "buildProviderBlocks r includeSubagents reads sources =
     (let b = fold (build_source r includeSubagents reads) sources empty_build in (map block_of (tb_blocks b), b))"

section \<open>What the loop builds\<close>

text \<open>The declarative reading: the sources that count, and the lines and hits of each.\<close>

definition counts_source :: "bool \<Rightarrow> (transcript_source \<Rightarrow> string + source_read) \<Rightarrow> transcript_source \<Rightarrow> bool" where
  "counts_source sub reads s \<longleftrightarrow> (sub \<or> ts_parent s = []) \<and> (\<exists>res. reads s = Inr res \<and> sr_messages res \<noteq> [])"

definition kept_messages :: "(transcript_source \<Rightarrow> string + source_read) \<Rightarrow> transcript_source \<Rightarrow> chat_message list" where
  "kept_messages reads s =
     (case reads s of Inl _ \<Rightarrow> [] | Inr res \<Rightarrow> filter (\<lambda>m. normalizeWhitespace (cm_content m) \<noteq> []) (sr_messages res))"

definition redacted_line :: "redaction_pattern list option \<Rightarrow> chat_message \<Rightarrow> string" where
  "redacted_line r m = message_line m (fst (redact r (normalizeWhitespace (cm_content m))))"

definition message_hits :: "redaction_pattern list option \<Rightarrow> chat_message \<Rightarrow> nat" where
  "message_hits r m = totalHits (snd (redact r (normalizeWhitespace (cm_content m))))"

definition block_for ::
    "redaction_pattern list option \<Rightarrow> (transcript_source \<Rightarrow> string + source_read) \<Rightarrow> transcript_source list \<Rightarrow> string \<Rightarrow>
     tool_aggregator" where
  "block_for r reads used t =
     (let mine = filter (\<lambda>s. ts_tool s = t) used in
      \<lparr>ta_tool = t, ta_paths = map ts_path mine,
       ta_messages = concat (map (\<lambda>s. map (redacted_line r) (kept_messages reads s)) mine)\<rparr>)"

definition tools_of :: "transcript_source list \<Rightarrow> string list" where
  "tools_of used = dedup_by (\<lambda>t. t) {} (map ts_tool used)"

lemma with_aggregator_twice:
  assumes "\<And>a. ta_tool (g a) = ta_tool a"
  shows "with_aggregator t f (with_aggregator t g as) = with_aggregator t (\<lambda>a. f (g a)) as"
  by (induction as) (simp_all add: assms)

lemma with_aggregator_map:
  assumes "\<And>u. ta_tool (G u) = u" "distinct ts"
  shows "with_aggregator t f (map G ts) =
    (if t \<in> set ts then map (\<lambda>u. if u = t then f (G u) else G u) ts
     else map G ts @ [f \<lparr>ta_tool = t, ta_paths = [], ta_messages = []\<rparr>])"
  using assms(2) by (induction ts) (auto simp: assms(1))

lemma tools_of_snoc:
  "tools_of (used @ [s]) = tools_of used @ (if ts_tool s \<in> set (tools_of used) then [] else [ts_tool s])"
  using dedup_by_keys [of "\<lambda>t. t" "{}" "map ts_tool used"]
  by (auto simp: tools_of_def dedup_by_append)

lemma tools_of_set: "set (tools_of used) = ts_tool ` set used" "distinct (tools_of used)"
  using dedup_by_keys [of "\<lambda>t. t" "{}" "map ts_tool used"] dedup_by_distinct [of "\<lambda>t. t" "{}" "map ts_tool used"]
  by (simp_all add: tools_of_def)

definition add_lines :: "string list \<Rightarrow> tool_aggregator \<Rightarrow> tool_aggregator" where
  "add_lines ls = (\<lambda>a. a\<lparr>ta_messages := ta_messages a @ ls\<rparr>)"

definition add_path :: "string \<Rightarrow> tool_aggregator \<Rightarrow> tool_aggregator" where
  "add_path p = (\<lambda>a. a\<lparr>ta_paths := ta_paths a @ [p]\<rparr>)"

lemma add_simps [simp]: "ta_tool (add_lines ls a) = ta_tool a" "ta_tool (add_path p a) = ta_tool a"
  "add_lines ls (add_lines ks a) = add_lines (ks @ ls) a" "add_lines [] a = a"
  by (simp_all add: add_lines_def add_path_def)

lemma source_message_eq:
  "source_message r tool m b =
     (if normalizeWhitespace (cm_content m) = [] then b
      else b\<lparr>tb_hits := tb_hits b + message_hits r m, tb_count := tb_count b + 1,
             tb_blocks := with_aggregator tool (add_lines [redacted_line r m]) (tb_blocks b)\<rparr>)"
  by (simp add: source_message_def Let_def message_hits_def redacted_line_def add_lines_def case_prod_unfold)

lemma source_messages_eq:
  assumes "tb_blocks b = with_aggregator t g as" "\<And>a. ta_tool (g a) = ta_tool a"
  shows "fold (source_message r t) ms b =
    (let kept = filter (\<lambda>m. normalizeWhitespace (cm_content m) \<noteq> []) ms in
     b\<lparr>tb_hits := tb_hits b + sum_list (map (message_hits r) kept), tb_count := tb_count b + length kept,
       tb_blocks := with_aggregator t (\<lambda>a. add_lines (map (redacted_line r) kept) (g a)) as\<rparr>)"
  using assms
proof (induction ms arbitrary: b g)
  case (Cons m ms)
  show ?case
  proof (cases "normalizeWhitespace (cm_content m) = []")
    case True
    then show ?thesis using Cons by (simp add: source_message_eq)
  next
    case False
    let ?b = "source_message r t m b" and ?g = "\<lambda>a. add_lines [redacted_line r m] (g a)"
    have "tb_blocks ?b = with_aggregator t ?g as"
      using False Cons.prems by (simp add: source_message_eq with_aggregator_twice)
    moreover have "\<And>a. ta_tool (?g a) = ta_tool a" using Cons.prems(2) by simp
    ultimately show ?thesis
      using Cons.IH [of ?b ?g] False by (simp add: source_message_eq Let_def add.assoc)
  qed
qed simp

lemma block_for_snoc:
  "with_aggregator (ts_tool s) (\<lambda>a. add_lines (map (redacted_line r) (kept_messages reads s)) (add_path (ts_path s) a))
     (map (block_for r reads used) (tools_of used)) =
   map (block_for r reads (used @ [s])) (tools_of (used @ [s]))"
proof -
  have tool: "ta_tool (block_for r reads used u) = u" for u by (simp add: block_for_def Let_def)
  have other: "block_for r reads (used @ [s]) u = block_for r reads used u" if "u \<noteq> ts_tool s" for u
    using that by (simp add: block_for_def)
  have here: "block_for r reads (used @ [s]) (ts_tool s) =
      add_lines (map (redacted_line r) (kept_messages reads s)) (add_path (ts_path s) (block_for r reads used (ts_tool s)))"
    by (simp add: block_for_def Let_def add_lines_def add_path_def)
  have fresh: "block_for r reads used (ts_tool s) = \<lparr>ta_tool = ts_tool s, ta_paths = [], ta_messages = []\<rparr>"
    if "ts_tool s \<notin> set (tools_of used)"
    using that by (auto simp: block_for_def Let_def tools_of_set filter_empty_conv image_iff)
  show ?thesis
    using with_aggregator_map [of "block_for r reads used" "tools_of used" "ts_tool s", OF tool tools_of_set(2)] fresh
    by (auto simp: tools_of_snoc here other intro!: map_cong other [symmetric])
qed

definition built_from ::
    "redaction_pattern list option \<Rightarrow> (transcript_source \<Rightarrow> string + source_read) \<Rightarrow> transcript_source list \<Rightarrow> transcript_build \<Rightarrow> bool" where
  "built_from r reads used b \<longleftrightarrow>
     tb_used b = used \<and> tb_blocks b = map (block_for r reads used) (tools_of used) \<and>
     tb_count b = sum_list (map (\<lambda>s. length (kept_messages reads s)) used) \<and>
     tb_hits b = sum_list (map (\<lambda>s. sum_list (map (message_hits r) (kept_messages reads s))) used)"

lemma build_source_step:
  assumes "built_from r reads used b"
  shows "built_from r reads (used @ filter (counts_source sub reads) [s]) (build_source r sub reads s b)"
proof (cases "counts_source sub reads s")
  case False
  then show ?thesis using assms by (auto simp: build_source_def counts_source_def built_from_def split: sum.split)
next
  case True
  then obtain res where res: "reads s = Inr res" "sr_messages res \<noteq> []" "sub \<or> ts_parent s = []"
    by (auto simp: counts_source_def)
  have kept: "kept_messages reads s = filter (\<lambda>m. normalizeWhitespace (cm_content m) \<noteq> []) (sr_messages res)"
    by (simp add: kept_messages_def res(1))
  let ?b = "b\<lparr>tb_warnings := tb_warnings b @ (if sr_truncated res then [truncated_warning s (sr_bytes res)] else []),
    tb_used := tb_used b @ [s], tb_blocks := with_aggregator (ts_tool s) (add_path (ts_path s)) (tb_blocks b)\<rparr>"
  have "build_source r sub reads s b = fold (source_message r (ts_tool s)) (sr_messages res) ?b"
    using res by (auto simp: build_source_def Let_def add_path_def)
  also have "\<dots> = ?b\<lparr>tb_hits := tb_hits b + sum_list (map (message_hits r) (kept_messages reads s)),
      tb_count := tb_count b + length (kept_messages reads s),
      tb_blocks := with_aggregator (ts_tool s) (\<lambda>a. add_lines (map (redacted_line r) (kept_messages reads s)) (add_path (ts_path s) a))
        (tb_blocks b)\<rparr>"
    by (subst source_messages_eq [where g = "add_path (ts_path s)" and as = "tb_blocks b"]) (simp_all add: kept Let_def)
  finally show ?thesis
    using assms True by (simp add: built_from_def block_for_snoc)
qed

lemma build_from_fold:
  "built_from r reads used b \<Longrightarrow>
   built_from r reads (used @ filter (counts_source sub reads) ss) (fold (build_source r sub reads) ss b)"
proof (induction ss arbitrary: used b)
  case (Cons s ss)
  from Cons.IH [OF build_source_step [OF Cons.prems, of sub s]] show ?case by (simp split: if_splits)
qed simp

text \<open>C22: The loop over the sources builds exactly one block for every tool, in the order of the tools' first sources, with
  the paths and the non-blank lines of that tool's readable sources in their order, every line
  redacted; sources of child sessions take part only when asked for; and the count of messages and of
  redactions are those of the blocks.\<close>
theorem transcript_blocks_exact:
  "let used = filter (counts_source sub reads) sources; (blocks, b) = buildProviderBlocks r sub reads sources in
     blocks = map (\<lambda>t. block_of (block_for r reads used t)) (tools_of used) \<and> tb_used b = used \<and>
     tb_count b = sum_list (map (\<lambda>s. length (kept_messages reads s)) used) \<and>
     tb_hits b = sum_list (map (\<lambda>s. sum_list (map (message_hits r) (kept_messages reads s))) used)"
proof -
  have "built_from r reads [] empty_build" by (simp add: built_from_def empty_build_def tools_of_def)
  then show ?thesis
    using build_from_fold [of r reads "[]" empty_build sub sources]
    by (simp add: buildProviderBlocks_def Let_def built_from_def)
qed

section \<open>One line\<close>

lemma collapse_no_newline: "newline \<notin> set (collapse b s)"
  by (induction b s rule: collapse.induct) (auto simp: collapsible_def newline_def)

lemma trim_space_subset: "set (trim_space s) \<subseteq> set s"
proof -
  obtain v where "trim_left s = trim_space s @ v" using trim_right_prefix by (auto simp: trim_space_def)
  moreover obtain u where "s = u @ trim_left s" using trim_by_suffix by (auto simp: trim_left_def)
  ultimately show ?thesis by (metis UnCI set_append subsetI)
qed

text \<open>The text a pattern is matched against has no line feed: an expression that is anchored at the
  beginning of lines is tried at the beginning of the message only.\<close>

theorem redacted_text_is_one_line: "newline \<notin> set (normalizeWhitespace s)"
  using collapse_no_newline trim_space_subset unfolding normalizeWhitespace_def by blast

end
