(* ===== verification/Seccomp.thy ===== *)
theory Seccomp
  imports Prelude "HOL-Library.Word"
begin

text \<open>
  The system-call filter of the Linux sandbox, \<open>internal/sandbox/seccomp.go\<close> with the profiles of
  \<open>seccomp_types.go\<close>: the compiler from a profile to instructions of the Berkeley packet filter and
  the bytes handed to the sandbox. The assembler and the machine that runs a filter are not part of
  the source; of the machine only the documented behaviour of the three instructions in use
  (\<open>machine_runs\<close>) is assumed. Shown: a compiled filter kills exactly the calls of its profile.
\<close>

section \<open>Profiles\<close>

record syscall_rule =
  sr_name :: string
  sr_nr :: int

text \<open>The numbers of \<open>syscall\<close> for Linux on amd64.\<close>

definition profileMinimal :: "syscall_rule list" where
  "profileMinimal = [\<lparr>sr_name = ''ptrace'', sr_nr = 101\<rparr>]"

definition profileFull :: "syscall_rule list" where
  "profileFull =
     [\<lparr>sr_name = ''ptrace'', sr_nr = 101\<rparr>, \<lparr>sr_name = ''mount'', sr_nr = 165\<rparr>, \<lparr>sr_name = ''umount2'', sr_nr = 166\<rparr>,
      \<lparr>sr_name = ''pivot_root'', sr_nr = 155\<rparr>, \<lparr>sr_name = ''chroot'', sr_nr = 161\<rparr>, \<lparr>sr_name = ''reboot'', sr_nr = 169\<rparr>,
      \<lparr>sr_name = ''setns'', sr_nr = 308\<rparr>, \<lparr>sr_name = ''unshare'', sr_nr = 272\<rparr>]"

section \<open>The compiler\<close>

datatype insn =
    LoadAbsolute nat nat
  | JumpIfEqual "32 word" nat nat
  | RetConstant "32 word"

datatype seccomp_error = TooManyRules nat | InvalidNR string int | SkipTooFar nat

definition maxRules :: nat where "maxRules = 127"

definition ret_allow :: "32 word" where "ret_allow = 0x7FFF0000"

definition ret_kill :: "32 word" where "ret_kill = 0x80000000"

text \<open>The first pass: two instructions for every rule, whose jumps are filled in by the second.\<close>

fun rule_insns :: "syscall_rule list \<Rightarrow> seccomp_error + insn list" where
  "rule_insns [] = Inr []"
| "rule_insns (r # rs) =
     (if sr_nr r < 0 then Inl (InvalidNR (sr_name r) (sr_nr r))
      else case rule_insns rs of
        Inl e \<Rightarrow> Inl e
      | Inr ins \<Rightarrow> Inr (LoadAbsolute 0 4 # JumpIfEqual (word_of_int (sr_nr r)) 1 0 # ins))"

text \<open>The second pass, at index \<open>i\<close> of a program of \<open>plen\<close> instructions.\<close>

fun fill_skips :: "nat \<Rightarrow> nat \<Rightarrow> insn list \<Rightarrow> seccomp_error + insn list" where
  "fill_skips plen i [] = Inr []"
| "fill_skips plen i (JumpIfEqual v t f # ins) =
     (let skip = plen - 2 - i in
      if skip > 255 then Inl (SkipTooFar skip)
      else case fill_skips plen (i + 1) ins of Inl e \<Rightarrow> Inl e | Inr js \<Rightarrow> Inr (JumpIfEqual v skip f # js))"
| "fill_skips plen i (x # ins) =
     (case fill_skips plen (i + 1) ins of Inl e \<Rightarrow> Inl e | Inr js \<Rightarrow> Inr (x # js))"

definition compileSeccompBPF :: "syscall_rule list \<Rightarrow> seccomp_error + insn list" where
  "compileSeccompBPF rules =
     (if length rules > maxRules then Inl (TooManyRules (length rules))
      else if rules = [] then Inr []
      else case rule_insns rules of
        Inl e \<Rightarrow> Inl e
      | Inr ins \<Rightarrow>
          let insns = ins @ [RetConstant ret_allow, RetConstant ret_kill] in fill_skips (length insns) 0 insns)"

section \<open>The bytes of a filter\<close>

record raw_insn =
  ri_op :: "16 word"
  ri_jt :: "8 word"
  ri_jf :: "8 word"
  ri_k :: "32 word"

definition seccompInstrBytes :: nat where "seccompInstrBytes = 8"

text \<open>Native byte order of amd64: the low byte first.\<close>

definition le_bytes :: "nat \<Rightarrow> nat \<Rightarrow> nat list" where
  "le_bytes k v = map (\<lambda>i. v div 256 ^ i mod 256) [0..<k]"

definition insn_bytes :: "raw_insn \<Rightarrow> nat list" where
  "insn_bytes r = le_bytes 2 (unat (ri_op r)) @ [unat (ri_jt r), unat (ri_jf r)] @ le_bytes 4 (unat (ri_k r))"

definition filter_bytes :: "raw_insn list \<Rightarrow> nat list" where
  "filter_bytes raw = concat (map insn_bytes raw)"

section \<open>What a compiled filter does\<close>

record seccomp_data =
  sd_nr :: "32 word"
  sd_arch :: "32 word"

type_synonym machine = "insn list \<Rightarrow> nat \<Rightarrow> 32 word \<Rightarrow> seccomp_data \<Rightarrow> 32 word"

text \<open>The documented behaviour of the machine: a load of four bytes at offset zero reads the number
  of the call, a jump goes on behind the instructions it skips, a return ends the filter.\<close>

definition machine_runs :: "machine \<Rightarrow> bool" where
  "machine_runs exec \<longleftrightarrow>
     (\<forall>prog pc a d. pc < length prog \<longrightarrow>
       (prog ! pc = LoadAbsolute 0 4 \<longrightarrow> exec prog pc a d = exec prog (pc + 1) (sd_nr d) d) \<and>
       (\<forall>v t f. prog ! pc = JumpIfEqual v t f \<longrightarrow> exec prog pc a d = exec prog (pc + 1 + (if a = v then t else f)) a d) \<and>
       (\<forall>k. prog ! pc = RetConstant k \<longrightarrow> exec prog pc a d = k))"

lemma machineE:
  assumes "machine_runs exec" "pc < length prog"
  shows "prog ! pc = LoadAbsolute 0 4 \<Longrightarrow> exec prog pc a d = exec prog (pc + 1) (sd_nr d) d"
    and "prog ! pc = JumpIfEqual v t f \<Longrightarrow> exec prog pc a d = exec prog (pc + 1 + (if a = v then t else f)) a d"
    and "prog ! pc = RetConstant k \<Longrightarrow> exec prog pc a d = k"
  using assms unfolding machine_runs_def by blast+

text \<open>The program in closed form.\<close>

definition rule_code :: "nat \<Rightarrow> nat \<Rightarrow> syscall_rule \<Rightarrow> insn list" where
  "rule_code plen i r = [LoadAbsolute 0 4, JumpIfEqual (word_of_int (sr_nr r)) (plen - 3 - i) 0]"

fun rules_code :: "nat \<Rightarrow> nat \<Rightarrow> syscall_rule list \<Rightarrow> insn list" where
  "rules_code plen i [] = [RetConstant ret_allow, RetConstant ret_kill]"
| "rules_code plen i (r # rs) = rule_code plen i r @ rules_code plen (i + 2) rs"

lemma rule_insns_iff: "rule_insns rs = Inr ins \<Longrightarrow> (\<forall>r \<in> set rs. 0 \<le> sr_nr r) \<and> length ins = 2 * length rs"
  by (induction rs arbitrary: ins) (auto split: if_splits sum.splits)

lemma rule_insns_ok: "\<forall>r \<in> set rs. 0 \<le> sr_nr r \<Longrightarrow> \<exists>ins. rule_insns rs = Inr ins"
  by (induction rs) (auto split: sum.split)

lemma fill_skips_code:
  assumes "rule_insns rs = Inr ins" "plen - 3 - i \<le> 255"
  shows "fill_skips plen i (ins @ [RetConstant ret_allow, RetConstant ret_kill]) = Inr (rules_code plen i rs)"
  using assms
proof (induction rs arbitrary: i ins)
  case (Cons r rs)
  then obtain js where js: "rule_insns rs = Inr js" "ins = LoadAbsolute 0 4 # JumpIfEqual (word_of_int (sr_nr r)) 1 0 # js"
    by (auto split: if_splits sum.splits)
  have "plen - 2 - Suc i = plen - 3 - i" by simp
  with Cons.IH [OF js(1), of "i + 2"] Cons.prems(2) show ?case
    by (simp add: js(2) rule_code_def Let_def numeral_2_eq_2)
qed simp

lemma compile_code:
  assumes "length rules \<le> 127" "\<forall>r \<in> set rules. 0 \<le> sr_nr r" "rules \<noteq> []"
  shows "compileSeccompBPF rules = Inr (rules_code (2 * length rules + 2) 0 rules)"
proof -
  obtain js where js: "rule_insns rules = Inr js" using rule_insns_ok [OF assms(2)] by blast
  then have "length js = 2 * length rules" using rule_insns_iff by blast
  moreover have "2 * length rules + 2 - 3 - 0 \<le> 255" using assms(1) by simp
  ultimately show ?thesis
    using fill_skips_code [OF js, of "2 * length rules + 2" 0] assms by (simp add: compileSeccompBPF_def maxRules_def js Let_def)
qed

lemma rules_code_length: "length (rules_code plen i rs) = 2 * length rs + 2"
  by (induction rs arbitrary: i) (simp_all add: rule_code_def)

lemma rules_code_last [simp]: "rules_code t i rs \<noteq> []" "last (rules_code t i rs) = RetConstant ret_kill"
proof -
  show ne: "rules_code t i rs \<noteq> []" for t i rs by (cases rs) (simp_all add: rule_code_def)
  show "last (rules_code t i rs) = RetConstant ret_kill" by (induction rs arbitrary: i) (simp_all add: rule_code_def ne)
qed

text \<open>Running the rest of the rules from the middle of the program.\<close>

lemma run_rules:
  assumes "machine_runs exec" "prog = pre @ rules_code (length prog) (length pre) rs"
  shows "exec prog (length pre) a d = (if sd_nr d \<in> (\<lambda>r. word_of_int (sr_nr r)) ` set rs then ret_kill else ret_allow)"
  using assms(2)
proof (induction rs arbitrary: pre a)
  case Nil
  then have "length pre < length prog" "prog ! length pre = RetConstant ret_allow"
    by (metis length_append length_Cons less_add_same_cancel1 rules_code.simps(1) zero_less_Suc, metis nth_append_length rules_code.simps(1))
  then show ?case using machineE(3) [OF assms(1)] by simp
next
  case (Cons r rs)
  let ?n = "length pre" and ?v = "word_of_int (sr_nr r) :: 32 word"
  let ?rest = "rules_code (length prog) (?n + 2) rs"
  have p: "prog = pre @ LoadAbsolute 0 4 # JumpIfEqual ?v (length prog - 3 - ?n) 0 # ?rest"
    using Cons.prems by (simp add: rule_code_def)
  have len: "length prog = ?n + 2 + (2 * length rs + 2)"
    by (subst p) (simp add: rules_code_length)
  have load: "prog ! ?n = LoadAbsolute 0 4" by (subst p) simp
  have jump: "prog ! (?n + 1) = JumpIfEqual ?v (length prog - 3 - ?n) 0" by (subst p) (simp add: nth_append)
  have "exec prog ?n a d = exec prog (?n + 1) (sd_nr d) d" using machineE(1) [OF assms(1) _ load] len by simp
  also have "\<dots> = exec prog (?n + 1 + 1 + (if sd_nr d = ?v then length prog - 3 - ?n else 0)) (sd_nr d) d"
    using machineE(2) [OF assms(1) _ jump] len by simp
  finally have go: "exec prog ?n a d = exec prog (?n + 2 + (if sd_nr d = ?v then length prog - 3 - ?n else 0)) (sd_nr d) d"
    by simp
  show ?case
  proof (cases "sd_nr d = ?v")
    case True
    have "last prog = RetConstant ret_kill" by (subst Cons.prems) (simp add: rules_code_last del: rules_code.simps)
    moreover have "prog \<noteq> []" using len by auto
    ultimately have "prog ! (length prog - 1) = RetConstant ret_kill" by (simp add: last_conv_nth)
    moreover have "?n + 2 + (length prog - 3 - ?n) = length prog - 1" using len by simp
    ultimately show ?thesis using go True machineE(3) [OF assms(1), of "length prog - 1"] len by simp
  next
    case False
    have "prog = (pre @ [LoadAbsolute 0 4, JumpIfEqual ?v (length prog - 3 - ?n) 0]) @
        rules_code (length prog) (length (pre @ [LoadAbsolute 0 4, JumpIfEqual ?v (length prog - 3 - ?n) 0])) rs"
      using p by simp
    from Cons.IH [OF this, of "sd_nr d"] go False show ?thesis by simp
  qed
qed

text \<open>C35: On every machine that runs filters as documented, the filter compiled from a non-empty profile kills a process at
  exactly the system calls of the profile and allows every other one; and a profile compiles
  exactly when it has at most 127 rules with numbers that are not negative.\<close>
theorem filter_kills_exactly:
  assumes "machine_runs exec" "rules \<noteq> []"
  shows "case compileSeccompBPF rules of
      Inr prog \<Rightarrow> length rules \<le> 127 \<and> (\<forall>r \<in> set rules. 0 \<le> sr_nr r) \<and>
        exec prog 0 a d = (if sd_nr d \<in> (\<lambda>r. word_of_int (sr_nr r)) ` set rules then ret_kill else ret_allow)
    | Inl e \<Rightarrow> 127 < length rules \<or> (\<exists>r \<in> set rules. sr_nr r < 0)"
proof (cases "length rules \<le> 127 \<and> (\<forall>r \<in> set rules. 0 \<le> sr_nr r)")
  case True
  then have c: "compileSeccompBPF rules = Inr (rules_code (2 * length rules + 2) 0 rules)"
    using compile_code assms(2) by blast
  have "exec (rules_code (2 * length rules + 2) 0 rules) 0 a d =
      (if sd_nr d \<in> (\<lambda>r. word_of_int (sr_nr r)) ` set rules then ret_kill else ret_allow)"
    using run_rules [OF assms(1), of "rules_code (2 * length rules + 2) 0 rules" "[]" rules a d]
    by (simp add: rules_code_length)
  then show ?thesis using True by (simp add: c)
next
  case False
  have "\<exists>e. compileSeccompBPF rules = Inl e"
  proof (cases "length rules \<le> 127")
    case short: True
    with False obtain e where "rule_insns rules = Inl e"
      using rule_insns_iff [of rules] by (cases "rule_insns rules") fastforce+
    then show ?thesis using assms(2) by (simp add: compileSeccompBPF_def)
  qed (simp add: compileSeccompBPF_def maxRules_def)
  then show ?thesis using False by (auto simp: not_le)
qed

text \<open>The filter looks at the number only: a call in the numbering of another architecture, whose numbers
  mean other calls, is judged as if it were one of amd64.\<close>

theorem other_architecture_not_seen:
  assumes "machine_runs exec" "compileSeccompBPF rules = Inr prog" "rules \<noteq> []"
    and "sd_nr d \<notin> (\<lambda>r. word_of_int (sr_nr r)) ` set rules"
  shows "exec prog 0 a (d\<lparr>sd_arch := i386\<rparr>) = ret_allow"
proof -
  have p: "length rules \<le> 127" "\<forall>r \<in> set rules. 0 \<le> sr_nr r"
    using assms(2,3) rule_insns_iff by (fastforce simp: compileSeccompBPF_def maxRules_def split: if_splits sum.splits)+
  then have "prog = rules_code (2 * length rules + 2) 0 rules" using compile_code [OF p assms(3)] assms(2) by simp
  then show ?thesis
    using run_rules [OF assms(1), of prog "[]" rules a "d\<lparr>sd_arch := i386\<rparr>"] assms(4) by (simp add: rules_code_length)
qed

section \<open>Serialisation\<close>

lemma le_bytes_length [simp]: "length (le_bytes k v) = k"
  by (simp add: le_bytes_def)

lemma filter_bytes_length: "length (filter_bytes raw) = seccompInstrBytes * length raw"
  by (induction raw) (simp_all add: filter_bytes_def insn_bytes_def seccompInstrBytes_def)

section \<open>A machine\<close>

text \<open>One machine that behaves as documented.\<close>

function run_filter :: "insn list \<Rightarrow> nat \<Rightarrow> 32 word \<Rightarrow> seccomp_data \<Rightarrow> 32 word" where
  "run_filter prog pc a d =
     (if pc < length prog then
        (case prog ! pc of
           LoadAbsolute off n \<Rightarrow> run_filter prog (pc + 1) (sd_nr d) d
         | JumpIfEqual v t f \<Rightarrow> run_filter prog (pc + 1 + (if a = v then t else f)) a d
         | RetConstant k \<Rightarrow> k)
      else ret_kill)"
  by pat_completeness auto
termination by (relation "measure (\<lambda>(prog, pc, a, d). length prog - pc)") auto

declare run_filter.simps [simp del]

lemma run_filter_machine: "machine_runs run_filter"
  unfolding machine_runs_def by (simp add: run_filter.simps)

lemma full_compiles: "\<exists>prog. compileSeccompBPF profileFull = Inr prog"
  using compile_code [of profileFull] by (simp add: profileFull_def)

theorem filter_kills_exactly_witness:
  "\<exists>prog. compileSeccompBPF profileFull = Inr prog \<and> run_filter prog 0 0 \<lparr>sd_nr = 101, sd_arch = 0xC000003E\<rparr> = ret_kill \<and>
     run_filter prog 0 0 \<lparr>sd_nr = 1, sd_arch = 0xC000003E\<rparr> = ret_allow"
proof -
  obtain prog where c: "compileSeccompBPF profileFull = Inr prog" using full_compiles by blast
  have "profileFull \<noteq> []" by (simp add: profileFull_def)
  from filter_kills_exactly [OF run_filter_machine this, of 0] c show ?thesis by (auto simp: profileFull_def)
qed

end
