(* ===== verification/Sandbox.thy ===== *)
theory Sandbox
  imports FsPath Seccomp
begin

text \<open>
  The sandbox of child processes on Linux: the configuration and \<open>Prepare\<close> of
  \<open>internal/sandbox/sandbox.go\<close>, the backend of \<open>linux.go\<close> and the arguments for bubblewrap of
  \<open>linux_bwrap.go\<close>. File system, environment and files of the kernel are a record of answers; the
  detection of the binary and its version, which the code caches, are in it too. Starting, killing
  and waiting for processes is left out. Shown: which directories are mounted writable, and that a
  sandbox that is required is never skipped.
\<close>

section \<open>Configuration\<close>

datatype sandbox_mode = ModeAuto | ModeOn | ModeOff

datatype sandbox_error =
    InvalidMode string | InvalidNetwork string | InvalidSeccomp string
  | MemoryTooSmall int | ProcessesTooFew int | FDsTooFew int
  | SandboxUnavailable | NoHome | ResolveFailed string | Overlap string
  | WholeFileSystem | DotDot string | ProjectOverlap string | OutsideRoots string | CreateFailed string
  | SeccompFailed

definition lowered :: "(string \<Rightarrow> string) \<Rightarrow> string \<Rightarrow> string" where
  "lowered ul raw = trim_space (to_lower ul raw)"

definition parseNetwork :: "(string \<Rightarrow> string) \<Rightarrow> string \<Rightarrow> sandbox_error + string" where
  "parseNetwork ul raw =
     (let s = lowered ul raw in
      if s = [] then Inr ''open'' else if s = ''isolated'' then Inr ''isolated'' else if s = ''open'' then Inr ''open''
      else Inl (InvalidNetwork raw))"

definition parseSeccomp :: "(string \<Rightarrow> string) \<Rightarrow> string \<Rightarrow> sandbox_error + string" where
  "parseSeccomp ul raw =
     (let s = lowered ul raw in
      if s = [] then Inr ''minimal'' else if s \<in> {''off'', ''minimal'', ''full''} then Inr s else Inl (InvalidSeccomp raw))"

definition parseMode :: "(string \<Rightarrow> string) \<Rightarrow> string \<Rightarrow> sandbox_error + sandbox_mode" where
  "parseMode ul raw =
     (let s = lowered ul raw in
      if s \<in> {[], ''auto''} then Inr ModeAuto
      else if s \<in> {''true'', ''on'', ''require''} then Inr ModeOn
      else if s \<in> {''false'', ''off'', ''disable''} then Inr ModeOff
      else Inl (InvalidMode raw))"

record resource_limits =
  MemoryMB :: int
  Processes :: int
  FDs :: int

definition DefaultMemoryMB :: int where "DefaultMemoryMB = 2048"
definition DefaultProcesses :: int where "DefaultProcesses = 256"
definition DefaultFDs :: int where "DefaultFDs = 256"
definition MinMemoryMB :: int where "MinMemoryMB = 64"
definition MinProcesses :: int where "MinProcesses = 1"
definition MinFDs :: int where "MinFDs = 16"

definition validateLimits :: "resource_limits \<Rightarrow> sandbox_error + resource_limits" where
  "validateLimits r =
     (if MemoryMB r \<noteq> 0 \<and> MemoryMB r < MinMemoryMB then Inl (MemoryTooSmall (MemoryMB r))
      else if Processes r \<noteq> 0 \<and> Processes r < MinProcesses then Inl (ProcessesTooFew (Processes r))
      else if FDs r \<noteq> 0 \<and> FDs r < MinFDs then Inl (FDsTooFew (FDs r))
      else Inr \<lparr>MemoryMB = (if MemoryMB r = 0 then DefaultMemoryMB else MemoryMB r),
                Processes = (if Processes r = 0 then DefaultProcesses else Processes r),
                FDs = (if FDs r = 0 then DefaultFDs else FDs r)\<rparr>)"

record sandbox_config =
  ProjectDir :: string
  WritableDirs :: "string list"
  Mode :: sandbox_mode
  ProjectWrite :: bool
  Network :: string
  Seccomp :: string
  Resources :: resource_limits

section \<open>The host\<close>

text \<open>\<open>h_bwrap\<close> is the path of the binary, empty when there is none, \<open>h_version\<close> what it prints about its
  version; the next three are the contents of files below \<open>/proc\<close>; \<open>h_filter\<close> says whether the file
  with the filter of the given profile could be made.\<close>

record host =
  h_eval :: "string \<Rightarrow> eval_result"
  h_cwd :: string
  h_home :: "string option"
  h_tmp :: string
  h_mkdir :: "string \<Rightarrow> bool"
  h_bwrap :: string
  h_version :: "string option"
  h_clone :: "string option"
  h_max_ns :: "string option"
  h_proc_version :: "string option"
  h_lower :: "string \<Rightarrow> string"
  h_var_tmp_dir :: bool
  h_filter :: "insn list \<Rightarrow> bool"

definition checkUserNamespacesEnabled :: "host \<Rightarrow> bool" where
  "checkUserNamespacesEnabled h \<longleftrightarrow>
     (\<forall>d \<in> set_option (h_clone h). trim_space d \<noteq> ''0'') \<and> (\<forall>d \<in> set_option (h_max_ns h). trim_space d \<noteq> ''0'')"

definition checkWSL1 :: "host \<Rightarrow> bool" where
  "checkWSL1 h \<longleftrightarrow>
     (case h_proc_version h of
        None \<Rightarrow> False
      | Some d \<Rightarrow> \<not> contains (to_lower (h_lower h) d) ''microsoft-standard'' \<and> contains d ''Microsoft'')"

definition available :: "host \<Rightarrow> bool" where
  "available h \<longleftrightarrow> h_bwrap h \<noteq> [] \<and> checkUserNamespacesEnabled h \<and> \<not> checkWSL1 h"

definition shouldUseNative :: "host \<Rightarrow> sandbox_mode \<Rightarrow> bool" where
  "shouldUseNative h mode \<longleftrightarrow> mode \<noteq> ModeOff \<and> available h"

text \<open>\<open>strconv.Atoi\<close> with its error ignored: no digits are zero, too many the largest integer.\<close>

definition atoi_lax :: "string \<Rightarrow> int" where
  "atoi_lax s = (case atoi s of Some v \<Rightarrow> v | None \<Rightarrow> if s \<noteq> [] \<and> list_all is_digit s then 2 ^ 63 - 1 else 0)"

definition version_parts :: "string \<Rightarrow> int list" where
  "version_parts s = map atoi_lax (split_on (CHR ''.'') (takeWhile (\<lambda>c. c = CHR ''.'' \<or> is_digit c) s))"

fun compare_parts :: "int list \<Rightarrow> int list \<Rightarrow> int" where
  "compare_parts [] [] = 0"
| "compare_parts [] (b # bs) = (if 0 < b then - 1 else if 0 > b then 1 else compare_parts [] bs)"
| "compare_parts (a # as) [] = (if a < 0 then - 1 else if a > 0 then 1 else compare_parts as [])"
| "compare_parts (a # as) (b # bs) = (if a < b then - 1 else if a > b then 1 else compare_parts as bs)"

definition compareSemver :: "string \<Rightarrow> string \<Rightarrow> int" where
  "compareSemver a b = compare_parts (version_parts a) (version_parts b)"

definition bwrapSupportsRlimit :: "host \<Rightarrow> bool" where
  "bwrapSupportsRlimit h \<longleftrightarrow>
     h_bwrap h \<noteq> [] \<and>
     (case h_version h of
        None \<Rightarrow> False
      | Some out \<Rightarrow>
          let v = trim_space out;
              v' = (if has_prefix v ''bubblewrap '' then drop (length ''bubblewrap '') v else v)
          in compareSemver v' ''0.12.0'' \<ge> 0)"

section \<open>Writable directories\<close>

definition tmpPaths :: "string list" where "tmpPaths = [''/tmp'', ''/var/tmp'']"

definition isTmpfsPath :: "string \<Rightarrow> bool" where
  "isTmpfsPath p \<longleftrightarrow> (\<exists>tp \<in> set tmpPaths. p = tp \<or> has_prefix p (tp @ [slash]))"

definition isSubpath :: "string \<Rightarrow> string \<Rightarrow> bool" where
  "isSubpath child parent \<longleftrightarrow> clean child = clean parent \<or> has_prefix (clean child) (clean parent @ [slash])"

definition isAncestor :: "string \<Rightarrow> string \<Rightarrow> bool" where
  "isAncestor ancestor path \<longleftrightarrow> clean ancestor \<noteq> clean path \<and> has_prefix (clean path) (clean ancestor @ [slash])"

definition validateWritableDir :: "string \<Rightarrow> string \<Rightarrow> string list \<Rightarrow> bool \<Rightarrow> sandbox_error option" where
  "validateWritableDir dir projectDir allowedRoots projectWrite =
     (if dir = [slash] then Some WholeFileSystem
      else if contains dir ''..'' then Some (DotDot dir)
      else if \<not> projectWrite \<and> (dir = projectDir \<or> isAncestor dir projectDir) then Some (ProjectOverlap dir)
      else if list_ex (isSubpath dir) allowedRoots then None
      else Some (OutsideRoots dir))"

text \<open>\<open>filepath.EvalSymlinks\<close> with its error ignored.\<close>

definition eval_or_same :: "host \<Rightarrow> string \<Rightarrow> string" where
  "eval_or_same h p = (case h_eval h p of Resolved r \<Rightarrow> r | _ \<Rightarrow> p)"

definition allowedRoots :: "host \<Rightarrow> string \<Rightarrow> string list" where
  "allowedRoots h projectDir =
     [eval_or_same h (make_abs (h_cwd h) (h_tmp h)), projectDir] @
     (case h_home h of None \<Rightarrow> [] | Some d \<Rightarrow> if d = [] then [] else [eval_or_same h d])"

fun resolve_dirs :: "host \<Rightarrow> string list \<Rightarrow> string \<Rightarrow> bool \<Rightarrow> string list \<Rightarrow> sandbox_error + string list" where
  "resolve_dirs h roots projectDir projectWrite [] = Inr []"
| "resolve_dirs h roots projectDir projectWrite (w # ws) =
     (if w = [] then resolve_dirs h roots projectDir projectWrite ws
      else
        let d = eval_or_same h (make_abs (h_cwd h) w) in
        case validateWritableDir d projectDir roots projectWrite of
          Some e \<Rightarrow> Inl e
        | None \<Rightarrow>
            if \<not> h_mkdir h d then Inl (CreateFailed d)
            else case resolve_dirs h roots projectDir projectWrite ws of Inl e \<Rightarrow> Inl e | Inr ds \<Rightarrow> Inr (d # ds))"

definition resolveAndValidateWritableDirs :: "host \<Rightarrow> string list \<Rightarrow> string \<Rightarrow> bool \<Rightarrow> sandbox_error + string list" where
  "resolveAndValidateWritableDirs h ws projectDir projectWrite =
     resolve_dirs h (allowedRoots h projectDir) projectDir projectWrite ws"

section \<open>The arguments for bubblewrap\<close>

definition maxWritableDirs :: nat where "maxWritableDirs = 64"

definition tmpfsSizeBytes :: nat where "tmpfsSizeBytes = 512 * 1024 * 1024"

text \<open>The directories that are mounted, each once and up to the cap.\<close>

fun bound_dirs :: "string list \<Rightarrow> string list \<Rightarrow> string list" where
  "bound_dirs seen [] = []"
| "bound_dirs seen (d # ds) =
     (if isTmpfsPath d \<or> d \<in> set seen then bound_dirs seen ds
      else d # (if Suc (length seen) \<ge> maxWritableDirs then [] else bound_dirs (d # seen) ds))"

definition appendVarTmpArgs :: "host \<Rightarrow> string list" where
  "appendVarTmpArgs h = (if h_var_tmp_dir h then [''--tmpfs'', ''/var/tmp''] else [''--symlink'', ''/tmp'', ''/var/tmp''])"

definition rlimit_args :: "resource_limits \<Rightarrow> string list" where
  "rlimit_args r =
     (if MemoryMB r > 0 then [''--rlimit'', ''RLIMIT_AS'', dec_int (i64 (MemoryMB r * 1024 * 1024))] else []) @
     (if Processes r > 0 then [''--rlimit'', ''RLIMIT_NPROC'', dec_int (Processes r)] else []) @
     (if FDs r > 0 then [''--rlimit'', ''RLIMIT_NOFILE'', dec_int (FDs r)] else [])"

definition fixed_args :: "host \<Rightarrow> sandbox_config \<Rightarrow> nat \<Rightarrow> bool \<Rightarrow> string list" where
  "fixed_args h cfg seccompFD supportsRlimit =
     [''--new-session'', ''--die-with-parent'', ''--unshare-user'', ''--unshare-pid'', ''--ro-bind'', ''/'', ''/'',
      ''--dev'', ''/dev'', ''--proc'', ''/proc'', ''--size'', dec_nat tmpfsSizeBytes, ''--tmpfs'', ''/tmp''] @
     appendVarTmpArgs h @
     (if (if Network cfg = [] then ''open'' else Network cfg) \<noteq> ''open'' then [''--unshare-net''] else []) @
     (if supportsRlimit then rlimit_args (Resources cfg) else []) @
     (if seccompFD > 0 then [''--seccomp'', dec_nat seccompFD] else [])"

definition bind_args :: "string list \<Rightarrow> string list" where
  "bind_args ds = concat (map (\<lambda>d. [''--bind'', d, d]) ds)"

definition buildBwrapArgs :: "host \<Rightarrow> sandbox_config \<Rightarrow> string \<Rightarrow> string list \<Rightarrow> string \<Rightarrow> string list \<Rightarrow> nat \<Rightarrow> bool \<Rightarrow> string list" where
  "buildBwrapArgs h cfg projectDir resolvedDirs binary args seccompFD supportsRlimit =
     fixed_args h cfg seccompFD supportsRlimit @ bind_args (bound_dirs [] resolvedDirs) @
     [''--chdir'', projectDir] @ [''--'', binary] @ args"

section \<open>Preparing a command\<close>

record command =
  c_path :: string
  c_args :: "string list"
  c_extra :: nat

datatype preparation = Unconfined | Confined "string list" | Refused sandbox_error

definition prepare_linux :: "host \<Rightarrow> command \<Rightarrow> sandbox_config \<Rightarrow> preparation" where
  "prepare_linux h cmd cfg =
     (case h_eval h (make_abs (h_cwd h) (ProjectDir cfg)) of
        Resolved projectDir \<Rightarrow>
          (case resolveAndValidateWritableDirs h (WritableDirs cfg) projectDir (ProjectWrite cfg) of
             Inl e \<Rightarrow> Refused e
           | Inr dirs \<Rightarrow>
               let filtering = Seccomp cfg \<noteq> ''off'';
                   profile = (if Seccomp cfg = ''full'' then profileFull else profileMinimal);
                   wrapped = \<lambda>fd. Confined (h_bwrap h # buildBwrapArgs h cfg projectDir dirs (c_path cmd) (tl (c_args cmd)) fd
                                             (bwrapSupportsRlimit h))
               in if \<not> filtering then wrapped 0
                  else (case compileSeccompBPF profile of
                          Inl e \<Rightarrow> Refused SeccompFailed
                        | Inr insns \<Rightarrow>
                            if \<not> h_filter h insns then Refused SeccompFailed
                            else if insns = [] then wrapped 0
                            else wrapped (3 + c_extra cmd)))
      | _ \<Rightarrow> Refused (ResolveFailed (ProjectDir cfg)))"

definition prepare :: "host \<Rightarrow> command \<Rightarrow> sandbox_config \<Rightarrow> preparation" where
  "prepare h cmd cfg =
     (if Mode cfg = ModeOff then Unconfined
      else
        let c1 = cfg\<lparr>Network := (if Network cfg = [] then ''open'' else Network cfg),
                     Seccomp := (if Seccomp cfg = [] then ''minimal'' else Seccomp cfg),
                     WritableDirs := (if ProjectWrite cfg \<and> ProjectDir cfg \<noteq> [] then [ProjectDir cfg] else []) @ WritableDirs cfg\<rparr>
        in case validateLimits (Resources c1) of
             Inl e \<Rightarrow> Refused e
           | Inr r \<Rightarrow>
               if \<not> available h then (if Mode cfg = ModeOn then Refused SandboxUnavailable else Unconfined)
               else prepare_linux h cmd (c1\<lparr>Resources := r\<rparr>))"

definition overlaps :: "host \<Rightarrow> string \<Rightarrow> string \<Rightarrow> bool" where
  "overlaps h a b \<longleftrightarrow> pathWithinRoot (h_eval h) (h_cwd h) a b \<or> pathWithinRoot (h_eval h) (h_cwd h) b a"

fun check_dirs :: "host \<Rightarrow> string \<Rightarrow> string list \<Rightarrow> sandbox_error option" where
  "check_dirs h resolvedProject [] = None"
| "check_dirs h resolvedProject (w # ws) =
     (case resolveSymlinks (h_eval h) (make_abs (h_cwd h) w) of
        Inl _ \<Rightarrow> Some (ResolveFailed w)
      | Inr r \<Rightarrow> if overlaps h r resolvedProject then Some (Overlap w) else check_dirs h resolvedProject ws)"

definition buildConfig :: "host \<Rightarrow> string \<Rightarrow> string \<Rightarrow> string \<Rightarrow> sandbox_error + sandbox_config" where
  "buildConfig h projectDir providerHome rawMode =
     (case parseMode (h_lower h) rawMode of
        Inl e \<Rightarrow> Inl e
      | Inr mode \<Rightarrow>
          (case h_home h of
             None \<Rightarrow> Inl NoHome
           | Some home \<Rightarrow>
               let dirs = [h_tmp h, join_paths [home, providerHome]] in
               case resolveSymlinks (h_eval h) projectDir of
                 Inl _ \<Rightarrow> Inl (ResolveFailed projectDir)
               | Inr resolvedProject \<Rightarrow>
                   (case check_dirs h resolvedProject dirs of
                      Some e \<Rightarrow> Inl e
                    | None \<Rightarrow> Inr \<lparr>ProjectDir = projectDir, WritableDirs = dirs, Mode = mode, ProjectWrite = False,
                        Network = [], Seccomp = [], Resources = \<lparr>MemoryMB = 0, Processes = 0, FDs = 0\<rparr>\<rparr>)))"

section \<open>What is mounted writable\<close>

text \<open>The documented behaviour of the file system: resolved paths are absolute and clean.\<close>

definition sane_host :: "host \<Rightarrow> bool" where
  "sane_host h \<longleftrightarrow> is_abs (h_cwd h) \<and> (\<forall>p r. is_abs p \<longrightarrow> h_eval h p = Resolved r \<longrightarrow> is_abs r \<and> clean_path r) \<and>
     (\<forall>d. h_home h = Some d \<longrightarrow> d \<noteq> [] \<longrightarrow> is_abs d)"

lemma make_abs_clean: "is_abs cwd \<Longrightarrow> is_abs (make_abs cwd p) \<and> clean_path (make_abs cwd p)"
  unfolding make_abs_def using join_paths_abs [of cwd p] by (auto intro: clean_path_clean is_abs_clean is_abs_append)

lemma eval_or_same_clean:
  assumes "sane_host h" "is_abs p" "clean_path p"
  shows "is_abs (eval_or_same h p) \<and> clean_path (eval_or_same h p)"
  using assms by (auto simp: eval_or_same_def sane_host_def split: eval_result.split)

lemma clean_path_slash: "clean_path d \<Longrightarrow> d \<noteq> [slash] \<Longrightarrow> elems d \<noteq> []"
  by (auto simp: clean_path_def abs_path_def)

lemma clean_clean_path: "is_abs p \<Longrightarrow> clean_path p \<Longrightarrow> clean p = p"
  by (simp add: clean_abs clean_path_def)

lemma isSubpath_prefix:
  assumes "is_abs d" "is_abs r" "isSubpath d r"
  shows "prefix (elems r) (elems d)"
proof (cases "elems r = []")
  case False
  then show ?thesis
    using prefix_abs_path [OF elems_plain elems_plain False, of d] assms by (simp add: isSubpath_def clean_abs)
qed simp

lemma not_above:
  assumes "is_abs d" "clean_path d" "d \<noteq> [slash]" "is_abs p" "clean_path p" "d \<noteq> p" "\<not> isAncestor d p"
  shows "\<not> prefix (elems d) (elems p)"
proof -
  have "abs_path (elems d) = d" "abs_path (elems p) = p" using assms(2,5) by (simp_all add: clean_path_def)
  then show ?thesis
    using prefix_abs_path [OF elems_plain elems_plain clean_path_slash [OF assms(2,3)], of p] assms
    by (simp add: isAncestor_def clean_clean_path)
qed

definition confined_dir :: "host \<Rightarrow> string \<Rightarrow> bool \<Rightarrow> string \<Rightarrow> bool" where
  "confined_dir h projectDir projectWrite d \<longleftrightarrow>
     d \<noteq> [slash] \<and>
     (prefix (elems projectDir) (elems d) \<or>
      prefix (elems (eval_or_same h (make_abs (h_cwd h) (h_tmp h)))) (elems d) \<or>
      (\<exists>home. h_home h = Some home \<and> home \<noteq> [] \<and> prefix (elems (eval_or_same h home)) (elems d))) \<and>
     (projectWrite \<or> \<not> prefix (elems d) (elems projectDir))"

lemma roots_abs:
  assumes "sane_host h" "is_abs projectDir"
  shows "\<forall>r \<in> set (allowedRoots h projectDir). is_abs r"
proof -
  have "is_abs (eval_or_same h (make_abs (h_cwd h) (h_tmp h)))"
    using eval_or_same_clean [OF assms(1)] make_abs_clean assms(1) by (simp add: sane_host_def)
  moreover have "is_abs (eval_or_same h d)" if "h_home h = Some d" "d \<noteq> []" for d
    using assms(1) that by (auto simp: eval_or_same_def sane_host_def split: eval_result.split)
  ultimately show ?thesis using assms(2) by (auto simp: allowedRoots_def split: option.splits)
qed

lemma resolved_dirs_confined:
  assumes "sane_host h" "is_abs projectDir" "clean_path projectDir"
    and "resolve_dirs h (allowedRoots h projectDir) projectDir pw ws = Inr ds" "d \<in> set ds"
  shows "confined_dir h projectDir pw d"
  using assms(4,5)
proof (induction ws arbitrary: ds)
  case (Cons w ws)
  let ?d = "eval_or_same h (make_abs (h_cwd h) w)"
  have d: "is_abs ?d" "clean_path ?d"
    using eval_or_same_clean [OF assms(1)] make_abs_clean assms(1) by (simp_all add: sane_host_def)
  show ?case
  proof (cases "w \<noteq> [] \<and> d = ?d")
    case True
    then have v: "validateWritableDir ?d projectDir (allowedRoots h projectDir) pw = None"
      using Cons.prems by (auto simp: Let_def split: option.splits)
    then obtain r where "r \<in> set (allowedRoots h projectDir)" "isSubpath ?d r"
      by (auto simp: validateWritableDir_def list_ex_iff split: if_splits)
    moreover have "?d \<noteq> [slash]" using v by (auto simp: validateWritableDir_def)
    moreover have "pw \<or> \<not> prefix (elems ?d) (elems projectDir)"
      using v not_above [OF d _ assms(2,3)] by (auto simp: validateWritableDir_def split: if_splits)
    moreover have "prefix (elems r) (elems ?d)"
      using calculation(1,2) isSubpath_prefix [OF d(1)] roots_abs [OF assms(1,2)] by blast
    ultimately show ?thesis
      using True by (cases "h_home h") (auto simp: confined_dir_def allowedRoots_def split: if_splits)
  next
    case False
    then show ?thesis using Cons by (auto simp: Let_def split: if_splits option.splits sum.splits)
  qed
qed simp

text \<open>What is mounted for a configured directory: its location when it exists, and its path as written when it cannot be
  resolved.\<close>

definition mounted_for :: "host \<Rightarrow> string \<Rightarrow> string \<Rightarrow> bool" where
  "mounted_for h w d \<longleftrightarrow>
     (case h_eval h (make_abs (h_cwd h) w) of Resolved r \<Rightarrow> d = r | _ \<Rightarrow> d = make_abs (h_cwd h) w)"

definition configured :: "sandbox_config \<Rightarrow> string list" where
  "configured cfg = (if ProjectWrite cfg then [ProjectDir cfg] else []) @ WritableDirs cfg"

lemma resolved_dirs_origin:
  "resolve_dirs h roots projectDir pw ws = Inr ds \<Longrightarrow> d \<in> set ds \<Longrightarrow> \<exists>w \<in> set ws. mounted_for h w d"
proof (induction ws arbitrary: ds)
  case (Cons w ws)
  have "mounted_for h w (eval_or_same h (make_abs (h_cwd h) w))"
    by (simp add: mounted_for_def eval_or_same_def split: eval_result.split)
  with Cons show ?case by (auto simp: Let_def split: if_splits option.splits sum.splits)
qed simp

lemma bound_dirs_facts:
  "length seen < 64 \<Longrightarrow> length seen + length (bound_dirs seen ds) \<le> 64 \<and> distinct (bound_dirs seen ds) \<and>
   set (bound_dirs seen ds) \<inter> set seen = {} \<and> set (bound_dirs seen ds) \<subseteq> {d \<in> set ds. \<not> isTmpfsPath d}"
proof (induction seen ds rule: bound_dirs.induct)
  case (2 seen d ds)
  then show ?case by (auto simp: maxWritableDirs_def not_le)
qed simp

section \<open>The fixed arguments\<close>

lemma dec_nat_no_dash: "CHR ''-'' \<notin> set (dec_nat n)"
  using dec_nat_digits [of n] by (auto simp: list_all_iff is_digit_def)

lemma dec_not_bind: "dec_nat n \<noteq> ''--bind''" "dec_int i \<noteq> ''--bind''"
proof -
  show n: "dec_nat n \<noteq> ''--bind''" for n using dec_nat_no_dash [of n] by auto
  show "dec_int i \<noteq> ''--bind''" using dec_nat_no_dash by (auto simp: dec_int_def) (metis list.set_intros(1))+
qed

lemma fixed_no_bind: "''--bind'' \<notin> set (fixed_args h cfg fd rl)"
  using dec_not_bind [symmetric] by (auto simp: fixed_args_def rlimit_args_def appendVarTmpArgs_def)

lemma fixed_read_only: "sublist [''--ro-bind'', ''/'', ''/''] (fixed_args h cfg fd rl)"
  unfolding sublist_def
  by (intro exI [of _ "take 4 (fixed_args h cfg fd rl)"] exI [of _ "drop 7 (fixed_args h cfg fd rl)"]) (simp add: fixed_args_def)

text \<open>C6: When a command is confined, the root is mounted read-only, and each directory mounted writable, at most 64 and
  each once, is the resolved location of a configured directory that exists, or the path of one that
  does not, and that path lies at or below the temporary directory, the home directory or the project.
  It is not covered by the private temporary directories, and if the project is not to be written it is
  neither the project nor above it. (The path of a missing directory is not resolved: see
  \<open>missing_dir_escapes_roots\<close> below.)\<close>
theorem writable_mounts_confined:
  assumes "sane_host h" "prepare h cmd cfg = Confined argv"
  shows "\<exists>projectDir dirs fixed. h_eval h (make_abs (h_cwd h) (ProjectDir cfg)) = Resolved projectDir \<and>
    argv = h_bwrap h # fixed @ bind_args dirs @ [''--chdir'', projectDir, ''--'', c_path cmd] @ tl (c_args cmd) \<and>
    sublist [''--ro-bind'', ''/'', ''/''] fixed \<and> ''--bind'' \<notin> set fixed \<and> length dirs \<le> 64 \<and> distinct dirs \<and>
    list_all (\<lambda>d. \<not> isTmpfsPath d \<and> confined_dir h projectDir (ProjectWrite cfg) d \<and>
      (\<exists>w \<in> set (configured cfg). mounted_for h w d)) dirs"
proof -
  obtain c where c: "prepare_linux h cmd c = Confined argv" "ProjectDir c = ProjectDir cfg" "ProjectWrite c = ProjectWrite cfg"
      "set (WritableDirs c) \<subseteq> set (configured cfg)"
    using assms(2) by (auto simp: prepare_def configured_def Let_def split: if_splits sum.splits)
  then obtain projectDir dirs fd where p: "h_eval h (make_abs (h_cwd h) (ProjectDir cfg)) = Resolved projectDir"
    "resolveAndValidateWritableDirs h (WritableDirs c) projectDir (ProjectWrite cfg) = Inr dirs"
    "argv = h_bwrap h # buildBwrapArgs h c projectDir dirs (c_path cmd) (tl (c_args cmd)) fd (bwrapSupportsRlimit h)"
    by (auto simp: prepare_linux_def Let_def split: eval_result.splits sum.splits if_splits)
  let ?fixed = "fixed_args h c fd (bwrapSupportsRlimit h)" and ?dirs = "bound_dirs [] dirs"
  have abs: "is_abs projectDir" "clean_path projectDir"
    using assms(1) p(1) make_abs_clean by (auto simp: sane_host_def)
  have "argv = h_bwrap h # ?fixed @ bind_args ?dirs @ [''--chdir'', projectDir, ''--'', c_path cmd] @ tl (c_args cmd)"
    using p(3) by (simp add: buildBwrapArgs_def)
  moreover have "sublist [''--ro-bind'', ''/'', ''/''] ?fixed"
    by (rule fixed_read_only)
  moreover have "list_all (\<lambda>d. \<not> isTmpfsPath d \<and> confined_dir h projectDir (ProjectWrite cfg) d \<and>
      (\<exists>w \<in> set (configured cfg). mounted_for h w d)) ?dirs"
    unfolding list_all_iff
  proof
    fix d assume "d \<in> set ?dirs"
    then have d: "d \<in> set dirs" "\<not> isTmpfsPath d" using bound_dirs_facts [of "[]" dirs] by auto
    from p(2) have "resolve_dirs h (allowedRoots h projectDir) projectDir (ProjectWrite cfg) (WritableDirs c) = Inr dirs"
      by (simp add: resolveAndValidateWritableDirs_def)
    from resolved_dirs_confined [OF assms(1) abs this d(1)] resolved_dirs_origin [OF this d(1)] d(2) c(4)
    show "\<not> isTmpfsPath d \<and> confined_dir h projectDir (ProjectWrite cfg) d \<and> (\<exists>w \<in> set (configured cfg). mounted_for h w d)"
      by blast
  qed
  ultimately show ?thesis using p(1) fixed_no_bind bound_dirs_facts [of "[]" dirs] by fastforce
qed

text \<open>C34: A provider that may use its unrestricted flags is never started unconfined, and neither is a command whose
  sandbox is required: it is confined or refused.\<close>
theorem required_sandbox_not_skipped:
  assumes "shouldUseNative h (Mode cfg) \<or> Mode cfg = ModeOn"
  shows "prepare h cmd cfg \<noteq> Unconfined"
proof -
  have "prepare_linux h cmd c \<noteq> Unconfined" for c
    by (auto simp: prepare_linux_def Let_def split: eval_result.split sum.split)
  then show ?thesis using assms by (auto simp: prepare_def shouldUseNative_def Let_def split: sum.split)
qed

section \<open>Instances\<close>

definition sample_eval :: "string \<Rightarrow> eval_result" where
  "sample_eval p =
     (if p \<in> {''/'', ''/tmp'', ''/home/u'', ''/home/u/app'', ''/home/u/.claude''} then Resolved p
      else if p = ''/home/u/link'' then Resolved ''/etc'' else NotExist)"

definition sample_host :: host where
  "sample_host =
     \<lparr>h_eval = sample_eval, h_cwd = ''/'', h_home = Some ''/home/u'', h_tmp = ''/tmp'', h_mkdir = (\<lambda>_. True),
      h_bwrap = ''/usr/bin/bwrap'', h_version = Some ''bubblewrap 0.9.0'', h_clone = None, h_max_ns = None,
      h_proc_version = None, h_lower = (\<lambda>s. s), h_var_tmp_dir = False, h_filter = (\<lambda>_. True)\<rparr>"

definition sample_config :: sandbox_config where
  "sample_config =
     \<lparr>ProjectDir = ''/home/u/app'', WritableDirs = [''/tmp'', ''/home/u/.claude''], Mode = ModeAuto, ProjectWrite = False,
      Network = [], Seccomp = ''off'', Resources = \<lparr>MemoryMB = 0, Processes = 0, FDs = 0\<rparr>\<rparr>"

definition sample_command :: command where
  "sample_command = \<lparr>c_path = ''/bin/claude'', c_args = [''claude''], c_extra = 0\<rparr>"

lemma sample_host_sane: "sane_host sample_host"
proof -
  have "is_abs ''/''" "is_abs ''/home/u''" "is_abs ''/etc''" "clean_path ''/''" "clean_path ''/tmp''" "clean_path ''/home/u''"
    "clean_path ''/home/u/app''" "clean_path ''/home/u/.claude''" "clean_path ''/etc''" by code_simp+
  then show ?thesis by (auto simp: sane_host_def sample_host_def sample_eval_def split: if_splits)
qed

lemma sample_available: "available sample_host"
  by code_simp

lemma sample_confined: "\<exists>argv. prepare sample_host sample_command sample_config = Confined argv"
proof -
  have "h_eval sample_host (make_abs (h_cwd sample_host) ''/home/u/app'') = Resolved ''/home/u/app''"
    "resolveAndValidateWritableDirs sample_host [''/tmp'', ''/home/u/.claude''] ''/home/u/app'' False = Inr [''/tmp'', ''/home/u/.claude'']"
    by code_simp+
  then show ?thesis using sample_available
    by (simp add: prepare_def prepare_linux_def sample_config_def validateLimits_def Let_def)
qed

lemma sample_mounted:
  assumes "w \<in> set (configured sample_config)" "mounted_for sample_host w d"
  shows "d = ''/tmp'' \<or> d = ''/home/u/.claude''"
proof -
  have "h_eval sample_host (make_abs (h_cwd sample_host) ''/tmp'') = Resolved ''/tmp''"
    "h_eval sample_host (make_abs (h_cwd sample_host) ''/home/u/.claude'') = Resolved ''/home/u/.claude''" by code_simp+
  moreover have "w = ''/tmp'' \<or> w = ''/home/u/.claude''"
    using assms(1) by (auto simp: configured_def sample_config_def)
  ultimately show ?thesis using assms(2) by (auto simp: mounted_for_def)
qed

theorem writable_mounts_confined_witness:
  "\<exists>argv fixed dirs. prepare sample_host sample_command sample_config = Confined argv \<and>
     argv = h_bwrap sample_host # fixed @ bind_args dirs @ [''--chdir'', ''/home/u/app'', ''--'', ''/bin/claude''] \<and>
     list_all (\<lambda>d. confined_dir sample_host ''/home/u/app'' False d \<and> (d = ''/tmp'' \<or> d = ''/home/u/.claude'')) dirs"
proof -
  obtain argv where a: "prepare sample_host sample_command sample_config = Confined argv" using sample_confined by blast
  have e: "h_eval sample_host (make_abs (h_cwd sample_host) (ProjectDir sample_config)) = Resolved ''/home/u/app''" by code_simp
  have sel: "c_path sample_command = ''/bin/claude''" "tl (c_args sample_command) = []" "\<not> ProjectWrite sample_config"
    by (simp_all add: sample_command_def sample_config_def)
  obtain p dirs fixed where p: "h_eval sample_host (make_abs (h_cwd sample_host) (ProjectDir sample_config)) = Resolved p"
    "argv = h_bwrap sample_host # fixed @ bind_args dirs @ [''--chdir'', p, ''--'', c_path sample_command] @ tl (c_args sample_command)"
    "list_all (\<lambda>d. \<not> isTmpfsPath d \<and> confined_dir sample_host p (ProjectWrite sample_config) d \<and>
      (\<exists>w \<in> set (configured sample_config). mounted_for sample_host w d)) dirs"
    using writable_mounts_confined [OF sample_host_sane a] by blast
  have here: "p = ''/home/u/app''" using e p(1) by simp
  have "argv = h_bwrap sample_host # fixed @ bind_args dirs @ [''--chdir'', ''/home/u/app'', ''--'', ''/bin/claude'']"
    using p(2) unfolding here sel(1,2) append_Nil2 .
  moreover have "list_all (\<lambda>d. confined_dir sample_host ''/home/u/app'' False d \<and> (d = ''/tmp'' \<or> d = ''/home/u/.claude'')) dirs"
    unfolding list_all_iff
  proof
    fix d assume "d \<in> set dirs"
    with p(3) obtain w where w: "confined_dir sample_host p (ProjectWrite sample_config) d" "w \<in> set (configured sample_config)"
      "mounted_for sample_host w d" unfolding list_all_iff by blast
    have unwritten: "ProjectWrite sample_config = False" using sel(3) by simp
    from w(1) have "confined_dir sample_host ''/home/u/app'' False d" unfolding here unwritten .
    then show "confined_dir sample_host ''/home/u/app'' False d \<and> (d = ''/tmp'' \<or> d = ''/home/u/.claude'')"
      using sample_mounted [OF w(2,3)] by (rule conjI)
  qed
  ultimately have "prepare sample_host sample_command sample_config = Confined argv \<and>
     argv = h_bwrap sample_host # fixed @ bind_args dirs @ [''--chdir'', ''/home/u/app'', ''--'', ''/bin/claude''] \<and>
     list_all (\<lambda>d. confined_dir sample_host ''/home/u/app'' False d \<and> (d = ''/tmp'' \<or> d = ''/home/u/.claude'')) dirs"
    using a by (intro conjI)
  then show ?thesis by (intro exI)
qed

theorem required_sandbox_not_skipped_witness: "prepare sample_host sample_command (sample_config\<lparr>Mode := ModeOn\<rparr>) \<noteq> Unconfined"
  using required_sandbox_not_skipped [of sample_host "sample_config\<lparr>Mode := ModeOn\<rparr>" sample_command] by simp

text \<open>A directory that does not exist yet is not resolved: below a link it passes the check of the
  roots by its text, and what is created and mounted writable lies elsewhere.\<close>

theorem missing_dir_escapes_roots:
  "resolveAndValidateWritableDirs sample_host [''/home/u/link/new''] ''/home/u/app'' False = Inr [''/home/u/link/new''] \<and>
   resolveSymlinks (h_eval sample_host) ''/home/u/link/new'' = Inr ''/etc/new''"
  by code_simp

end
