(* ===== verification/Spec2Isabelle.thy ===== *)
theory Spec2Isabelle
  imports JobQueue ScheduleRuns Chunker History AtomicFile Lifecycle Systemd JobApiRuns RunGuard Launchd AcpPermission PipelineRun SessionPool Transcripts Sandbox
begin

text \<open>
  A model of dreamer, a Go program that reads chat transcripts of coding assistants, lets a
  language model derive findings about the projects, keeps them in per-project state files, shows
  them in a local web interface that can apply them to project files, and runs prompts as
  background jobs on a schedule. The development follows the packages under \<open>src/\<close> that hold
  this logic; each theory opens with the files it models and what it leaves to parameters.

  \<^bold>\<open>Foundations.\<close> \<open>Prelude\<close> has the named collections and generic lemmas. \<open>GoNum\<close> is Go's
  arithmetic: integers with 64-bit wrap-around written out, truncating division and the
  correctly rounded floating-point operations the code uses. \<open>GoText\<close> is strings as bytes,
  UTF-8 decoding, and the \<open>strings\<close> and \<open>strconv\<close> functions; \<open>GoTime\<close> is durations and their
  parser, \<open>Calendar\<close> civil dates and \<open>time.Date\<close> over a zone given as a function. They model the
  language and its standard library.

  \<^bold>\<open>Analysis queue.\<close> \<open>JobQueue\<close> models \<open>internal/jobqueue\<close>: jobs in a pointer store that the queue,
  its snapshots and its file share, every operation under the lock being one step of a transition
  system. Its lemmas show the invariant by rule induction over runs, that terminal jobs never
  change, first-in first-out dispatch, and recovery from the file after a crash.

  \<^bold>\<open>Transcripts.\<close> \<open>Chunker\<close> models \<open>internal/pipeline/chunker.go\<close> and \<open>lookback.go\<close>: packing and hard
  splitting conserve the transcript within the size limits, and the look-back window selects by
  time.

  \<^bold>\<open>Project state.\<close> \<open>Migrate\<close> models \<open>internal/migrate\<close>, \<open>StateStore\<close> the document of
  \<open>internal/state\<close> with its merge, \<open>History\<close> the daily usage counters. The locale
  \<open>migration_chain\<close> states what a registry must satisfy for its documents to end at the current
  version and \<open>persisted\<close> that a load after a save gives the normal form; both are interpreted on
  every versioned file of the program (project state, usage history, background jobs).

  \<^bold>\<open>Files and applying findings.\<close> \<open>FsPath\<close> is path containment under symbolic links, \<open>AtomicFile\<close>
  the replacement of a file as a sequence of system calls over inodes and directory entries, with every
  failure point and what a loss of power leaves of each. \<open>Apply\<close> is
  the engine of \<open>internal/web/apply\<close>, \<open>Lifecycle\<close> the endpoints of \<open>handlers/lifecycle.go\<close> that
  move a finding between its states over the stored document, the project files and the merge
  of a running analysis: a refinement of an abstract lifecycle, with the invariant that an applied
  finding can be undone.

  \<^bold>\<open>Background jobs.\<close> \<open>Schedule\<close> models \<open>internal/backgroundjobs/schedule.go\<close>, \<open>ScheduleRuns\<close> has its
  properties (the next run is the least one, it exists for validated schedules). \<open>BgJobs\<close> is the
  job store, \<open>RunHistory\<close> the run records as bytes of a JSONL file, \<open>JobPerms\<close> the check of
  writable paths. \<open>Reconcile\<close> is the reconciler and the health check over the interface
  \<open>Scheduler\<close>: the locale \<open>scheduler_contract\<close> states what a scheduler promises and
  \<open>live_scheduler\<close> adds that its operations succeed; \<open>Systemd\<close> models the Linux scheduler and
  interprets both on it. \<open>Launchd\<close> models the macOS scheduler and interprets the first, over
  \<open>Plist\<close>, the writer and the reader of its property lists, which are inverse to each other: what
  was installed is what an inspection reports. \<open>JobRunner\<close> is the executor that ties them together: one call of
  \<open>Run\<close>, from loading the job to the record in the history.

  \<^bold>\<open>Requests for background jobs.\<close> \<open>JobApi\<close> models create, edit, preview, delete, pause and resume
  of \<open>internal/web/handlers/jobs.go\<close>; \<open>JobApiRuns\<close> runs them together with the executor and the
  reconciler: stored jobs stay valid and below the limit, a preview says what create will do, a
  failed removal is not tried again. \<open>RunGuard\<close> is the flag that keeps a job from running twice,
  its interleavings at the granularity of shared-memory accesses.

  \<^bold>\<open>Permissions of agents.\<close> \<open>IpFilter\<close> is the table of restricted addresses, \<open>ShellIdioms\<close> and
  \<open>PathScope\<close> what a shell command and a path touch, \<open>Permission\<close> the decision on one request
  (\<open>internal/analyzer/permission.go\<close>) and \<open>AcpPermission\<close> the conversation with an agent, from the
  decoded request to the option selected (\<open>providers/acpcore\<close>). What is approved lies in the
  working directory, has no writing program at its start or after a separator, and goes to no restricted
  address.

  \<^bold>\<open>Analysis.\<close> \<open>LineScan\<close> is \<open>bufio.Scanner\<close> over lines. \<open>Findings\<close> models the recorder that child
  processes write findings with and the reader of its file, \<open>FindingBuild\<close> the parsers of
  answers, the identity of findings and their validation, \<open>Orchestrator\<close> the two phases over the
  answers of a provider, sequential and parallel, and \<open>SessionPool\<close> the pool their calls take sessions
  from, as a step relation over the sections under its lock. \<open>RunCache\<close> is the decision that
  nothing changed and the cache between the phases, \<open>PipelineRun\<close> one run of
  \<open>internal/pipeline/pipeline.go\<close> over the stored state: a finding of a completed run is not found
  again, a run that failed is repeated, one that completed is not, and mistakes found before a failure
  are replayed under their labels.

  \<^bold>\<open>Transcripts and reports.\<close> \<open>Transcripts\<close> models the redactor and the construction of the blocks
  that \<open>Chunker\<close> packs, \<open>ProjectNames\<close> the names of projects below the output root, and \<open>Todos\<close> the
  writer of the todos file, \<open>internal/output/generator.go\<close>: over any sequence of runs a hash is reported
  once and can be read back from the file.

  \<^bold>\<open>Sandbox.\<close> \<open>Sandbox\<close> models the configuration, the checks and the arguments for bubblewrap of
  \<open>internal/sandbox\<close> on Linux: what is mounted writable, and that a required sandbox is never skipped.
  \<open>Seccomp\<close> is the compiler of system-call filters, whose programs kill exactly the calls of their
  profile on any machine that runs filters as documented.

  \<^bold>\<open>Chat stores.\<close> \<open>ProtoReader\<close> models \<open>internal/chat/readers/protobuf.go\<close>, which looks for text in
  protobuf files without their schema: the walk ends for every file and stays below its caps, and
  it inverts the encoding; a declared length can make it panic.

  \<^bold>\<open>State and operations.\<close> A Go struct is a record, an enumeration a datatype with a constructor for
  other strings where the code can meet them, a map an association list with distinct keys (or a
  function where order cannot be seen), an error a value of a sum or option. Times are nanoseconds
  since 1970. Operations that change state return the new state; what the world answers (clock,
  random identifiers, file system, process manager, provider session, which write fails) is an
  argument. A mutex or file lock is the atomicity of a step. JSON text is read and
  written by \<open>encoding/json\<close>: documents are modelled as decoded objects, their strings taken to be valid
  UTF-8, and for the run history the codec of one record is a parameter. The one string of a
  document that holds the bytes of any file, the pre-image of an applied finding, goes through
  \<open>stored_reversal\<close> of \<open>Apply\<close>, which replaces undecodable bytes as the encoder does.

  \<^bold>\<open>Fuel.\<close> Two loops are given fuel. The search for the next cron run counts the 366 days it looks
  ahead, one unit per day, and the steps of one cron field are bounded by \<open>cron_step_fuel\<close>; lemmas
  of \<open>ScheduleRuns\<close> show that the loops end before. The walks to the deepest existing ancestor use
  \<open>walk_fuel\<close>, the length of the path plus two, which \<open>resolveSymlinks_deepest\<close> and
  \<open>walk_result\<close> prove to be enough, since every step drops an element. The walk over protobuf fields
  needs none: the levels left and the bytes left are its measure. The loop for the next weekly run
  of a LaunchAgent need not end and is a partial function; \<open>inspect_hangs_exactly\<close> says when.

  \<^bold>\<open>Not modelled.\<close> The command line and terminal wizards (\<open>cmd/\<close>), server, templates, read-only pages
  and views of the web interface, provider clients (processes and network), the other readers of
  chat stores and their discovery, prompt texts, the copy of the todos into the project root, the
  detection of toolchains, the configuration overlay, the Windows scheduler, the sandboxes of macOS and Windows,
  and logging: they are input and output around the logic above, or calls into other programs. Goroutines
  are modelled where they share state under locks (queue, run guard, session pool, lifecycle
  requests); the loops of the daemon that start them are not.
\<close>

end
